(* ===== verification/Prelude.thy ===== *)
theory Prelude
  imports Main "HOL-Library.Word" "HOL-Library.AList"
begin

text \<open>
  The prelude of the development: the machine integers and byte strings of the Go code, the
  error values that its functions return, big-endian encodings as written by
  \<open>encoding/binary\<close>, the readers of \<open>io\<close>, and Go maps as association lists.
  The lemmas collected here are generic; they are shared by every component theory.
\<close>

section \<open>Machine integers, byte strings\<close>

type_synonym byte = "8 word"
type_synonym u8 = "8 word"
type_synonym u16 = "16 word"
type_synonym u32 = "32 word"
type_synonym u64 = "64 word"
type_synonym bytes = "byte list"

text \<open>Fixed-size byte arrays (\<open>common.Hash\<close>, \<open>common.Address\<close>, \<open>ChannelID\<close>) are byte lists;
  the length is part of the well-formedness predicates of the structures that hold them.\<close>

type_synonym hash = "byte list"
type_synonym address = "byte list"

named_theorems go_word \<open>facts that read machine words as natural numbers\<close>
named_theorems codec \<open>round trips of encoders and decoders\<close>
named_theorems gomap \<open>facts on Go maps modelled as association lists\<close>

section \<open>Errors\<close>

text \<open>
  Go errors as values. \<open>Errorf\<close> is an error that \<open>errors.New\<close> or \<open>fmt.Errorf\<close> creates (the
  formatted arguments are not kept), \<open>Wrap\<close> is \<open>fmt.Errorf\<close> with a \<open>%w\<close> verb. \<open>Leveled\<close> is the
  struct \<open>derive.Error\<close>; its wrapped error may be nil. \<open>Panic\<close> is a run-time panic of the
  Go program (which ends the process), \<open>Multierror\<close> a list of errors collected by
  \<open>multierror.Append\<close>, \<open>InputError\<close> the error of the engine API with its code, \<open>ChannelFullError\<close> the
  batcher's error type for a full channel, and \<open>External\<close> is any other error of code outside the repository.
\<close>

datatype level = LevelTemporary | LevelReset | LevelCritical

datatype error =
    EOF
  | ErrUnexpectedEOF
  | NotFound
  | DuplicateErr
  | NotEnoughData
  | EngineP2PSyncing
  | Errorf string
  | Wrap string error
  | Leveled level "error option"
  | Multierror "error list"
  | InputError int error
  | ChannelFullError error
  | External string
  | Panic string

type_synonym 'a result = "error + 'a"

text \<open>\<open>if err != nil { return err }\<close>: go on with the value of a call that succeeded.\<close>

definition rbind :: "'a result \<Rightarrow> ('a \<Rightarrow> 'b result) \<Rightarrow> 'b result" where
  "rbind x f = (case x of Inl e \<Rightarrow> Inl e | Inr a \<Rightarrow> f a)"

lemma rbind_simps [simp]: "rbind (Inl e) f = Inl e" "rbind (Inr a) f = f a"
  by (simp_all add: rbind_def)

lemma rbind_Inr: "rbind x f = Inr y \<longleftrightarrow> (\<exists>a. x = Inr a \<and> f a = Inr y)"
  by (cases x) auto

lemma rbind_cong [fundef_cong]:
  "x = x' \<Longrightarrow> (\<And>a. x' = Inr a \<Longrightarrow> f a = g a) \<Longrightarrow> rbind x f = rbind x' g"
  by (cases x') auto

fun is_panic :: "error \<Rightarrow> bool" where
  "is_panic (Panic _) = True"
| "is_panic _ = False"

text \<open>\<open>if err != nil { return f(err) }\<close>: an error is wrapped on its way up, a panic is not.\<close>

definition on_error :: "(error \<Rightarrow> error) \<Rightarrow> 'a result \<Rightarrow> 'a result" where
  "on_error f x = (case x of Inl e \<Rightarrow> Inl (if is_panic e then e else f e) | Inr a \<Rightarrow> Inr a)"

lemma on_error_simps [simp]:
  "on_error f (Inr a) = Inr a" "on_error f x = Inr a \<longleftrightarrow> x = Inr a"
  by (cases x; simp add: on_error_def)+

lemma on_error_panic:
  "(\<And>e. \<not> is_panic (f e)) \<Longrightarrow> on_error f x = Inl e \<Longrightarrow> is_panic e \<longleftrightarrow> x = Inl e \<and> is_panic e"
  by (cases x) (auto simp: on_error_def split: if_splits)

text \<open>\<open>ascii s\<close> is the byte string of a Go string literal.\<close>

definition ascii :: "string \<Rightarrow> bytes" where
  "ascii s = map of_char s"

section \<open>Big-endian encodings\<close>

fun be_bytes :: "nat \<Rightarrow> nat \<Rightarrow> bytes" where
  "be_bytes 0 x = []"
| "be_bytes (Suc n) x = be_bytes n (x div 256) @ [of_nat x]"

definition be_nat :: "bytes \<Rightarrow> nat" where
  "be_nat bs = foldl (\<lambda>a b. a * 256 + unat b) 0 bs"

lemma be_nat_Nil [simp]: "be_nat [] = 0"
  by (simp add: be_nat_def)

lemma be_nat_snoc [simp]: "be_nat (bs @ [b]) = be_nat bs * 256 + unat b"
  by (simp add: be_nat_def)

lemma length_be_bytes [simp]: "length (be_bytes n x) = n"
  by (induction n arbitrary: x) auto

lemma be_nat_bytes [codec]: "be_nat (be_bytes n x) = x mod 256 ^ n"
proof (induction n arbitrary: x)
  case 0
  then show ?case by simp
next
  case (Suc n)
  have "be_nat (be_bytes (Suc n) x) = (x div 256) mod 256 ^ n * 256 + x mod 256"
    by (simp add: Suc.IH unat_of_nat)
  also have "\<dots> = x mod 256 ^ Suc n"
    by (simp add: mod_mult2_eq mult.commute)
  finally show ?case .
qed

lemma be_nat_less: "be_nat bs < 256 ^ length bs"
proof (induction bs rule: rev_induct)
  case Nil
  then show ?case by simp
next
  case (snoc b bs)
  have "unat b < 256" using unsigned_less [of b] by simp
  then have "be_nat bs * 256 + unat b < (be_nat bs + 1) * 256" by simp
  also have "\<dots> \<le> 256 ^ length bs * 256"
    using snoc by (intro mult_right_mono) auto
  finally show ?case by simp
qed

lemma be_nat_append: "be_nat (xs @ ys) = be_nat xs * 256 ^ length ys + be_nat ys"
proof (induction ys rule: rev_induct)
  case Nil
  then show ?case by simp
next
  case (snoc y ys)
  have "be_nat (xs @ ys @ [y]) = be_nat (xs @ ys) * 256 + unat y"
    using be_nat_snoc [of "xs @ ys" y] by simp
  with snoc show ?case by (simp add: algebra_simps)
qed

lemma be_nat_zeros [simp]: "be_nat (replicate n 0) = 0"
  by (induction n) (simp_all add: be_nat_def)

lemma byte_256: "(256 :: byte) = 0"
  by transfer simp

lemma be_bytes_nat [codec]: "be_bytes (length bs) (be_nat bs) = bs"
proof (induction bs rule: rev_induct)
  case Nil
  then show ?case by simp
next
  case (snoc b bs)
  have "unat b < 256" using unsigned_less [of b] by simp
  then have "(be_nat bs * 256 + unat b) div 256 = be_nat bs" by simp
  moreover have "(word_of_nat (be_nat bs) :: byte) * 256 = 0"
    unfolding byte_256 by (rule mult_zero_right)
  ultimately show ?case using snoc by simp
qed

lemma be_bytes_0: "be_bytes n 0 = replicate n 0"
  by (induction n) (simp_all add: replicate_append_same)

definition put_u16 :: "u16 \<Rightarrow> bytes" where
  "put_u16 w = be_bytes 2 (unat w)"

definition get_u16 :: "bytes \<Rightarrow> u16" where
  "get_u16 bs = of_nat (be_nat bs)"

definition put_u32 :: "u32 \<Rightarrow> bytes" where
  "put_u32 w = be_bytes 4 (unat w)"

definition get_u32 :: "bytes \<Rightarrow> u32" where
  "get_u32 bs = of_nat (be_nat bs)"

definition put_u64 :: "u64 \<Rightarrow> bytes" where
  "put_u64 w = be_bytes 8 (unat w)"

definition get_u64 :: "bytes \<Rightarrow> u64" where
  "get_u64 bs = of_nat (be_nat bs)"

lemma length_put [simp]:
  "length (put_u16 a) = 2" "length (put_u32 b) = 4" "length (put_u64 c) = 8"
  by (simp_all add: put_u16_def put_u32_def put_u64_def)

lemma unat_mod_self [go_word]: "unat (w :: 'a::len word) mod 2 ^ LENGTH('a) = unat w"
  by (simp add: unsigned_less)

lemma get_put_u16 [simp, codec]: "get_u16 (put_u16 w) = w"
  using unat_mod_self [of w] by (simp add: get_u16_def put_u16_def be_nat_bytes)

lemma get_put_u32 [simp, codec]: "get_u32 (put_u32 w) = w"
  using unat_mod_self [of w] by (simp add: get_u32_def put_u32_def be_nat_bytes)

lemma get_put_u64 [simp, codec]: "get_u64 (put_u64 w) = w"
  using unat_mod_self [of w] by (simp add: get_u64_def put_u64_def be_nat_bytes)

lemma be_nat_put_u64 [simp]: "be_nat (put_u64 w) = unat w"
  using unat_mod_self [of w] by (simp add: put_u64_def be_nat_bytes)

lemma put_get_u16 [codec]: "length bs = 2 \<Longrightarrow> put_u16 (get_u16 bs) = bs"
  using be_nat_less [of bs] be_bytes_nat [of bs]
  by (simp add: get_u16_def put_u16_def unat_of_nat)

lemma put_get_u32 [codec]: "length bs = 4 \<Longrightarrow> put_u32 (get_u32 bs) = bs"
  using be_nat_less [of bs] be_bytes_nat [of bs]
  by (simp add: get_u32_def put_u32_def unat_of_nat)

lemma put_get_u64 [codec]: "length bs = 8 \<Longrightarrow> put_u64 (get_u64 bs) = bs"
  using be_nat_less [of bs] be_bytes_nat [of bs]
  by (simp add: get_u64_def put_u64_def unat_of_nat)

text \<open>Widening conversions of unsigned integers keep the value.\<close>

lemma unat_ucast_widen [go_word]:
  assumes "LENGTH('a::len) \<le> LENGTH('b::len)"
  shows "unat (ucast (w :: 'a word) :: 'b word) = unat w"
proof -
  have "unat w < 2 ^ LENGTH('b)"
    using order.strict_trans2 [OF unsigned_less power_increasing [OF assms, of "2 :: nat"]] by simp
  then show ?thesis by (simp add: unsigned_ucast_eq take_bit_nat_eq_self_iff)
qed

lemma ucast_u16_u64 [simp]:
  "(ucast (a :: u16) = (ucast b :: u64)) = (a = b)"
  "(ucast (a :: u16) < (ucast b :: u64)) = (a < b)"
  "(ucast (a :: u16) \<le> (ucast b :: u64)) = (a \<le> b)"
  by (simp_all add: word_unat_eq_iff word_less_nat_alt word_le_nat_alt unat_ucast_widen)

text \<open>A signed reading of a word without its top bit.\<close>

lemma sint_nonneg: "unat w < 2 ^ 63 \<Longrightarrow> sint w = int (unat w)" for w :: u64
proof -
  assume "unat w < 2 ^ 63"
  then have "uint w < 2 ^ 63" by (metis of_nat_less_iff of_nat_numeral of_nat_power uint_nat)
  moreover have "- (2 ^ 63) \<le> uint w" by (rule order.trans [OF _ uint_ge_0]) simp
  ultimately have "signed_take_bit 63 (uint w) = uint w" by (intro signed_take_bit_int_eq_self)
  then show ?thesis by (simp add: sint_uint)
qed


section \<open>Readers\<close>

text \<open>
  \<open>io.ReadFull\<close> on a reader over bytes that are all there: \<open>EOF\<close> when nothing could be read,
  \<open>ErrUnexpectedEOF\<close> when the reader ran dry half-way. Reading zero bytes always succeeds.
\<close>

definition read_full :: "nat \<Rightarrow> bytes \<Rightarrow> (bytes \<times> bytes) result" where
  "read_full n r =
     (if n \<le> length r then Inr (take n r, drop n r)
      else if r = [] then Inl EOF else Inl ErrUnexpectedEOF)"

definition read_byte :: "bytes \<Rightarrow> (byte \<times> bytes) result" where
  "read_byte r = (case r of [] \<Rightarrow> Inl EOF | b # r' \<Rightarrow> Inr (b, r'))"

lemma read_full_append [simp]: "length a = n \<Longrightarrow> read_full n (a @ r) = Inr (a, r)"
  by (simp add: read_full_def)

lemma read_full_all [simp]: "length a = n \<Longrightarrow> read_full n a = Inr (a, [])"
  by (simp add: read_full_def)

lemma read_full_Inr:
  "read_full n r = Inr (a, r') \<longleftrightarrow> r = a @ r' \<and> length a = n"
  by (auto simp: read_full_def split: if_splits)

lemma read_byte_Cons [simp]: "read_byte (b # r) = Inr (b, r)"
  by (simp add: read_byte_def)

lemma read_byte_Inr: "read_byte r = Inr (b, r') \<longleftrightarrow> r = b # r'"
  by (auto simp: read_byte_def split: list.splits)

section \<open>Pull-based stages\<close>

text \<open>
  The derivation pipeline is a chain of stages; each one pulls from the one before it. A stage is
  an operation on its own state together with the states of all stages before it: a call returns
  the new states and the result. Stages compose by nesting, so \<open>(p, s)\<close> is a stage with state \<open>s\<close>
  on top of a chain with state \<open>p\<close>.
\<close>

type_synonym ('p, 'a) pull = "'p \<Rightarrow> 'p \<times> 'a result"

text \<open>What a stage promises to the stage that pulls from it: an invariant of its state that every
  call keeps, and that no call panics.\<close>

locale stage =
  fixes inv :: "'p \<Rightarrow> bool" and pull :: "('p, 'a) pull"
  assumes pull_inv: "inv p \<Longrightarrow> inv (fst (pull p))"
    and pull_no_panic: "inv p \<Longrightarrow> snd (pull p) = Inl e \<Longrightarrow> \<not> is_panic e"
begin

lemma pull_cases:
  assumes "inv p"
  obtains (ok) p' x where "pull p = (p', Inr x)" "inv p'"
    | (err) p' e where "pull p = (p', Inl e)" "inv p'" "\<not> is_panic e"
  using pull_inv [OF assms] pull_no_panic [OF assms]
  by (cases "pull p"; cases "snd (pull p)") auto

end

section \<open>Go maps\<close>

text \<open>
  A Go map is an association list without duplicate keys. Lookups are \<open>map_of\<close>, an assignment is
  \<open>AList.update\<close>, \<open>delete\<close> is \<open>AList.delete\<close> and \<open>len\<close> is \<open>length\<close>. Go leaves the order of an
  iteration open: the code that iterates over a map is modelled on the list's order, and what is
  computed by it does not depend on that order.
\<close>

type_synonym ('k, 'v) gomap = "('k \<times> 'v) list"

definition gomap_ok :: "('k, 'v) gomap \<Rightarrow> bool" where
  "gomap_ok m = distinct (map fst m)"

lemma gomap_ok_Nil [simp, gomap]: "gomap_ok []"
  by (simp add: gomap_ok_def)

lemma gomap_ok_update [simp, gomap]: "gomap_ok m \<Longrightarrow> gomap_ok (AList.update k v m)"
  by (simp add: gomap_ok_def distinct_update)

lemma gomap_ok_delete [simp, gomap]: "gomap_ok m \<Longrightarrow> gomap_ok (AList.delete k m)"
  by (simp add: gomap_ok_def distinct_delete)

lemma gomap_ok_filter [simp, gomap]: "gomap_ok m \<Longrightarrow> gomap_ok (filter P m)"
  by (auto simp: gomap_ok_def distinct_map inj_on_def)

lemma lookup_update [simp, gomap]:
  "map_of (AList.update k v m) k' = (if k' = k then Some v else map_of m k')"
  by (simp add: update_conv')

lemma lookup_delete [simp, gomap]:
  "map_of (AList.delete k m) k' = (if k' = k then None else map_of m k')"
  by (simp add: delete_conv')

lemma dom_gomap_delete [simp, gomap]: "dom (map_of (AList.delete k m)) = dom (map_of m) - {k}"
  by (simp add: delete_conv')

lemma dom_gomap_update [simp, gomap]: "dom (map_of (AList.update k v m)) = insert k (dom (map_of m))"
  by (simp add: update_conv')

lemma length_update_new: "map_of m k = None \<Longrightarrow> length (AList.update k v m) = Suc (length m)"
  by (induction m) auto

lemma gomap_ok_card: "gomap_ok m \<Longrightarrow> length m = card (dom (map_of m))"
  by (simp add: gomap_ok_def dom_map_of_conv_image_fst distinct_card flip: set_map)

end
