(* ===== verification/Rollup.thy ===== *)
theory Rollup
  imports Prelude
begin

text \<open>
  The data that all components of the rollup node share: block identifiers and references
  (\<open>op-service/eth/id.go\<close>), the system configuration (\<open>op-service/eth/types.go\<close>), the rollup
  configuration and its checks (\<open>op-node/rollup/types.go\<close>), and the severity levels of derivation
  errors (\<open>op-node/rollup/derive/error.go\<close>).
\<close>

section \<open>Block references\<close>

record block_id =
  Hash :: hash
  Number :: u64

record l1_block_ref =
  l1_Hash :: hash
  l1_Number :: u64
  l1_ParentHash :: hash
  l1_Time :: u64

record l2_block_ref =
  l2_Hash :: hash
  l2_Number :: u64
  l2_ParentHash :: hash
  l2_Time :: u64
  L1Origin :: block_id
  SequenceNumber :: u64

definition zero_hash :: hash where
  "zero_hash = replicate 32 0"

definition zero_address :: address where
  "zero_address = replicate 20 0"

text \<open>Go's zero values \<open>eth.L1BlockRef{}\<close> and \<open>eth.L2BlockRef{}\<close>.\<close>

definition zero_l1_ref :: l1_block_ref where
  "zero_l1_ref = \<lparr>l1_Hash = zero_hash, l1_Number = 0, l1_ParentHash = zero_hash, l1_Time = 0\<rparr>"

definition zero_l2_ref :: l2_block_ref where
  "zero_l2_ref = \<lparr>l2_Hash = zero_hash, l2_Number = 0, l2_ParentHash = zero_hash, l2_Time = 0,
     L1Origin = \<lparr>Hash = zero_hash, Number = 0\<rparr>, SequenceNumber = 0\<rparr>"

definition L1_ID :: "l1_block_ref \<Rightarrow> block_id" where
  "L1_ID b = \<lparr>Hash = l1_Hash b, Number = l1_Number b\<rparr>"

definition L2_ID :: "l2_block_ref \<Rightarrow> block_id" where
  "L2_ID b = \<lparr>Hash = l2_Hash b, Number = l2_Number b\<rparr>"

definition L1_ParentID :: "l1_block_ref \<Rightarrow> block_id" where
  "L1_ParentID b =
     (let n = Number (L1_ID b); n' = (if n > 0 then n - 1 else n)
      in \<lparr>Hash = l1_ParentHash b, Number = n'\<rparr>)"

definition L2_ParentID :: "l2_block_ref \<Rightarrow> block_id" where
  "L2_ParentID b =
     (let n = Number (L2_ID b); n' = (if n > 0 then n - 1 else n)
      in \<lparr>Hash = l2_ParentHash b, Number = n'\<rparr>)"

lemma L1_ID_simps [simp]: "Hash (L1_ID b) = l1_Hash b" "Number (L1_ID b) = l1_Number b"
  by (simp_all add: L1_ID_def)

lemma L2_ID_simps [simp]: "Hash (L2_ID b) = l2_Hash b" "Number (L2_ID b) = l2_Number b"
  by (simp_all add: L2_ID_def)

section \<open>System and rollup configuration\<close>

record system_config =
  BatcherAddr :: address
  Overhead :: bytes
  Scalar :: bytes
  sc_GasLimit :: u64

record genesis =
  gen_L1 :: block_id
  gen_L2 :: block_id
  L2Time :: u64
  gen_SystemConfig :: system_config

record config =
  Genesis :: genesis
  BlockTime :: u64
  MaxSequencerDrift :: u64
  SeqWindowSize :: u64
  ChannelTimeout :: u64
  L1ChainID :: "int option"
  L2ChainID :: "int option"
  RegolithTime :: "u64 option"
  BatchInboxAddress :: address
  DepositContractAddress :: address
  L1SystemConfigAddress :: address

definition zero_system_config :: system_config where
  "zero_system_config = \<lparr>BatcherAddr = zero_address, Overhead = zero_hash, Scalar = zero_hash,
     sc_GasLimit = 0\<rparr>"

definition TargetBlockNumber :: "config \<Rightarrow> u64 \<Rightarrow> u64 result" where
  "TargetBlockNumber cfg timestamp =
     (let genesisTimestamp = L2Time (Genesis cfg) in
      if timestamp < genesisTimestamp then Inl (Errorf ''did not reach genesis time yet'')
      else if BlockTime cfg = 0 then Inl (Panic ''integer divide by zero'')
      else let wallClockGenesisDiff = timestamp - genesisTimestamp;
               blocksSinceGenesis = wallClockGenesisDiff div BlockTime cfg
           in Inr (Number (gen_L2 (Genesis cfg)) + blocksSinceGenesis))"

text \<open>The clients are the code's interfaces \<open>L1Client\<close> and \<open>L2Client\<close>: their answers are arguments.
  A nil chain identifier is dereferenced by \<open>Cmp\<close>.\<close>

definition CheckL1ChainID :: "config \<Rightarrow> int result \<Rightarrow> unit result" where
  "CheckL1ChainID cfg chainID =
     (case chainID of
        Inl e \<Rightarrow> Inl (Wrap ''failed to get L1 chain ID'' e)
      | Inr i \<Rightarrow>
          (case L1ChainID cfg of
             None \<Rightarrow> Inl (Panic ''nil pointer dereference'')
           | Some c \<Rightarrow> if c \<noteq> i then Inl (Errorf ''incorrect L1 RPC chain id'') else Inr ()))"

definition CheckL1GenesisBlockHash ::
  "config \<Rightarrow> (u64 \<Rightarrow> l1_block_ref result) \<Rightarrow> unit result" where
  "CheckL1GenesisBlockHash cfg l1BlockRefByNumber =
     (case l1BlockRefByNumber (Number (gen_L1 (Genesis cfg))) of
        Inl e \<Rightarrow> Inl (Wrap ''failed to get L1 genesis blockhash'' e)
      | Inr ref \<Rightarrow>
          if l1_Hash ref \<noteq> Hash (gen_L1 (Genesis cfg))
          then Inl (Errorf ''incorrect L1 genesis block hash'') else Inr ())"

definition CheckL2ChainID :: "config \<Rightarrow> int result \<Rightarrow> unit result" where
  "CheckL2ChainID cfg chainID =
     (case chainID of
        Inl e \<Rightarrow> Inl (Wrap ''failed to get L2 chain ID'' e)
      | Inr i \<Rightarrow>
          (case L2ChainID cfg of
             None \<Rightarrow> Inl (Panic ''nil pointer dereference'')
           | Some c \<Rightarrow> if c \<noteq> i then Inl (Errorf ''incorrect L2 RPC chain id'') else Inr ()))"

definition CheckL2GenesisBlockHash ::
  "config \<Rightarrow> (u64 \<Rightarrow> l2_block_ref result) \<Rightarrow> unit result" where
  "CheckL2GenesisBlockHash cfg l2BlockRefByNumber =
     (case l2BlockRefByNumber (Number (gen_L2 (Genesis cfg))) of
        Inl e \<Rightarrow> Inl (Wrap ''failed to get L2 genesis blockhash'' e)
      | Inr ref \<Rightarrow>
          if l2_Hash ref \<noteq> Hash (gen_L2 (Genesis cfg))
          then Inl (Errorf ''incorrect L2 genesis block hash'') else Inr ())"

definition ValidateL1Config ::
  "config \<Rightarrow> int result \<Rightarrow> (u64 \<Rightarrow> l1_block_ref result) \<Rightarrow> unit result" where
  "ValidateL1Config cfg chainID l1BlockRefByNumber =
     (case CheckL1ChainID cfg chainID of
        Inl e \<Rightarrow> Inl e
      | Inr _ \<Rightarrow> (case CheckL1GenesisBlockHash cfg l1BlockRefByNumber of
                     Inl e \<Rightarrow> Inl e | Inr _ \<Rightarrow> Inr ()))"

definition ValidateL2Config ::
  "config \<Rightarrow> int result \<Rightarrow> (u64 \<Rightarrow> l2_block_ref result) \<Rightarrow> unit result" where
  "ValidateL2Config cfg chainID l2BlockRefByNumber =
     (case CheckL2ChainID cfg chainID of
        Inl e \<Rightarrow> Inl e
      | Inr _ \<Rightarrow> (case CheckL2GenesisBlockHash cfg l2BlockRefByNumber of
                     Inl e \<Rightarrow> Inl e | Inr _ \<Rightarrow> Inr ()))"

definition Check :: "config \<Rightarrow> unit result" where
  "Check cfg =
     (let g = Genesis cfg; sc = gen_SystemConfig g in
      if BlockTime cfg = 0 then Inl (Errorf ''ErrBlockTimeZero'')
      else if ChannelTimeout cfg = 0 then Inl (Errorf ''ErrMissingChannelTimeout'')
      else if SeqWindowSize cfg < 2 then Inl (Errorf ''ErrInvalidSeqWindowSize'')
      else if Hash (gen_L1 g) = zero_hash then Inl (Errorf ''ErrMissingGenesisL1Hash'')
      else if Hash (gen_L2 g) = zero_hash then Inl (Errorf ''ErrMissingGenesisL2Hash'')
      else if Hash (gen_L2 g) = Hash (gen_L1 g) then Inl (Errorf ''ErrGenesisHashesSame'')
      else if L2Time g = 0 then Inl (Errorf ''ErrMissingGenesisL2Time'')
      else if BatcherAddr sc = zero_address then Inl (Errorf ''ErrMissingBatcherAddr'')
      else if Overhead sc = zero_hash then Inl (Errorf ''ErrMissingOverhead'')
      else if Scalar sc = zero_hash then Inl (Errorf ''ErrMissingScalar'')
      else if sc_GasLimit sc = 0 then Inl (Errorf ''ErrMissingGasLimit'')
      else if BatchInboxAddress cfg = zero_address then Inl (Errorf ''ErrMissingBatchInboxAddress'')
      else if DepositContractAddress cfg = zero_address
        then Inl (Errorf ''ErrMissingDepositContractAddress'')
      else case L1ChainID cfg of
             None \<Rightarrow> Inl (Errorf ''ErrMissingL1ChainID'')
           | Some c1 \<Rightarrow>
               (case L2ChainID cfg of
                  None \<Rightarrow> Inl (Errorf ''ErrMissingL2ChainID'')
                | Some c2 \<Rightarrow>
                    if c1 = c2 then Inl (Errorf ''ErrChainIDsSame'')
                    else if sgn c1 < 1 then Inl (Errorf ''ErrL1ChainIDNotPositive'')
                    else if sgn c2 < 1 then Inl (Errorf ''ErrL2ChainIDNotPositive'')
                    else Inr ()))"

definition IsRegolith :: "config \<Rightarrow> u64 \<Rightarrow> bool" where
  "IsRegolith cfg timestamp =
     (case RegolithTime cfg of None \<Rightarrow> False | Some t \<Rightarrow> timestamp \<ge> t)"

text \<open>The transaction type byte of deposits, as specified in \<open>specs/deposits.md\<close>.\<close>

definition DepositTxType :: byte where
  "DepositTxType = 0x7E"

section \<open>Severity of derivation errors (error.go)\<close>

definition NewError :: "error option \<Rightarrow> level \<Rightarrow> error" where
  "NewError e l = Leveled l e"

definition NewTemporaryError :: "error \<Rightarrow> error" where
  "NewTemporaryError e = NewError (Some e) LevelTemporary"

definition NewResetError :: "error \<Rightarrow> error" where
  "NewResetError e = NewError (Some e) LevelReset"

definition NewCriticalError :: "error \<Rightarrow> error" where
  "NewCriticalError e = NewError (Some e) LevelCritical"

definition ErrTemporary :: error where
  "ErrTemporary = NewError None LevelTemporary"

definition ErrReset :: error where
  "ErrReset = NewError None LevelReset"

definition ErrCritical :: error where
  "ErrCritical = NewError None LevelCritical"

definition Error_Unwrap :: "level \<Rightarrow> error option \<Rightarrow> error option" where
  "Error_Unwrap l e = e"

text \<open>\<open>Error.Is\<close>: the receiver is a levelled error, the target any error.\<close>

definition Error_Is :: "level \<Rightarrow> error option \<Rightarrow> error \<Rightarrow> bool" where
  "Error_Is l e target = (case target of Leveled l' _ \<Rightarrow> l = l' | _ \<Rightarrow> False)"

text \<open>\<open>errors.Is\<close> of the standard library: equality, then the error's own \<open>Is\<close>, then its chain.\<close>

fun errors_Is :: "error \<Rightarrow> error \<Rightarrow> bool" where
  "errors_Is (Wrap m e) t = (Wrap m e = t \<or> errors_Is e t)"
| "errors_Is (Leveled l (Some e)) t =
     (Leveled l (Some e) = t \<or> Error_Is l (Some e) t \<or> errors_Is e t)"
| "errors_Is (Leveled l None) t = (Leveled l None = t \<or> Error_Is l None t)"
| "errors_Is (Multierror es) t = (Multierror es = t \<or> list_ex (\<lambda>e. errors_Is e t) es)"
| "errors_Is (InputError c e) t =
     (InputError c e = t \<or> (case t of InputError _ _ \<Rightarrow> True | _ \<Rightarrow> False) \<or> errors_Is e t)"
| "errors_Is (ChannelFullError e) t = (ChannelFullError e = t \<or> errors_Is e t)"
| "errors_Is e t = (e = t)"

text \<open>\<open>errors.As\<close> for the type \<open>eth.InputError\<close>: the first one in the chain.\<close>

fun errors_As_InputError :: "error \<Rightarrow> (int \<times> error) option" where
  "errors_As_InputError (InputError c e) = Some (c, e)"
| "errors_As_InputError (Wrap m e) = errors_As_InputError e"
| "errors_As_InputError (ChannelFullError e) = errors_As_InputError e"
| "errors_As_InputError (Leveled l (Some e)) = errors_As_InputError e"
| "errors_As_InputError (Multierror (e # es)) =
     (case errors_As_InputError e of Some x \<Rightarrow> Some x | None \<Rightarrow> errors_As_InputError (Multierror es))"
| "errors_As_InputError _ = None"

lemma errors_Is_sentinel [simp]:
  "errors_Is (NewTemporaryError e) ErrTemporary" "errors_Is (NewResetError e) ErrReset"
  "errors_Is (NewCriticalError e) ErrCritical"
  by (simp_all add: NewTemporaryError_def NewResetError_def NewCriticalError_def ErrTemporary_def
      ErrReset_def ErrCritical_def NewError_def Error_Is_def)

section \<open>Properties\<close>

lemma Check_ok_simps:
  "Check cfg = Inr u \<Longrightarrow> BlockTime cfg \<noteq> 0 \<and> ChannelTimeout cfg \<noteq> 0 \<and> 2 \<le> SeqWindowSize cfg"
  by (auto simp: Check_def Let_def not_less split: if_splits)

text \<open>for a configuration that passes \<open>Check\<close>, \<open>TargetBlockNumber\<close> never divides by zero, and the
  number it returns for a time after genesis is the largest one whose block time does not lie
  beyond that time, as long as the block number does not leave the range of \<open>uint64\<close>.\<close>

theorem TargetBlockNumber_correct:
  assumes "Check cfg = Inr ()" and "L2Time (Genesis cfg) \<le> t"
    and "unat (Number (gen_L2 (Genesis cfg))) +
         (unat t - unat (L2Time (Genesis cfg))) div unat (BlockTime cfg) < 2 ^ 64"
  shows "\<exists>k. TargetBlockNumber cfg t = Inr (Number (gen_L2 (Genesis cfg)) + of_nat k) \<and>
     unat (Number (gen_L2 (Genesis cfg)) + of_nat k) = unat (Number (gen_L2 (Genesis cfg))) + k \<and>
     unat (L2Time (Genesis cfg)) + k * unat (BlockTime cfg) \<le> unat t \<and>
     unat t < unat (L2Time (Genesis cfg)) + (k + 1) * unat (BlockTime cfg)"
proof -
  define g d bt where "g = L2Time (Genesis cfg)" and "d = unat t - unat g" and "bt = BlockTime cfg"
  let ?k = "d div unat bt"
  have bt: "bt \<noteq> 0" using Check_ok_simps [OF assms(1)] by (simp add: bt_def)
  then have pos: "0 < unat bt" by (simp add: unat_gt_0)
  have le: "unat g \<le> unat t" using assms(2) by (simp add: g_def word_le_nat_alt)
  have diff: "unat (t - g) = d" using assms(2) by (simp add: d_def g_def unat_sub)
  have k64: "?k < 2 ^ 64" using assms(3) by (simp add: d_def g_def bt_def)
  have quot: "(t - g) div bt = of_nat ?k"
    by (rule word_unat_eq_iff [THEN iffD2])
      (use diff k64 in \<open>simp add: unat_div unat_of_nat\<close>)
  have "TargetBlockNumber cfg t = Inr (Number (gen_L2 (Genesis cfg)) + of_nat ?k)"
    using assms(2) bt quot by (simp add: TargetBlockNumber_def Let_def g_def bt_def not_less)
  moreover have "unat (Number (gen_L2 (Genesis cfg)) + of_nat ?k) =
      unat (Number (gen_L2 (Genesis cfg))) + ?k"
    using assms(3) k64 by (simp add: unat_word_ariths unat_of_nat d_def g_def bt_def)
  moreover have "unat g + ?k * unat bt \<le> unat t"
    using le div_times_less_eq_dividend [of d "unat bt"] d_def by linarith
  moreover have "unat t < unat g + (?k + 1) * unat bt"
    using le dividend_less_div_times [OF pos, of d] d_def by (simp add: algebra_simps)
  ultimately show ?thesis unfolding g_def bt_def by blast
qed

text \<open>A configuration for the witnesses.\<close>

definition example_cfg :: config where
  "example_cfg =
     \<lparr>Genesis = \<lparr>gen_L1 = \<lparr>Hash = replicate 32 1, Number = 100\<rparr>,
                 gen_L2 = \<lparr>Hash = replicate 32 2, Number = 50\<rparr>, L2Time = 1000,
                 gen_SystemConfig = \<lparr>BatcherAddr = replicate 20 3, Overhead = replicate 32 1,
                   Scalar = replicate 32 1, sc_GasLimit = 30000000\<rparr>\<rparr>,
      BlockTime = 2, MaxSequencerDrift = 600, SeqWindowSize = 3600, ChannelTimeout = 300,
      L1ChainID = Some 1, L2ChainID = Some 10, RegolithTime = Some 0,
      BatchInboxAddress = replicate 20 4, DepositContractAddress = replicate 20 5,
      L1SystemConfigAddress = replicate 20 6\<rparr>"

lemma example_cfg_simps [simp]:
  "BlockTime example_cfg = 2" "MaxSequencerDrift example_cfg = 600"
  "SeqWindowSize example_cfg = 3600" "ChannelTimeout example_cfg = 300"
  "L2Time (Genesis example_cfg) = 1000" "Number (gen_L2 (Genesis example_cfg)) = 50"
  by (simp_all add: example_cfg_def)

theorem TargetBlockNumber_correct_witness:
  "\<exists>k. TargetBlockNumber example_cfg 1007 = Inr (50 + of_nat k) \<and>
     1000 + k * 2 \<le> 1007 \<and> 1007 < 1000 + (k + 1) * 2"
proof -
  have "Check example_cfg = Inr ()" by code_simp
  from TargetBlockNumber_correct [OF this, of 1007] show ?thesis by simp blast
qed

end
