(* ===== verification/Frames.thy ===== *)
theory Frames
  imports Rollup
begin

text \<open>
  Frames, the unit in which channel data is posted to L1: \<open>op-node/rollup/derive/params.go\<close>,
  \<open>frame.go\<close> and \<open>frame_queue.go\<close>. The encoder and the decoder are modelled byte for byte;
  the decoder is shown to accept exactly the encoder's outputs, so that the data of a batcher
  transaction determines its frames and conversely.
\<close>

section \<open>Parameters (params.go)\<close>

definition frameOverhead :: u64 where
  "frameOverhead = 200"

definition DerivationVersion0 :: byte where
  "DerivationVersion0 = 0"

definition MaxChannelBankSize :: u64 where
  "MaxChannelBankSize = 100000000"

definition ChannelIDLength :: nat where
  "ChannelIDLength = 16"

definition MaxFrameLen :: u32 where
  "MaxFrameLen = 1000000"

type_synonym channel_id = "byte list"

section \<open>Frames (frame.go)\<close>

record frame =
  ID :: channel_id
  FrameNumber :: u16
  Data :: bytes
  IsLast :: bool

definition frameSize :: "frame \<Rightarrow> u64" where
  "frameSize f = of_nat (length (Data f)) + frameOverhead"

text \<open>Writing to a buffer cannot fail, so the encoder is total. \<open>uint32(len(f.Data))\<close> truncates.\<close>

definition MarshalBinary :: "frame \<Rightarrow> bytes" where
  "MarshalBinary f =
     ID f @ put_u16 (FrameNumber f) @ put_u32 (of_nat (length (Data f))) @ Data f
     @ [if IsLast f then 1 else 0]"

definition eofAsUnexpectedMissing :: "error \<Rightarrow> error" where
  "eofAsUnexpectedMissing e =
     (if errors_Is e EOF then Wrap ''fully missing'' ErrUnexpectedEOF else e)"

text \<open>The decoder consumes a frame from the reader and returns what is left of it.\<close>

definition UnmarshalBinary :: "bytes \<Rightarrow> (frame \<times> bytes) result" where
  "UnmarshalBinary r0 =
     (case read_full ChannelIDLength r0 of
        Inl e \<Rightarrow> Inl (Wrap ''reading channel_id'' e)
      | Inr (cid, r1) \<Rightarrow>
     (case read_full 2 r1 of
        Inl e \<Rightarrow> Inl (Wrap ''reading frame_number'' (eofAsUnexpectedMissing e))
      | Inr (num, r2) \<Rightarrow>
     (case read_full 4 r2 of
        Inl e \<Rightarrow> Inl (Wrap ''reading frame_data_length'' (eofAsUnexpectedMissing e))
      | Inr (len, r3) \<Rightarrow>
     let frameLength = get_u32 len in
     if frameLength > MaxFrameLen then Inl (Errorf ''frame_data_length is too large'')
     else
     (case read_full (unat frameLength) r3 of
        Inl e \<Rightarrow> Inl (Wrap ''reading frame_data'' (eofAsUnexpectedMissing e))
      | Inr (dat, r4) \<Rightarrow>
     (case read_byte r4 of
        Inl e \<Rightarrow> Inl (Wrap ''reading final byte (is_last)'' (eofAsUnexpectedMissing e))
      | Inr (isLastByte, r5) \<Rightarrow>
          let f = \<lparr>ID = cid, FrameNumber = get_u16 num, Data = dat, IsLast = False\<rparr> in
          if isLastByte = 0 then Inr (f, r5)
          else if isLastByte = 1 then Inr (f\<lparr>IsLast := True\<rparr>, r5)
          else Inl (Errorf ''invalid byte as is_last''))))))"

definition frame_ok :: "frame \<Rightarrow> bool" where
  "frame_ok f = (length (ID f) = ChannelIDLength \<and> length (Data f) \<le> unat MaxFrameLen)"

lemmas frame_consts = ChannelIDLength_def MaxFrameLen_def

lemma unat_MaxFrameLen [simp]: "unat MaxFrameLen = 1000000"
  by (simp add: MaxFrameLen_def)

lemma frame_len_small:
  "n \<le> 1000000 \<Longrightarrow> unat (of_nat n :: u32) = n \<and> (of_nat n :: u32) \<le> MaxFrameLen"
  by (simp add: word_le_nat_alt unat_of_nat)

lemma Unmarshal_Marshal [codec]:
  assumes "frame_ok f"
  shows "UnmarshalBinary (MarshalBinary f @ r) = Inr (f, r)"
  using assms frame_len_small [of "length (Data f)"]
  by (cases f) (simp add: frame_ok_def UnmarshalBinary_def MarshalBinary_def Let_def linorder_not_less)

lemma Unmarshal_Inr:
  assumes "UnmarshalBinary r = Inr (f, r')"
  shows "frame_ok f \<and> r = MarshalBinary f @ r'"
proof -
  from assms obtain cid r1 num r2 len r3 dat r4 b where
    steps: "read_full ChannelIDLength r = Inr (cid, r1)" "read_full 2 r1 = Inr (num, r2)"
      "read_full 4 r2 = Inr (len, r3)" "\<not> get_u32 len > MaxFrameLen"
      "read_full (unat (get_u32 len)) r3 = Inr (dat, r4)" "read_byte r4 = Inr (b, r')"
    and b: "b = 0 \<and> \<not> IsLast f \<or> b = 1 \<and> IsLast f"
    and f: "ID f = cid" "FrameNumber f = get_u16 num" "Data f = dat"
    by (auto simp: UnmarshalBinary_def Let_def split: sum.splits if_splits prod.splits)
  from steps have lens: "length cid = ChannelIDLength" "length num = 2" "length len = 4"
    "length dat = unat (get_u32 len)" "length dat \<le> unat MaxFrameLen"
    by (auto simp: read_full_Inr word_le_nat_alt not_less)
  have r: "r = cid @ num @ len @ dat @ b # r'"
    using steps by (simp add: read_full_Inr read_byte_Inr)
  have "put_u32 (of_nat (length dat)) = len"
    using lens by (simp add: put_get_u32)
  then show ?thesis
    using r b f lens by (auto simp: frame_ok_def MarshalBinary_def put_get_u16)
qed

lemma Unmarshal_iff:
  "UnmarshalBinary r = Inr (f, r') \<longleftrightarrow> frame_ok f \<and> r = MarshalBinary f @ r'"
  using Unmarshal_Inr Unmarshal_Marshal by blast

lemma length_MarshalBinary:
  "frame_ok f \<Longrightarrow> length (MarshalBinary f) = 23 + length (Data f)"
  by (simp add: MarshalBinary_def frame_ok_def ChannelIDLength_def)

text \<open>The loop of \<open>ParseFrames\<close>: \<open>for buf.Len() > 0\<close>. Every frame consumes at least 23 bytes.\<close>

function parse_frames_loop :: "bytes \<Rightarrow> frame list \<Rightarrow> frame list result" where
  "parse_frames_loop buf frames =
     (if buf = [] then Inr frames
      else case UnmarshalBinary buf of
             Inl e \<Rightarrow> Inl (Wrap ''parsing frame'' e)
           | Inr (f, buf') \<Rightarrow> parse_frames_loop buf' (frames @ [f]))"
  by pat_completeness auto
termination
  by (relation "measure (\<lambda>(buf, _). length buf)") (auto simp: Unmarshal_iff length_MarshalBinary)

declare parse_frames_loop.simps [simp del]

definition ParseFrames :: "bytes \<Rightarrow> frame list result" where
  "ParseFrames data =
     (case data of
        [] \<Rightarrow> Inl (Errorf ''data array must not be empty'')
      | v # rest \<Rightarrow>
          if v \<noteq> DerivationVersion0 then Inl (Errorf ''invalid derivation format byte'')
          else case parse_frames_loop rest [] of
                 Inl e \<Rightarrow> Inl e
               | Inr frames \<Rightarrow>
                   if frames = [] then Inl (Errorf ''was not able to find any frames'')
                   else Inr frames)"

lemma parse_frames_loop_complete:
  "list_all frame_ok fs \<Longrightarrow>
   parse_frames_loop (concat (map MarshalBinary fs)) acc = Inr (acc @ fs)"
proof (induction fs arbitrary: acc)
  case Nil
  then show ?case by (simp add: parse_frames_loop.simps)
next
  case (Cons f fs)
  have "MarshalBinary f \<noteq> []" by (simp add: MarshalBinary_def)
  with Cons show ?case
    by (simp add: parse_frames_loop.simps [of "MarshalBinary f @ _"] Unmarshal_Marshal)
qed

lemma parse_frames_loop_sound:
  "parse_frames_loop buf acc = Inr fs \<Longrightarrow>
   \<exists>gs. fs = acc @ gs \<and> list_all frame_ok gs \<and> buf = concat (map MarshalBinary gs)"
proof (induction buf acc rule: parse_frames_loop.induct)
  case (1 buf acc)
  show ?case
  proof (cases "buf = []")
    case True
    with "1.prems" show ?thesis
      by (intro exI [of _ "[]"]) (simp add: parse_frames_loop.simps)
  next
    case False
    with "1.prems" obtain f buf' where u: "UnmarshalBinary buf = Inr (f, buf')"
      and "parse_frames_loop buf' (acc @ [f]) = Inr fs"
      by (auto simp: parse_frames_loop.simps [of buf] split: sum.splits)
    with "1.IH" False obtain gs where "fs = (acc @ [f]) @ gs" "list_all frame_ok gs"
      "buf' = concat (map MarshalBinary gs)"
      by blast
    with u show ?thesis
      by (intro exI [of _ "f # gs"]) (simp add: Unmarshal_iff)
  qed
qed

section \<open>The frame queue (frame_queue.go)\<close>

record frame_queue =
  fq_frames :: "frame list"

definition NewFrameQueue :: frame_queue where
  "NewFrameQueue = \<lparr>fq_frames = []\<rparr>"

definition FrameQueue_NextFrame ::
  "('p, bytes) pull \<Rightarrow> ('p \<times> frame_queue, frame) pull" where
  "FrameQueue_NextFrame prevNextData = (\<lambda>(p, fq).
     let step = (if fq_frames fq = []
                 then (case prevNextData p of
                         (p', Inl e) \<Rightarrow> (p', Inl e)
                       | (p', Inr dat) \<Rightarrow>
                           (case ParseFrames dat of
                              Inr new \<Rightarrow> (p', Inr (fq_frames fq @ new))
                            | Inl _ \<Rightarrow> (p', Inr (fq_frames fq))))
                 else (p, Inr (fq_frames fq)))
     in case step of
          (p', Inl e) \<Rightarrow> ((p', fq), Inl e)
        | (p', Inr []) \<Rightarrow> ((p', fq), Inl NotEnoughData)
        | (p', Inr (f # fs)) \<Rightarrow> ((p', fq\<lparr>fq_frames := fs\<rparr>), Inr f))"

definition FrameQueue_Reset :: "frame_queue \<Rightarrow> frame_queue \<times> error" where
  "FrameQueue_Reset fq = (fq\<lparr>fq_frames := []\<rparr>, EOF)"

text \<open>A frame queue on top of a stage is again a stage, and every frame it hands out is well
  formed.\<close>

definition frame_queue_inv :: "frame_queue \<Rightarrow> bool" where
  "frame_queue_inv fq = list_all frame_ok (fq_frames fq)"

lemma ParseFrames_frame_ok: "ParseFrames data = Inr fs \<Longrightarrow> list_all frame_ok fs"
  by (auto simp: ParseFrames_def split: list.splits if_splits sum.splits
      dest!: parse_frames_loop_sound)

locale NextDataProvider = stage inv pull
  for inv :: "'p \<Rightarrow> bool" and pull :: "('p, bytes) pull"
begin

lemma NextFrame_ok:
  assumes "inv p" "frame_queue_inv fq"
    and "FrameQueue_NextFrame pull (p, fq) = ((p', fq'), r)"
  shows "inv p' \<and> frame_queue_inv fq' \<and> (\<forall>f. r = Inr f \<longrightarrow> frame_ok f) \<and>
     (\<forall>e. r = Inl e \<longrightarrow> \<not> is_panic e)"
  using assms
  by (cases rule: pull_cases [OF assms(1)])
    (auto simp: FrameQueue_NextFrame_def frame_queue_inv_def Let_def
      split: if_splits sum.splits list.splits dest: ParseFrames_frame_ok)

lemma FrameQueue_stage:
  "stage (\<lambda>(p, fq). inv p \<and> frame_queue_inv fq) (FrameQueue_NextFrame pull)"
  by unfold_locales (auto dest: NextFrame_ok simp: split_beta prod_eq_iff)

end

section \<open>Properties\<close>

text \<open>C5: \<open>ParseFrames\<close> accepts exactly the serialisations of non-empty lists of well-formed frames
  (a version byte 0 and the frames one after the other), and it returns those very frames: the
  round trip holds in both directions and the format is unambiguous.\<close>

theorem ParseFrames_iff:
  "ParseFrames data = Inr fs \<longleftrightarrow>
     fs \<noteq> [] \<and> list_all frame_ok fs \<and>
     data = DerivationVersion0 # concat (map MarshalBinary fs)"
proof
  assume "ParseFrames data = Inr fs"
  then show "fs \<noteq> [] \<and> list_all frame_ok fs \<and>
     data = DerivationVersion0 # concat (map MarshalBinary fs)"
    by (auto simp: ParseFrames_def split: list.splits if_splits sum.splits
        dest!: parse_frames_loop_sound)
next
  assume "fs \<noteq> [] \<and> list_all frame_ok fs \<and>
     data = DerivationVersion0 # concat (map MarshalBinary fs)"
  then show "ParseFrames data = Inr fs"
    by (auto simp: ParseFrames_def parse_frames_loop_complete)
qed

end
