(* ===== verification/Channels.thy ===== *)
theory Channels
  imports Frames
begin

text \<open>
  Channels and the channel bank: \<open>op-node/rollup/derive/channel.go\<close> and \<open>channel_bank.go\<close>. Frames
  may arrive in any order and more than once; a channel collects them by number until it is
  complete, and the bank keeps the channels in the order in which they were opened, drops those
  that timed out and evicts the oldest ones when too much data is buffered.
\<close>

section \<open>Channels (channel.go)\<close>

record channel =
  ch_id :: channel_id
  openBlock :: l1_block_ref
  ch_size :: u64
  ch_closed :: bool
  highestFrameNumber :: u16
  endFrameNumber :: u16
  inputs :: "(u64, frame) gomap"
  highestL1InclusionBlock :: l1_block_ref

definition NewChannel :: "channel_id \<Rightarrow> l1_block_ref \<Rightarrow> channel" where
  "NewChannel i b =
     \<lparr>ch_id = i, openBlock = b, ch_size = 0, ch_closed = False, highestFrameNumber = 0,
      endFrameNumber = 0, inputs = [], highestL1InclusionBlock = zero_l1_ref\<rparr>"

text \<open>The loop over the buffered frames that runs when a closing frame arrives: frames at or above
  the end are deleted, and the size of \<^emph>\<open>every\<close> frame that is visited is subtracted.\<close>

fun prune_inputs ::
  "u64 \<Rightarrow> (u64, frame) gomap \<Rightarrow> (u64, frame) gomap \<times> u64 \<Rightarrow> (u64, frame) gomap \<times> u64" where
  "prune_inputs e [] (m, sz) = (m, sz)"
| "prune_inputs e ((i, f) # rest) (m, sz) =
     prune_inputs e rest (if i \<ge> e then AList.delete i m else m, sz - frameSize f)"

text \<open>The update of the channel once a frame has passed all checks: close, prune, raise the highest
  number and the highest inclusion block, store the frame.\<close>

definition accept_frame :: "channel \<Rightarrow> frame \<Rightarrow> l1_block_ref \<Rightarrow> channel" where
  "accept_frame ch frame l1InclusionBlock =
     (let ch1 = (if IsLast frame
                 then ch\<lparr>endFrameNumber := FrameNumber frame, ch_closed := True\<rparr> else ch);
          ch2 = (if IsLast frame \<and> endFrameNumber ch1 < highestFrameNumber ch1
                 then (let (m, sz) = prune_inputs (ucast (endFrameNumber ch1)) (inputs ch1)
                                       (inputs ch1, ch_size ch1)
                       in ch1\<lparr>inputs := m, ch_size := sz,
                              highestFrameNumber := endFrameNumber ch1\<rparr>)
                 else ch1);
          ch3 = (if FrameNumber frame > highestFrameNumber ch2
                 then ch2\<lparr>highestFrameNumber := FrameNumber frame\<rparr> else ch2);
          ch4 = (if l1_Number (highestL1InclusionBlock ch3) < l1_Number l1InclusionBlock
                 then ch3\<lparr>highestL1InclusionBlock := l1InclusionBlock\<rparr> else ch3)
      in ch4\<lparr>inputs := AList.update (ucast (FrameNumber frame)) frame (inputs ch4),
             ch_size := ch_size ch4 + frameSize frame\<rparr>)"

text \<open>Every error is returned before the channel is changed: \<open>Inl\<close> means "unchanged".\<close>

definition AddFrame :: "channel \<Rightarrow> frame \<Rightarrow> l1_block_ref \<Rightarrow> channel result" where
  "AddFrame ch frame l1InclusionBlock =
     (if ID frame \<noteq> ch_id ch then Inl (Errorf ''frame id does not match channel id'')
      else if IsLast frame \<and> ch_closed ch
        then Inl (Errorf ''cannot add ending frame to a closed channel'')
      else if map_of (inputs ch) (ucast (FrameNumber frame)) \<noteq> None then Inl DuplicateErr
      else if ch_closed ch \<and> FrameNumber frame \<ge> endFrameNumber ch
        then Inl (Errorf ''frame number is greater than or equal to end frame number'')
      else Inr (accept_frame ch frame l1InclusionBlock))"

definition OpenBlockNumber :: "channel \<Rightarrow> u64" where
  "OpenBlockNumber ch = l1_Number (openBlock ch)"

definition Channel_Size :: "channel \<Rightarrow> u64" where
  "Channel_Size ch = ch_size ch"

text \<open>The loops \<open>for i := uint64(0); i <= uint64(endFrameNumber); i++\<close> run over these numbers; the
  bound is below \<open>2 ^ 16\<close>, so the counter does not wrap.\<close>

definition frame_indices :: "channel \<Rightarrow> u64 list" where
  "frame_indices ch = map of_nat [0..<Suc (unat (endFrameNumber ch))]"

definition IsReady :: "channel \<Rightarrow> bool" where
  "IsReady ch =
     (if \<not> ch_closed ch then False
      else if length (inputs ch) \<noteq> unat (endFrameNumber ch) + 1 then False
      else list_all (\<lambda>i. map_of (inputs ch) i \<noteq> None) (frame_indices ch))"

fun read_inputs :: "(u64, frame) gomap \<Rightarrow> u64 list \<Rightarrow> bytes result" where
  "read_inputs m [] = Inr []"
| "read_inputs m (i # is) =
     (case map_of m i of
        None \<Rightarrow> Inl (Panic ''dev error in channel.Reader'')
      | Some f \<Rightarrow> (case read_inputs m is of Inl e \<Rightarrow> Inl e | Inr r \<Rightarrow> Inr (Data f @ r)))"

definition Reader :: "channel \<Rightarrow> bytes result" where
  "Reader ch = read_inputs (inputs ch) (frame_indices ch)"

section \<open>The channel bank (channel_bank.go)\<close>

record channel_bank =
  cb_channels :: "(channel_id, channel) gomap"
  channelQueue :: "channel_id list"

definition NewChannelBank :: channel_bank where
  "NewChannelBank = \<lparr>cb_channels = [], channelQueue = []\<rparr>"

definition bank_total :: "(channel_id, channel) gomap \<Rightarrow> u64" where
  "bank_total m = foldl (\<lambda>t (i, ch). t + ch_size ch) 0 m"

function prune_loop :: "u64 \<Rightarrow> channel_bank \<Rightarrow> channel_bank result" where
  "prune_loop totalSize cb =
     (if totalSize > MaxChannelBankSize
      then (case channelQueue cb of
              [] \<Rightarrow> Inl (Panic ''index out of range'')
            | i # rest \<Rightarrow>
                (case map_of (cb_channels cb) i of
                   None \<Rightarrow> Inl (Panic ''nil pointer dereference'')
                 | Some ch \<Rightarrow>
                     prune_loop (totalSize - ch_size ch)
                       (cb\<lparr>channelQueue := rest, cb_channels := AList.delete i (cb_channels cb)\<rparr>)))
      else Inr cb)"
  by pat_completeness auto
termination
  by (relation "measure (\<lambda>(_, cb). length (channelQueue cb))") auto

declare prune_loop.simps [simp del]

definition ChannelBank_prune :: "channel_bank \<Rightarrow> channel_bank result" where
  "ChannelBank_prune cb = prune_loop (bank_total (cb_channels cb)) cb"

definition timed_out :: "config \<Rightarrow> channel \<Rightarrow> l1_block_ref \<Rightarrow> bool" where
  "timed_out cfg ch origin = (OpenBlockNumber ch + ChannelTimeout cfg < l1_Number origin)"

definition IngestFrame ::
  "config \<Rightarrow> l1_block_ref \<Rightarrow> channel_bank \<Rightarrow> frame \<Rightarrow> channel_bank result" where
  "IngestFrame cfg origin cb f =
     (let (cb1, currentCh) =
        (case map_of (cb_channels cb) (ID f) of
           Some ch \<Rightarrow> (cb, ch)
         | None \<Rightarrow>
             (let ch = NewChannel (ID f) origin
              in (cb\<lparr>cb_channels := AList.update (ID f) ch (cb_channels cb),
                     channelQueue := channelQueue cb @ [ID f]\<rparr>, ch)))
      in if timed_out cfg currentCh origin then Inr cb1
         else case AddFrame currentCh f origin of
                Inl _ \<Rightarrow> Inr cb1
              | Inr ch' \<Rightarrow>
                  ChannelBank_prune (cb1\<lparr>cb_channels := AList.update (ID f) ch' (cb_channels cb1)\<rparr>))"

definition ChannelBank_Read ::
  "config \<Rightarrow> l1_block_ref \<Rightarrow> channel_bank \<Rightarrow> channel_bank \<times> bytes result" where
  "ChannelBank_Read cfg origin cb =
     (case channelQueue cb of
        [] \<Rightarrow> (cb, Inl EOF)
      | first # rest \<Rightarrow>
          (case map_of (cb_channels cb) first of
             None \<Rightarrow> (cb, Inl (Panic ''nil pointer dereference''))
           | Some ch \<Rightarrow>
               let cb' = cb\<lparr>cb_channels := AList.delete first (cb_channels cb),
                            channelQueue := rest\<rparr>
               in if timed_out cfg ch origin then (cb', Inr [])
                  else if \<not> IsReady ch then (cb, Inl EOF)
                  else (cb', Reader ch)))"

definition ChannelBank_NextData ::
  "config \<Rightarrow> ('p \<Rightarrow> l1_block_ref) \<Rightarrow> ('p, frame) pull \<Rightarrow> ('p \<times> channel_bank, bytes) pull" where
  "ChannelBank_NextData cfg prevOrigin prevNextFrame = (\<lambda>(p, cb).
     case ChannelBank_Read cfg (prevOrigin p) cb of
       (cb1, Inr dat) \<Rightarrow> ((p, cb1), Inr dat)
     | (cb1, Inl e) \<Rightarrow>
         if e \<noteq> EOF then ((p, cb1), Inl e)
         else (case prevNextFrame p of
                 (p', Inl e') \<Rightarrow> ((p', cb1), Inl e')
               | (p', Inr f) \<Rightarrow>
                   (case IngestFrame cfg (prevOrigin p') cb1 f of
                      Inl e' \<Rightarrow> ((p', cb1), Inl e')
                    | Inr cb2 \<Rightarrow> ((p', cb2), Inl NotEnoughData))))"

definition ChannelBank_Reset :: "channel_bank \<Rightarrow> channel_bank \<times> error" where
  "ChannelBank_Reset cb = (cb\<lparr>cb_channels := [], channelQueue := []\<rparr>, EOF)"

section \<open>Invariant of a channel\<close>

definition inputs_size :: "(u64, frame) gomap \<Rightarrow> u64" where
  "inputs_size m = sum_list (map (\<lambda>(i, f). frameSize f) m)"

text \<open>The buffered frames are indexed by their numbers and belong to the channel. An open channel
  holds no closing frame; a closed one holds exactly one, at its end, and nothing beyond it.\<close>

definition input_ok :: "channel \<Rightarrow> u64 \<times> frame \<Rightarrow> bool" where
  "input_ok ch kf = (case kf of (k, f) \<Rightarrow>
     k = ucast (FrameNumber f) \<and> ID f = ch_id ch \<and> FrameNumber f \<le> highestFrameNumber ch \<and>
     (if ch_closed ch
      then FrameNumber f \<le> endFrameNumber ch \<and> (IsLast f = (FrameNumber f = endFrameNumber ch))
      else \<not> IsLast f))"

definition channel_inv :: "channel \<Rightarrow> bool" where
  "channel_inv ch =
     (gomap_ok (inputs ch) \<and> list_all (input_ok ch) (inputs ch) \<and>
      (ch_closed ch \<longrightarrow> map_of (inputs ch) (ucast (endFrameNumber ch)) \<noteq> None))"

lemma prune_inputs_eq:
  "prune_inputs e xs (m, sz) =
     (filter (\<lambda>(i, f). \<not> (i \<ge> e \<and> i \<in> fst ` set xs)) m, sz - inputs_size xs)"
proof (induction xs arbitrary: m sz)
  case Nil
  then show ?case by (simp add: inputs_size_def)
next
  case (Cons x xs)
  obtain i f where x: "x = (i, f)" by (cases x)
  show ?case
    by (auto simp: x Cons.IH inputs_size_def AList.delete_eq diff_diff_eq intro!: filter_cong)
qed

lemma prune_inputs_all:
  "prune_inputs e m (m, sz) = (filter (\<lambda>(i, f). i < e) m, sz - inputs_size m)"
  by (auto simp: prune_inputs_eq not_le intro!: filter_cong image_eqI [of _ fst])

lemma input_ok_frame:
  "channel_inv ch \<Longrightarrow> map_of (inputs ch) k = Some f \<Longrightarrow> input_ok ch (k, f)"
  by (auto simp: channel_inv_def list_all_iff dest!: map_of_SomeD)

lemma channel_inv_New [simp]: "channel_inv (NewChannel i b)"
  by (simp add: channel_inv_def NewChannel_def)

text \<open>What a successful \<open>AddFrame\<close> does, in closed form.\<close>

definition add_prunes :: "channel \<Rightarrow> frame \<Rightarrow> bool" where
  "add_prunes ch f = (IsLast f \<and> FrameNumber f < highestFrameNumber ch)"

definition kept_inputs :: "channel \<Rightarrow> frame \<Rightarrow> (u64, frame) gomap" where
  "kept_inputs ch f =
     (if add_prunes ch f then filter (\<lambda>(i, g). i < ucast (FrameNumber f)) (inputs ch)
      else inputs ch)"

lemma AddFrame_Inr:
  "AddFrame ch f b = Inr ch' \<longleftrightarrow>
     ID f = ch_id ch \<and> \<not> (IsLast f \<and> ch_closed ch) \<and>
     map_of (inputs ch) (ucast (FrameNumber f)) = None \<and>
     \<not> (ch_closed ch \<and> FrameNumber f \<ge> endFrameNumber ch) \<and> ch' = accept_frame ch f b"
  by (auto simp: AddFrame_def)

lemma accept_frame_simps [simp]:
  "ch_id (accept_frame ch f b) = ch_id ch"
  "ch_closed (accept_frame ch f b) = (ch_closed ch \<or> IsLast f)"
  "highestFrameNumber (accept_frame ch f b) =
     (if add_prunes ch f then FrameNumber f else max (highestFrameNumber ch) (FrameNumber f))"
  "endFrameNumber (accept_frame ch f b) = (if IsLast f then FrameNumber f else endFrameNumber ch)"
  "inputs (accept_frame ch f b) = AList.update (ucast (FrameNumber f)) f (kept_inputs ch f)"
  "ch_size (accept_frame ch f b) =
     (if add_prunes ch f then ch_size ch - inputs_size (inputs ch) else ch_size ch) + frameSize f"
  by (simp_all add: accept_frame_def Let_def prune_inputs_all add_prunes_def kept_inputs_def
      max_def less_imp_le)

lemma map_of_filter_fst: "map_of (filter (\<lambda>(i, g). P i) m) k = (if P k then map_of m k else None)"
  by (induction m) auto

lemma lookup_kept_inputs:
  "map_of (kept_inputs ch f) k =
     (if add_prunes ch f \<and> \<not> k < ucast (FrameNumber f) then None else map_of (inputs ch) k)"
  by (auto simp: kept_inputs_def map_of_filter_fst)

lemma set_kept_inputs: "set (kept_inputs ch f) \<subseteq> set (inputs ch)"
  by (auto simp: kept_inputs_def)

lemma channel_inv_iff:
  "channel_inv ch \<longleftrightarrow> gomap_ok (inputs ch) \<and>
     (\<forall>k f. map_of (inputs ch) k = Some f \<longrightarrow> input_ok ch (k, f)) \<and>
     (ch_closed ch \<longrightarrow> map_of (inputs ch) (ucast (endFrameNumber ch)) \<noteq> None)"
  by (auto simp: channel_inv_def list_all_iff gomap_ok_def)

lemma AddFrame_inv:
  assumes inv: "channel_inv ch" and add: "AddFrame ch f b = Inr ch'"
  shows "channel_inv ch'"
proof -
  from add have free: "map_of (inputs ch) (ucast (FrameNumber f)) = None"
    and guard: "\<not> (IsLast f \<and> ch_closed ch)" "\<not> (ch_closed ch \<and> FrameNumber f \<ge> endFrameNumber ch)"
    by (auto simp: AddFrame_Inr)
  have ok: "input_ok ch' (k, g)" if k: "map_of (inputs ch') k = Some g" for k g
  proof (cases "k = ucast (FrameNumber f)")
    case True
    with k add guard show ?thesis
      by (auto simp: AddFrame_Inr input_ok_def)
  next
    case False
    with k add have old: "map_of (inputs ch) k = Some g"
      and kept: "add_prunes ch f \<longrightarrow> k < ucast (FrameNumber f)"
      by (auto simp: AddFrame_Inr lookup_kept_inputs split: if_splits)
    from old inv have g: "input_ok ch (k, g)" by (rule input_ok_frame [rotated])
    with False have "FrameNumber g \<noteq> FrameNumber f" by (auto simp: input_ok_def)
    with g kept add guard show ?thesis
      by (auto simp: AddFrame_Inr input_ok_def add_prunes_def not_less split: if_splits)
  qed
  have "gomap_ok (inputs ch')"
    using inv add by (auto simp: AddFrame_Inr channel_inv_def kept_inputs_def)
  moreover have "map_of (inputs ch') (ucast (endFrameNumber ch')) \<noteq> None" if "ch_closed ch'"
    using that inv add
    by (auto simp: AddFrame_Inr channel_inv_def lookup_kept_inputs add_prunes_def)
  ultimately show ?thesis using ok by (simp add: channel_inv_iff)
qed

section \<open>Reading a channel\<close>

lemma read_inputs_ok:
  "list_all (\<lambda>i. map_of m i \<noteq> None) is \<Longrightarrow>
   read_inputs m is = Inr (concat (map (\<lambda>i. Data (the (map_of m i))) is))"
  by (induction "is") auto

lemma IsReady_Reader:
  "IsReady ch \<Longrightarrow>
   Reader ch = Inr (concat (map (\<lambda>i. Data (the (map_of (inputs ch) i))) (frame_indices ch)))"
  by (auto simp: IsReady_def Reader_def read_inputs_ok split: if_splits)

text \<open>A channel's frames handed in one after the other; a frame that \<open>AddFrame\<close> refuses is ignored,
  as \<open>IngestFrame\<close> does.\<close>

definition add_or_ignore :: "l1_block_ref \<Rightarrow> channel \<Rightarrow> frame \<Rightarrow> channel" where
  "add_or_ignore b ch f = (case AddFrame ch f b of Inl _ \<Rightarrow> ch | Inr ch' \<Rightarrow> ch')"

text \<open>The frames of a complete channel: numbered from 0, only the last one closes it.\<close>

definition complete_channel :: "channel_id \<Rightarrow> frame list \<Rightarrow> bool" where
  "complete_channel i fs =
     (fs \<noteq> [] \<and> length fs \<le> 65536 \<and>
      list_all (\<lambda>n. ID (fs ! n) = i \<and> FrameNumber (fs ! n) = of_nat n \<and>
                     IsLast (fs ! n) = (n = length fs - 1)) [0..<length fs])"

lemma complete_channel_nth:
  assumes "complete_channel i fs" and "n < length fs"
  shows "ID (fs ! n) = i \<and> unat (FrameNumber (fs ! n)) = n \<and>
     IsLast (fs ! n) = (n = length fs - 1)"
proof -
  have "ID (fs ! n) = i" "FrameNumber (fs ! n) = of_nat n"
    "IsLast (fs ! n) = (n = length fs - 1)" "n < 65536"
    using assms unfolding complete_channel_def list_all_iff by auto
  then show ?thesis by (simp add: unat_of_nat)
qed

lemma complete_channel_unique:
  assumes "complete_channel i fs" "f \<in> set fs" "g \<in> set fs" "FrameNumber f = FrameNumber g"
  shows "f = g"
proof -
  obtain m n where m: "m < length fs" "f = fs ! m" and n: "n < length fs" "g = fs ! n"
    using assms(2,3) by (auto simp: in_set_conv_nth)
  have "unat (FrameNumber f) = m" "unat (FrameNumber g) = n"
    using complete_channel_nth [OF assms(1) m(1)] complete_channel_nth [OF assms(1) n(1)] m(2) n(2)
    by auto
  then have "m = n" using assms(4) by auto
  then show ?thesis unfolding m(2) n(2) by (rule arg_cong)
qed

text \<open>The state of a channel that has seen the frames \<open>seen\<close> of the complete list \<open>fs\<close>.\<close>

definition partial_state :: "channel_id \<Rightarrow> frame list \<Rightarrow> frame set \<Rightarrow> channel \<Rightarrow> bool" where
  "partial_state i fs seen ch \<longleftrightarrow>
     ch_id ch = i \<and> gomap_ok (inputs ch) \<and>
     (\<forall>k f. map_of (inputs ch) k = Some f \<longleftrightarrow> f \<in> seen \<and> k = ucast (FrameNumber f)) \<and>
     (ch_closed ch \<longleftrightarrow> (\<exists>f\<in>seen. IsLast f)) \<and>
     (ch_closed ch \<longrightarrow> unat (endFrameNumber ch) = length fs - 1) \<and>
     unat (highestFrameNumber ch) \<le> length fs - 1"

lemma partial_state_step:
  assumes fs: "complete_channel i fs" and st: "partial_state i fs seen ch"
    and seen: "seen \<subseteq> set fs" and f: "f \<in> set fs"
  shows "partial_state i fs (insert f seen) (add_or_ignore b ch f)"
proof (cases "f \<in> seen")
  case True
  then have "map_of (inputs ch) (ucast (FrameNumber f)) \<noteq> None"
    using st by (auto simp: partial_state_def)
  then have "add_or_ignore b ch f = ch"
    by (auto simp: add_or_ignore_def AddFrame_def Let_def)
  with True st show ?thesis by (simp add: insert_absorb)
next
  case False
  obtain n where n: "n < length fs" "f = fs ! n" using f by (auto simp: in_set_conv_nth)
  note fn = complete_channel_nth [OF fs n(1), folded n(2)]
  have last: "\<not> (IsLast f \<and> ch_closed ch)"
  proof
    assume "IsLast f \<and> ch_closed ch"
    then obtain g where g: "g \<in> seen" "IsLast g" and "IsLast f" using st
      by (auto simp: partial_state_def)
    with seen obtain m where "m < length fs" "g = fs ! m" by (metis in_set_conv_nth subsetD)
    with g \<open>IsLast f\<close> fn n complete_channel_nth [OF fs, of m] have "g = f" by simp
    with False g show False by simp
  qed
  have fresh: "\<forall>g\<in>seen. FrameNumber g \<noteq> FrameNumber f"
    using False seen f fs by (metis complete_channel_unique subsetD)
  then have free: "map_of (inputs ch) (ucast (FrameNumber f)) = None"
    using st by (cases "map_of (inputs ch) (ucast (FrameNumber f))") (auto simp: partial_state_def)
  have below: "\<not> (ch_closed ch \<and> FrameNumber f \<ge> endFrameNumber ch)"
    using st fn last n by (auto simp: partial_state_def word_le_nat_alt)
  have noprune: "\<not> add_prunes ch f"
    using st fn n by (auto simp: partial_state_def add_prunes_def word_less_nat_alt)
  have ex: "\<exists>ch'. AddFrame ch f b = Inr ch'"
    using fn st last free below by (auto simp: AddFrame_Inr partial_state_def)
  then obtain ch' where ch': "AddFrame ch f b = Inr ch'" ..
  then have "add_or_ignore b ch f = ch'" by (simp add: add_or_ignore_def)
  moreover have "map_of (inputs ch') k = Some g \<longleftrightarrow> g \<in> insert f seen \<and> k = ucast (FrameNumber g)"
    for k g
    using ch' st noprune fresh by (auto simp: AddFrame_Inr partial_state_def kept_inputs_def)
  moreover have "unat (highestFrameNumber ch') \<le> length fs - 1"
    using ch' st fn n noprune by (auto simp: AddFrame_Inr partial_state_def max_def)
  moreover have "ch_id ch' = i" "gomap_ok (inputs ch')"
    "ch_closed ch' \<longleftrightarrow> (\<exists>g\<in>insert f seen. IsLast g)"
    "ch_closed ch' \<longrightarrow> unat (endFrameNumber ch') = length fs - 1"
    using ch' st fn n noprune by (auto simp: AddFrame_Inr partial_state_def kept_inputs_def)
  ultimately show ?thesis by (simp add: partial_state_def)
qed

lemma partial_state_fold:
  assumes fs: "complete_channel i fs"
  shows "partial_state i fs seen ch \<Longrightarrow> seen \<subseteq> set fs \<Longrightarrow> set gs \<subseteq> set fs \<Longrightarrow>
     partial_state i fs (seen \<union> set gs) (foldl (add_or_ignore b) ch gs)"
proof (induction gs arbitrary: seen ch)
  case Nil
  then show ?case by simp
next
  case (Cons f gs)
  from Cons.prems have "partial_state i fs (insert f seen) (add_or_ignore b ch f)"
    by (intro partial_state_step [OF fs]) auto
  with Cons.prems have "partial_state i fs (insert f seen \<union> set gs)
      (foldl (add_or_ignore b) (add_or_ignore b ch f) gs)"
    by (intro Cons.IH) auto
  then show ?case by simp
qed

lemma complete_channel_index:
  assumes "complete_channel i fs" "n < length fs"
  shows "ucast (FrameNumber (fs ! n)) = (of_nat n :: u64)"
proof -
  have "n < 65536" using assms by (simp add: complete_channel_def)
  then show ?thesis
    using complete_channel_nth [OF assms]
    by (simp add: word_unat_eq_iff unat_ucast_widen unat_of_nat)
qed

lemma partial_state_complete:
  assumes fs: "complete_channel i fs" and st: "partial_state i fs (set fs) ch"
  shows "IsReady ch \<and> Reader ch = Inr (concat (map Data fs))"
proof -
  have ne: "fs \<noteq> []" using fs by (simp add: complete_channel_def)
  have closed: "ch_closed ch"
    using ne st complete_channel_nth [OF fs, of "length fs - 1"]
    by (auto simp: partial_state_def intro!: bexI [of _ "fs ! (length fs - 1)"])
  then have idx: "frame_indices ch = map of_nat [0..<length fs]"
    using st ne by (simp add: frame_indices_def partial_state_def)
  have lookup: "map_of (inputs ch) (of_nat n) = Some (fs ! n)" if "n < length fs" for n
    using that st complete_channel_index [OF fs that] by (simp add: partial_state_def)
  have dom: "dom (map_of (inputs ch)) = (\<lambda>f. ucast (FrameNumber f)) ` set fs"
    using st by (auto simp: partial_state_def)
  have "card (dom (map_of (inputs ch))) = card (set fs)"
    unfolding dom using complete_channel_unique [OF fs] by (intro card_image inj_onI) auto
  moreover have "distinct fs"
    unfolding distinct_conv_nth using complete_channel_nth [OF fs] by metis
  ultimately have len: "length (inputs ch) = length fs"
    using st by (simp add: partial_state_def gomap_ok_card distinct_card)
  have "list_all (\<lambda>k. map_of (inputs ch) k \<noteq> None) (frame_indices ch)"
    by (simp add: idx list_all_iff lookup)
  then have ready: "IsReady ch"
    using closed st ne by (simp add: IsReady_def len partial_state_def)
  have "map (\<lambda>k. Data (the (map_of (inputs ch) k))) (frame_indices ch) = map Data fs"
    by (rule nth_equalityI) (simp_all add: idx lookup)
  then show ?thesis using ready IsReady_Reader [OF ready] by simp
qed

section \<open>Invariant of the channel bank\<close>

definition bank_inv :: "channel_bank \<Rightarrow> bool" where
  "bank_inv cb =
     (gomap_ok (cb_channels cb) \<and> distinct (channelQueue cb) \<and>
      set (channelQueue cb) = fst ` set (cb_channels cb) \<and>
      list_all (\<lambda>(i, ch). ch_id ch = i \<and> channel_inv ch) (cb_channels cb))"

lemma bank_inv_iff:
  "bank_inv cb \<longleftrightarrow> gomap_ok (cb_channels cb) \<and> distinct (channelQueue cb) \<and>
     set (channelQueue cb) = dom (map_of (cb_channels cb)) \<and>
     (\<forall>i ch. map_of (cb_channels cb) i = Some ch \<longrightarrow> ch_id ch = i \<and> channel_inv ch)"
  by (auto simp: bank_inv_def list_all_iff gomap_ok_def dom_map_of_conv_image_fst)

lemma bank_inv_New [simp]: "bank_inv NewChannelBank"
  by (simp add: bank_inv_def NewChannelBank_def)

lemma bank_inv_pop:
  "bank_inv cb \<Longrightarrow> channelQueue cb = i # rest \<Longrightarrow>
   bank_inv (cb\<lparr>channelQueue := rest, cb_channels := AList.delete i (cb_channels cb)\<rparr>) \<and>
   bank_inv (cb\<lparr>cb_channels := AList.delete i (cb_channels cb), channelQueue := rest\<rparr>)"
  by (auto simp: bank_inv_iff)

lemma bank_inv_head:
  "bank_inv cb \<Longrightarrow> channelQueue cb = i # rest \<Longrightarrow> \<exists>ch. map_of (cb_channels cb) i = Some ch"
  by (auto simp: bank_inv_iff)

lemma bank_total_eq: "bank_total m = sum_list (map (\<lambda>(i, ch). ch_size ch) m)"
proof -
  have "foldl (\<lambda>t (i, ch). t + ch_size ch) a m = a + sum_list (map (\<lambda>(i, ch). ch_size ch) m)" for a
    by (induction m arbitrary: a) (auto simp: add.assoc)
  then show ?thesis by (simp add: bank_total_def)
qed

lemma bank_total_delete:
  "gomap_ok m \<Longrightarrow> map_of m i = Some ch \<Longrightarrow> bank_total (AList.delete i m) = bank_total m - ch_size ch"
proof (induction m)
  case Nil
  then show ?case by simp
next
  case (Cons x m)
  obtain j c where x: "x = (j, c)" by (cases x)
  show ?case
  proof (cases "j = i")
    case True
    with Cons.prems x have "i \<notin> fst ` set m" "c = ch" by (auto simp: gomap_ok_def)
    then show ?thesis using x True by (simp add: bank_total_eq)
  next
    case False
    with Cons x have "bank_total (AList.delete i m) = bank_total m - ch_size ch"
      by (simp add: gomap_ok_def)
    then show ?thesis using x False by (simp add: bank_total_eq add_diff_eq)
  qed
qed

text \<open>The eviction loop never panics: the running total is the size of what is left (modulo
  \<open>2 ^ 64\<close>), so the queue cannot run empty before the loop ends.\<close>

lemma prune_loop_ok:
  "bank_inv cb \<Longrightarrow> t = bank_total (cb_channels cb) \<Longrightarrow>
   \<exists>cb'. prune_loop t cb = Inr cb' \<and> bank_inv cb' \<and> bank_total (cb_channels cb') \<le> MaxChannelBankSize \<and>
     (\<exists>evicted. channelQueue cb = evicted @ channelQueue cb' \<and>
        (\<forall>i. map_of (cb_channels cb') i =
           (if i \<in> set evicted then None else map_of (cb_channels cb) i)))"
proof (induction t cb rule: prune_loop.induct)
  case (1 t cb)
  show ?case
  proof (cases "t > MaxChannelBankSize")
    case False
    with "1.prems" show ?thesis
      by (intro exI [of _ cb]) (auto simp: prune_loop.simps not_less intro!: exI [of _ "[]"])
  next
    case True
    have "channelQueue cb \<noteq> []"
      using True "1.prems" by (auto simp: bank_inv_def bank_total_eq)
    then obtain i rest where q: "channelQueue cb = i # rest" by (cases "channelQueue cb") auto
    obtain ch where ch: "map_of (cb_channels cb) i = Some ch"
      using bank_inv_head [OF "1.prems"(1) q] by blast
    let ?cb = "cb\<lparr>channelQueue := rest, cb_channels := AList.delete i (cb_channels cb)\<rparr>"
    have "bank_inv ?cb" using bank_inv_pop [OF "1.prems"(1) q] ..
    moreover have "t - ch_size ch = bank_total (cb_channels ?cb)"
      using "1.prems" ch by (simp add: bank_total_delete bank_inv_def)
    ultimately obtain cb' ev where cb': "prune_loop (t - ch_size ch) ?cb = Inr cb'" "bank_inv cb'"
      "bank_total (cb_channels cb') \<le> MaxChannelBankSize" "rest = ev @ channelQueue cb'"
      "\<forall>j. map_of (cb_channels cb') j =
         (if j \<in> set ev then None else map_of (cb_channels ?cb) j)"
      using "1.IH" [OF True q ch] by auto
    have "prune_loop t cb = Inr cb'"
      using True q ch cb'(1) by (simp add: prune_loop.simps [of t])
    then show ?thesis
      using cb' q by (intro exI [of _ cb'] conjI exI [of _ "i # ev"]) auto
  qed
qed

lemma ChannelBank_prune_ok:
  "bank_inv cb \<Longrightarrow> \<exists>cb'. ChannelBank_prune cb = Inr cb' \<and> bank_inv cb' \<and>
     bank_total (cb_channels cb') \<le> MaxChannelBankSize \<and>
     (\<exists>evicted. channelQueue cb = evicted @ channelQueue cb' \<and>
        (\<forall>i. map_of (cb_channels cb') i =
           (if i \<in> set evicted then None else map_of (cb_channels cb) i)))"
  unfolding ChannelBank_prune_def by (rule prune_loop_ok) auto

lemma bank_inv_open:
  "bank_inv cb \<Longrightarrow> map_of (cb_channels cb) i = None \<Longrightarrow>
   bank_inv (cb\<lparr>cb_channels := AList.update i (NewChannel i b) (cb_channels cb),
                channelQueue := channelQueue cb @ [i]\<rparr>)"
  by (auto simp: bank_inv_iff NewChannel_def channel_inv_def split: if_splits)

lemma bank_inv_replace:
  "bank_inv cb \<Longrightarrow> map_of (cb_channels cb) i = Some ch \<Longrightarrow> ch_id ch' = i \<Longrightarrow> channel_inv ch' \<Longrightarrow>
   bank_inv (cb\<lparr>cb_channels := AList.update i ch' (cb_channels cb)\<rparr>)"
  by (auto simp: bank_inv_iff insert_absorb split: if_splits)

lemma IngestFrame_ok:
  assumes inv: "bank_inv cb"
  shows "\<exists>cb'. IngestFrame cfg origin cb f = Inr cb' \<and> bank_inv cb'"
proof -
  define new where "new = (case map_of (cb_channels cb) (ID f) of
      Some ch \<Rightarrow> (cb, ch)
    | None \<Rightarrow> (cb\<lparr>cb_channels := AList.update (ID f) (NewChannel (ID f) origin) (cb_channels cb),
                channelQueue := channelQueue cb @ [ID f]\<rparr>, NewChannel (ID f) origin))"
  obtain cb1 ch where new: "new = (cb1, ch)" by (cases new)
  have cb1: "bank_inv cb1" "map_of (cb_channels cb1) (ID f) = Some ch"
    using inv new bank_inv_open [OF inv, of "ID f" origin]
    by (auto simp: new_def split: option.splits)
  have ing: "IngestFrame cfg origin cb f =
      (if timed_out cfg ch origin then Inr cb1
       else case AddFrame ch f origin of Inl _ \<Rightarrow> Inr cb1
            | Inr ch' \<Rightarrow>
                ChannelBank_prune (cb1\<lparr>cb_channels := AList.update (ID f) ch' (cb_channels cb1)\<rparr>))"
    using new by (auto simp: IngestFrame_def new_def Let_def split: option.splits)
  show ?thesis
  proof (cases "AddFrame ch f origin")
    case (Inl e)
    then show ?thesis using ing cb1 by auto
  next
    case (Inr ch')
    from cb1 have "ch_id ch = ID f" "channel_inv ch" by (auto simp: bank_inv_iff)
    with Inr have "channel_inv ch'" "ch_id ch' = ID f"
      by (auto simp: AddFrame_inv) (auto simp: AddFrame_Inr)
    with cb1 have "bank_inv (cb1\<lparr>cb_channels := AList.update (ID f) ch' (cb_channels cb1)\<rparr>)"
      by (intro bank_inv_replace)
    then show ?thesis using ing Inr cb1 ChannelBank_prune_ok by fastforce
  qed
qed

lemma ChannelBank_Read_ok:
  assumes "bank_inv cb" "ChannelBank_Read cfg origin cb = (cb', r)"
  shows "bank_inv cb' \<and> (r = Inl EOF \<or> (\<exists>d. r = Inr d))"
proof (cases "channelQueue cb")
  case Nil
  with assms show ?thesis by (simp add: ChannelBank_Read_def)
next
  case (Cons i rest)
  obtain ch where "map_of (cb_channels cb) i = Some ch"
    using bank_inv_head [OF assms(1) Cons] by blast
  with Cons assms bank_inv_pop [OF assms(1) Cons] show ?thesis
    by (auto simp: ChannelBank_Read_def Let_def IsReady_Reader split: if_splits)
qed

text \<open>A channel bank on top of a stage is again a stage.\<close>

locale NextFrameProvider = stage inv pull
  for inv :: "'p \<Rightarrow> bool" and pull :: "('p, frame) pull"
begin

lemma NextData_ok:
  assumes "inv p" "bank_inv cb"
    and "ChannelBank_NextData cfg orig pull (p, cb) = ((p', cb'), r)"
  shows "inv p' \<and> bank_inv cb' \<and> (\<forall>e. r = Inl e \<longrightarrow> \<not> is_panic e)"
proof -
  obtain cb1 r1 where rd: "ChannelBank_Read cfg (orig p) cb = (cb1, r1)"
    by (cases "ChannelBank_Read cfg (orig p) cb")
  note ok = ChannelBank_Read_ok [OF assms(2) rd]
  show ?thesis
  proof (cases r1)
    case (Inr d)
    with rd ok assms show ?thesis by (auto simp: ChannelBank_NextData_def)
  next
    case (Inl e)
    with ok have "e = EOF" by simp
    from assms(1) show ?thesis
    proof (cases rule: pull_cases)
      case (ok p1 f)
      obtain cb2 where "IngestFrame cfg (orig p1) cb1 f = Inr cb2" "bank_inv cb2"
        using IngestFrame_ok ChannelBank_Read_ok [OF assms(2) rd] by blast
      with ok rd Inl \<open>e = EOF\<close> assms show ?thesis by (auto simp: ChannelBank_NextData_def)
    next
      case (err p1 e1)
      with rd Inl \<open>e = EOF\<close> ChannelBank_Read_ok [OF assms(2) rd] assms show ?thesis
        by (auto simp: ChannelBank_NextData_def)
    qed
  qed
qed

lemma ChannelBank_stage:
  "stage (\<lambda>(p, cb). inv p \<and> bank_inv cb) (ChannelBank_NextData cfg orig pull)"
  by unfold_locales (auto dest: NextData_ok simp: split_beta prod_eq_iff)

end

section \<open>Properties\<close>

lemma partial_state_New: "partial_state i fs {} (NewChannel i b0)"
  by (simp add: partial_state_def NewChannel_def)

lemma partial_state_gs:
  assumes "complete_channel i fs" and "set gs \<subseteq> set fs"
  shows "partial_state i fs (set gs) (foldl (add_or_ignore b) (NewChannel i b0) gs)"
  using partial_state_fold [OF assms(1) partial_state_New, of gs b] assms(2) by simp

lemma reassemble:
  assumes "complete_channel i fs" and "set gs = set fs"
  shows "IsReady (foldl (add_or_ignore b) (NewChannel i b0) gs) \<and>
     Reader (foldl (add_or_ignore b) (NewChannel i b0) gs) = Inr (concat (map Data fs))"
  using partial_state_gs [OF assms(1), of gs] assms(2) by (auto intro!: partial_state_complete [OF assms(1)])

text \<open>Frames for the witnesses.\<close>

definition ex_frame :: "nat \<Rightarrow> bytes \<Rightarrow> bool \<Rightarrow> frame" where
  "ex_frame n d l = \<lparr>ID = replicate 16 1, FrameNumber = of_nat n, Data = d, IsLast = l\<rparr>"

definition ex_channel :: "frame list \<Rightarrow> channel" where
  "ex_channel fs = foldl (add_or_ignore zero_l1_ref) (NewChannel (replicate 16 1) zero_l1_ref) fs"

text \<open>C4: frames of a complete channel may arrive in any order and any number of times. Once each of
  them has been handed to the channel, the channel is ready, and reading it gives the data of
  the frames in the order of their numbers.\<close>

theorem channel_reassembly:
  assumes "complete_channel i fs" and "set gs = set fs"
  shows "IsReady (foldl (add_or_ignore b) (NewChannel i b0) gs) \<and>
     Reader (foldl (add_or_ignore b) (NewChannel i b0) gs) = Inr (concat (map Data fs))"
  using reassemble [OF assms] .

theorem channel_reassembly_witness:
  "IsReady (ex_channel [ex_frame 1 [3] True, ex_frame 0 [1, 2] False, ex_frame 1 [3] True]) \<and>
   Reader (ex_channel [ex_frame 1 [3] True, ex_frame 0 [1, 2] False, ex_frame 1 [3] True]) =
     Inr [1, 2, 3]"
proof -
  have "complete_channel (replicate 16 1) [ex_frame 0 [1, 2] False, ex_frame 1 [3] True]"
    by (simp add: complete_channel_def ex_frame_def upt_conv_Cons)
  moreover have "set [ex_frame 1 [3] True, ex_frame 0 [1, 2] False, ex_frame 1 [3] True] =
      set [ex_frame 0 [1, 2] False, ex_frame 1 [3] True]"
    by auto
  ultimately have "IsReady (ex_channel [ex_frame 1 [3] True, ex_frame 0 [1, 2] False,
        ex_frame 1 [3] True]) \<and>
      Reader (ex_channel [ex_frame 1 [3] True, ex_frame 0 [1, 2] False, ex_frame 1 [3] True]) =
        Inr (concat (map Data [ex_frame 0 [1, 2] False, ex_frame 1 [3] True]))"
    unfolding ex_channel_def by (rule channel_reassembly)
  then show ?thesis by (simp add: ex_frame_def)
qed

text \<open>a channel keeps its invariant: whatever \<open>AddFrame\<close> accepts, the buffered frames stay indexed
  by their own numbers, at most one of them closes the channel, and none lies beyond it; and a
  channel that \<open>IsReady\<close> reports ready can be read without a panic.\<close>

theorem channel_add_read_safe:
  assumes "channel_inv ch"
  shows "(AddFrame ch f b = Inr ch' \<longrightarrow> channel_inv ch') \<and>
     (IsReady ch \<longrightarrow> (\<exists>d. Reader ch = Inr d))"
  using assms AddFrame_inv IsReady_Reader by blast

theorem channel_add_read_safe_witness:
  "channel_inv (ex_channel [ex_frame 0 [7] True]) \<and>
   (\<exists>d. Reader (ex_channel [ex_frame 0 [7] True]) = Inr d)"
proof -
  have "channel_inv (ex_channel [ex_frame 0 [7] True])" "IsReady (ex_channel [ex_frame 0 [7] True])"
    by code_simp+
  then show ?thesis using channel_add_read_safe [of "ex_channel [ex_frame 0 [7] True]"] by blast
qed

text \<open>the size that a channel accounts for. Without pruning a frame adds its own size; when a
  closing frame prunes the channel, the code subtracts the size of every buffered frame, the kept
  ones included, so that the size afterwards is that of the closing frame alone.\<close>

theorem AddFrame_size:
  assumes "channel_inv ch" and "ch_size ch = inputs_size (inputs ch)"
    and "AddFrame ch f b = Inr ch'"
  shows "ch_size ch' = (if IsLast f \<and> FrameNumber f < highestFrameNumber ch then frameSize f
                        else inputs_size (inputs ch) + frameSize f)"
  using assms by (auto simp: AddFrame_Inr add_prunes_def)

text \<open>Frames 0 and 3 are buffered and frame 1 closes the channel: frame 0 stays, yet the accounted
  size is that of frame 1 only.\<close>

theorem AddFrame_size_witness:
  "\<exists>ch'. AddFrame (ex_channel [ex_frame 0 [7] False, ex_frame 3 [8] False])
           (ex_frame 1 [9, 9] True) zero_l1_ref = Inr ch' \<and>
     ch_size ch' = 202 \<and> inputs_size (inputs ch') = 403"
proof -
  let ?ch = "ex_channel [ex_frame 0 [7] False, ex_frame 3 [8] False]"
  let ?f = "ex_frame 1 [9, 9] True"
  obtain ch' where add: "AddFrame ?ch ?f zero_l1_ref = Inr ch'"
    and sz: "inputs_size (inputs ch') = 403"
  proof -
    have "(case AddFrame ?ch ?f zero_l1_ref of Inl _ \<Rightarrow> False
           | Inr c \<Rightarrow> inputs_size (inputs c) = 403)" by code_simp
    then show ?thesis using that by (auto split: sum.splits)
  qed
  have "channel_inv ?ch" "ch_size ?ch = inputs_size (inputs ?ch)" by code_simp+
  from AddFrame_size [OF this add]
  have "ch_size ch' = (if IsLast ?f \<and> FrameNumber ?f < highestFrameNumber ?ch then frameSize ?f
                       else inputs_size (inputs ?ch) + frameSize ?f)" .
  also have "\<dots> = 202" by code_simp
  finally show ?thesis using add sz by blast
qed

text \<open>C6: with its invariant, the channel bank never panics: a frame is always ingested, eviction ends
  with the bank within its limit and removes channels from the front of the queue only, and
  reading the head either yields data or reports that there is nothing to read.\<close>

theorem channel_bank_safe:
  assumes "bank_inv cb"
  shows "(\<exists>cb1. IngestFrame cfg origin cb f = Inr cb1 \<and> bank_inv cb1) \<and>
     (\<exists>cb2 evicted. ChannelBank_prune cb = Inr cb2 \<and> bank_inv cb2 \<and>
        bank_total (cb_channels cb2) \<le> MaxChannelBankSize \<and>
        channelQueue cb = evicted @ channelQueue cb2) \<and>
     (\<exists>cb3 r. ChannelBank_Read cfg origin cb = (cb3, r) \<and> bank_inv cb3 \<and>
        (r = Inl EOF \<or> (\<exists>d. r = Inr d)))"
  using IngestFrame_ok [OF assms] ChannelBank_prune_ok [OF assms] ChannelBank_Read_ok [OF assms]
  by (meson surj_pair)

theorem channel_bank_safe_witness:
  "\<exists>cb1. IngestFrame example_cfg zero_l1_ref NewChannelBank (ex_frame 0 [7] True) = Inr cb1 \<and>
     bank_inv cb1"
  using channel_bank_safe [OF bank_inv_New] by blast

end
