(* ===== verification/Batches.thy ===== *)
theory Batches
  imports Channels
begin

text \<open>
  Batches: their typed encoding (\<open>op-node/rollup/derive/batch.go\<close>), the validity rules
  (\<open>batches.go\<close>), the reader that takes batches out of a channel (\<open>channel_in_reader.go\<close> and
  \<open>BatchReader\<close> of \<open>channel.go\<close>) and the queue that orders batches, filters them and forces empty ones
  when the sequencing window is over (\<open>batch_queue.go\<close>).
\<close>

section \<open>Batches (batch.go)\<close>

record batch_data =
  b_ParentHash :: hash
  EpochNum :: u64
  EpochHash :: hash
  Timestamp :: u64
  Transactions :: "bytes list"

definition BatchV1Type :: byte where
  "BatchV1Type = 0"

definition Epoch :: "batch_data \<Rightarrow> block_id" where
  "Epoch b = \<lparr>Hash = EpochHash b, Number = EpochNum b\<rparr>"

text \<open>The RLP library is a parameter: \<open>rlpEncode\<close> encodes the struct \<open>BatchV1\<close>, \<open>rlpDecode\<close> is
  \<open>rlp.DecodeBytes\<close> into it, \<open>rlpString\<close> writes a byte string.\<close>

definition encodeTyped :: "(batch_data \<Rightarrow> bytes) \<Rightarrow> batch_data \<Rightarrow> bytes" where
  "encodeTyped rlpEncode b = BatchV1Type # rlpEncode b"

definition Batch_EncodeRLP :: "(bytes \<Rightarrow> bytes) \<Rightarrow> (batch_data \<Rightarrow> bytes) \<Rightarrow> batch_data \<Rightarrow> bytes" where
  "Batch_EncodeRLP rlpString rlpEncode b = rlpString (encodeTyped rlpEncode b)"

definition Batch_MarshalBinary :: "(batch_data \<Rightarrow> bytes) \<Rightarrow> batch_data \<Rightarrow> bytes" where
  "Batch_MarshalBinary rlpEncode b = encodeTyped rlpEncode b"

definition decodeTyped :: "(bytes \<Rightarrow> batch_data result) \<Rightarrow> bytes \<Rightarrow> batch_data result" where
  "decodeTyped rlpDecode dat =
     (case dat of
        [] \<Rightarrow> Inl (Errorf ''batch too short'')
      | t # rest \<Rightarrow>
          if t = BatchV1Type then rlpDecode rest
          else Inl (Errorf ''unrecognized batch type''))"

definition Batch_UnmarshalBinary ::
  "(bytes \<Rightarrow> batch_data result) \<Rightarrow> bytes \<Rightarrow> batch_data result" where
  "Batch_UnmarshalBinary rlpDecode dat = decodeTyped rlpDecode dat"

text \<open>\<open>DecodeRLP\<close> takes the next byte string from the RLP stream, whose state is \<open>'s\<close>.\<close>

definition Batch_DecodeRLP ::
  "('s \<Rightarrow> 's \<times> bytes result) \<Rightarrow> (bytes \<Rightarrow> batch_data result) \<Rightarrow> 's \<Rightarrow> 's \<times> batch_data result" where
  "Batch_DecodeRLP streamBytes rlpDecode s =
     (case streamBytes s of
        (s', Inl e) \<Rightarrow> (s', Inl e)
      | (s', Inr v) \<Rightarrow> (s', decodeTyped rlpDecode v))"

section \<open>Validity of batches (batches.go)\<close>

record batch_with_inclusion =
  L1InclusionBlock :: l1_block_ref
  Batch :: batch_data

datatype batch_validity = BatchDrop | BatchAccept | BatchUndecided | BatchFuture

fun check_txs :: "bytes list \<Rightarrow> batch_validity" where
  "check_txs [] = BatchAccept"
| "check_txs (txBytes # rest) =
     (case txBytes of
        [] \<Rightarrow> BatchDrop
      | t # _ \<Rightarrow> if t = DepositTxType then BatchDrop else check_txs rest)"

text \<open>The checks that follow once the batch origin is known.\<close>

definition check_origin ::
  "config \<Rightarrow> l1_block_ref list \<Rightarrow> l1_block_ref \<Rightarrow> l1_block_ref \<Rightarrow> batch_data \<Rightarrow> batch_validity" where
  "check_origin cfg l1Blocks epoch batchOrigin b =
     (if EpochHash b \<noteq> l1_Hash batchOrigin then BatchDrop
      else if Timestamp b < l1_Time batchOrigin then BatchDrop
      else if Timestamp b > l1_Time batchOrigin + MaxSequencerDrift cfg
        then (if Transactions b = []
              then (if l1_Number epoch = l1_Number batchOrigin
                    then (case l1Blocks of
                            _ # nextOrigin # _ \<Rightarrow>
                              if Timestamp b \<ge> l1_Time nextOrigin then BatchDrop
                              else check_txs (Transactions b)
                          | _ \<Rightarrow> BatchUndecided)
                    else check_txs (Transactions b))
              else BatchDrop)
      else check_txs (Transactions b))"

definition CheckBatch ::
  "config \<Rightarrow> l1_block_ref list \<Rightarrow> l2_block_ref \<Rightarrow> batch_with_inclusion \<Rightarrow> batch_validity" where
  "CheckBatch cfg l1Blocks l2SafeHead batch =
     (case l1Blocks of
        [] \<Rightarrow> BatchUndecided
      | epoch # others \<Rightarrow>
          let b = Batch batch; nextTimestamp = l2_Time l2SafeHead + BlockTime cfg in
          if Timestamp b > nextTimestamp then BatchFuture
          else if Timestamp b < nextTimestamp then BatchDrop
          else if b_ParentHash b \<noteq> l2_Hash l2SafeHead then BatchDrop
          else if EpochNum b + SeqWindowSize cfg < l1_Number (L1InclusionBlock batch) then BatchDrop
          else if EpochNum b < l1_Number epoch then BatchDrop
          else if EpochNum b = l1_Number epoch then check_origin cfg l1Blocks epoch epoch b
          else if EpochNum b = l1_Number epoch + 1
            then (case others of
                    [] \<Rightarrow> BatchUndecided
                  | next # _ \<Rightarrow> check_origin cfg l1Blocks epoch next b)
          else BatchDrop)"

section \<open>The channel reader (channel_in_reader.go)\<close>

text \<open>
  Decompression and RLP streaming are parameters: \<open>newReader\<close> opens the zlib reader over the
  channel's bytes (it may fail) with the RLP stream on top of it, \<open>decodeBatch\<close> takes the next
  batch. The closure \<open>nextBatchFn\<close> is the stream's state and the inclusion block it was made with.
\<close>

definition BatchReader ::
  "(bytes \<Rightarrow> 's result) \<Rightarrow> bytes \<Rightarrow> l1_block_ref \<Rightarrow> ('s \<times> l1_block_ref) result" where
  "BatchReader newReader r l1InclusionBlock =
     (case newReader r of Inl e \<Rightarrow> Inl e | Inr s \<Rightarrow> Inr (s, l1InclusionBlock))"

record 's channel_in_reader =
  nextBatchFn :: "('s \<times> l1_block_ref) option"

definition WriteChannel ::
  "(bytes \<Rightarrow> 's result) \<Rightarrow> l1_block_ref \<Rightarrow> 's channel_in_reader \<Rightarrow> bytes \<Rightarrow>
   's channel_in_reader result" where
  "WriteChannel newReader origin cr dat =
     (case BatchReader newReader dat origin of
        Inr f \<Rightarrow> Inr (cr\<lparr>nextBatchFn := Some f\<rparr>)
      | Inl e \<Rightarrow> Inl e)"

definition NextChannel :: "'s channel_in_reader \<Rightarrow> 's channel_in_reader" where
  "NextChannel cr = cr\<lparr>nextBatchFn := None\<rparr>"

text \<open>\<open>cr.nextBatchFn()\<close>, called on a closure that is there. Every decoding error, EOF included,
  moves on to the next channel.\<close>

definition call_nextBatchFn ::
  "('s \<Rightarrow> 's \<times> batch_data result) \<Rightarrow> 's channel_in_reader \<Rightarrow>
   's channel_in_reader \<times> batch_data result" where
  "call_nextBatchFn decodeBatch cr =
     (case nextBatchFn cr of
        None \<Rightarrow> (cr, Inl (Panic ''nil function call''))
      | Some (s, b) \<Rightarrow>
          (case decodeBatch s of
             (s', Inl e) \<Rightarrow> (NextChannel cr, Inl NotEnoughData)
           | (s', Inr batch) \<Rightarrow> (cr\<lparr>nextBatchFn := Some (s', b)\<rparr>, Inr batch)))"

definition ChannelInReader_NextBatch ::
  "(bytes \<Rightarrow> 's result) \<Rightarrow> ('s \<Rightarrow> 's \<times> batch_data result) \<Rightarrow> ('p \<Rightarrow> l1_block_ref) \<Rightarrow>
   ('p, bytes) pull \<Rightarrow> ('p \<times> 's channel_in_reader, batch_data) pull" where
  "ChannelInReader_NextBatch newReader decodeBatch prevOrigin prevNextData = (\<lambda>(p, cr).
     case nextBatchFn cr of
       Some _ \<Rightarrow> (case call_nextBatchFn decodeBatch cr of (cr', r) \<Rightarrow> ((p, cr'), r))
     | None \<Rightarrow>
         (case prevNextData p of
            (p', Inl e) \<Rightarrow> ((p', cr), Inl e)
          | (p', Inr dat) \<Rightarrow>
              (case WriteChannel newReader (prevOrigin p') cr dat of
                 Inl e \<Rightarrow> ((p', cr), Inl (NewTemporaryError e))
               | Inr cr1 \<Rightarrow>
                   (case call_nextBatchFn decodeBatch cr1 of (cr', r) \<Rightarrow> ((p', cr'), r)))))"

definition ChannelInReader_Reset :: "'s channel_in_reader \<Rightarrow> 's channel_in_reader \<times> error" where
  "ChannelInReader_Reset cr = (cr\<lparr>nextBatchFn := None\<rparr>, EOF)"

section \<open>The rules of a valid batch, declaratively\<close>

definition tx_ok :: "bytes \<Rightarrow> bool" where
  "tx_ok tx = (tx \<noteq> [] \<and> hd tx \<noteq> DepositTxType)"

lemma check_txs_accept: "check_txs txs = (if list_all tx_ok txs then BatchAccept else BatchDrop)"
  by (induction txs) (auto simp: tx_ok_def split: list.splits)

text \<open>The L1 block that a batch names as its origin: the current epoch or the one after it.\<close>

definition batch_origin :: "l1_block_ref list \<Rightarrow> batch_data \<Rightarrow> l1_block_ref option" where
  "batch_origin l1Blocks b =
     (case l1Blocks of
        [] \<Rightarrow> None
      | epoch # others \<Rightarrow>
          if EpochNum b = l1_Number epoch then Some epoch
          else if EpochNum b > l1_Number epoch \<and> EpochNum b = l1_Number epoch + 1
            then (case others of [] \<Rightarrow> None | next # _ \<Rightarrow> Some next)
          else None)"

text \<open>Past the sequencer drift only an empty batch is allowed, and one that stays in its epoch only
  while the next L1 origin could not have been adopted yet.\<close>

definition drift_ok :: "config \<Rightarrow> l1_block_ref list \<Rightarrow> l1_block_ref \<Rightarrow> batch_data \<Rightarrow> bool" where
  "drift_ok cfg l1Blocks origin b =
     (Timestamp b \<le> l1_Time origin + MaxSequencerDrift cfg \<or>
      Transactions b = [] \<and>
      (l1_Number (hd l1Blocks) = l1_Number origin \<longrightarrow>
         2 \<le> length l1Blocks \<and> Timestamp b < l1_Time (l1Blocks ! 1)))"

definition batch_rules ::
  "config \<Rightarrow> l1_block_ref list \<Rightarrow> l2_block_ref \<Rightarrow> batch_with_inclusion \<Rightarrow> bool" where
  "batch_rules cfg l1Blocks head batch =
     (let b = Batch batch in
      case batch_origin l1Blocks b of
        None \<Rightarrow> False
      | Some origin \<Rightarrow>
          Timestamp b = l2_Time head + BlockTime cfg \<and> b_ParentHash b = l2_Hash head \<and>
          l1_Number (L1InclusionBlock batch) \<le> EpochNum b + SeqWindowSize cfg \<and>
          EpochHash b = l1_Hash origin \<and> l1_Time origin \<le> Timestamp b \<and>
          drift_ok cfg l1Blocks origin b \<and> list_all tx_ok (Transactions b))"

lemma check_origin_accept:
  "check_origin cfg l1Blocks epoch origin b = BatchAccept \<longleftrightarrow>
     EpochHash b = l1_Hash origin \<and> l1_Time origin \<le> Timestamp b \<and>
     (Timestamp b \<le> l1_Time origin + MaxSequencerDrift cfg \<or>
      Transactions b = [] \<and>
      (l1_Number epoch = l1_Number origin \<longrightarrow>
         2 \<le> length l1Blocks \<and> Timestamp b < l1_Time (l1Blocks ! 1))) \<and>
     list_all tx_ok (Transactions b)"
  by (auto simp: check_origin_def check_txs_accept not_less not_le split: list.splits if_splits)

lemma CheckBatch_Cons:
  "CheckBatch cfg (epoch # others) head batch =
     (let b = Batch batch; nextTimestamp = l2_Time head + BlockTime cfg in
      if Timestamp b > nextTimestamp then BatchFuture
      else if Timestamp b < nextTimestamp \<or> b_ParentHash b \<noteq> l2_Hash head \<or>
              EpochNum b + SeqWindowSize cfg < l1_Number (L1InclusionBlock batch) \<or>
              EpochNum b < l1_Number epoch \<or>
              EpochNum b \<noteq> l1_Number epoch \<and> EpochNum b \<noteq> l1_Number epoch + 1 then BatchDrop
      else case batch_origin (epoch # others) b of
             None \<Rightarrow> BatchUndecided
           | Some origin \<Rightarrow> check_origin cfg (epoch # others) epoch origin b)"
  by (auto simp: CheckBatch_def batch_origin_def Let_def order_less_le split: list.splits)

lemma check_origin_stable:
  "check_origin cfg bs epoch origin b \<noteq> BatchUndecided \<Longrightarrow> bs \<noteq> [] \<Longrightarrow>
   check_origin cfg (bs @ later) epoch origin b = check_origin cfg bs epoch origin b"
  by (cases bs; cases "tl bs") (auto simp: check_origin_def split: list.splits)

lemma check_origin_decided:
  "2 \<le> length bs \<Longrightarrow> check_origin cfg bs epoch origin b \<noteq> BatchUndecided"
  by (cases bs; cases "tl bs") (auto simp: check_origin_def check_txs_accept)

lemma batch_origin_append:
  "batch_origin bs b = Some o1 \<Longrightarrow> batch_origin (bs @ later) b = Some o1"
  by (auto simp: batch_origin_def split: list.splits if_splits)

lemma CheckBatch_decided:
  assumes "2 \<le> length bs"
  shows "CheckBatch cfg bs head batch \<noteq> BatchUndecided"
proof -
  obtain e n rest where bs: "bs = e # n # rest"
    using assms by (cases bs; cases "tl bs") auto
  then show ?thesis
    using check_origin_decided [OF assms]
    by (cases "batch_origin (e # n # rest) (Batch batch)")
      (auto simp: CheckBatch_Cons Let_def batch_origin_def not_less order_less_le split: if_splits)
qed

lemma CheckBatch_accept:
  "CheckBatch cfg l1Blocks head batch = BatchAccept \<longleftrightarrow> batch_rules cfg l1Blocks head batch"
proof (cases l1Blocks)
  case Nil
  then show ?thesis by (simp add: CheckBatch_def batch_rules_def batch_origin_def Let_def)
next
  case (Cons epoch others)
  show ?thesis
  proof (cases "batch_origin l1Blocks (Batch batch)")
    case None
    then show ?thesis using Cons by (simp add: CheckBatch_Cons batch_rules_def Let_def)
  next
    case (Some origin)
    then have "\<not> EpochNum (Batch batch) < l1_Number epoch"
      "EpochNum (Batch batch) = l1_Number epoch \<or> EpochNum (Batch batch) = l1_Number epoch + 1"
      using Cons by (auto simp: batch_origin_def split: if_splits)
    then show ?thesis using Some Cons
      by (auto simp: CheckBatch_Cons batch_rules_def Let_def check_origin_accept drift_ok_def not_less)
  qed
qed

section \<open>Properties\<close>

text \<open>C7: \<open>CheckBatch\<close> accepts a batch exactly when it satisfies the rules of a valid batch: it has the
  next timestamp, builds on the safe head, was included within the sequencing window, names the
  current or the next L1 block as its origin by number and hash, is not older than that origin,
  respects the sequencer drift, and holds neither empty transactions nor deposits.\<close>

theorem CheckBatch_accept_iff:
  "CheckBatch cfg l1Blocks head batch = BatchAccept \<longleftrightarrow> batch_rules cfg l1Blocks head batch"
  by (rule CheckBatch_accept)

text \<open>the verdict on a batch is stable: once \<open>CheckBatch\<close> has decided with the L1 blocks known so
  far, more L1 blocks never change the decision, and with two L1 blocks it always decides. So
  deciding eagerly does not diverge from deciding with full knowledge.\<close>

theorem CheckBatch_stable:
  "(CheckBatch cfg l1Blocks head batch \<noteq> BatchUndecided \<longrightarrow>
      CheckBatch cfg (l1Blocks @ later) head batch = CheckBatch cfg l1Blocks head batch) \<and>
   (2 \<le> length l1Blocks \<longrightarrow> CheckBatch cfg l1Blocks head batch \<noteq> BatchUndecided)"
proof (cases l1Blocks)
  case Nil
  then show ?thesis by (simp add: CheckBatch_def)
next
  case (Cons epoch others)
  show ?thesis
    using Cons CheckBatch_decided [of l1Blocks] batch_origin_append [of "epoch # others" "Batch batch" _ later]
      check_origin_stable [of cfg "epoch # others" epoch _ "Batch batch" later]
    by (auto simp: CheckBatch_Cons Let_def split: option.splits)
qed

text \<open>Two L1 blocks, a safe head in the first one and a batch that stays in its epoch.\<close>

definition ex_l1 :: "u64 \<Rightarrow> l1_block_ref" where
  "ex_l1 n = \<lparr>l1_Hash = be_bytes 32 (unat n), l1_Number = n,
     l1_ParentHash = be_bytes 32 (unat n - 1), l1_Time = 900 + 12 * (n - 100)\<rparr>"

definition ex_head :: l2_block_ref where
  "ex_head = \<lparr>l2_Hash = replicate 32 2, l2_Number = 50, l2_ParentHash = replicate 32 1,
     l2_Time = 910, L1Origin = L1_ID (ex_l1 100), SequenceNumber = 5\<rparr>"

definition ex_batch :: batch_data where
  "ex_batch = \<lparr>b_ParentHash = replicate 32 2, EpochNum = 100, EpochHash = l1_Hash (ex_l1 100),
     Timestamp = 912, Transactions = [[1, 2]]\<rparr>"

definition ex_included :: batch_with_inclusion where
  "ex_included = \<lparr>L1InclusionBlock = ex_l1 101, Batch = ex_batch\<rparr>"

lemma ex_batch_accepted:
  "CheckBatch example_cfg [ex_l1 100] ex_head ex_included = BatchAccept"
  by (simp add: CheckBatch_def check_origin_def ex_l1_def ex_head_def ex_included_def ex_batch_def
      DepositTxType_def)

theorem CheckBatch_stable_witness:
  "CheckBatch example_cfg ([ex_l1 100] @ [ex_l1 101]) ex_head ex_included = BatchAccept"
  using CheckBatch_stable [of example_cfg "[ex_l1 100]" ex_head ex_included "[ex_l1 101]"]
  by (simp add: ex_batch_accepted)

end
