(* ===== verification/Batch_Queue.thy ===== *)
theory Batch_Queue
  imports Batches
begin

text \<open>
  The batch queue: \<open>op-node/rollup/derive/batch_queue.go\<close>. It buffers batches by timestamp,
  derives the next batch for the safe head from them, and creates empty batches once the
  sequencing window of an epoch has passed.
\<close>

section \<open>State and operations\<close>

record batch_queue =
  bq_origin :: l1_block_ref
  bq_l1Blocks :: "l1_block_ref list"
  bq_batches :: "(u64, batch_with_inclusion list) gomap"

definition NewBatchQueue :: batch_queue where
  "NewBatchQueue = \<lparr>bq_origin = zero_l1_ref, bq_l1Blocks = [], bq_batches = []\<rparr>"

text \<open>Reading a missing key of a Go map of slices gives the empty slice.\<close>

definition batches_at :: "(u64, batch_with_inclusion list) gomap \<Rightarrow> u64 \<Rightarrow> batch_with_inclusion list" where
  "batches_at m t = (case map_of m t of None \<Rightarrow> [] | Some bs \<Rightarrow> bs)"

definition AddBatch :: "config \<Rightarrow> batch_queue \<Rightarrow> batch_data \<Rightarrow> l2_block_ref \<Rightarrow> batch_queue result" where
  "AddBatch cfg bq batch l2SafeHead =
     (if bq_l1Blocks bq = [] then Inl (Panic ''cannot add batch, no origin was prepared'')
      else
        let dat = \<lparr>L1InclusionBlock = bq_origin bq, Batch = batch\<rparr> in
        if CheckBatch cfg (bq_l1Blocks bq) l2SafeHead dat = BatchDrop then Inr bq
        else Inr (bq\<lparr>bq_batches :=
               AList.update (Timestamp batch) (batches_at (bq_batches bq) (Timestamp batch) @ [dat])
                 (bq_batches bq)\<rparr>))"

text \<open>The loop \<open>batchLoop\<close> over the candidates: how it is left, and with which batches kept.\<close>

datatype loop_exit =
    LoopFuture
  | LoopUndecided batch_with_inclusion
  | LoopDone "batch_with_inclusion option" "batch_with_inclusion list"

fun batchLoop ::
  "config \<Rightarrow> l1_block_ref list \<Rightarrow> l2_block_ref \<Rightarrow> batch_with_inclusion list \<Rightarrow> loop_exit" where
  "batchLoop cfg l1Blocks head [] = LoopDone None []"
| "batchLoop cfg l1Blocks head (batch # rest) =
     (case CheckBatch cfg l1Blocks head batch of
        BatchFuture \<Rightarrow> LoopFuture
      | BatchDrop \<Rightarrow> batchLoop cfg l1Blocks head rest
      | BatchAccept \<Rightarrow> LoopDone (Some batch) rest
      | BatchUndecided \<Rightarrow> LoopUndecided batch)"

definition empty_batch :: "l2_block_ref \<Rightarrow> l1_block_ref \<Rightarrow> u64 \<Rightarrow> batch_data" where
  "empty_batch head epoch ts =
     \<lparr>b_ParentHash = l2_Hash head, EpochNum = l1_Number epoch, EpochHash = l1_Hash epoch,
      Timestamp = ts, Transactions = []\<rparr>"

text \<open>The part after the loop: no buffered batch was accepted, so force an empty batch if the
  sequencing window has expired.\<close>

definition force_empty ::
  "config \<Rightarrow> bool \<Rightarrow> l2_block_ref \<Rightarrow> l1_block_ref \<Rightarrow> u64 \<Rightarrow> batch_queue \<Rightarrow>
   batch_queue \<times> batch_data result" where
  "force_empty cfg outOfData l2SafeHead epoch nextTimestamp bq =
     (let expiryEpoch = l1_Number epoch + SeqWindowSize cfg;
          forceEmptyBatches = (expiryEpoch = l1_Number (bq_origin bq) \<and> outOfData) \<or>
                              expiryEpoch < l1_Number (bq_origin bq);
          firstOfEpoch = (l1_Number epoch = Number (L1Origin l2SafeHead) + 1)
      in if \<not> forceEmptyBatches then (bq, Inl EOF)
         else case bq_l1Blocks bq of
                _ # nextEpoch # _ \<Rightarrow>
                  if nextTimestamp < l1_Time nextEpoch \<or> firstOfEpoch
                  then (bq, Inr (empty_batch l2SafeHead epoch nextTimestamp))
                  else (bq\<lparr>bq_l1Blocks := tl (bq_l1Blocks bq)\<rparr>, Inl EOF)
              | _ \<Rightarrow> (bq, Inl EOF))"

definition deriveNextBatch ::
  "config \<Rightarrow> bool \<Rightarrow> l2_block_ref \<Rightarrow> batch_queue \<Rightarrow> batch_queue \<times> batch_data result" where
  "deriveNextBatch cfg outOfData l2SafeHead bq =
     (case bq_l1Blocks bq of
        [] \<Rightarrow> (bq, Inl (NewCriticalError (Errorf ''cannot derive next batch, no origin was prepared'')))
      | epoch # _ \<Rightarrow>
          if L1Origin l2SafeHead \<noteq> L1_ID epoch \<and> Number (L1Origin l2SafeHead) \<noteq> l1_Number epoch - 1
          then (bq, Inl (NewResetError (Errorf
                  ''buffered L1 chain epoch in batch queue does not match safe head origin'')))
          else
            let nextTimestamp = l2_Time l2SafeHead + BlockTime cfg;
                candidates = batches_at (bq_batches bq) nextTimestamp
            in case batchLoop cfg (bq_l1Blocks bq) l2SafeHead candidates of
                 LoopFuture \<Rightarrow>
                   (bq, Inl (NewCriticalError (Errorf ''found batch marked as future batch'')))
               | LoopUndecided batch \<Rightarrow>
                   (bq\<lparr>bq_batches := AList.update nextTimestamp [batch] (bq_batches bq)\<rparr>, Inl EOF)
               | LoopDone nextBatch remaining \<Rightarrow>
                   let bq1 = bq\<lparr>bq_batches :=
                         (if remaining = [] then AList.delete nextTimestamp (bq_batches bq)
                          else AList.update nextTimestamp remaining (bq_batches bq))\<rparr>
                   in case nextBatch of
                        Some b \<Rightarrow>
                          (if EpochNum (Batch b) = l1_Number epoch + 1
                           then bq1\<lparr>bq_l1Blocks := tl (bq_l1Blocks bq1)\<rparr> else bq1, Inr (Batch b))
                      | None \<Rightarrow> force_empty cfg outOfData l2SafeHead epoch nextTimestamp bq1)"

text \<open>The first part of \<open>NextBatch\<close>: take over the origin of the previous stages.\<close>

definition advance_origin :: "l1_block_ref \<Rightarrow> bool \<Rightarrow> batch_queue \<Rightarrow> batch_queue" where
  "advance_origin o1 originBehind bq =
     (if bq_origin bq \<noteq> o1
      then (if \<not> originBehind
            then bq\<lparr>bq_origin := o1, bq_l1Blocks := bq_l1Blocks bq @ [o1]\<rparr>
            else bq\<lparr>bq_origin := o1, bq_l1Blocks := []\<rparr>)
      else bq)"

text \<open>The last part: derive a batch, and report EOF only when the previous stages are exhausted.\<close>

definition finish_batch ::
  "config \<Rightarrow> bool \<Rightarrow> l2_block_ref \<Rightarrow> batch_queue \<Rightarrow> batch_queue \<times> batch_data result" where
  "finish_batch cfg outOfData safeL2Head bq =
     (case deriveNextBatch cfg outOfData safeL2Head bq of
        (bq', Inl e) \<Rightarrow>
          if e = EOF \<and> outOfData then (bq', Inl EOF)
          else if e = EOF then (bq', Inl NotEnoughData)
          else (bq', Inl e)
      | (bq', Inr b) \<Rightarrow> (bq', Inr b))"

definition BatchQueue_NextBatch ::
  "config \<Rightarrow> ('p \<Rightarrow> l1_block_ref) \<Rightarrow> ('p, batch_data) pull \<Rightarrow> l2_block_ref \<Rightarrow>
   ('p \<times> batch_queue, batch_data) pull" where
  "BatchQueue_NextBatch cfg prevOrigin prevNextBatch safeL2Head = (\<lambda>(p, bq).
     let originBehind = l1_Number (prevOrigin p) < Number (L1Origin safeL2Head);
         bq1 = advance_origin (prevOrigin p) originBehind bq
     in case prevNextBatch p of
          (p', Inl e) \<Rightarrow>
            if e \<noteq> EOF then ((p', bq1), Inl e)
            else if originBehind then ((p', bq1), Inl EOF)
            else (case finish_batch cfg True safeL2Head bq1 of (bq', r) \<Rightarrow> ((p', bq'), r))
        | (p', Inr batch) \<Rightarrow>
            if originBehind then ((p', bq1), Inl NotEnoughData)
            else (case AddBatch cfg bq1 batch safeL2Head of
                    Inl e \<Rightarrow> ((p', bq1), Inl e)
                  | Inr bq2 \<Rightarrow>
                      (case finish_batch cfg False safeL2Head bq2 of (bq', r) \<Rightarrow> ((p', bq'), r))))"

definition BatchQueue_Reset :: "l1_block_ref \<Rightarrow> batch_queue \<Rightarrow> batch_queue \<times> error" where
  "BatchQueue_Reset base bq =
     (bq\<lparr>bq_origin := base, bq_batches := [], bq_l1Blocks := [base]\<rparr>, EOF)"

section \<open>Invariant\<close>

text \<open>Every buffered batch is filed under its own timestamp.\<close>

definition bq_inv :: "batch_queue \<Rightarrow> bool" where
  "bq_inv bq = (gomap_ok (bq_batches bq) \<and>
     list_all (\<lambda>(t, bs). list_all (\<lambda>b. Timestamp (Batch b) = t) bs) (bq_batches bq))"

lemma bq_inv_iff:
  "bq_inv bq \<longleftrightarrow> gomap_ok (bq_batches bq) \<and>
     (\<forall>t. list_all (\<lambda>b. Timestamp (Batch b) = t) (batches_at (bq_batches bq) t))"
  by (fastforce simp: bq_inv_def batches_at_def list_all_iff gomap_ok_def split: option.splits)

lemma batches_at_update [simp]:
  "batches_at (AList.update t bs m) t' = (if t' = t then bs else batches_at m t')"
  by (simp add: batches_at_def)

lemma batches_at_delete [simp]:
  "batches_at (AList.delete t m) t' = (if t' = t then [] else batches_at m t')"
  by (simp add: batches_at_def)

lemma bq_inv_origin [simp]:
  "bq_inv (bq\<lparr>bq_l1Blocks := bs\<rparr>) = bq_inv bq" "bq_inv (bq\<lparr>bq_origin := o1\<rparr>) = bq_inv bq"
  by (simp_all add: bq_inv_def)

lemma AddBatch_inv:
  "bq_inv bq \<Longrightarrow> AddBatch cfg bq b head = Inr bq' \<Longrightarrow>
   bq_inv bq' \<and> bq_l1Blocks bq' = bq_l1Blocks bq \<and> bq_origin bq' = bq_origin bq"
  by (auto simp: AddBatch_def Let_def bq_inv_iff split: if_splits)

lemma batchLoop_cases:
  assumes "list_all (\<lambda>b. Timestamp (Batch b) = l2_Time head + BlockTime cfg) cs" "bs \<noteq> []"
  shows "(\<exists>b rest. batchLoop cfg bs head cs = LoopUndecided b \<and> b \<in> set cs \<and>
            CheckBatch cfg bs head b = BatchUndecided) \<or>
         (\<exists>b rest. batchLoop cfg bs head cs = LoopDone (Some b) rest \<and> b \<in> set cs \<and>
            set rest \<subseteq> set cs \<and> batch_rules cfg bs head b) \<or>
         batchLoop cfg bs head cs = LoopDone None []"
  using assms(1)
proof (induction cs)
  case Nil
  then show ?case by simp
next
  case (Cons c cs)
  obtain e es where bs: "bs = e # es" using assms(2) by (cases bs) auto
  have "CheckBatch cfg bs head c \<noteq> BatchFuture"
    using Cons.prems by (auto simp: bs CheckBatch_Cons Let_def check_origin_def check_txs_accept
        split: option.splits list.splits)
  then show ?case
    using Cons by (cases "CheckBatch cfg bs head c")
      (auto simp flip: CheckBatch_accept_iff)
qed

text \<open>The origin that an accepted batch names, relative to the queue's L1 blocks.\<close>

lemma batch_rules_origin:
  assumes "batch_rules cfg (e # es) head b"
  obtains (same) "EpochNum (Batch b) = l1_Number e" "EpochHash (Batch b) = l1_Hash e"
      "EpochNum (Batch b) \<noteq> l1_Number e + 1" "l1_Time e \<le> Timestamp (Batch b)"
    | (advance) n es' where "es = n # es'" "EpochNum (Batch b) = l1_Number e + 1"
      "EpochHash (Batch b) = l1_Hash n" "l1_Time n \<le> Timestamp (Batch b)"
  using assms
  by (auto simp: batch_rules_def batch_origin_def Let_def split: option.splits if_splits list.splits)

lemma batch_rules_basic:
  "batch_rules cfg bs head b \<Longrightarrow>
   Timestamp (Batch b) = l2_Time head + BlockTime cfg \<and> b_ParentHash (Batch b) = l2_Hash head \<and>
   list_all tx_ok (Transactions (Batch b))"
  by (auto simp: batch_rules_def Let_def split: option.splits)

text \<open>The queue has an epoch to build on. With \<open>timed\<close>, that epoch is moreover not younger than the
  next L2 block, the condition that keeps L2 time at or after L1 time.\<close>

definition queue_ready :: "bool \<Rightarrow> config \<Rightarrow> l2_block_ref \<Rightarrow> batch_queue \<Rightarrow> bool" where
  "queue_ready timed cfg head bq =
     (bq_inv bq \<and> bq_l1Blocks bq \<noteq> [] \<and>
      (timed \<longrightarrow> l1_Time (hd (bq_l1Blocks bq)) \<le> l2_Time head + BlockTime cfg))"

definition good_batch :: "bool \<Rightarrow> config \<Rightarrow> l2_block_ref \<Rightarrow> l1_block_ref \<Rightarrow> batch_data \<Rightarrow> bool" where
  "good_batch timed cfg head origin b =
     (Timestamp b = l2_Time head + BlockTime cfg \<and> b_ParentHash b = l2_Hash head \<and>
      EpochHash b = l1_Hash origin \<and> (timed \<longrightarrow> l1_Time origin \<le> Timestamp b) \<and>
      list_all tx_ok (Transactions b))"

lemma force_empty_ok:
  assumes "force_empty cfg outOfData head e (l2_Time head + BlockTime cfg) bq = (bq', r)"
    and "queue_ready timed cfg head bq" and "bq_l1Blocks bq = e # es"
  shows "queue_ready timed cfg head bq' \<and>
     (case r of Inl x \<Rightarrow> x = EOF | Inr b \<Rightarrow> good_batch timed cfg head (hd (bq_l1Blocks bq')) b)"
  using assms
  by (auto simp: force_empty_def Let_def queue_ready_def good_batch_def empty_batch_def not_less
      split: if_splits list.splits)

lemma queue_ready_batches:
  assumes "queue_ready timed cfg head bq" "set bs \<subseteq> set (batches_at (bq_batches bq) t)"
  shows "queue_ready timed cfg head (bq\<lparr>bq_batches := AList.update t bs (bq_batches bq)\<rparr>)"
    and "queue_ready timed cfg head (bq\<lparr>bq_batches := AList.delete t (bq_batches bq)\<rparr>)"
  using assms by (auto simp: queue_ready_def bq_inv_iff list_all_iff)

lemma deriveNextBatch_ok:
  assumes ready: "queue_ready timed cfg head bq" and d: "deriveNextBatch cfg outOfData head bq = (bq', r)"
  shows "queue_ready timed cfg head bq' \<and>
     (case r of Inl x \<Rightarrow> x = EOF \<or> errors_Is x ErrReset \<and> bq' = bq
      | Inr b \<Rightarrow> good_batch timed cfg head (hd (bq_l1Blocks bq')) b)"
proof -
  obtain e es where l1: "bq_l1Blocks bq = e # es"
    using ready by (cases "bq_l1Blocks bq") (auto simp: queue_ready_def)
  let ?t = "l2_Time head + BlockTime cfg"
  let ?cs = "batches_at (bq_batches bq) ?t"
  let ?del = "bq\<lparr>bq_batches := AList.delete ?t (bq_batches bq)\<rparr>"
  have cs: "list_all (\<lambda>b. Timestamp (Batch b) = ?t) ?cs"
    using ready by (simp add: queue_ready_def bq_inv_iff)
  show ?thesis
  proof (cases "L1Origin head \<noteq> L1_ID e \<and> Number (L1Origin head) \<noteq> l1_Number e - 1")
    case True
    with d l1 ready show ?thesis by (auto simp: deriveNextBatch_def)
  next
    case False
    from batchLoop_cases [OF cs, of "bq_l1Blocks bq"] l1
    consider (und) b where "batchLoop cfg (bq_l1Blocks bq) head ?cs = LoopUndecided b" "b \<in> set ?cs"
      | (acc) b rest where "batchLoop cfg (bq_l1Blocks bq) head ?cs = LoopDone (Some b) rest"
        "set rest \<subseteq> set ?cs" "batch_rules cfg (e # es) head b"
      | (none) "batchLoop cfg (bq_l1Blocks bq) head ?cs = LoopDone None []"
      by auto
    then show ?thesis
    proof cases
      case und
      with d False l1 have "bq' = bq\<lparr>bq_batches := AList.update ?t [b] (bq_batches bq)\<rparr>" "r = Inl EOF"
        by (auto simp: deriveNextBatch_def Let_def)
      then show ?thesis using queue_ready_batches(1) [OF ready, of "[b]" ?t] und by simp
    next
      case acc
      define bq1 where "bq1 = (if rest = [] then ?del
          else bq\<lparr>bq_batches := AList.update ?t rest (bq_batches bq)\<rparr>)"
      have bq1: "queue_ready timed cfg head bq1" "bq_l1Blocks bq1 = e # es"
        using queue_ready_batches [OF ready acc(2)] l1 by (auto simp: bq1_def)
      have r: "r = Inr (Batch b)" "bq' = (if EpochNum (Batch b) = l1_Number e + 1
          then bq1\<lparr>bq_l1Blocks := es\<rparr> else bq1)"
        using d False l1 acc(1) bq1(2) by (auto simp: deriveNextBatch_def Let_def bq1_def split: if_splits)
      from acc(3) show ?thesis
        by (cases rule: batch_rules_origin)
          (use r bq1 batch_rules_basic [OF acc(3)] in \<open>auto simp: queue_ready_def good_batch_def\<close>)
    next
      case none
      with d False l1 have "force_empty cfg outOfData head e ?t ?del = (bq', r)"
        by (auto simp: deriveNextBatch_def Let_def)
      from force_empty_ok [OF this, of timed es] queue_ready_batches(2) [OF ready, of "[]" ?t] l1
      show ?thesis by (auto split: sum.splits)
    qed
  qed
qed

lemma finish_batch_ok:
  assumes "queue_ready timed cfg head bq" and "finish_batch cfg outOfData head bq = (bq', r)"
  shows "queue_ready timed cfg head bq' \<and>
     (case r of Inl x \<Rightarrow> x = EOF \<or> x = NotEnoughData \<or> errors_Is x ErrReset
      | Inr b \<Rightarrow> good_batch timed cfg head (hd (bq_l1Blocks bq')) b)"
proof -
  obtain bq1 r1 where d: "deriveNextBatch cfg outOfData head bq = (bq1, r1)"
    by (cases "deriveNextBatch cfg outOfData head bq")
  from deriveNextBatch_ok [OF assms(1) d] d assms(2) show ?thesis
    by (auto simp: finish_batch_def split: sum.splits if_splits)
qed

text \<open>Between calls the queue may have no L1 block only while it is behind the safe head.\<close>

definition queue_synced :: "l2_block_ref \<Rightarrow> batch_queue \<Rightarrow> bool" where
  "queue_synced head bq =
     (bq_inv bq \<and> (bq_l1Blocks bq = [] \<longrightarrow> l1_Number (bq_origin bq) < Number (L1Origin head)))"

lemma queue_synced_Reset: "queue_synced head (fst (BatchQueue_Reset base bq))"
  by (simp add: queue_synced_def BatchQueue_Reset_def bq_inv_def)

lemma queue_synced_ready:
  "queue_ready False cfg head bq \<Longrightarrow> queue_synced head' bq"
  by (simp add: queue_ready_def queue_synced_def)

lemma advance_origin_synced:
  assumes "queue_synced head0 bq" "Number (L1Origin head0) \<le> Number (L1Origin head)"
    and "behind = (l1_Number o1 < Number (L1Origin head))"
  shows "queue_synced head (advance_origin o1 behind bq) \<and>
     (\<not> behind \<longrightarrow> queue_ready False cfg head (advance_origin o1 behind bq))"
  using assms
  by (auto simp: queue_synced_def queue_ready_def advance_origin_def intro: order.strict_trans2)

lemma reset_not_panic: "errors_Is e ErrReset \<Longrightarrow> \<not> is_panic e"
  by (cases e) (auto simp: ErrReset_def NewError_def)

lemma finish_batch_no_panic:
  assumes "queue_ready timed cfg head bq" and "finish_batch cfg outOfData head bq = (bq', Inl e)"
  shows "\<not> is_panic e"
  using finish_batch_ok [OF assms] by (auto dest: reset_not_panic)

text \<open>A batch queue on top of a stage keeps its invariant and does not panic, as long as the origin of
  the safe head does not move back between two calls (a reset re-initialises the queue).\<close>

locale NextBatchProvider = stage inv pull
  for inv :: "'p \<Rightarrow> bool" and pull :: "('p, batch_data) pull"
begin

lemma NextBatch_ok:
  assumes "inv p" "queue_synced head0 bq" "Number (L1Origin head0) \<le> Number (L1Origin head)"
    and nb: "BatchQueue_NextBatch cfg orig pull head (p, bq) = ((p', bq'), r)"
  shows "inv p' \<and> queue_synced head bq' \<and> (\<forall>e. r = Inl e \<longrightarrow> \<not> is_panic e)"
proof -
  define behind where "behind = (l1_Number (orig p) < Number (L1Origin head))"
  define bq1 where "bq1 = advance_origin (orig p) behind bq"
  note nb' = nb [unfolded BatchQueue_NextBatch_def Let_def prod.case, folded behind_def,
      folded bq1_def]
  note sync = advance_origin_synced [OF assms(2,3) behind_def, folded bq1_def, of cfg]
  have fin: "queue_synced head b \<and> (\<forall>e. x = Inl e \<longrightarrow> \<not> is_panic e)"
    if "queue_ready False cfg head q" "finish_batch cfg out head q = (b, x)" for q out b x
    using finish_batch_ok [OF that] finish_batch_no_panic [OF that(1)] that(2) queue_synced_ready
    by blast
  from assms(1) show ?thesis
  proof (cases rule: pull_cases)
    case (ok p1 b)
    show ?thesis
    proof (cases "behind \<or> (\<exists>e. AddBatch cfg bq1 b head = Inl e)")
      case True
      then show ?thesis using ok nb' sync
        by (auto simp: AddBatch_def Let_def queue_ready_def split: if_splits)
    next
      case False
      then obtain bq2 where bq2: "AddBatch cfg bq1 b head = Inr bq2"
        by (cases "AddBatch cfg bq1 b head") auto
      with sync False AddBatch_inv [OF _ bq2] have "queue_ready False cfg head bq2"
        by (auto simp: queue_ready_def)
      moreover have "finish_batch cfg False head bq2 = (bq', r)" "p' = p1"
        using ok nb' False bq2 by (auto split: prod.splits)
      ultimately show ?thesis using fin ok by auto
    qed
  next
    case (err p1 e)
    show ?thesis
    proof (cases "e \<noteq> EOF \<or> behind")
      case True
      then show ?thesis using err nb' sync by (auto split: if_splits)
    next
      case False
      then have "finish_batch cfg True head bq1 = (bq', r)" "p' = p1"
        using err nb' by (auto split: prod.splits)
      then show ?thesis using fin sync err False by auto
    qed
  qed
qed

end

section \<open>Properties\<close>

text \<open>C8: every batch that \<open>deriveNextBatch\<close> hands out, buffered or forced, has the next timestamp,
  builds on the safe head, names by its hash the L1 block that the queue stands on afterwards,
  is not older than that L1 block (L2 time never falls behind L1 time), and has neither empty
  transactions nor deposits. The queue keeps its invariant, keeps an L1 block to build on, and
  fails only with EOF or with a reset error that leaves it unchanged, never with a critical one.\<close>

theorem deriveNextBatch_sound:
  assumes "queue_ready True cfg head bq" and "deriveNextBatch cfg outOfData head bq = (bq', r)"
  shows "queue_ready True cfg head bq' \<and>
     (case r of Inl x \<Rightarrow> x = EOF \<or> errors_Is x ErrReset \<and> bq' = bq
      | Inr b \<Rightarrow> Timestamp b = l2_Time head + BlockTime cfg \<and> b_ParentHash b = l2_Hash head \<and>
          EpochHash b = l1_Hash (hd (bq_l1Blocks bq')) \<and>
          l1_Time (hd (bq_l1Blocks bq')) \<le> Timestamp b \<and> list_all tx_ok (Transactions b))"
  using deriveNextBatch_ok [OF assms] by (auto simp: good_batch_def split: sum.splits)

definition ex_queue :: "batch_with_inclusion list \<Rightarrow> batch_queue" where
  "ex_queue bs = \<lparr>bq_origin = ex_l1 101, bq_l1Blocks = [ex_l1 100], bq_batches = [(912, bs)]\<rparr>"

theorem deriveNextBatch_sound_witness:
  "\<exists>bq' b. deriveNextBatch example_cfg False ex_head (ex_queue [ex_included]) = (bq', Inr b) \<and>
     Timestamp b = 912 \<and> EpochHash b = l1_Hash (hd (bq_l1Blocks bq'))"
proof -
  have "queue_ready True example_cfg ex_head (ex_queue [ex_included])"
    by (simp add: queue_ready_def bq_inv_def gomap_ok_def ex_queue_def ex_included_def ex_batch_def
        ex_l1_def ex_head_def)
  moreover have "\<exists>bq'. deriveNextBatch example_cfg False ex_head (ex_queue [ex_included]) =
      (bq', Inr ex_batch)"
    using ex_batch_accepted
    by (simp add: deriveNextBatch_def ex_queue_def batches_at_def ex_head_def L1_ID_def Let_def
        ex_included_def)
  ultimately obtain bq' where "deriveNextBatch example_cfg False ex_head (ex_queue [ex_included]) =
      (bq', Inr ex_batch)" and "queue_ready True example_cfg ex_head (ex_queue [ex_included])"
    by blast
  with deriveNextBatch_sound [OF this(2,1)] show ?thesis by (auto simp: ex_head_def)
qed



text \<open>when the first candidate cannot be decided yet, \<open>deriveNextBatch\<close> keeps only that one: a later
  candidate for the same timestamp is discarded unchecked, even one that is valid.\<close>

theorem undecided_discards_candidates:
  assumes "queue_ready True cfg head bq"
    and "L1Origin head = L1_ID (hd (bq_l1Blocks bq))"
    and "batches_at (bq_batches bq) (l2_Time head + BlockTime cfg) = c # cs"
    and "CheckBatch cfg (bq_l1Blocks bq) head c = BatchUndecided"
    and "b \<in> set cs" and "CheckBatch cfg (bq_l1Blocks bq) head b = BatchAccept"
  shows "\<exists>bq'. deriveNextBatch cfg outOfData head bq = (bq', Inl EOF) \<and>
     batches_at (bq_batches bq') (l2_Time head + BlockTime cfg) = [c] \<and>
     b \<notin> set (batches_at (bq_batches bq') (l2_Time head + BlockTime cfg))"
proof -
  have "b \<noteq> c" using assms(4,6) by auto
  moreover obtain e es where "bq_l1Blocks bq = e # es"
    using assms(1) by (cases "bq_l1Blocks bq") (auto simp: queue_ready_def)
  ultimately show ?thesis using assms by (auto simp: deriveNextBatch_def Let_def)
qed

text \<open>The first candidate names the L1 block 101, which the queue has not seen; the second one is
  the acceptable batch of the example.\<close>

theorem undecided_discards_candidates_witness:
  "\<exists>bq'. deriveNextBatch example_cfg False ex_head
       (ex_queue [ex_included\<lparr>Batch := ex_batch\<lparr>EpochNum := 101\<rparr>\<rparr>, ex_included]) = (bq', Inl EOF) \<and>
     ex_included \<notin> set (batches_at (bq_batches bq') 912)"
proof -
  let ?c = "ex_included\<lparr>Batch := ex_batch\<lparr>EpochNum := 101\<rparr>\<rparr>"
  let ?bq = "ex_queue [?c, ex_included]"
  have ready: "queue_ready True example_cfg ex_head ?bq"
    by (simp add: queue_ready_def bq_inv_def gomap_ok_def ex_queue_def ex_included_def ex_batch_def
        ex_l1_def ex_head_def)
  have und: "CheckBatch example_cfg (bq_l1Blocks ?bq) ex_head ?c = BatchUndecided"
    by (simp add: CheckBatch_def ex_queue_def ex_l1_def ex_head_def ex_included_def ex_batch_def)
  have acc: "CheckBatch example_cfg (bq_l1Blocks ?bq) ex_head ex_included = BatchAccept"
    using ex_batch_accepted by (simp add: ex_queue_def)
  have at: "batches_at (bq_batches ?bq) (l2_Time ex_head + BlockTime example_cfg) = [?c, ex_included]"
    and org: "L1Origin ex_head = L1_ID (hd (bq_l1Blocks ?bq))"
    by (simp_all add: ex_queue_def batches_at_def ex_head_def)
  from undecided_discards_candidates [OF ready org at und _ acc, of False]
  show ?thesis by (auto simp: ex_head_def)
qed

end
