(* ===== verification/L1_Info.thy ===== *)
theory L1_Info
  imports Rollup
begin

text \<open>
  The Solidity ABI readers and writers (\<open>op-service/solabi/util.go\<close>), the L1 attributes that every
  L2 block starts with (\<open>op-node/rollup/derive/l1_block_info.go\<close>) and the source hashes of
  deposits (\<open>deposit_source.go\<close>). The Keccak hash is a parameter.
\<close>

section \<open>ABI readers and writers\<close>

type_synonym 'a reader = "bytes \<Rightarrow> ('a \<times> bytes) result"

definition ReadAndValidateSignature :: "bytes \<Rightarrow> bytes reader" where
  "ReadAndValidateSignature expected r =
     rbind (read_full 4 r) (\<lambda>(sig, r1).
       if sig \<noteq> expected then Inl (Errorf ''invalid function signature'') else Inr (sig, r1))"

definition ReadHash :: "hash reader" where
  "ReadHash r = read_full 32 r"

definition ReadEthBytes32 :: "bytes reader" where
  "ReadEthBytes32 r = read_full 32 r"

definition ReadAddress :: "address reader" where
  "ReadAddress r =
     rbind (read_full 12 r) (\<lambda>(padding, r1).
       if padding \<noteq> replicate 12 0 then Inl (Errorf ''address padding was not empty'')
       else read_full 20 r1)"

definition ReadUint64 :: "u64 reader" where
  "ReadUint64 r =
     rbind (read_full 24 r) (\<lambda>(padding, r1).
       if padding \<noteq> replicate 24 0 then Inl (Errorf ''number padding was not empty'')
       else case read_full 8 r1 of
              Inl _ \<Rightarrow> Inl (Errorf ''expected number length to be 8 bytes'')
            | Inr (n, r2) \<Rightarrow> Inr (get_u64 n, r2))"

definition ReadUint256 :: "int reader" where
  "ReadUint256 r = rbind (read_full 32 r) (\<lambda>(n, r1). Inr (int (be_nat n), r1))"

definition EmptyReader :: "bytes \<Rightarrow> bool" where
  "EmptyReader r = (r = [])"

text \<open>The writers append to a buffer, which cannot fail; only a number that is too large is an
  error. \<open>FillBytes\<close> writes the absolute value; a nil number is dereferenced.\<close>

definition WriteAddress :: "address \<Rightarrow> bytes" where
  "WriteAddress a = replicate 12 0 @ a"

definition WriteUint64 :: "u64 \<Rightarrow> bytes" where
  "WriteUint64 n = replicate 24 0 @ put_u64 n"

definition WriteUint256 :: "int option \<Rightarrow> bytes result" where
  "WriteUint256 n =
     (case n of
        None \<Rightarrow> Inl (Panic ''nil pointer dereference'')
      | Some i \<Rightarrow>
          if \<bar>i\<bar> \<ge> 2 ^ 256 then Inl (Errorf ''big int exceeds 256 bits'')
          else Inr (be_bytes 32 (nat \<bar>i\<bar>)))"

text \<open>Each reader accepts exactly what the writer of the same type produces.\<close>

lemma ReadUint64_iff [codec]: "ReadUint64 r = Inr (n, r') \<longleftrightarrow> r = WriteUint64 n @ r'"
proof
  assume "ReadUint64 r = Inr (n, r')"
  then obtain b where "r = replicate 24 0 @ b @ r'" "length b = 8" "n = get_u64 b"
    by (auto simp: ReadUint64_def rbind_Inr read_full_Inr split: if_splits sum.splits)
  then show "r = WriteUint64 n @ r'" by (simp add: WriteUint64_def put_get_u64)
next
  assume "r = WriteUint64 n @ r'"
  then show "ReadUint64 r = Inr (n, r')" by (simp add: ReadUint64_def WriteUint64_def)
qed

lemma ReadUint64_Write [simp]: "ReadUint64 (WriteUint64 n @ r) = Inr (n, r)"
  by (simp add: ReadUint64_iff)

lemma ReadAddress_iff [codec]:
  "ReadAddress r = Inr (a, r') \<longleftrightarrow> length a = 20 \<and> r = WriteAddress a @ r'"
  by (auto simp: ReadAddress_def WriteAddress_def rbind_Inr read_full_Inr split: if_splits)

lemma ReadUint256_iff [codec]:
  "ReadUint256 r = Inr (n, r') \<longleftrightarrow> (\<exists>w. 0 \<le> n \<and> WriteUint256 (Some n) = Inr w \<and> r = w @ r')"
proof
  assume "ReadUint256 r = Inr (n, r')"
  then obtain b where b: "r = b @ r'" "length b = 32" "n = int (be_nat b)"
    by (auto simp: ReadUint256_def rbind_Inr read_full_Inr)
  then show "\<exists>w. 0 \<le> n \<and> WriteUint256 (Some n) = Inr w \<and> r = w @ r'"
    using be_nat_less [of b] be_bytes_nat [of b] by (auto simp: WriteUint256_def)
next
  assume "\<exists>w. 0 \<le> n \<and> WriteUint256 (Some n) = Inr w \<and> r = w @ r'"
  then show "ReadUint256 r = Inr (n, r')"
    by (auto simp: ReadUint256_def WriteUint256_def be_nat_bytes split: if_splits)
qed

section \<open>L1 block information (l1_block_info.go)\<close>

definition L1InfoFuncSignature :: string where
  "L1InfoFuncSignature =
     ''setL1BlockValues(uint64,uint64,uint256,bytes32,uint64,bytes32,uint256,uint256)''"

definition L1InfoLen :: nat where
  "L1InfoLen = 4 + 32 * 8"

definition L1InfoFuncBytes4 :: "(bytes \<Rightarrow> hash) \<Rightarrow> bytes" where
  "L1InfoFuncBytes4 keccak = take 4 (keccak (ascii L1InfoFuncSignature))"

definition RegolithSystemTxGas :: u64 where
  "RegolithSystemTxGas = 1000000"

record l1_block_info =
  info_Number :: u64
  info_Time :: u64
  info_BaseFee :: "int option"
  info_BlockHash :: hash
  info_SequenceNumber :: u64
  info_BatcherAddr :: address
  L1FeeOverhead :: bytes
  L1FeeScalar :: bytes

definition L1Info_MarshalBinary :: "(bytes \<Rightarrow> hash) \<Rightarrow> l1_block_info \<Rightarrow> bytes result" where
  "L1Info_MarshalBinary keccak info =
     rbind (WriteUint256 (info_BaseFee info)) (\<lambda>baseFee.
       Inr (L1InfoFuncBytes4 keccak @ WriteUint64 (info_Number info) @ WriteUint64 (info_Time info) @
            baseFee @ info_BlockHash info @ WriteUint64 (info_SequenceNumber info) @
            WriteAddress (info_BatcherAddr info) @ L1FeeOverhead info @ L1FeeScalar info))"

definition L1Info_UnmarshalBinary :: "(bytes \<Rightarrow> hash) \<Rightarrow> bytes \<Rightarrow> l1_block_info result" where
  "L1Info_UnmarshalBinary keccak dat =
     (if length dat \<noteq> L1InfoLen then Inl (Errorf ''data is unexpected length'')
      else rbind (ReadAndValidateSignature (L1InfoFuncBytes4 keccak) dat) (\<lambda>(_, r0).
           rbind (ReadUint64 r0) (\<lambda>(number, r1).
           rbind (ReadUint64 r1) (\<lambda>(time, r2).
           rbind (ReadUint256 r2) (\<lambda>(baseFee, r3).
           rbind (ReadHash r3) (\<lambda>(blockHash, r4).
           rbind (ReadUint64 r4) (\<lambda>(seqNumber, r5).
           rbind (ReadAddress r5) (\<lambda>(batcherAddr, r6).
           rbind (ReadEthBytes32 r6) (\<lambda>(overhead, r7).
           rbind (ReadEthBytes32 r7) (\<lambda>(scalar, r8).
             if \<not> EmptyReader r8 then Inl (Errorf ''too many bytes'')
             else Inr \<lparr>info_Number = number, info_Time = time, info_BaseFee = Some baseFee,
                       info_BlockHash = blockHash, info_SequenceNumber = seqNumber,
                       info_BatcherAddr = batcherAddr, L1FeeOverhead = overhead,
                       L1FeeScalar = scalar\<rparr>))))))))))"

definition L1InfoDepositTxData :: "(bytes \<Rightarrow> hash) \<Rightarrow> bytes \<Rightarrow> l1_block_info result" where
  "L1InfoDepositTxData keccak dat = L1Info_UnmarshalBinary keccak dat"

section \<open>Deposit transactions and their source hashes\<close>

text \<open>The fields of \<open>types.DepositTx\<close> that the code fills in. A nil \<open>To\<close> creates a contract, a nil
  \<open>Mint\<close> mints nothing.\<close>

record deposit_tx =
  SourceHash :: hash
  dep_From :: address
  dep_To :: "address option"
  Mint :: "int option"
  dep_Value :: int
  dep_Gas :: u64
  IsSystemTransaction :: bool
  dep_Data :: bytes

text \<open>\<open>domain\<close> is 0 for user deposits and 1 for the L1 attributes.\<close>

definition UserDepositSource_SourceHash :: "(bytes \<Rightarrow> hash) \<Rightarrow> hash \<Rightarrow> u64 \<Rightarrow> hash" where
  "UserDepositSource_SourceHash keccak l1BlockHash logIndex =
     (let input = l1BlockHash @ replicate 24 0 @ put_u64 logIndex;
          domainInput = replicate 24 0 @ put_u64 0 @ keccak input
      in keccak domainInput)"

definition L1InfoDepositSource_SourceHash :: "(bytes \<Rightarrow> hash) \<Rightarrow> hash \<Rightarrow> u64 \<Rightarrow> hash" where
  "L1InfoDepositSource_SourceHash keccak l1BlockHash seqNumber =
     (let input = l1BlockHash @ replicate 24 0 @ put_u64 seqNumber;
          domainInput = replicate 24 0 @ put_u64 1 @ keccak input
      in keccak domainInput)"

text \<open>What the code reads of an L1 block (the interface \<open>eth.BlockInfo\<close>).\<close>

record block_info =
  bi_Hash :: hash
  bi_ParentHash :: hash
  bi_Number :: u64
  bi_Time :: u64
  bi_BaseFee :: "int option"
  MixDigest :: hash

text \<open>\<open>0xdeaddeaddeaddeaddeaddeaddeaddeaddead0001\<close>, and the predeploy address that ends in \<open>15\<close>.\<close>

definition L1InfoDepositerAddress :: address where
  "L1InfoDepositerAddress = concat (replicate 9 [0xde, 0xad]) @ [0x00, 0x01]"

definition L1BlockAddress :: address where
  "L1BlockAddress = 0x42 # replicate 18 0 @ [0x15]"

definition L1InfoDeposit ::
  "(bytes \<Rightarrow> hash) \<Rightarrow> u64 \<Rightarrow> block_info \<Rightarrow> system_config \<Rightarrow> bool \<Rightarrow> deposit_tx result" where
  "L1InfoDeposit keccak seqNumber block sysCfg regolith =
     rbind (L1Info_MarshalBinary keccak
              \<lparr>info_Number = bi_Number block, info_Time = bi_Time block,
               info_BaseFee = bi_BaseFee block, info_BlockHash = bi_Hash block,
               info_SequenceNumber = seqNumber, info_BatcherAddr = BatcherAddr sysCfg,
               L1FeeOverhead = Overhead sysCfg, L1FeeScalar = Scalar sysCfg\<rparr>)
       (\<lambda>dat.
         let out = \<lparr>SourceHash = L1InfoDepositSource_SourceHash keccak (bi_Hash block) seqNumber,
                    dep_From = L1InfoDepositerAddress, dep_To = Some L1BlockAddress, Mint = None,
                    dep_Value = 0, dep_Gas = 150000000, IsSystemTransaction = True, dep_Data = dat\<rparr>
         in Inr (if regolith
                 then out\<lparr>IsSystemTransaction := False, dep_Gas := RegolithSystemTxGas\<rparr> else out))"

text \<open>\<open>marshalTx\<close> is the transaction encoder of go-ethereum.\<close>

definition L1InfoDepositBytes ::
  "(bytes \<Rightarrow> hash) \<Rightarrow> (deposit_tx \<Rightarrow> bytes result) \<Rightarrow> u64 \<Rightarrow> block_info \<Rightarrow> system_config \<Rightarrow> bool \<Rightarrow>
   bytes result" where
  "L1InfoDepositBytes keccak marshalTx seqNumber l1Info sysCfg regolith =
     rbind (on_error (Wrap ''failed to create L1 info tx'')
              (L1InfoDeposit keccak seqNumber l1Info sysCfg regolith)) (\<lambda>dep.
     on_error (Wrap ''failed to encode L1 info tx'') (marshalTx dep))"

section \<open>Properties\<close>

definition l1_info_ok :: "l1_block_info \<Rightarrow> bool" where
  "l1_info_ok info =
     ((case info_BaseFee info of None \<Rightarrow> False | Some n \<Rightarrow> 0 \<le> n) \<and>
      length (info_BlockHash info) = 32 \<and> length (info_BatcherAddr info) = 20 \<and>
      length (L1FeeOverhead info) = 32 \<and> length (L1FeeScalar info) = 32)"

lemma length_Write [simp]: "length (WriteUint64 n) = 32" "length (WriteAddress a) = 12 + length a"
  by (simp_all add: WriteUint64_def WriteAddress_def)

lemma WriteUint256_length: "WriteUint256 n = Inr w \<Longrightarrow> length w = 32"
  by (auto simp: WriteUint256_def split: option.splits if_splits)

lemma L1Info_Unmarshal_iff:
  assumes "4 \<le> length (keccak (ascii L1InfoFuncSignature))"
  shows "L1Info_UnmarshalBinary keccak dat = Inr info \<longleftrightarrow>
     l1_info_ok info \<and> L1Info_MarshalBinary keccak info = Inr dat"
proof
  assume "L1Info_UnmarshalBinary keccak dat = Inr info"
  then show "l1_info_ok info \<and> L1Info_MarshalBinary keccak info = Inr dat"
    by (auto simp: L1Info_UnmarshalBinary_def ReadAndValidateSignature_def ReadHash_def
        ReadEthBytes32_def EmptyReader_def rbind_Inr codec read_full_Inr l1_info_ok_def
        L1Info_MarshalBinary_def split: if_splits)
next
  assume r: "l1_info_ok info \<and> L1Info_MarshalBinary keccak info = Inr dat"
  then obtain n w where n: "info_BaseFee info = Some n" "0 \<le> n" "WriteUint256 (Some n) = Inr w"
    and dat: "dat = L1InfoFuncBytes4 keccak @ WriteUint64 (info_Number info) @
        WriteUint64 (info_Time info) @ w @ info_BlockHash info @
        WriteUint64 (info_SequenceNumber info) @ WriteAddress (info_BatcherAddr info) @
        L1FeeOverhead info @ L1FeeScalar info"
    by (auto simp: l1_info_ok_def L1Info_MarshalBinary_def rbind_Inr split: option.splits)
  have sig: "length (L1InfoFuncBytes4 keccak) = 4" using assms by (simp add: L1InfoFuncBytes4_def)
  have fee: "ReadUint256 (w @ r) = Inr (n, r)" for r using n by (auto simp: ReadUint256_iff)
  have num: "ReadUint64 (WriteUint64 k @ r) = Inr (k, r)" for k r by (simp add: ReadUint64_iff)
  have addr: "length a = 20 \<Longrightarrow> ReadAddress (WriteAddress a @ r) = Inr (a, r)" for a r
    by (simp add: ReadAddress_iff)
  show "L1Info_UnmarshalBinary keccak dat = Inr info"
    using r n WriteUint256_length [OF n(3)] sig
    by (cases info) (simp add: L1Info_UnmarshalBinary_def ReadAndValidateSignature_def ReadHash_def
        ReadEthBytes32_def EmptyReader_def l1_info_ok_def dat fee num addr L1InfoLen_def)
qed

text \<open>C10: the L1 attributes survive their encoding and the decoder is strict: for a hash function with
  at least four bytes of output, data decodes to some L1 block information exactly when it is the
  encoding of that (well-formed) information.\<close>

theorem L1Info_roundtrip:
  assumes "4 \<le> length (keccak (ascii L1InfoFuncSignature))"
  shows "L1Info_UnmarshalBinary keccak dat = Inr info \<longleftrightarrow>
     l1_info_ok info \<and> L1Info_MarshalBinary keccak info = Inr dat"
  using assms by (rule L1Info_Unmarshal_iff)

definition ex_info :: l1_block_info where
  "ex_info = \<lparr>info_Number = 100, info_Time = 900, info_BaseFee = Some 7,
     info_BlockHash = replicate 32 1, info_SequenceNumber = 3, info_BatcherAddr = replicate 20 2,
     L1FeeOverhead = replicate 32 0, L1FeeScalar = replicate 32 5\<rparr>"

theorem L1Info_roundtrip_witness:
  "\<exists>dat. L1Info_MarshalBinary (\<lambda>_. replicate 32 9) ex_info = Inr dat \<and>
     L1Info_UnmarshalBinary (\<lambda>_. replicate 32 9) dat = Inr ex_info"
proof -
  have "l1_info_ok ex_info" by (simp add: l1_info_ok_def ex_info_def)
  moreover obtain dat where "L1Info_MarshalBinary (\<lambda>_. replicate 32 9) ex_info = Inr dat"
    by (simp add: L1Info_MarshalBinary_def WriteUint256_def ex_info_def)
  ultimately show ?thesis
    using L1Info_roundtrip [of "\<lambda>_. replicate 32 9" dat ex_info] by auto
qed

end
