(* ===== verification/Deposits.thy ===== *)
theory Deposits
  imports L1_Info
begin

text \<open>
  Deposits and system configuration updates, the two kinds of L1 events that the rollup follows:
  \<open>op-node/rollup/derive/deposit_log.go\<close>, \<open>deposits.go\<close> and \<open>system_config.go\<close>.
\<close>

section \<open>Logs and receipts\<close>

record log_event =
  log_Address :: address
  Topics :: "hash list"
  log_Data :: bytes
  log_BlockHash :: hash
  log_Index :: u64

record receipt =
  Status :: u64
  Logs :: "log_event list"

definition ReceiptStatusSuccessful :: u64 where
  "ReceiptStatusSuccessful = 1"

section \<open>Deposit events (deposit_log.go)\<close>

definition DepositEventABIHash :: "(bytes \<Rightarrow> hash) \<Rightarrow> hash" where
  "DepositEventABIHash keccak = keccak (ascii ''TransactionDeposited(address,address,uint256,bytes)'')"

definition DepositEventVersion0 :: hash where
  "DepositEventVersion0 = replicate 32 0"

text \<open>The packed deposit: 32 bytes mint, 32 bytes value, 8 bytes gas, the creation flag, the data.
  The gas value of 8 bytes always fits a \<open>uint64\<close>.\<close>

definition unmarshalDepositVersion0 :: "deposit_tx \<Rightarrow> address \<Rightarrow> bytes \<Rightarrow> deposit_tx result" where
  "unmarshalDepositVersion0 dep to opaqueData =
     (if length opaqueData < 32 + 32 + 8 + 1 then Inl (Errorf ''unexpected opaqueData length'')
      else
        let mint = int (be_nat (take 32 opaqueData));
            val = int (be_nat (take 32 (drop 32 opaqueData)));
            gas = be_nat (take 8 (drop 64 opaqueData))
        in if \<not> gas < 2 ^ 64 then Inl (Errorf ''bad gas value'')
           else Inr (dep\<lparr>Mint := (if mint = 0 then None else Some mint), dep_Value := val,
                        dep_Gas := of_nat gas,
                        dep_To := (if opaqueData ! 72 = 0 then Some to else dep_To dep),
                        dep_Data := drop 73 opaqueData\<rparr>))"

definition UnmarshalDepositLogEvent :: "(bytes \<Rightarrow> hash) \<Rightarrow> log_event \<Rightarrow> deposit_tx result" where
  "UnmarshalDepositLogEvent keccak ev =
     (if length (Topics ev) \<noteq> 4 then Inl (Errorf ''expected 4 event topics'')
      else if Topics ev ! 0 \<noteq> DepositEventABIHash keccak
        then Inl (Errorf ''invalid deposit event selector'')
      else if length (log_Data ev) < 64 then Inl (Errorf ''incomplate opaqueData slice header'')
      else if length (log_Data ev) mod 32 \<noteq> 0
        then Inl (Errorf ''expected log data to be multiple of 32 bytes'')
      else
        let from = drop 12 (Topics ev ! 1); to = drop 12 (Topics ev ! 2); version = Topics ev ! 3;
            offset = be_nat (take 32 (log_Data ev));
            len = be_nat (take 32 (drop 32 (log_Data ev)))
        in if offset \<noteq> 32 then Inl (Errorf ''invalid opaqueData slice header offset'')
           else if \<not> len < 2 ^ 64 \<or> of_nat len > (of_nat (length (log_Data ev) - 64) :: u64) \<or>
                   of_nat len + 32 \<le> (of_nat (length (log_Data ev) - 64) :: u64)
             then Inl (Errorf ''invalid opaqueData slice header length'')
           else
             let opaqueData = take len (drop 64 (log_Data ev));
                 dep = \<lparr>SourceHash =
                          UserDepositSource_SourceHash keccak (log_BlockHash ev) (log_Index ev),
                        dep_From = from, dep_To = None, Mint = None, dep_Value = 0, dep_Gas = 0,
                        IsSystemTransaction = False, dep_Data = []\<rparr>
             in if version = DepositEventVersion0
                then (case unmarshalDepositVersion0 dep to opaqueData of
                        Inl e \<Rightarrow> Inl (Wrap ''failed to decode deposit'' e)
                      | Inr d \<Rightarrow> Inr d)
                else Inl (Errorf ''invalid deposit version''))"

definition marshalDepositVersion0 :: "deposit_tx \<Rightarrow> bytes result" where
  "marshalDepositVersion0 deposit =
     rbind (case Mint deposit of
              None \<Rightarrow> Inr (replicate 32 0)
            | Some m \<Rightarrow> if \<bar>m\<bar> \<ge> 2 ^ 256 then Inl (Errorf ''mint value exceeds 256 bits'')
                        else Inr (be_bytes 32 (nat \<bar>m\<bar>))) (\<lambda>mint.
     if \<bar>dep_Value deposit\<bar> \<ge> 2 ^ 256 then Inl (Errorf ''value value exceeds 256 bits'')
     else Inr (mint @ be_bytes 32 (nat \<bar>dep_Value deposit\<bar>) @ put_u64 (dep_Gas deposit) @
               [if dep_To deposit = None then 1 else 0] @ dep_Data deposit))"

text \<open>\<open>Address.Hash()\<close> pads an address on the left to 32 bytes.\<close>

definition address_hash :: "address \<Rightarrow> hash" where
  "address_hash a = replicate 12 0 @ a"

definition MarshalDepositLogEvent ::
  "(bytes \<Rightarrow> hash) \<Rightarrow> address \<Rightarrow> deposit_tx \<Rightarrow> log_event result" where
  "MarshalDepositLogEvent keccak depositContractAddr deposit =
     rbind (marshalDepositVersion0 deposit) (\<lambda>opaqueData.
       let toBytes = (case dep_To deposit of None \<Rightarrow> replicate 32 0 | Some a \<Rightarrow> address_hash a);
           dat = replicate 24 0 @ put_u64 32 @ replicate 24 0 @ put_u64 (of_nat (length opaqueData)) @
                 opaqueData;
           padded = (if length dat mod 32 \<noteq> 0 then dat @ replicate (32 - length dat mod 32) 0 else dat)
       in Inr \<lparr>log_Address = depositContractAddr,
               Topics = [DepositEventABIHash keccak, address_hash (dep_From deposit), toBytes,
                         DepositEventVersion0],
               log_Data = padded, log_BlockHash = replicate 32 0, log_Index = 0\<rparr>)"

section \<open>Deposits of a block (deposits.go)\<close>

text \<open>The loops collect the deposits that can be decoded and, separately, the errors of the others.\<close>

fun user_deposits_logs ::
  "(bytes \<Rightarrow> hash) \<Rightarrow> address \<Rightarrow> log_event list \<Rightarrow> deposit_tx list \<times> error list" where
  "user_deposits_logs keccak addr [] = ([], [])"
| "user_deposits_logs keccak addr (log # logs) =
     (let (out, errs) = user_deposits_logs keccak addr logs in
      if log_Address log = addr \<and> Topics log \<noteq> [] \<and> Topics log ! 0 = DepositEventABIHash keccak
      then (case UnmarshalDepositLogEvent keccak log of
              Inl e \<Rightarrow> (out, Wrap ''malformatted L1 deposit log'' e # errs)
            | Inr dep \<Rightarrow> (dep # out, errs))
      else (out, errs))"

fun UserDeposits ::
  "(bytes \<Rightarrow> hash) \<Rightarrow> receipt list \<Rightarrow> address \<Rightarrow> deposit_tx list \<times> error list" where
  "UserDeposits keccak [] addr = ([], [])"
| "UserDeposits keccak (rec # recs) addr =
     (let (out, errs) = UserDeposits keccak recs addr in
      if Status rec \<noteq> ReceiptStatusSuccessful then (out, errs)
      else let (out1, errs1) = user_deposits_logs keccak addr (Logs rec)
           in (out1 @ out, errs1 @ errs))"

fun encode_txs :: "(deposit_tx \<Rightarrow> bytes result) \<Rightarrow> deposit_tx list \<Rightarrow> bytes list \<times> error list" where
  "encode_txs marshalTx [] = ([], [])"
| "encode_txs marshalTx (tx # txs) =
     (let (out, errs) = encode_txs marshalTx txs in
      case marshalTx tx of
        Inl e \<Rightarrow> (out, Errorf ''failed to encode user tx'' # errs)
      | Inr opaque \<Rightarrow> (opaque # out, errs))"

definition DeriveDeposits ::
  "(bytes \<Rightarrow> hash) \<Rightarrow> (deposit_tx \<Rightarrow> bytes result) \<Rightarrow> receipt list \<Rightarrow> address \<Rightarrow>
   bytes list \<times> error option" where
  "DeriveDeposits keccak marshalTx receipts addr =
     (let (userDeposits, errs) = UserDeposits keccak receipts addr;
          (encodedTxs, errs2) = encode_txs marshalTx userDeposits;
          result = (if errs = [] then [] else [Multierror errs]) @ errs2
      in (encodedTxs, if result = [] then None else Some (Multierror result)))"

section \<open>System configuration updates (system_config.go)\<close>

definition update_type :: "byte \<Rightarrow> hash" where
  "update_type n = replicate 31 0 @ [n]"

definition SystemConfigUpdateBatcher :: hash where
  "SystemConfigUpdateBatcher = update_type 0"

definition SystemConfigUpdateGasConfig :: hash where
  "SystemConfigUpdateGasConfig = update_type 1"

definition SystemConfigUpdateGasLimit :: hash where
  "SystemConfigUpdateGasLimit = update_type 2"

definition SystemConfigUpdateUnsafeBlockSigner :: hash where
  "SystemConfigUpdateUnsafeBlockSigner = update_type 3"

definition ConfigUpdateEventABIHash :: "(bytes \<Rightarrow> hash) \<Rightarrow> hash" where
  "ConfigUpdateEventABIHash keccak = keccak (ascii ''ConfigUpdate(uint256,uint8,bytes)'')"

definition ConfigUpdateEventVersion0 :: hash where
  "ConfigUpdateEventVersion0 = replicate 32 0"

text \<open>A read whose failure is reported as a critical error with the given message.\<close>

definition crit :: "string \<Rightarrow> 'a result \<Rightarrow> 'a result" where
  "crit msg x = (case x of Inl _ \<Rightarrow> Inl (NewCriticalError (Errorf msg)) | Inr a \<Rightarrow> Inr a)"

text \<open>The pointer and length fields that precede the payload of every update.\<close>

definition read_header :: "u64 \<Rightarrow> bytes \<Rightarrow> bytes result" where
  "read_header len r =
     (case ReadUint64 r of
        Inl _ \<Rightarrow> Inl (NewCriticalError (Errorf ''invalid pointer field''))
      | Inr (pointer, r1) \<Rightarrow>
          if pointer \<noteq> 32 then Inl (NewCriticalError (Errorf ''invalid pointer field''))
          else (case ReadUint64 r1 of
                  Inl _ \<Rightarrow> Inl (NewCriticalError (Errorf ''invalid length field''))
                | Inr (l, r2) \<Rightarrow>
                    if l \<noteq> len then Inl (NewCriticalError (Errorf ''invalid length field''))
                    else Inr r2))"

definition ProcessSystemConfigUpdateLogEvent ::
  "(bytes \<Rightarrow> hash) \<Rightarrow> system_config \<Rightarrow> log_event \<Rightarrow> system_config result" where
  "ProcessSystemConfigUpdateLogEvent keccak destSysCfg ev =
     (if length (Topics ev) \<noteq> 3 then Inl (Errorf ''expected 3 event topics'')
      else if Topics ev ! 0 \<noteq> ConfigUpdateEventABIHash keccak
        then Inl (Errorf ''invalid SystemConfig update event'')
      else if Topics ev ! 1 \<noteq> ConfigUpdateEventVersion0
        then Inl (Errorf ''unrecognized SystemConfig update event version'')
      else let updateType = Topics ev ! 2 in
        if updateType = SystemConfigUpdateBatcher
        then rbind (read_header 32 (log_Data ev)) (\<lambda>r.
             rbind (crit ''could not read address'' (ReadAddress r)) (\<lambda>(addr, r1).
             if \<not> EmptyReader r1 then Inl (NewCriticalError (Errorf ''too many bytes''))
             else Inr (destSysCfg\<lparr>BatcherAddr := addr\<rparr>)))
        else if updateType = SystemConfigUpdateGasConfig
        then rbind (read_header 64 (log_Data ev)) (\<lambda>r.
             rbind (crit ''could not read overhead'' (ReadEthBytes32 r)) (\<lambda>(overhead, r1).
             rbind (crit ''could not read scalar'' (ReadEthBytes32 r1)) (\<lambda>(scalar, r2).
             if \<not> EmptyReader r2 then Inl (NewCriticalError (Errorf ''too many bytes''))
             else Inr (destSysCfg\<lparr>Overhead := overhead, Scalar := scalar\<rparr>))))
        else if updateType = SystemConfigUpdateGasLimit
        then rbind (read_header 32 (log_Data ev)) (\<lambda>r.
             rbind (crit ''could not read gas limit'' (ReadUint64 r)) (\<lambda>(gasLimit, r1).
             if \<not> EmptyReader r1 then Inl (NewCriticalError (Errorf ''too many bytes''))
             else Inr (destSysCfg\<lparr>sc_GasLimit := gasLimit\<rparr>)))
        else if updateType = SystemConfigUpdateUnsafeBlockSigner then Inr destSysCfg
        else Inl (Errorf ''unrecognized L1 sysCfg update type''))"

text \<open>The two loops over receipts and logs. The configuration is updated in place, also when an
  earlier log was malformed; the errors are collected.\<close>

fun update_with_logs ::
  "(bytes \<Rightarrow> hash) \<Rightarrow> config \<Rightarrow> log_event list \<Rightarrow> system_config \<times> error list \<Rightarrow>
   system_config \<times> error list" where
  "update_with_logs keccak cfg [] (sc, errs) = (sc, errs)"
| "update_with_logs keccak cfg (log # logs) (sc, errs) =
     (if log_Address log = L1SystemConfigAddress cfg \<and> Topics log \<noteq> [] \<and>
         Topics log ! 0 = ConfigUpdateEventABIHash keccak
      then (case ProcessSystemConfigUpdateLogEvent keccak sc log of
              Inl e \<Rightarrow> update_with_logs keccak cfg logs
                         (sc, errs @ [Wrap ''malformatted L1 system sysCfg log'' e])
            | Inr sc' \<Rightarrow> update_with_logs keccak cfg logs (sc', errs))
      else update_with_logs keccak cfg logs (sc, errs))"

fun update_with_receipts ::
  "(bytes \<Rightarrow> hash) \<Rightarrow> config \<Rightarrow> receipt list \<Rightarrow> system_config \<times> error list \<Rightarrow>
   system_config \<times> error list" where
  "update_with_receipts keccak cfg [] st = st"
| "update_with_receipts keccak cfg (rec # recs) st =
     (if Status rec \<noteq> ReceiptStatusSuccessful then update_with_receipts keccak cfg recs st
      else update_with_receipts keccak cfg recs (update_with_logs keccak cfg (Logs rec) st))"

definition UpdateSystemConfigWithL1Receipts ::
  "(bytes \<Rightarrow> hash) \<Rightarrow> system_config \<Rightarrow> receipt list \<Rightarrow> config \<Rightarrow> system_config \<times> error option" where
  "UpdateSystemConfigWithL1Receipts keccak sysCfg receipts cfg =
     (let (sc, errs) = update_with_receipts keccak cfg receipts (sysCfg, [])
      in (sc, if errs = [] then None else Some (Multierror errs)))"

section \<open>Properties\<close>

subsection \<open>Round trip of deposit events\<close>

definition deposit_ok :: "deposit_tx \<Rightarrow> bool" where
  "deposit_ok dep =
     (length (dep_From dep) = 20 \<and>
      (case dep_To dep of None \<Rightarrow> True | Some a \<Rightarrow> length a = 20) \<and>
      (case Mint dep of None \<Rightarrow> True | Some m \<Rightarrow> 0 < m \<and> m < 2 ^ 256) \<and>
      0 \<le> dep_Value dep \<and> dep_Value dep < 2 ^ 256 \<and> length (dep_Data dep) < 2 ^ 32)"

definition pad32 :: "bytes \<Rightarrow> bytes" where
  "pad32 d = (if length d mod 32 \<noteq> 0 then d @ replicate (32 - length d mod 32) 0 else d)"

lemma pad32_length: "length (pad32 d) mod 32 = 0" "length d \<le> length (pad32 d)"
  "length (pad32 d) < length d + 32"
proof -
  have "(n + (32 - n mod 32)) mod 32 = 0" if "n mod 32 \<noteq> 0" for n :: nat
  proof -
    have "32 * q + r + (32 - r) = 32 * (q + 1)" if "r < 32" for q r :: nat
      using that by simp
    from this [of "n mod 32" "n div 32"] show ?thesis by (simp add: mult_div_mod_eq)
  qed
  then show "length (pad32 d) mod 32 = 0" by (simp add: pad32_def)
qed (auto simp: pad32_def)

lemma take_pad32 [simp]: "n \<le> length d \<Longrightarrow> take n (pad32 d) = take n d"
  by (simp add: pad32_def)

lemma pad32_append: "\<exists>z. pad32 d = d @ z"
  by (simp add: pad32_def)

lemma be_nat_word32 [simp]: "be_nat (replicate 24 0 @ put_u64 w) = unat w"
  by (simp add: be_nat_append)

lemma be_nat_be_bytes32: "0 \<le> v \<Longrightarrow> v < 2 ^ 256 \<Longrightarrow> int (be_nat (be_bytes 32 (nat v))) = v"
  by (simp add: be_nat_bytes)

lemma unmarshal_marshal_v0:
  assumes ok: "deposit_ok dep" and m: "marshalDepositVersion0 dep = Inr op"
  shows "length op = 73 + length (dep_Data dep)"
    and "unmarshalDepositVersion0 (dep0\<lparr>dep_To := None\<rparr>) to op =
       Inr (dep0\<lparr>Mint := Mint dep, dep_Value := dep_Value dep, dep_Gas := dep_Gas dep,
                 dep_To := (case dep_To dep of None \<Rightarrow> None | Some _ \<Rightarrow> Some to),
                 dep_Data := dep_Data dep\<rparr>)"
proof -
  define mint where "mint = (case Mint dep of None \<Rightarrow> 0 | Some m \<Rightarrow> m)"
  have mint: "0 \<le> mint" "mint < 2 ^ 256" "Mint dep = (if mint = 0 then None else Some mint)"
    using ok by (auto simp: mint_def deposit_ok_def split: option.splits)
  have zeros: "be_bytes 32 0 = replicate 32 0"
    using be_bytes_nat [of "replicate 32 (0 :: byte)"] by simp
  have op: "op = be_bytes 32 (nat mint) @ be_bytes 32 (nat (dep_Value dep)) @ put_u64 (dep_Gas dep) @
      [if dep_To dep = None then 1 else 0] @ dep_Data dep"
  proof -
    have val: "\<not> 2 ^ 256 \<le> \<bar>dep_Value dep\<bar>" "\<bar>dep_Value dep\<bar> = dep_Value dep"
      using ok by (auto simp: deposit_ok_def)
    show ?thesis
    proof (cases "Mint dep")
      case None
      then show ?thesis using m val zeros
        by (simp only: marshalDepositVersion0_def mint_def option.case rbind_simps if_False
            sum.inject nat_zero_as_int [symmetric] nat_0)
    next
      case (Some k)
      then have "\<not> 2 ^ 256 \<le> \<bar>k\<bar>" "\<bar>k\<bar> = k" using ok by (auto simp: deposit_ok_def)
      then show ?thesis using m val Some
        by (simp only: marshalDepositVersion0_def mint_def option.case rbind_simps if_False
            sum.inject)
    qed
  qed
  then show len: "length op = 73 + length (dep_Data dep)" by simp
  have parts: "take 32 op = be_bytes 32 (nat mint)"
    "take 32 (drop 32 op) = be_bytes 32 (nat (dep_Value dep))"
    "take 8 (drop 64 op) = put_u64 (dep_Gas dep)"
    "op ! 72 = (if dep_To dep = None then 1 else 0)" "drop 73 op = dep_Data dep"
    by (simp_all add: op nth_append)
  have "unat (dep_Gas dep) < 2 ^ 64" using unsigned_less [of "dep_Gas dep"] by simp
  then show "unmarshalDepositVersion0 (dep0\<lparr>dep_To := None\<rparr>) to op =
       Inr (dep0\<lparr>Mint := Mint dep, dep_Value := dep_Value dep, dep_Gas := dep_Gas dep,
                 dep_To := (case dep_To dep of None \<Rightarrow> None | Some _ \<Rightarrow> Some to),
                 dep_Data := dep_Data dep\<rparr>)"
    using len ok mint parts
    by (simp add: unmarshalDepositVersion0_def Let_def be_nat_be_bytes32 deposit_ok_def
        split: option.splits)
qed

lemma log_data_parts:
  assumes len: "length op < 2 ^ 33"
    and d: "d = pad32 (replicate 24 0 @ put_u64 32 @ replicate 24 0 @ put_u64 (of_nat (length op)) @ op)"
  shows "64 \<le> length d" "length d mod 32 = 0" "be_nat (take 32 d) = 32"
    "be_nat (take 32 (drop 32 d)) = length op" "take (length op) (drop 64 d) = op"
    "\<not> (of_nat (length op) > (of_nat (length d - 64) :: u64) \<or>
        of_nat (length op) + 32 \<le> (of_nat (length d - 64) :: u64))"
proof -
  let ?h1 = "replicate 24 0 @ put_u64 32" and ?h2 = "replicate 24 0 @ put_u64 (of_nat (length op))"
  have d': "d = pad32 (?h1 @ ?h2 @ op)" using d by simp
  note b = pad32_length [of "?h1 @ ?h2 @ op", folded d']
  show "64 \<le> length d" "length d mod 32 = 0" using b by simp_all
  obtain z where z: "d = ?h1 @ ?h2 @ op @ z"
    using pad32_append [of "?h1 @ ?h2 @ op"] d' by auto
  have op: "unat (of_nat (length op) :: u64) = length op" using len by (simp add: unat_of_nat)
  show "be_nat (take 32 d) = 32" "be_nat (take 32 (drop 32 d)) = length op"
    "take (length op) (drop 64 d) = op"
    using be_nat_word32 [of 32] be_nat_word32 [of "of_nat (length op)"] op by (simp_all add: z)
  have "length op \<le> length d - 64" "length d - 64 < length op + 32"
    using b by auto
  with len show "\<not> (of_nat (length op) > (of_nat (length d - 64) :: u64) \<or>
        of_nat (length op) + 32 \<le> (of_nat (length d - 64) :: u64))"
    by (simp add: word_less_nat_alt word_le_nat_alt unat_of_nat unat_word_ariths)
qed

lemma UnmarshalDepositLogEvent_ok:
  assumes "Topics ev = [DepositEventABIHash keccak, t1, t2, DepositEventVersion0]"
    and "log_Data ev = d" "64 \<le> length d" "length d mod 32 = 0" "be_nat (take 32 d) = 32"
    and "be_nat (take 32 (drop 32 d)) = n" "n < 2 ^ 64"
    and "\<not> (of_nat n > (of_nat (length d - 64) :: u64) \<or>
        of_nat n + 32 \<le> (of_nat (length d - 64) :: u64))"
    and "unmarshalDepositVersion0
       \<lparr>SourceHash = UserDepositSource_SourceHash keccak (log_BlockHash ev) (log_Index ev),
        dep_From = drop 12 t1, dep_To = None, Mint = None, dep_Value = 0, dep_Gas = 0,
        IsSystemTransaction = False, dep_Data = []\<rparr> (drop 12 t2) (take n (drop 64 d)) = Inr dep"
  shows "UnmarshalDepositLogEvent keccak ev = Inr dep"
proof -
  have idx: "Topics ev ! 0 = DepositEventABIHash keccak" "Topics ev ! 1 = t1" "Topics ev ! 2 = t2"
    "Topics ev ! 3 = DepositEventVersion0" "length (Topics ev) = 4"
    using assms(1) by (simp_all add: numeral_2_eq_2 numeral_3_eq_3)
  have "\<not> length d < 64" using assms(3) by simp
  then show ?thesis
    unfolding UnmarshalDepositLogEvent_def Let_def idx assms(2,5,6)
    using assms(4,7,8,9) by auto
qed

text \<open>C11: a deposit that is written as a log event of the deposit contract and read back by the
  derivation is the same deposit; its source hash is the one of the event's position, and it is not
  a system transaction.\<close>

theorem deposit_log_roundtrip:
  assumes ok: "deposit_ok dep"
  shows "\<exists>ev. MarshalDepositLogEvent keccak addr dep = Inr ev \<and>
     UnmarshalDepositLogEvent keccak ev =
       Inr (dep\<lparr>SourceHash := UserDepositSource_SourceHash keccak (replicate 32 0) 0,
               IsSystemTransaction := False\<rparr>)"
proof -
  have val: "\<not> 2 ^ 256 \<le> \<bar>dep_Value dep\<bar>" and mint: "Mint dep = Some m \<Longrightarrow> \<not> 2 ^ 256 \<le> \<bar>m\<bar>" for m
    using ok by (auto simp: deposit_ok_def)
  obtain op where m: "marshalDepositVersion0 dep = Inr op"
    using val mint by (cases "Mint dep") (simp_all add: marshalDepositVersion0_def)
  note v0 = unmarshal_marshal_v0 [OF ok m]
  define d where "d = pad32 (replicate 24 0 @ put_u64 32 @ replicate 24 0 @
      put_u64 (of_nat (length op)) @ op)"
  have "length op < 2 ^ 33" using v0(1) ok by (simp add: deposit_ok_def)
  note parts = log_data_parts [OF this d_def]
  let ?ev = "\<lparr>log_Address = addr, Topics = [DepositEventABIHash keccak, address_hash (dep_From dep),
      (case dep_To dep of None \<Rightarrow> replicate 32 0 | Some a \<Rightarrow> address_hash a), DepositEventVersion0],
      log_Data = d, log_BlockHash = replicate 32 0, log_Index = 0\<rparr>"
  have ev: "MarshalDepositLogEvent keccak addr dep = Inr ?ev"
    unfolding MarshalDepositLogEvent_def m rbind_simps Let_def d_def pad32_def ..
  have opl: "length op < 2 ^ 64" using \<open>length op < 2 ^ 33\<close> by simp
  let ?to = "case dep_To dep of None \<Rightarrow> replicate 32 0 | Some a \<Rightarrow> address_hash a"
  have "unmarshalDepositVersion0
       \<lparr>SourceHash = UserDepositSource_SourceHash keccak (log_BlockHash ?ev) (log_Index ?ev),
        dep_From = drop 12 (address_hash (dep_From dep)), dep_To = None, Mint = None,
        dep_Value = 0, dep_Gas = 0, IsSystemTransaction = False, dep_Data = []\<rparr> (drop 12 ?to)
        (take (length op) (drop 64 d)) =
      Inr (dep\<lparr>SourceHash := UserDepositSource_SourceHash keccak (replicate 32 0) 0,
               IsSystemTransaction := False\<rparr>)"
    using v0(2) [of "\<lparr>SourceHash = UserDepositSource_SourceHash keccak (replicate 32 0) 0,
        dep_From = dep_From dep, dep_To = None, Mint = None, dep_Value = 0, dep_Gas = 0,
        IsSystemTransaction = False, dep_Data = []\<rparr>" "drop 12 ?to"]
    by (cases dep) (auto simp: parts(5) address_hash_def split: option.splits)
  with parts opl have "UnmarshalDepositLogEvent keccak ?ev =
      Inr (dep\<lparr>SourceHash := UserDepositSource_SourceHash keccak (replicate 32 0) 0,
               IsSystemTransaction := False\<rparr>)"
    by (intro UnmarshalDepositLogEvent_ok [where n = "length op" and d = d]) (assumption | simp)+
  with ev show ?thesis by blast
qed

definition ex_deposit :: deposit_tx where
  "ex_deposit = \<lparr>SourceHash = [], dep_From = replicate 20 7, dep_To = Some (replicate 20 8),
     Mint = Some 5, dep_Value = 3, dep_Gas = 21000, IsSystemTransaction = False, dep_Data = [1, 2]\<rparr>"

theorem deposit_log_roundtrip_witness:
  "\<exists>ev. MarshalDepositLogEvent (\<lambda>_. replicate 32 9) (replicate 20 5) ex_deposit = Inr ev \<and>
     UnmarshalDepositLogEvent (\<lambda>_. replicate 32 9) ev =
       Inr (ex_deposit\<lparr>SourceHash := replicate 32 9\<rparr>)"
proof -
  have "deposit_ok ex_deposit" by (simp add: deposit_ok_def ex_deposit_def)
  from deposit_log_roundtrip [OF this, of "\<lambda>_. replicate 32 9" "replicate 20 5"] show ?thesis
    by (simp add: UserDepositSource_SourceHash_def ex_deposit_def)
qed

subsection \<open>System configuration updates\<close>

text \<open>The logs that count: those of the system configuration contract with the right event, in
  transactions that succeeded.\<close>

definition is_config_log :: "(bytes \<Rightarrow> hash) \<Rightarrow> config \<Rightarrow> log_event \<Rightarrow> bool" where
  "is_config_log keccak cfg log =
     (log_Address log = L1SystemConfigAddress cfg \<and> Topics log \<noteq> [] \<and>
      Topics log ! 0 = ConfigUpdateEventABIHash keccak)"

definition config_logs :: "(bytes \<Rightarrow> hash) \<Rightarrow> config \<Rightarrow> receipt list \<Rightarrow> log_event list" where
  "config_logs keccak cfg receipts =
     filter (is_config_log keccak cfg)
       (concat (map Logs (filter (\<lambda>r. Status r = ReceiptStatusSuccessful) receipts)))"

lemma update_with_logs_filter:
  "update_with_logs keccak cfg logs st =
   update_with_logs keccak cfg (filter (is_config_log keccak cfg) logs) st"
  by (induction keccak cfg logs st rule: update_with_logs.induct)
    (auto simp: is_config_log_def split: sum.splits)

lemma update_with_logs_append:
  "update_with_logs keccak cfg (xs @ ys) st =
   update_with_logs keccak cfg ys (update_with_logs keccak cfg xs st)"
  by (induction keccak cfg xs st rule: update_with_logs.induct) (auto split: sum.splits)

lemma update_with_receipts_logs:
  "update_with_receipts keccak cfg receipts st =
   update_with_logs keccak cfg (config_logs keccak cfg receipts) st"
proof (induction receipts arbitrary: st)
  case Nil
  then show ?case by (cases st) (simp add: config_logs_def)
next
  case (Cons r rs)
  show ?case
    using Cons update_with_logs_filter [of keccak cfg "Logs r" st]
    by (auto simp: config_logs_def update_with_logs_append)
qed

text \<open>C12: the system configuration after a block of L1 receipts is determined by the events of the
  system configuration contract in successful transactions, in their order: receipts that agree
  on those events have the same effect, and without such an event nothing changes and nothing
  fails. Logs of other contracts and of reverted transactions have no influence.\<close>

theorem system_config_update_authentic:
  "(config_logs keccak cfg receipts = config_logs keccak cfg receipts' \<longrightarrow>
      UpdateSystemConfigWithL1Receipts keccak sc receipts cfg =
      UpdateSystemConfigWithL1Receipts keccak sc receipts' cfg) \<and>
   (config_logs keccak cfg receipts = [] \<longrightarrow>
      UpdateSystemConfigWithL1Receipts keccak sc receipts cfg = (sc, None))"
  by (simp add: UpdateSystemConfigWithL1Receipts_def update_with_receipts_logs)

theorem system_config_update_authentic_witness:
  "UpdateSystemConfigWithL1Receipts (\<lambda>_. replicate 32 9) zero_system_config
     [\<lparr>Status = 0, Logs = [\<lparr>log_Address = replicate 20 6, Topics = [replicate 32 9], log_Data = [],
        log_BlockHash = [], log_Index = 0\<rparr>]\<rparr>] example_cfg = (zero_system_config, None)"
proof -
  let ?rs = "[\<lparr>Status = 0, Logs = [\<lparr>log_Address = replicate 20 6, Topics = [replicate 32 9],
      log_Data = [], log_BlockHash = [], log_Index = 0\<rparr>]\<rparr>]"
  have "config_logs (\<lambda>_. replicate 32 9) example_cfg ?rs = []"
    by (simp add: config_logs_def ReceiptStatusSuccessful_def)
  then show ?thesis
    using system_config_update_authentic [of "\<lambda>_. replicate 32 9" example_cfg ?rs] by simp
qed

lemma update_types_distinct:
  "SystemConfigUpdateBatcher \<noteq> SystemConfigUpdateGasConfig"
  "SystemConfigUpdateBatcher \<noteq> SystemConfigUpdateGasLimit"
  "SystemConfigUpdateGasConfig \<noteq> SystemConfigUpdateGasLimit"
  by (simp_all add: SystemConfigUpdateBatcher_def SystemConfigUpdateGasConfig_def
      SystemConfigUpdateGasLimit_def update_type_def)

lemma read_header_iff: "read_header len r = Inr r' \<longleftrightarrow> r = WriteUint64 32 @ WriteUint64 len @ r'"
proof
  assume "read_header len r = Inr r'"
  then obtain r1 where "ReadUint64 r = Inr (32, r1)" "ReadUint64 r1 = Inr (len, r')"
    by (auto simp: read_header_def split: sum.splits if_splits)
  then show "r = WriteUint64 32 @ WriteUint64 len @ r'" by (simp add: ReadUint64_iff)
qed (simp add: read_header_def)

lemma crit_Inr [simp]: "crit msg x = Inr a \<longleftrightarrow> x = Inr a"
  by (cases x) (simp_all add: crit_def)

text \<open>an update event is applied only if its data is the exact ABI encoding of the new value, and
  then it changes that part of the configuration and nothing else: the batcher address, the fee
  overhead and scalar, or the gas limit.\<close>

theorem system_config_event_strict:
  assumes "Topics ev = [ConfigUpdateEventABIHash keccak, ConfigUpdateEventVersion0, t]"
  shows "(t = SystemConfigUpdateBatcher \<longrightarrow>
      (ProcessSystemConfigUpdateLogEvent keccak sc ev = Inr sc' \<longleftrightarrow>
       (\<exists>a. length a = 20 \<and> log_Data ev = WriteUint64 32 @ WriteUint64 32 @ WriteAddress a \<and>
            sc' = sc\<lparr>BatcherAddr := a\<rparr>))) \<and>
    (t = SystemConfigUpdateGasConfig \<longrightarrow>
      (ProcessSystemConfigUpdateLogEvent keccak sc ev = Inr sc' \<longleftrightarrow>
       (\<exists>o1 s1. length o1 = 32 \<and> length s1 = 32 \<and>
            log_Data ev = WriteUint64 32 @ WriteUint64 64 @ o1 @ s1 \<and>
            sc' = sc\<lparr>Overhead := o1, Scalar := s1\<rparr>))) \<and>
    (t = SystemConfigUpdateGasLimit \<longrightarrow>
      (ProcessSystemConfigUpdateLogEvent keccak sc ev = Inr sc' \<longleftrightarrow>
       (\<exists>g. log_Data ev = WriteUint64 32 @ WriteUint64 32 @ WriteUint64 g \<and>
            sc' = sc\<lparr>sc_GasLimit := g\<rparr>)))"
proof -
  have idx: "Topics ev ! 0 = ConfigUpdateEventABIHash keccak" "Topics ev ! 1 = ConfigUpdateEventVersion0"
    "Topics ev ! 2 = t" "length (Topics ev) = 3"
    using assms by (simp_all add: numeral_2_eq_2)
  show ?thesis
    unfolding ProcessSystemConfigUpdateLogEvent_def idx Let_def
    by (auto simp: update_types_distinct update_types_distinct [symmetric] rbind_Inr read_header_iff
        ReadAddress_iff ReadUint64_iff ReadEthBytes32_def read_full_Inr EmptyReader_def
        split: if_splits)
qed

theorem system_config_event_strict_witness:
  "ProcessSystemConfigUpdateLogEvent (\<lambda>_. replicate 32 9) zero_system_config
     \<lparr>log_Address = replicate 20 6,
      Topics = [replicate 32 9, ConfigUpdateEventVersion0, SystemConfigUpdateBatcher],
      log_Data = WriteUint64 32 @ WriteUint64 32 @ WriteAddress (replicate 20 1),
      log_BlockHash = [], log_Index = 0\<rparr> = Inr (zero_system_config\<lparr>BatcherAddr := replicate 20 1\<rparr>)"
proof -
  let ?ev = "\<lparr>log_Address = replicate 20 6,
      Topics = [replicate 32 9, ConfigUpdateEventVersion0, SystemConfigUpdateBatcher],
      log_Data = WriteUint64 32 @ WriteUint64 32 @ WriteAddress (replicate 20 1),
      log_BlockHash = [], log_Index = 0\<rparr>"
  have "Topics ?ev = [ConfigUpdateEventABIHash (\<lambda>_. replicate 32 9), ConfigUpdateEventVersion0,
      SystemConfigUpdateBatcher]"
    by (simp add: ConfigUpdateEventABIHash_def)
  note strict = system_config_event_strict [OF this, of zero_system_config
      "zero_system_config\<lparr>BatcherAddr := replicate 20 1\<rparr>", THEN conjunct1, THEN mp, OF refl]
  show ?thesis by (rule strict [THEN iffD2], intro exI [of _ "replicate 20 1"]) simp
qed

end
