(* ===== verification/L1_Stages.thy ===== *)
theory L1_Stages
  imports Channels Deposits
begin

text \<open>
  The first two stages of the derivation pipeline: the traversal of the L1 chain
  (\<open>op-node/rollup/derive/l1_traversal.go\<close>) and the retrieval of batcher data from each L1 block
  (\<open>l1_retrieval.go\<close>, \<open>calldata_source.go\<close>). The L1 client is a record of functions: what the node
  can ask it for.
\<close>

section \<open>L1 client\<close>

text \<open>A transaction, as far as the data source reads it. The sender is recovered by the signer of
  go-ethereum; it is part of the client's answer here.\<close>

record l1_tx =
  tx_To :: "address option"
  tx_Sender :: "address result"
  tx_Data :: bytes

record l1_client =
  L1BlockRefByNumber :: "u64 \<Rightarrow> l1_block_ref result"
  L1BlockRefByHash :: "hash \<Rightarrow> l1_block_ref result"
  InfoByHash :: "hash \<Rightarrow> block_info result"
  FetchReceipts :: "hash \<Rightarrow> (block_info \<times> receipt list) result"
  InfoAndTxsByHash :: "hash \<Rightarrow> l1_tx list result"

section \<open>L1 traversal\<close>

record l1_traversal =
  trav_block :: l1_block_ref
  trav_done :: bool
  trav_sysCfg :: system_config

definition NewL1Traversal :: l1_traversal where
  "NewL1Traversal = \<lparr>trav_block = zero_l1_ref, trav_done = False, trav_sysCfg = zero_system_config\<rparr>"

definition L1Traversal_Origin :: "l1_traversal \<Rightarrow> l1_block_ref" where
  "L1Traversal_Origin l1t = trav_block l1t"

definition NextL1Block :: "(l1_traversal, l1_block_ref) pull" where
  "NextL1Block l1t =
     (if \<not> trav_done l1t then (l1t\<lparr>trav_done := True\<rparr>, Inr (trav_block l1t)) else (l1t, Inl EOF))"

definition AdvanceL1Block ::
  "(bytes \<Rightarrow> hash) \<Rightarrow> config \<Rightarrow> l1_client \<Rightarrow> l1_traversal \<Rightarrow> l1_traversal \<times> unit result" where
  "AdvanceL1Block keccak cfg l1 l1t =
     (let origin = trav_block l1t in
      case L1BlockRefByNumber l1 (l1_Number origin + 1) of
        Inl e \<Rightarrow>
          if errors_Is e NotFound then (l1t, Inl EOF)
          else (l1t, Inl (NewTemporaryError (Wrap ''failed to find L1 block info by number'' e)))
      | Inr nextL1Origin \<Rightarrow>
          if l1_Hash (trav_block l1t) \<noteq> l1_ParentHash nextL1Origin
          then (l1t, Inl (NewResetError (Errorf ''detected L1 reorg'')))
          else
            (case FetchReceipts l1 (l1_Hash nextL1Origin) of
               Inl e \<Rightarrow> (l1t, Inl (NewTemporaryError (Wrap ''failed to fetch receipts'' e)))
             | Inr (_, receipts) \<Rightarrow>
                 (case UpdateSystemConfigWithL1Receipts keccak (trav_sysCfg l1t) receipts cfg of
                    (sc, Some e) \<Rightarrow>
                      (l1t\<lparr>trav_sysCfg := sc\<rparr>,
                       Inl (NewCriticalError (Wrap ''failed to update L1 sysCfg'' e)))
                  | (sc, None) \<Rightarrow>
                      (l1t\<lparr>trav_sysCfg := sc, trav_block := nextL1Origin, trav_done := False\<rparr>,
                       Inr ()))))"

definition L1Traversal_Reset ::
  "l1_block_ref \<Rightarrow> system_config \<Rightarrow> l1_traversal \<Rightarrow> l1_traversal \<times> error" where
  "L1Traversal_Reset base cfg l1t =
     (l1t\<lparr>trav_block := base, trav_done := False, trav_sysCfg := cfg\<rparr>, EOF)"

definition L1Traversal_SystemConfig :: "l1_traversal \<Rightarrow> system_config" where
  "L1Traversal_SystemConfig l1t = trav_sysCfg l1t"

section \<open>Batcher data of a block (calldata_source.go)\<close>

record data_source =
  ds_open :: bool
  ds_data :: "bytes list"
  ds_id :: block_id
  ds_batcherAddr :: address

fun DataFromEVMTransactions :: "config \<Rightarrow> address \<Rightarrow> l1_tx list \<Rightarrow> bytes list" where
  "DataFromEVMTransactions cfg batcherAddr [] = []"
| "DataFromEVMTransactions cfg batcherAddr (tx # txs) =
     (case tx_To tx of
        Some to \<Rightarrow>
          if to = BatchInboxAddress cfg
          then (case tx_Sender tx of
                  Inl _ \<Rightarrow> DataFromEVMTransactions cfg batcherAddr txs
                | Inr seqDataSubmitter \<Rightarrow>
                    if seqDataSubmitter \<noteq> batcherAddr
                    then DataFromEVMTransactions cfg batcherAddr txs
                    else tx_Data tx # DataFromEVMTransactions cfg batcherAddr txs)
          else DataFromEVMTransactions cfg batcherAddr txs
      | None \<Rightarrow> DataFromEVMTransactions cfg batcherAddr txs)"

text \<open>The constructor never fails: if the block cannot be fetched, the source stays closed and
  tries again later. An open source keeps neither the block nor the batcher address.\<close>

definition NewDataSource :: "config \<Rightarrow> l1_client \<Rightarrow> block_id \<Rightarrow> address \<Rightarrow> data_source" where
  "NewDataSource cfg l1 block batcherAddr =
     (case InfoAndTxsByHash l1 (Hash block) of
        Inl _ \<Rightarrow> \<lparr>ds_open = False, ds_data = [], ds_id = block, ds_batcherAddr = batcherAddr\<rparr>
      | Inr txs \<Rightarrow> \<lparr>ds_open = True, ds_data = DataFromEVMTransactions cfg batcherAddr txs,
                   ds_id = \<lparr>Hash = zero_hash, Number = 0\<rparr>, ds_batcherAddr = zero_address\<rparr>)"

definition OpenData :: "config \<Rightarrow> l1_client \<Rightarrow> block_id \<Rightarrow> address \<Rightarrow> data_source" where
  "OpenData cfg l1 block batcherAddr = NewDataSource cfg l1 block batcherAddr"

definition take_data :: "(data_source, bytes) pull" where
  "take_data ds =
     (case ds_data ds of
        [] \<Rightarrow> (ds, Inl EOF)
      | d # rest \<Rightarrow> (ds\<lparr>ds_data := rest\<rparr>, Inr d))"

definition DataSource_Next :: "config \<Rightarrow> l1_client \<Rightarrow> (data_source, bytes) pull" where
  "DataSource_Next cfg l1 ds =
     (if \<not> ds_open ds
      then (case InfoAndTxsByHash l1 (Hash (ds_id ds)) of
              Inr txs \<Rightarrow>
                take_data (ds\<lparr>ds_open := True,
                  ds_data := DataFromEVMTransactions cfg (ds_batcherAddr ds) txs\<rparr>)
            | Inl e \<Rightarrow>
                if errors_Is e NotFound
                then (ds, Inl (NewResetError (Wrap ''failed to open calldata source'' e)))
                else (ds, Inl (NewTemporaryError (Wrap ''failed to open calldata source'' e))))
      else take_data ds)"

section \<open>L1 retrieval\<close>

record l1_retrieval =
  datas :: "data_source option"

definition NewL1Retrieval :: l1_retrieval where
  "NewL1Retrieval = \<lparr>datas = None\<rparr>"

definition fetch_data ::
  "config \<Rightarrow> l1_client \<Rightarrow> l1_retrieval \<Rightarrow> data_source \<Rightarrow> l1_retrieval \<times> bytes result" where
  "fetch_data cfg l1 l1r ds =
     (case DataSource_Next cfg l1 ds of
        (ds', Inl e) \<Rightarrow>
          if e = EOF then (l1r\<lparr>datas := None\<rparr>, Inl EOF)
          else (l1r\<lparr>datas := Some ds'\<rparr>, Inl e)
      | (ds', Inr d) \<Rightarrow> (l1r\<lparr>datas := Some ds'\<rparr>, Inr d))"

definition L1Retrieval_NextData ::
  "config \<Rightarrow> l1_client \<Rightarrow> (l1_traversal \<times> l1_retrieval, bytes) pull" where
  "L1Retrieval_NextData cfg l1 = (\<lambda>(l1t, l1r).
     case datas l1r of
       Some ds \<Rightarrow> (case fetch_data cfg l1 l1r ds of (l1r', r) \<Rightarrow> ((l1t, l1r'), r))
     | None \<Rightarrow>
         (case NextL1Block l1t of
            (l1t', Inl e) \<Rightarrow> ((l1t', l1r), Inl e)
          | (l1t', Inr next) \<Rightarrow>
              let ds = OpenData cfg l1 (L1_ID next) (BatcherAddr (L1Traversal_SystemConfig l1t'))
              in (case fetch_data cfg l1 l1r ds of (l1r', r) \<Rightarrow> ((l1t', l1r'), r))))"

definition L1Retrieval_Reset ::
  "config \<Rightarrow> l1_client \<Rightarrow> l1_block_ref \<Rightarrow> system_config \<Rightarrow> l1_retrieval \<Rightarrow> l1_retrieval \<times> error" where
  "L1Retrieval_Reset cfg l1 base sysCfg l1r =
     (l1r\<lparr>datas := Some (OpenData cfg l1 (L1_ID base) (BatcherAddr sysCfg))\<rparr>, EOF)"

section \<open>The two stages as a provider of data\<close>

lemma levels_not_panic [simp]:
  "\<not> is_panic (NewTemporaryError e)" "\<not> is_panic (NewResetError e)"
  "\<not> is_panic (NewCriticalError e)"
  by (simp_all add: NewTemporaryError_def NewResetError_def NewCriticalError_def NewError_def)

lemma DataSource_Next_no_panic: "DataSource_Next cfg l1 ds = (ds', Inl e) \<Longrightarrow> \<not> is_panic e"
  by (auto simp: DataSource_Next_def take_data_def split: if_splits sum.splits list.splits)

interpretation l1_data: NextDataProvider "\<lambda>_. True" "L1Retrieval_NextData cfg l1" for cfg l1
proof (unfold_locales, goal_cases)
  case (2 p e)
  then show ?case
    by (auto simp: L1Retrieval_NextData_def fetch_data_def NextL1Block_def Let_def
        split: option.splits prod.splits sum.splits if_splits dest: DataSource_Next_no_panic)
qed simp

text \<open>The frame queue on top of the L1 stages, and the channel bank on top of the frame queue.\<close>

definition frames_pull ::
  "config \<Rightarrow> l1_client \<Rightarrow> ((l1_traversal \<times> l1_retrieval) \<times> frame_queue, frame) pull" where
  "frames_pull cfg l1 = FrameQueue_NextFrame (L1Retrieval_NextData cfg l1)"

interpretation l1_frames: NextFrameProvider "\<lambda>(_, fq). frame_queue_inv fq" "frames_pull cfg l1"
  for cfg l1
  using l1_data.FrameQueue_stage [of cfg l1]
  by (simp add: NextFrameProvider_def frames_pull_def)

definition frames_origin :: "(l1_traversal \<times> l1_retrieval) \<times> frame_queue \<Rightarrow> l1_block_ref" where
  "frames_origin p = L1Traversal_Origin (fst (fst p))"

definition channels_pull ::
  "config \<Rightarrow> l1_client \<Rightarrow>
   (((l1_traversal \<times> l1_retrieval) \<times> frame_queue) \<times> channel_bank, bytes) pull" where
  "channels_pull cfg l1 = ChannelBank_NextData cfg frames_origin (frames_pull cfg l1)"

interpretation l1_channels: NextDataProvider
  "\<lambda>(p, cb). (case p of (_, fq) \<Rightarrow> frame_queue_inv fq) \<and> bank_inv cb" "channels_pull cfg l1" for cfg l1
  using l1_frames.ChannelBank_stage [of cfg frames_origin cfg l1]
  by (simp add: NextDataProvider_def channels_pull_def split_beta)

end
