(* ===== verification/Payloads.thy ===== *)
theory Payloads
  imports L1_Info
begin

text \<open>
  Execution payloads and payload attributes (\<open>op-service/eth/types.go\<close>), the L2 block reference and
  system configuration that a payload carries in its first transaction
  (\<open>op-node/rollup/derive/payload_util.go\<close>), the checks on a payload that the engine built
  (\<open>engine_update.go\<close>), and the comparison of a block with the attributes derived from L1
  (\<open>engine_consolidate.go\<close>). The transaction codec of go-ethereum is a parameter: \<open>unmarshalTx\<close>
  returns the type and the data of a transaction.
\<close>

section \<open>Data\<close>

record execution_payload =
  ep_ParentHash :: hash
  FeeRecipient :: address
  StateRoot :: bytes
  ReceiptsRoot :: bytes
  LogsBloom :: bytes
  ep_PrevRandao :: bytes
  BlockNumber :: u64
  ep_GasLimit :: u64
  GasUsed :: u64
  ep_Timestamp :: u64
  ExtraData :: bytes
  BaseFeePerGas :: "256 word"
  BlockHash :: hash
  ep_Transactions :: "bytes list"

definition Payload_ID :: "execution_payload \<Rightarrow> block_id" where
  "Payload_ID p = \<lparr>Hash = BlockHash p, Number = BlockNumber p\<rparr>"

definition Payload_ParentID :: "execution_payload \<Rightarrow> block_id" where
  "Payload_ParentID p =
     (let n = BlockNumber p; n' = (if n > 0 then n - 1 else n)
      in \<lparr>Hash = ep_ParentHash p, Number = n'\<rparr>)"

record payload_attributes =
  pa_Timestamp :: u64
  pa_PrevRandao :: bytes
  SuggestedFeeRecipient :: address
  pa_Transactions :: "bytes list"
  NoTxPool :: bool
  pa_GasLimit :: "u64 option"

datatype payload_status =
    ExecutionValid
  | ExecutionInvalid
  | ExecutionSyncing
  | ExecutionAccepted
  | ExecutionInvalidBlockHash
  | ExecutionInvalidTerminalBlock
  | UnknownStatus string

text \<open>The errors for a status (\<open>op-service/eth/status.go\<close>); a valid status is no error.\<close>

definition ForkchoiceUpdateErr :: "payload_status \<Rightarrow> error option" where
  "ForkchoiceUpdateErr s =
     (case s of
        ExecutionSyncing \<Rightarrow> Some (Errorf ''updated forkchoice, but node is syncing'')
      | ExecutionAccepted \<Rightarrow> Some (Errorf ''unexpected status, could not update forkchoice'')
      | ExecutionInvalidTerminalBlock \<Rightarrow> Some (Errorf ''unexpected status, could not update forkchoice'')
      | ExecutionInvalidBlockHash \<Rightarrow> Some (Errorf ''unexpected status, could not update forkchoice'')
      | ExecutionInvalid \<Rightarrow> Some (Errorf ''cannot update forkchoice, block is invalid'')
      | ExecutionValid \<Rightarrow> None
      | UnknownStatus _ \<Rightarrow> Some (Errorf ''unknown forkchoice status''))"

definition NewPayloadErr :: "payload_status \<Rightarrow> error option" where
  "NewPayloadErr s =
     (case s of
        ExecutionValid \<Rightarrow> None
      | ExecutionSyncing \<Rightarrow> Some (Errorf ''failed to execute payload, node is syncing'')
      | ExecutionInvalid \<Rightarrow> Some (Errorf ''execution payload was INVALID'')
      | ExecutionInvalidBlockHash \<Rightarrow> Some (Errorf ''execution payload has INVALID BLOCKHASH'')
      | ExecutionInvalidTerminalBlock \<Rightarrow> Some (Errorf ''engine is misconfigured'')
      | ExecutionAccepted \<Rightarrow> Some (Errorf ''execution payload cannot be validated yet'')
      | UnknownStatus _ \<Rightarrow> Some (Errorf ''unknown execution status''))"

definition InvalidForkchoiceState :: int where
  "InvalidForkchoiceState = -38002"

definition InvalidPayloadAttributes :: int where
  "InvalidPayloadAttributes = -38003"

record forkchoice_state =
  HeadBlockHash :: hash
  SafeBlockHash :: hash
  FinalizedBlockHash :: hash

section \<open>Block references from payloads (payload_util.go)\<close>

definition read_l1_info ::
  "(bytes \<Rightarrow> hash) \<Rightarrow> (bytes \<Rightarrow> (byte \<times> bytes) result) \<Rightarrow> execution_payload \<Rightarrow> l1_block_info result" where
  "read_l1_info keccak unmarshalTx payload =
     (case ep_Transactions payload of
        [] \<Rightarrow> Inl (Errorf ''l2 block is missing L1 info deposit tx'')
      | t # _ \<Rightarrow>
          (case unmarshalTx t of
             Inl e \<Rightarrow> Inl (Wrap ''failed to decode first tx to read l1 info from'' e)
           | Inr (ty, dat) \<Rightarrow>
               if ty \<noteq> DepositTxType then Inl (Errorf ''first payload tx has unexpected tx type'')
               else (case L1InfoDepositTxData keccak dat of
                       Inl e \<Rightarrow> Inl (Wrap ''failed to parse L1 info deposit tx from L2 block'' e)
                     | Inr info \<Rightarrow> Inr info)))"

definition PayloadToBlockRef ::
  "(bytes \<Rightarrow> hash) \<Rightarrow> (bytes \<Rightarrow> (byte \<times> bytes) result) \<Rightarrow> execution_payload \<Rightarrow> genesis \<Rightarrow>
   l2_block_ref result" where
  "PayloadToBlockRef keccak unmarshalTx payload gen =
     (let ref = (\<lambda>l1Origin sequenceNumber.
            \<lparr>l2_Hash = BlockHash payload, l2_Number = BlockNumber payload,
             l2_ParentHash = ep_ParentHash payload, l2_Time = ep_Timestamp payload,
             L1Origin = l1Origin, SequenceNumber = sequenceNumber\<rparr>)
      in if BlockNumber payload = Number (gen_L2 gen)
         then (if BlockHash payload \<noteq> Hash (gen_L2 gen)
               then Inl (Errorf ''expected L2 genesis hash to match L2 block at genesis block number'')
               else Inr (ref (gen_L1 gen) 0))
         else (case read_l1_info keccak unmarshalTx payload of
                 Inl e \<Rightarrow> Inl e
               | Inr info \<Rightarrow>
                   Inr (ref \<lparr>Hash = info_BlockHash info, Number = info_Number info\<rparr>
                            (info_SequenceNumber info))))"

definition PayloadToSystemConfig ::
  "(bytes \<Rightarrow> hash) \<Rightarrow> (bytes \<Rightarrow> (byte \<times> bytes) result) \<Rightarrow> execution_payload \<Rightarrow> config \<Rightarrow>
   system_config result" where
  "PayloadToSystemConfig keccak unmarshalTx payload cfg =
     (let gen = Genesis cfg in
      if BlockNumber payload = Number (gen_L2 gen)
      then (if BlockHash payload \<noteq> Hash (gen_L2 gen)
            then Inl (Errorf ''expected L2 genesis hash to match L2 block at genesis block number'')
            else Inr (gen_SystemConfig gen))
      else (case read_l1_info keccak unmarshalTx payload of
              Inl e \<Rightarrow> Inl e
            | Inr info \<Rightarrow>
                Inr \<lparr>BatcherAddr = info_BatcherAddr info, Overhead = L1FeeOverhead info,
                     Scalar = L1FeeScalar info, sc_GasLimit = ep_GasLimit payload\<rparr>))"

section \<open>Deposits come first (engine_update.go)\<close>

definition isDepositTx :: "bytes \<Rightarrow> bool result" where
  "isDepositTx opaqueTx =
     (case opaqueTx of [] \<Rightarrow> Inl (Errorf ''empty transaction'') | b # _ \<Rightarrow> Inr (b = DepositTxType))"

text \<open>The loop of \<open>lastDeposit\<close> at index \<open>i\<close>, with the index found so far.\<close>

fun lastDeposit_loop :: "nat \<Rightarrow> nat \<Rightarrow> bytes list \<Rightarrow> nat result" where
  "lastDeposit_loop i k [] = Inr k"
| "lastDeposit_loop i k (tx # txs) =
     (case isDepositTx tx of
        Inl _ \<Rightarrow> Inl (Errorf ''invalid transaction'')
      | Inr True \<Rightarrow> lastDeposit_loop (Suc i) i txs
      | Inr False \<Rightarrow> Inr k)"

definition lastDeposit :: "bytes list \<Rightarrow> nat result" where
  "lastDeposit txns = lastDeposit_loop 0 0 txns"

fun no_deposits :: "bytes list \<Rightarrow> unit result" where
  "no_deposits [] = Inr ()"
| "no_deposits (tx # txs) =
     (case isDepositTx tx of
        Inl e \<Rightarrow> Inl (Wrap ''failed to decode transaction'' e)
      | Inr True \<Rightarrow> Inl (Errorf ''deposit tx after other tx in l2 block'')
      | Inr False \<Rightarrow> no_deposits txs)"

text \<open>The first byte of the first transaction is read before any length check.\<close>

definition sanityCheckPayload :: "execution_payload \<Rightarrow> unit result" where
  "sanityCheckPayload payload =
     (case ep_Transactions payload of
        [] \<Rightarrow> Inl (Errorf ''no transactions in returned payload'')
      | [] # _ \<Rightarrow> Inl (Panic ''index out of range'')
      | (b # _) # _ \<Rightarrow>
          if b \<noteq> DepositTxType then Inl (Errorf ''first transaction was not deposit tx'')
          else (case lastDeposit (ep_Transactions payload) of
                  Inl e \<Rightarrow> Inl (Wrap ''failed to find last deposit'' e)
                | Inr k \<Rightarrow> no_deposits (drop (k + 1) (ep_Transactions payload))))"

section \<open>Attributes against blocks (engine_consolidate.go)\<close>

text \<open>\<open>None\<close> is a match. The index loop over both transaction lists starts after the lengths were
  compared.\<close>

fun txs_mismatch :: "bytes list \<Rightarrow> bytes list \<Rightarrow> bool" where
  "txs_mismatch (otx # otxs) (tx # txs) = (otx \<noteq> tx \<or> txs_mismatch otxs txs)"
| "txs_mismatch _ _ = False"

definition AttributesMatchBlock ::
  "payload_attributes \<Rightarrow> hash \<Rightarrow> execution_payload \<Rightarrow> error option" where
  "AttributesMatchBlock attrs parentHash block =
     (if parentHash \<noteq> ep_ParentHash block then Some (Errorf ''parent hash field does not match'')
      else if pa_Timestamp attrs \<noteq> ep_Timestamp block then Some (Errorf ''timestamp field does not match'')
      else if pa_PrevRandao attrs \<noteq> ep_PrevRandao block then Some (Errorf ''random field does not match'')
      else if length (pa_Transactions attrs) \<noteq> length (ep_Transactions block)
        then Some (Errorf ''transaction count does not match'')
      else if txs_mismatch (pa_Transactions attrs) (ep_Transactions block)
        then Some (Errorf ''transaction does not match'')
      else (case pa_GasLimit attrs of
              None \<Rightarrow> Some (Errorf ''expected gaslimit in attributes to not be nil'')
            | Some g \<Rightarrow> if g \<noteq> ep_GasLimit block then Some (Errorf ''gas limit does not match'') else None))"

section \<open>Properties\<close>

definition deposit_tx_bytes :: "bytes \<Rightarrow> bool" where
  "deposit_tx_bytes tx = (tx \<noteq> [] \<and> hd tx = DepositTxType)"

definition user_tx_bytes :: "bytes \<Rightarrow> bool" where
  "user_tx_bytes tx = (tx \<noteq> [] \<and> hd tx \<noteq> DepositTxType)"

lemma isDepositTx_Inr:
  "isDepositTx tx = Inr True \<longleftrightarrow> deposit_tx_bytes tx" "isDepositTx tx = Inr False \<longleftrightarrow> user_tx_bytes tx"
  by (auto simp: isDepositTx_def deposit_tx_bytes_def user_tx_bytes_def split: list.splits)

lemma isDepositTx_cases:
  obtains (deposit) "isDepositTx tx = Inr True" "deposit_tx_bytes tx" "\<not> user_tx_bytes tx"
    | (user) "isDepositTx tx = Inr False" "user_tx_bytes tx" "\<not> deposit_tx_bytes tx"
    | (empty) e where "isDepositTx tx = Inl e" "\<not> user_tx_bytes tx" "\<not> deposit_tx_bytes tx"
  by (cases "isDepositTx tx"; cases "tx")
    (auto simp: isDepositTx_def deposit_tx_bytes_def user_tx_bytes_def)

lemma no_deposits_iff: "no_deposits txs = Inr () \<longleftrightarrow> list_all user_tx_bytes txs"
proof (induction txs)
  case (Cons tx txs)
  then show ?case by (cases tx rule: isDepositTx_cases) auto
qed simp

lemma ex_Cons_append:
  "(\<exists>ds us. x # xs = ds @ us \<and> P ds us) \<longleftrightarrow> P [] (x # xs) \<or> (\<exists>ds us. xs = ds @ us \<and> P (x # ds) us)"
  by (auto simp: Cons_eq_append_conv)

text \<open>\<open>lastDeposit\<close> finds the end of the leading deposits.\<close>

lemma lastDeposit_loop_iff:
  "lastDeposit_loop (Suc i) i txs = Inr k \<longleftrightarrow>
     (\<exists>ds us. txs = ds @ us \<and> list_all deposit_tx_bytes ds \<and> k = i + length ds \<and>
        (us = [] \<or> user_tx_bytes (hd us)))"
proof (induction txs arbitrary: i)
  case (Cons tx txs)
  show ?case
    by (cases tx rule: isDepositTx_cases) (auto simp: Cons ex_Cons_append)
qed auto

lemma leading_deposits:
  "(\<exists>k. lastDeposit_loop (Suc 0) 0 txs = Inr k \<and> no_deposits (drop k txs) = Inr ()) \<longleftrightarrow>
   (\<exists>ds us. txs = ds @ us \<and> list_all deposit_tx_bytes ds \<and> list_all user_tx_bytes us)"
  (is "?lhs \<longleftrightarrow> ?rhs")
proof
  assume ?lhs
  then obtain k where k: "lastDeposit_loop (Suc 0) 0 txs = Inr k" "list_all user_tx_bytes (drop k txs)"
    unfolding no_deposits_iff by blast
  from k(1) obtain ds us where "txs = ds @ us" "list_all deposit_tx_bytes ds" "k = length ds"
    unfolding lastDeposit_loop_iff by auto
  with k(2) show ?rhs by auto
next
  assume ?rhs
  then obtain ds us where d: "txs = ds @ us" "list_all deposit_tx_bytes ds" "list_all user_tx_bytes us"
    by blast
  then have "us = [] \<or> user_tx_bytes (hd us)" by (cases us) simp_all
  with d have "lastDeposit_loop (Suc 0) 0 txs = Inr (length ds)"
    unfolding lastDeposit_loop_iff by auto
  with d show ?lhs by (auto simp: no_deposits_iff)
qed

lemma sanityCheckPayload_ok:
  "sanityCheckPayload p = Inr () \<longleftrightarrow>
     (\<exists>ds us. ep_Transactions p = ds @ us \<and> ds \<noteq> [] \<and> list_all deposit_tx_bytes ds \<and>
        list_all user_tx_bytes us)" (is "_ \<longleftrightarrow> ?rhs")
proof (cases "ep_Transactions p")
  case (Cons tx txs)
  show ?thesis
  proof (cases tx rule: isDepositTx_cases)
    case deposit
    have "sanityCheckPayload p = Inr () \<longleftrightarrow>
        (\<exists>k. lastDeposit_loop (Suc 0) 0 txs = Inr k \<and> no_deposits (drop k txs) = Inr ())"
      using Cons deposit
      by (cases tx; cases "lastDeposit_loop (Suc 0) 0 txs")
        (simp_all add: sanityCheckPayload_def lastDeposit_def deposit_tx_bytes_def)
    also have "\<dots> \<longleftrightarrow> (\<exists>ds us. txs = ds @ us \<and> list_all deposit_tx_bytes ds \<and> list_all user_tx_bytes us)"
      by (rule leading_deposits)
    also have "\<dots> \<longleftrightarrow> ?rhs"
      using deposit by (simp add: Cons ex_Cons_append)
    finally show ?thesis .
  next
    case user
    then show ?thesis
      by (cases tx) (simp_all add: Cons ex_Cons_append sanityCheckPayload_def user_tx_bytes_def)
  next
    case empty
    then have "tx = []" by (cases tx) (simp_all add: isDepositTx_def)
    with empty show ?thesis by (simp add: Cons ex_Cons_append sanityCheckPayload_def)
  qed
qed (simp add: sanityCheckPayload_def)

text \<open>a payload that the engine built passes the sanity check exactly when its transactions are one
  or more deposits followed by transactions that are not deposits, none of them empty. The check
  panics exactly when the first transaction is empty; every other bad payload is an error.\<close>

theorem sanityCheckPayload_correct:
  "(sanityCheckPayload p = Inr () \<longleftrightarrow>
     (\<exists>ds us. ep_Transactions p = ds @ us \<and> ds \<noteq> [] \<and> list_all deposit_tx_bytes ds \<and>
        list_all user_tx_bytes us)) \<and>
   ((\<exists>m. sanityCheckPayload p = Inl (Panic m)) \<longleftrightarrow>
     (\<exists>txs. ep_Transactions p = [] # txs))"
proof -
  have no: "no_deposits txs \<noteq> Inl (Panic m)" for txs m
    by (induction txs) (auto split: sum.splits bool.splits)
  have "(\<exists>m. sanityCheckPayload p = Inl (Panic m)) \<longleftrightarrow> (\<exists>txs. ep_Transactions p = [] # txs)"
    by (auto simp: sanityCheckPayload_def no split: list.splits sum.splits if_splits)
  with sanityCheckPayload_ok show ?thesis by blast
qed

lemma txs_mismatch_iff: "length xs = length ys \<Longrightarrow> txs_mismatch xs ys \<longleftrightarrow> xs \<noteq> ys"
  by (induction xs ys rule: txs_mismatch.induct) auto

text \<open>What a match means: the fee recipient is the one part of the attributes that is not compared.\<close>

lemma AttributesMatchBlock_None:
  "AttributesMatchBlock attrs parentHash block = None \<longleftrightarrow>
     ep_ParentHash block = parentHash \<and> ep_Timestamp block = pa_Timestamp attrs \<and>
     ep_PrevRandao block = pa_PrevRandao attrs \<and> ep_Transactions block = pa_Transactions attrs \<and>
     pa_GasLimit attrs = Some (ep_GasLimit block)"
  by (auto simp: AttributesMatchBlock_def txs_mismatch_iff split: option.splits)

end
