(* ===== verification/Attributes.thy ===== *)
theory Attributes
  imports Batch_Queue L1_Stages Payloads
begin

text \<open>
  From batches to payload attributes: the attributes builder
  (\<open>op-node/rollup/derive/attributes.go\<close>) and the attributes queue (\<open>attributes_queue.go\<close>). The L1
  client is the record of \<open>L1_Stages\<close>, the L2 engine answers with the system configuration of a block.
\<close>

section \<open>The attributes builder (attributes.go)\<close>

definition SequencerFeeVaultAddr :: address where
  "SequencerFeeVaultAddr = 0x42 # replicate 18 0 @ [0x11]"

text \<open>The L1 block information, the deposits, the sequence number and the system configuration of the
  new block: the first block of an epoch reads the receipts of its L1 block.\<close>

definition epoch_inputs ::
  "(bytes \<Rightarrow> hash) \<Rightarrow> (deposit_tx \<Rightarrow> bytes result) \<Rightarrow> config \<Rightarrow> l1_client \<Rightarrow> system_config \<Rightarrow>
   l2_block_ref \<Rightarrow> block_id \<Rightarrow> (block_info \<times> bytes list \<times> u64 \<times> system_config) result" where
  "epoch_inputs keccak marshalTx cfg l1 sysConfig l2Parent epoch =
     (if Number (L1Origin l2Parent) \<noteq> Number epoch
      then (case FetchReceipts l1 (Hash epoch) of
              Inl e \<Rightarrow> Inl (NewTemporaryError (Wrap ''failed to fetch L1 block info and receipts'' e))
            | Inr (info, receipts) \<Rightarrow>
                if Hash (L1Origin l2Parent) \<noteq> bi_ParentHash info
                then Inl (NewResetError (Errorf ''cannot create new block with L1 origin''))
                else (case DeriveDeposits keccak marshalTx receipts (DepositContractAddress cfg) of
                        (_, Some e) \<Rightarrow>
                          Inl (NewCriticalError (Wrap ''failed to derive some deposits'' e))
                      | (deposits, None) \<Rightarrow>
                          (case UpdateSystemConfigWithL1Receipts keccak sysConfig receipts cfg of
                             (_, Some e) \<Rightarrow>
                               Inl (NewCriticalError (Wrap ''failed to apply derived L1 sysCfg updates'' e))
                           | (sysConfig', None) \<Rightarrow> Inr (info, deposits, 0, sysConfig'))))
      else if Hash (L1Origin l2Parent) \<noteq> Hash epoch
        then Inl (NewResetError (Errorf ''cannot create new block with L1 origin in conflict''))
      else (case InfoByHash l1 (Hash epoch) of
              Inl e \<Rightarrow> Inl (NewTemporaryError (Wrap ''failed to fetch L1 block info'' e))
            | Inr info \<Rightarrow> Inr (info, [], SequenceNumber l2Parent + 1, sysConfig)))"

definition PreparePayloadAttributes ::
  "(bytes \<Rightarrow> hash) \<Rightarrow> (deposit_tx \<Rightarrow> bytes result) \<Rightarrow> config \<Rightarrow> l1_client \<Rightarrow>
   (hash \<Rightarrow> system_config result) \<Rightarrow> l2_block_ref \<Rightarrow> block_id \<Rightarrow> payload_attributes result" where
  "PreparePayloadAttributes keccak marshalTx cfg l1 systemConfigByL2Hash l2Parent epoch =
     (case systemConfigByL2Hash (l2_Hash l2Parent) of
        Inl e \<Rightarrow> Inl (NewTemporaryError (Wrap ''failed to retrieve L2 parent block'' e))
      | Inr sysConfig0 \<Rightarrow>
          rbind (epoch_inputs keccak marshalTx cfg l1 sysConfig0 l2Parent epoch)
            (\<lambda>(l1Info, depositTxs, seqNumber, sysConfig).
              let nextL2Time = l2_Time l2Parent + BlockTime cfg in
              if nextL2Time < bi_Time l1Info
              then Inl (NewResetError (Errorf ''cannot build L2 block for time before L1 origin''))
              else rbind (on_error (\<lambda>e. NewCriticalError (Wrap ''failed to create l1InfoTx'' e))
                           (L1InfoDepositBytes keccak marshalTx seqNumber l1Info sysConfig
                             (IsRegolith cfg nextL2Time))) (\<lambda>l1InfoTx.
                     Inr \<lparr>pa_Timestamp = nextL2Time, pa_PrevRandao = MixDigest l1Info,
                          SuggestedFeeRecipient = SequencerFeeVaultAddr,
                          pa_Transactions = l1InfoTx # depositTxs, NoTxPool = True,
                          pa_GasLimit = Some (sc_GasLimit sysConfig)\<rparr>)))"

section \<open>The attributes queue (attributes_queue.go)\<close>

record attributes_queue =
  aq_batch :: "batch_data option"

definition NewAttributesQueue :: attributes_queue where
  "NewAttributesQueue = \<lparr>aq_batch = None\<rparr>"

type_synonym attributes_builder = "l2_block_ref \<Rightarrow> block_id \<Rightarrow> payload_attributes result"

definition createNextAttributes ::
  "config \<Rightarrow> attributes_builder \<Rightarrow> batch_data \<Rightarrow> l2_block_ref \<Rightarrow> payload_attributes result" where
  "createNextAttributes cfg builder batch l2SafeHead =
     (if b_ParentHash batch \<noteq> l2_Hash l2SafeHead
      then Inl (NewResetError (Errorf ''valid batch has bad parent hash''))
      else if l2_Time l2SafeHead + BlockTime cfg \<noteq> Timestamp batch
      then Inl (NewResetError (Errorf ''valid batch has bad timestamp''))
      else rbind (builder l2SafeHead (Epoch batch)) (\<lambda>attrs.
             Inr (attrs\<lparr>NoTxPool := True,
                        pa_Transactions := pa_Transactions attrs @ Transactions batch\<rparr>)))"

definition finish_attributes ::
  "config \<Rightarrow> attributes_builder \<Rightarrow> attributes_queue \<Rightarrow> batch_data \<Rightarrow> l2_block_ref \<Rightarrow>
   attributes_queue \<times> payload_attributes result" where
  "finish_attributes cfg builder aq batch l2SafeHead =
     (case createNextAttributes cfg builder batch l2SafeHead of
        Inl e \<Rightarrow> (aq\<lparr>aq_batch := Some batch\<rparr>, Inl e)
      | Inr attrs \<Rightarrow> (aq\<lparr>aq_batch := None\<rparr>, Inr attrs))"

definition NextAttributes ::
  "config \<Rightarrow> attributes_builder \<Rightarrow> (l2_block_ref \<Rightarrow> ('p, batch_data) pull) \<Rightarrow> l2_block_ref \<Rightarrow>
   ('p \<times> attributes_queue, payload_attributes) pull" where
  "NextAttributes cfg builder prevNextBatch l2SafeHead = (\<lambda>(p, aq).
     case aq_batch aq of
       Some batch \<Rightarrow>
         (case finish_attributes cfg builder aq batch l2SafeHead of (aq', r) \<Rightarrow> ((p, aq'), r))
     | None \<Rightarrow>
         (case prevNextBatch l2SafeHead p of
            (p', Inl e) \<Rightarrow> ((p', aq), Inl e)
          | (p', Inr batch) \<Rightarrow>
              (case finish_attributes cfg builder aq batch l2SafeHead of (aq', r) \<Rightarrow> ((p', aq'), r))))"

definition AttributesQueue_Reset :: "attributes_queue \<Rightarrow> attributes_queue \<times> error" where
  "AttributesQueue_Reset aq = (aq\<lparr>aq_batch := None\<rparr>, EOF)"

section \<open>What the builder relies on\<close>

text \<open>The client answers a request by hash with the block of that hash, whose base fee is a natural
  number; byte arrays have their fixed sizes.\<close>

definition info_for :: "block_id \<Rightarrow> block_info \<Rightarrow> bool" where
  "info_for epoch info =
     (bi_Hash info = Hash epoch \<and> bi_Number info = Number epoch \<and> length (bi_Hash info) = 32 \<and>
      (case bi_BaseFee info of None \<Rightarrow> True | Some n \<Rightarrow> 0 \<le> n))"

definition l1_answers :: "l1_client \<Rightarrow> block_id \<Rightarrow> bool" where
  "l1_answers l1 epoch =
     ((case InfoByHash l1 (Hash epoch) of Inl _ \<Rightarrow> True | Inr info \<Rightarrow> info_for epoch info) \<and>
      (case FetchReceipts l1 (Hash epoch) of Inl _ \<Rightarrow> True | Inr (info, _) \<Rightarrow> info_for epoch info))"

definition system_config_ok :: "system_config \<Rightarrow> bool" where
  "system_config_ok sc =
     (length (BatcherAddr sc) = 20 \<and> length (Overhead sc) = 32 \<and> length (Scalar sc) = 32)"

text \<open>The transaction codec: a deposit transaction decodes to its type and its data.\<close>

definition tx_codec ::
  "(deposit_tx \<Rightarrow> bytes result) \<Rightarrow> (bytes \<Rightarrow> (byte \<times> bytes) result) \<Rightarrow> bool" where
  "tx_codec marshalTx unmarshalTx =
     (\<forall>dep b. marshalTx dep = Inr b \<longrightarrow> unmarshalTx b = Inr (DepositTxType, dep_Data dep))"

lemma ProcessSystemConfigUpdateLogEvent_ok:
  assumes "ProcessSystemConfigUpdateLogEvent keccak sc ev = Inr sc'" "system_config_ok sc"
  shows "system_config_ok sc'"
  using assms
  by (auto simp: ProcessSystemConfigUpdateLogEvent_def Let_def rbind_Inr system_config_ok_def codec
      ReadEthBytes32_def read_full_Inr split: if_splits)

lemma update_with_logs_ok:
  "system_config_ok sc \<Longrightarrow> system_config_ok (fst (update_with_logs keccak cfg logs (sc, errs)))"
  by (induction logs arbitrary: sc errs)
    (auto split: sum.splits dest: ProcessSystemConfigUpdateLogEvent_ok)

lemma UpdateSystemConfig_ok:
  assumes "system_config_ok sc" "UpdateSystemConfigWithL1Receipts keccak sc receipts cfg = (sc', e)"
  shows "system_config_ok sc'"
  using assms update_with_logs_ok [of sc keccak cfg "config_logs keccak cfg receipts" "[]"]
  by (auto simp: UpdateSystemConfigWithL1Receipts_def update_with_receipts_logs split: prod.splits)

section \<open>Properties\<close>

text \<open>The L1 information transaction carries what it was built from.\<close>

lemma L1InfoDepositBytes_decode:
  assumes "L1InfoDepositBytes keccak marshalTx seqNumber info sc regolith = Inr b"
    and "tx_codec marshalTx unmarshalTx" "4 \<le> length (keccak (ascii L1InfoFuncSignature))"
    and "info_for epoch info" "system_config_ok sc"
  obtains d where "unmarshalTx b = Inr (DepositTxType, d)"
    "L1InfoDepositTxData keccak d = Inr
       \<lparr>info_Number = bi_Number info, info_Time = bi_Time info, info_BaseFee = bi_BaseFee info,
        info_BlockHash = bi_Hash info, info_SequenceNumber = seqNumber,
        info_BatcherAddr = BatcherAddr sc, L1FeeOverhead = Overhead sc, L1FeeScalar = Scalar sc\<rparr>"
proof -
  let ?info = "\<lparr>info_Number = bi_Number info, info_Time = bi_Time info, info_BaseFee = bi_BaseFee info,
      info_BlockHash = bi_Hash info, info_SequenceNumber = seqNumber,
      info_BatcherAddr = BatcherAddr sc, L1FeeOverhead = Overhead sc, L1FeeScalar = Scalar sc\<rparr>"
  from assms(1) obtain dep where dep: "L1InfoDeposit keccak seqNumber info sc regolith = Inr dep"
    "marshalTx dep = Inr b"
    by (auto simp: L1InfoDepositBytes_def rbind_Inr)
  then have d: "L1Info_MarshalBinary keccak ?info = Inr (dep_Data dep)"
    by (auto simp: L1InfoDeposit_def rbind_Inr Let_def split: if_splits)
  then have "bi_BaseFee info \<noteq> None"
    by (auto simp: L1Info_MarshalBinary_def rbind_Inr WriteUint256_def split: option.splits)
  then have "l1_info_ok ?info"
    using assms(4,5) by (auto simp: l1_info_ok_def info_for_def system_config_ok_def)
  with d have "L1InfoDepositTxData keccak (dep_Data dep) = Inr ?info"
    by (simp add: L1InfoDepositTxData_def L1Info_Unmarshal_iff [of keccak] assms(3))
  moreover have "unmarshalTx b = Inr (DepositTxType, dep_Data dep)"
    using assms(2) dep(2) by (simp add: tx_codec_def)
  ultimately show ?thesis using that by blast
qed

lemma epoch_inputs_ok:
  assumes "epoch_inputs keccak marshalTx cfg l1 sc0 parent epoch = Inr (info, deps, seqNumber, sc)"
    and "l1_answers l1 epoch" "system_config_ok sc0"
  shows "info_for epoch info \<and> system_config_ok sc \<and>
     seqNumber = (if L1Origin parent = epoch then SequenceNumber parent + 1 else 0) \<and>
     (L1Origin parent = epoch \<or> Hash (L1Origin parent) = bi_ParentHash info) \<and>
     (L1Origin parent = epoch \<longrightarrow> deps = [] \<and> sc = sc0)"
  using assms UpdateSystemConfig_ok [OF assms(3)]
  by (auto simp: epoch_inputs_def l1_answers_def split: if_splits sum.splits prod.splits option.splits)

lemma PreparePayloadAttributes_Inr:
  assumes "PreparePayloadAttributes keccak marshalTx cfg l1 sysByHash parent epoch = Inr attrs"
  obtains sc0 info deps seqNumber sc b where "sysByHash (l2_Hash parent) = Inr sc0"
    "epoch_inputs keccak marshalTx cfg l1 sc0 parent epoch = Inr (info, deps, seqNumber, sc)"
    "L1InfoDepositBytes keccak marshalTx seqNumber info sc
       (IsRegolith cfg (l2_Time parent + BlockTime cfg)) = Inr b"
    "bi_Time info \<le> l2_Time parent + BlockTime cfg"
    "attrs = \<lparr>pa_Timestamp = l2_Time parent + BlockTime cfg, pa_PrevRandao = MixDigest info,
       SuggestedFeeRecipient = SequencerFeeVaultAddr, pa_Transactions = b # deps, NoTxPool = True,
       pa_GasLimit = Some (sc_GasLimit sc)\<rparr>"
proof -
  from assms obtain sc0 info deps seqNumber sc where 1: "sysByHash (l2_Hash parent) = Inr sc0"
    "epoch_inputs keccak marshalTx cfg l1 sc0 parent epoch = Inr (info, deps, seqNumber, sc)"
    by (auto simp: PreparePayloadAttributes_def rbind_Inr split: sum.splits)
  show ?thesis
    using assms that [OF 1] 1
    by (auto simp: PreparePayloadAttributes_def rbind_Inr Let_def not_less split: if_splits)
qed

text \<open>the attributes that the builder prepares determine the reference of the block built from
  them. Any later block that starts with the prepared transactions, at their time and gas limit,
  decodes to a block reference whose L1 origin is the given epoch, whose time is one block time after
  its parent and not before the L1 block, whose sequence number counts the blocks of the epoch, and
  whose system configuration is the parent's, unless a new epoch begins.\<close>

theorem attributes_block_ref:
  assumes "PreparePayloadAttributes keccak marshalTx cfg l1 sysByHash parent epoch = Inr attrs"
    and "sysByHash (l2_Hash parent) = Inr sc0" "system_config_ok sc0" "l1_answers l1 epoch"
    and "tx_codec marshalTx unmarshalTx" "4 \<le> length (keccak (ascii L1InfoFuncSignature))"
    and "ep_Transactions block = pa_Transactions attrs @ rest" "ep_Timestamp block = pa_Timestamp attrs"
    and "pa_GasLimit attrs = Some (ep_GasLimit block)"
    and "BlockNumber block \<noteq> Number (gen_L2 (Genesis cfg))"
  shows "\<exists>ref info sc. PayloadToBlockRef keccak unmarshalTx block (Genesis cfg) = Inr ref \<and>
     L1Origin ref = epoch \<and> l2_Time ref = l2_Time parent + BlockTime cfg \<and>
     SequenceNumber ref = (if L1Origin parent = epoch then SequenceNumber parent + 1 else 0) \<and>
     info_for epoch info \<and> bi_Time info \<le> l2_Time ref \<and>
     (L1Origin parent = epoch \<or> Hash (L1Origin parent) = bi_ParentHash info) \<and>
     PayloadToSystemConfig keccak unmarshalTx block cfg = Inr sc \<and> system_config_ok sc \<and>
     (L1Origin parent = epoch \<longrightarrow> sc = sc0)"
proof -
  obtain info deps seqNumber sc b
    where e: "epoch_inputs keccak marshalTx cfg l1 sc0 parent epoch = Inr (info, deps, seqNumber, sc)"
      and b: "L1InfoDepositBytes keccak marshalTx seqNumber info sc
         (IsRegolith cfg (l2_Time parent + BlockTime cfg)) = Inr b"
      and t: "bi_Time info \<le> l2_Time parent + BlockTime cfg"
      and attrs: "pa_Timestamp attrs = l2_Time parent + BlockTime cfg"
        "pa_Transactions attrs = b # deps" "pa_GasLimit attrs = Some (sc_GasLimit sc)"
    by (rule PreparePayloadAttributes_Inr [OF assms(1)]) (use assms(2) in auto)
  note ok = epoch_inputs_ok [OF e assms(4,3)]
  from ok have info: "info_for epoch info" and sc: "system_config_ok sc" by blast+
  obtain d where d: "unmarshalTx b = Inr (DepositTxType, d)"
    "L1InfoDepositTxData keccak d = Inr
       \<lparr>info_Number = bi_Number info, info_Time = bi_Time info, info_BaseFee = bi_BaseFee info,
        info_BlockHash = bi_Hash info, info_SequenceNumber = seqNumber,
        info_BatcherAddr = BatcherAddr sc, L1FeeOverhead = Overhead sc, L1FeeScalar = Scalar sc\<rparr>"
    by (rule L1InfoDepositBytes_decode [where keccak = keccak, OF b assms(5,6) info sc])
  have "read_l1_info keccak unmarshalTx block = L1InfoDepositTxData keccak d"
    using assms(7) attrs(2) d by (simp add: read_l1_info_def)
  then show ?thesis
    using ok info t d(2) attrs assms(8-10)
    by (intro exI [of _ "\<lparr>l2_Hash = BlockHash block, l2_Number = BlockNumber block,
          l2_ParentHash = ep_ParentHash block, l2_Time = ep_Timestamp block, L1Origin = epoch,
          SequenceNumber = seqNumber\<rparr>"] exI [of _ info] exI [of _ sc])
      (simp add: PayloadToBlockRef_def PayloadToSystemConfig_def info_for_def Let_def)
qed

text \<open>A transaction codec for the examples: the type byte followed by the data.\<close>

definition ex_marshalTx :: "deposit_tx \<Rightarrow> bytes result" where
  "ex_marshalTx dep = Inr (DepositTxType # dep_Data dep)"

definition ex_unmarshalTx :: "bytes \<Rightarrow> (byte \<times> bytes) result" where
  "ex_unmarshalTx b = (case b of [] \<Rightarrow> Inl EOF | t # d \<Rightarrow> Inr (t, d))"

definition ex_l1_client :: l1_client where
  "ex_l1_client = \<lparr>L1BlockRefByNumber = (\<lambda>n. Inr (ex_l1 n)), L1BlockRefByHash = (\<lambda>_. Inr (ex_l1 100)),
     InfoByHash = (\<lambda>h. Inr \<lparr>bi_Hash = h, bi_ParentHash = replicate 32 0, bi_Number = 100,
       bi_Time = 900, bi_BaseFee = Some 7, MixDigest = replicate 32 3\<rparr>),
     FetchReceipts = (\<lambda>_. Inl NotFound), InfoAndTxsByHash = (\<lambda>_. Inr [])\<rparr>"

definition ex_epoch :: block_id where
  "ex_epoch = \<lparr>Hash = replicate 32 1, Number = 100\<rparr>"

definition ex_parent :: l2_block_ref where
  "ex_parent = ex_head\<lparr>L1Origin := ex_epoch\<rparr>"

definition ex_payload :: "payload_attributes \<Rightarrow> execution_payload" where
  "ex_payload attrs = \<lparr>ep_ParentHash = l2_Hash ex_parent, FeeRecipient = [], StateRoot = [],
     ReceiptsRoot = [], LogsBloom = [], ep_PrevRandao = pa_PrevRandao attrs, BlockNumber = 60,
     ep_GasLimit = 30000000, GasUsed = 0, ep_Timestamp = pa_Timestamp attrs, ExtraData = [],
     BaseFeePerGas = 0, BlockHash = replicate 32 8, ep_Transactions = pa_Transactions attrs\<rparr>"

theorem attributes_block_ref_witness:
  "\<exists>attrs ref. PreparePayloadAttributes (\<lambda>_. replicate 32 9) ex_marshalTx example_cfg ex_l1_client
       (\<lambda>_. Inr (gen_SystemConfig (Genesis example_cfg))) ex_parent ex_epoch = Inr attrs \<and>
     PayloadToBlockRef (\<lambda>_. replicate 32 9) ex_unmarshalTx (ex_payload attrs) (Genesis example_cfg) =
       Inr ref \<and> L1Origin ref = ex_epoch"
proof -
  let ?sc = "gen_SystemConfig (Genesis example_cfg)"
  obtain attrs where attrs: "PreparePayloadAttributes (\<lambda>_. replicate 32 9) ex_marshalTx example_cfg
      ex_l1_client (\<lambda>_. Inr ?sc) ex_parent ex_epoch = Inr attrs"
    "pa_GasLimit attrs = Some 30000000"
    by (simp add: PreparePayloadAttributes_def epoch_inputs_def ex_parent_def ex_epoch_def ex_head_def
        ex_l1_client_def L1InfoDepositBytes_def L1InfoDeposit_def L1Info_MarshalBinary_def
        WriteUint256_def ex_marshalTx_def example_cfg_def Let_def)
  moreover have "system_config_ok ?sc" by (simp add: system_config_ok_def example_cfg_def)
  moreover have "l1_answers ex_l1_client ex_epoch"
    by (simp add: l1_answers_def ex_l1_client_def info_for_def ex_epoch_def)
  moreover have "tx_codec ex_marshalTx ex_unmarshalTx"
    by (simp add: tx_codec_def ex_marshalTx_def ex_unmarshalTx_def)
  ultimately show ?thesis
    using attributes_block_ref [of "\<lambda>_. replicate 32 9" ex_marshalTx example_cfg ex_l1_client
        "\<lambda>_. Inr ?sc" ex_parent ex_epoch attrs ?sc ex_unmarshalTx "ex_payload attrs" "[]"]
    by (auto simp: ex_payload_def)
qed

section \<open>The stages up to the attributes\<close>

context NextDataProvider
begin

lemma ChannelInReader_stage:
  "stage (\<lambda>(p, _). inv p) (ChannelInReader_NextBatch newReader decodeBatch orig pull)"
proof (unfold_locales, goal_cases)
  case (1 p)
  then show ?case
    using pull_inv [of "fst p"]
    by (auto simp: ChannelInReader_NextBatch_def split: option.splits sum.splits prod.splits)
next
  case (2 p e)
  then show ?case
    using pull_no_panic [of "fst p"]
    by (auto simp: ChannelInReader_NextBatch_def call_nextBatchFn_def WriteChannel_def NextChannel_def
        split: option.splits sum.splits prod.splits)
qed

end

text \<open>What a provider of attributes promises: an invariant relative to the safe head, kept as long as
  the origin of the safe head does not move back, and no panics.\<close>

locale NextAttributesProvider =
  fixes inv :: "l2_block_ref \<Rightarrow> 'p \<Rightarrow> bool"
    and nextAttributes :: "l2_block_ref \<Rightarrow> ('p, payload_attributes) pull"
  assumes next_inv: "inv h0 p \<Longrightarrow> Number (L1Origin h0) \<le> Number (L1Origin h) \<Longrightarrow>
      inv h (fst (nextAttributes h p))"
    and next_no_panic: "inv h0 p \<Longrightarrow> Number (L1Origin h0) \<le> Number (L1Origin h) \<Longrightarrow>
      snd (nextAttributes h p) = Inl e \<Longrightarrow> \<not> is_panic e"

lemma queue_synced_mono:
  "queue_synced h0 bq \<Longrightarrow> Number (L1Origin h0) \<le> Number (L1Origin h) \<Longrightarrow> queue_synced h bq"
  by (auto simp: queue_synced_def)

lemma createNextAttributes_no_panic:
  assumes "\<And>h i x. builder h i = Inl x \<Longrightarrow> \<not> is_panic x"
    and "createNextAttributes cfg builder batch head = Inl e"
  shows "\<not> is_panic e"
  using assms by (auto simp: createNextAttributes_def rbind_def split: if_splits sum.splits)

context NextBatchProvider
begin

lemma NextAttributes_stage:
  assumes "\<And>h i x. builder h i = Inl x \<Longrightarrow> \<not> is_panic x"
  shows "NextAttributesProvider (\<lambda>h ((p, bq), _). inv p \<and> queue_synced h bq)
     (NextAttributes cfg builder (BatchQueue_NextBatch cfg orig pull))"
proof (unfold_locales, goal_cases)
  case (1 h0 q h)
  obtain p bq aq where q: "q = ((p, bq), aq)" by (metis prod.exhaust)
  obtain p' bq' r where n: "BatchQueue_NextBatch cfg orig pull h (p, bq) = ((p', bq'), r)"
    by (metis prod.exhaust)
  from 1 NextBatch_ok [OF _ _ _ n, of h0] show ?case
    by (auto simp: q n NextAttributes_def intro: queue_synced_mono
        split: option.splits sum.splits prod.splits)
next
  case (2 h0 q h e)
  have create: "\<not> is_panic x" if "createNextAttributes cfg builder b hd = Inl x" for b hd x
    using createNextAttributes_no_panic [of builder] assms that by blast
  obtain p bq aq where q: "q = ((p, bq), aq)" by (metis prod.exhaust)
  obtain p' bq' r where n: "BatchQueue_NextBatch cfg orig pull h (p, bq) = ((p', bq'), r)"
    by (metis prod.exhaust)
  from 2 NextBatch_ok [OF _ _ _ n, of h0] show ?case
    by (auto simp: q n NextAttributes_def finish_attributes_def
        split: option.splits sum.splits prod.splits dest: create)
qed

end

text \<open>The builder panics only on an L1 block without a base fee, which London blocks always have.\<close>

definition has_base_fees :: "l1_client \<Rightarrow> bool" where
  "has_base_fees l1 =
     (\<forall>h. (case InfoByHash l1 h of Inl _ \<Rightarrow> True | Inr info \<Rightarrow> bi_BaseFee info \<noteq> None) \<and>
          (case FetchReceipts l1 h of Inl _ \<Rightarrow> True | Inr (info, _) \<Rightarrow> bi_BaseFee info \<noteq> None))"

lemma L1InfoDepositBytes_no_panic:
  assumes "bi_BaseFee info \<noteq> None" "\<And>dep x. marshalTx dep = Inl x \<Longrightarrow> \<not> is_panic x"
    and "L1InfoDepositBytes keccak marshalTx seqNumber info sc regolith = Inl e"
  shows "\<not> is_panic e"
  using assms
  by (auto simp: L1InfoDepositBytes_def L1InfoDeposit_def L1Info_MarshalBinary_def WriteUint256_def
      on_error_def rbind_def Let_def split: sum.splits if_splits option.splits)

lemma epoch_inputs_base_fee:
  assumes "has_base_fees l1" "epoch_inputs keccak marshalTx cfg l1 sc0 parent epoch = r"
  shows "case r of Inl e \<Rightarrow> \<not> is_panic e | Inr (info, _) \<Rightarrow> bi_BaseFee info \<noteq> None"
  using assms(2) spec [OF assms(1) [unfolded has_base_fees_def], of "Hash epoch"]
  by (auto simp: epoch_inputs_def split: if_splits sum.splits prod.splits option.splits)

lemma PreparePayloadAttributes_no_panic:
  assumes "has_base_fees l1" "\<And>dep x. marshalTx dep = Inl x \<Longrightarrow> \<not> is_panic x"
    and "PreparePayloadAttributes keccak marshalTx cfg l1 sysByHash parent epoch = Inl e"
  shows "\<not> is_panic e"
proof (cases "sysByHash (l2_Hash parent)")
  case (Inr sc0)
  note inputs = epoch_inputs_base_fee [OF assms(1) refl, of keccak marshalTx cfg sc0 parent epoch]
  show ?thesis
  proof (cases "epoch_inputs keccak marshalTx cfg l1 sc0 parent epoch")
    case r: (Inr r)
    obtain info deps n sc where [simp]: "r = (info, deps, n, sc)" by (metis prod.exhaust)
    show ?thesis
      using assms(3) Inr r inputs L1InfoDepositBytes_no_panic [of info marshalTx, OF _ assms(2)]
      by (auto simp: PreparePayloadAttributes_def Let_def on_error_def rbind_def
          split: if_splits sum.splits)
  qed (use assms(3) Inr inputs in \<open>auto simp: PreparePayloadAttributes_def\<close>)
qed (use assms(3) in \<open>auto simp: PreparePayloadAttributes_def\<close>)

text \<open>All stages below the engine queue, as the pipeline composes them.\<close>

type_synonym 's lower_stages =
  "((((((l1_traversal \<times> l1_retrieval) \<times> frame_queue) \<times> channel_bank) \<times> 's channel_in_reader) \<times>
     batch_queue) \<times> attributes_queue)"

definition channels_origin ::
  "((l1_traversal \<times> l1_retrieval) \<times> frame_queue) \<times> channel_bank \<Rightarrow> l1_block_ref" where
  "channels_origin p = frames_origin (fst p)"

definition batches_pull ::
  "config \<Rightarrow> l1_client \<Rightarrow> (bytes \<Rightarrow> 's result) \<Rightarrow> ('s \<Rightarrow> 's \<times> batch_data result) \<Rightarrow>
   ((((l1_traversal \<times> l1_retrieval) \<times> frame_queue) \<times> channel_bank) \<times> 's channel_in_reader,
    batch_data) pull" where
  "batches_pull cfg l1 newReader decodeBatch =
     ChannelInReader_NextBatch newReader decodeBatch channels_origin (channels_pull cfg l1)"

definition batches_origin ::
  "(((l1_traversal \<times> l1_retrieval) \<times> frame_queue) \<times> channel_bank) \<times> 's channel_in_reader \<Rightarrow>
   l1_block_ref" where
  "batches_origin p = channels_origin (fst p)"

definition attributes_pull ::
  "config \<Rightarrow> l1_client \<Rightarrow> (bytes \<Rightarrow> 's result) \<Rightarrow> ('s \<Rightarrow> 's \<times> batch_data result) \<Rightarrow>
   attributes_builder \<Rightarrow> l2_block_ref \<Rightarrow> ('s lower_stages, payload_attributes) pull" where
  "attributes_pull cfg l1 newReader decodeBatch builder =
     NextAttributes cfg builder
       (BatchQueue_NextBatch cfg batches_origin (batches_pull cfg l1 newReader decodeBatch))"

definition attributes_origin :: "'s lower_stages \<Rightarrow> l1_block_ref" where
  "attributes_origin p = batches_origin (fst (fst p))"

definition channels_inv :: "((l1_traversal \<times> l1_retrieval) \<times> frame_queue) \<times> channel_bank \<Rightarrow> bool" where
  "channels_inv = (\<lambda>((_, fq), cb). frame_queue_inv fq \<and> bank_inv cb)"

definition lower_inv :: "l2_block_ref \<Rightarrow> 's lower_stages \<Rightarrow> bool" where
  "lower_inv h = (\<lambda>(((q, _), bq), _). channels_inv q \<and> queue_synced h bq)"

interpretation l1_batches: NextBatchProvider "\<lambda>(p, _). channels_inv p"
  "batches_pull cfg l1 newReader decodeBatch" for cfg l1 newReader decodeBatch
  using l1_channels.ChannelInReader_stage [of newReader decodeBatch channels_origin cfg l1]
  by (simp add: NextBatchProvider_def batches_pull_def channels_inv_def split_beta)

lemma lower_inv_alt:
  "lower_inv = (\<lambda>h ((p, bq), _). (case p of (p, _) \<Rightarrow> channels_inv p) \<and> queue_synced h bq)"
  by (auto simp: lower_inv_def fun_eq_iff)

lemma attributes_provider:
  assumes "\<And>h i x. builder h i = Inl x \<Longrightarrow> \<not> is_panic x"
  shows "NextAttributesProvider lower_inv (attributes_pull cfg l1 newReader decodeBatch builder)"
  unfolding attributes_pull_def lower_inv_alt
  by (rule l1_batches.NextAttributes_stage) (rule assms)

text \<open>What the builder needs of its environment not to panic, and the interface for that builder.\<close>

definition builder_env :: "l1_client \<Rightarrow> (deposit_tx \<Rightarrow> bytes result) \<Rightarrow> bool" where
  "builder_env l1 marshalTx =
     (has_base_fees l1 \<and> (\<forall>dep. case marshalTx dep of Inl e \<Rightarrow> \<not> is_panic e | Inr _ \<Rightarrow> True))"

lemma builder_no_panic:
  assumes "builder_env l1 marshalTx"
    and "PreparePayloadAttributes keccak marshalTx cfg l1 sysByHash h i = Inl x"
  shows "\<not> is_panic x"
  by (rule PreparePayloadAttributes_no_panic [OF _ _ assms(2)])
    (use assms(1) in \<open>auto simp: builder_env_def split: sum.splits\<close>)

interpretation l1_attributes: NextAttributesProvider
  "\<lambda>h p. builder_env l1 marshalTx \<and> lower_inv h p"
  "attributes_pull cfg l1 newReader decodeBatch
     (PreparePayloadAttributes keccak marshalTx cfg l1 sysByHash)"
  for cfg l1 newReader decodeBatch keccak marshalTx sysByHash
proof (unfold_locales, goal_cases)
  case (1 h0 p h)
  then have "NextAttributesProvider lower_inv (attributes_pull cfg l1 newReader decodeBatch
      (PreparePayloadAttributes keccak marshalTx cfg l1 sysByHash))"
    by (intro attributes_provider) (blast dest: builder_no_panic)
  with 1 show ?case by (auto dest: NextAttributesProvider.next_inv)
next
  case (2 h0 p h e)
  then have "NextAttributesProvider lower_inv (attributes_pull cfg l1 newReader decodeBatch
      (PreparePayloadAttributes keccak marshalTx cfg l1 sysByHash))"
    by (intro attributes_provider) (blast dest: builder_no_panic)
  with 2 show ?case by (auto dest: NextAttributesProvider.next_no_panic)
qed

end
