(* ===== verification/Go_Heap.thy ===== *)
theory Go_Heap
  imports Main "HOL-Library.Multiset"
begin

text \<open>
  The binary heap of Go's standard package \<open>container/heap\<close> (\<open>Push\<close>, \<open>Pop\<close> with their sift loops
  \<open>up\<close> and \<open>down\<close>) on a list, with the elements ordered by a key, and its contract as a priority
  queue: the interface that the queue of unsafe payloads relies on.
\<close>

section \<open>Operations\<close>

definition swap :: "'a list \<Rightarrow> nat \<Rightarrow> nat \<Rightarrow> 'a list" where
  "swap xs i j = xs[i := xs ! j, j := xs ! i]"

text \<open>\<open>(j-1)/2\<close>, which Go rounds towards zero.\<close>

definition parent :: "nat \<Rightarrow> nat" where
  "parent j = (j - 1) div 2"

function heap_up :: "('a \<Rightarrow> 'k::linorder) \<Rightarrow> 'a list \<Rightarrow> nat \<Rightarrow> 'a list" where
  "heap_up key xs j =
     (let i = parent j in
      if i = j \<or> \<not> key (xs ! j) < key (xs ! i) then xs
      else heap_up key (swap xs i j) i)"
  by pat_completeness auto
termination
  by (relation "measure (\<lambda>(_, _, j). j)") (auto simp: parent_def)

text \<open>The smaller child of \<open>i\<close>, when its left child lies below the bound \<open>n\<close>.\<close>

definition min_child :: "('a \<Rightarrow> 'k::linorder) \<Rightarrow> 'a list \<Rightarrow> nat \<Rightarrow> nat \<Rightarrow> nat" where
  "min_child key xs i n =
     (let j1 = 2 * i + 1; j2 = j1 + 1 in
      if j2 < n \<and> key (xs ! j2) < key (xs ! j1) then j2 else j1)"

function heap_down :: "('a \<Rightarrow> 'k::linorder) \<Rightarrow> 'a list \<Rightarrow> nat \<Rightarrow> nat \<Rightarrow> 'a list" where
  "heap_down key xs i n =
     (if n \<le> 2 * i + 1 then xs
      else let j = min_child key xs i n in
           if \<not> key (xs ! j) < key (xs ! i) then xs
           else heap_down key (swap xs i j) j n)"
  by pat_completeness auto
termination
  by (relation "measure (\<lambda>(_, _, i, n). n - i)") (auto simp: min_child_def Let_def)

declare heap_up.simps [simp del] heap_down.simps [simp del]

definition heap_Push :: "('a \<Rightarrow> 'k::linorder) \<Rightarrow> 'a list \<Rightarrow> 'a \<Rightarrow> 'a list" where
  "heap_Push key h x = (let h' = h @ [x] in heap_up key h' (length h' - 1))"

definition heap_Pop :: "('a \<Rightarrow> 'k::linorder) \<Rightarrow> 'a list \<Rightarrow> 'a list \<times> 'a" where
  "heap_Pop key h =
     (let n = length h - 1; h' = heap_down key (swap h 0 n) 0 n in (take n h', h' ! n))"

section \<open>The heap order\<close>

definition is_heap :: "('a \<Rightarrow> 'k::linorder) \<Rightarrow> nat \<Rightarrow> 'a list \<Rightarrow> bool" where
  "is_heap key n xs = (\<forall>k. 0 < k \<and> k < n \<longrightarrow> key (xs ! parent k) \<le> key (xs ! k))"

lemma parent_less: "0 < k \<Longrightarrow> parent k < k"
  by (auto simp: parent_def)

lemma length_swap [simp]: "length (swap xs i j) = length xs"
  by (simp add: swap_def)

lemma nth_swap:
  "i < length xs \<Longrightarrow> j < length xs \<Longrightarrow> k < length xs \<Longrightarrow>
   swap xs i j ! k = (if k = i then xs ! j else if k = j then xs ! i else xs ! k)"
  by (auto simp: swap_def nth_list_update)

lemma mset_swap_heap [simp]: "i < length xs \<Longrightarrow> j < length xs \<Longrightarrow> mset (swap xs i j) = mset xs"
  by (simp add: swap_def mset_swap)

text \<open>The root is minimal.\<close>

lemma is_heap_root:
  assumes "is_heap key n xs" "k < n"
  shows "key (xs ! 0) \<le> key (xs ! k)"
  using assms(2)
proof (induction k rule: less_induct)
  case (less k)
  show ?case
  proof (cases "k = 0")
    case False
    then have "key (xs ! parent k) \<le> key (xs ! k)" "parent k < k"
      using assms(1) less.prems by (auto simp: is_heap_def parent_less)
    moreover from this(2) less.prems have "parent k < n" by simp
    ultimately show ?thesis using less.IH [of "parent k"] by simp
  qed simp
qed

text \<open>While a new element sifts up, the order holds everywhere but above it, and its children are not
  below its parent.\<close>

definition up_inv :: "('a \<Rightarrow> 'k::linorder) \<Rightarrow> 'a list \<Rightarrow> nat \<Rightarrow> bool" where
  "up_inv key xs j =
     ((\<forall>k. 0 < k \<and> k < length xs \<and> k \<noteq> j \<longrightarrow> key (xs ! parent k) \<le> key (xs ! k)) \<and>
      (\<forall>k. 0 < k \<and> k < length xs \<and> parent k = j \<and> 0 < j \<longrightarrow> key (xs ! parent j) \<le> key (xs ! k)))"

lemma up_inv_swap:
  assumes inv: "up_inv key xs j" and j: "j < length xs" "parent j \<noteq> j"
    and less: "key (xs ! j) < key (xs ! parent j)"
  shows "up_inv key (swap xs (parent j) j) (parent j)"
proof -
  let ?i = "parent j" and ?ys = "swap xs (parent j) j"
  have jpos: "0 < j" using j(2) by (cases j) (auto simp: parent_def)
  have i: "?i < j" using jpos by (rule parent_less)
  have nth: "?ys ! k = (if k = ?i then xs ! j else if k = j then xs ! ?i else xs ! k)"
    if "k < length xs" for k using that i j by (intro nth_swap) auto
  note h1 = conjunct1 [OF inv [unfolded up_inv_def], rule_format]
  note h2 = conjunct2 [OF inv [unfolded up_inv_def], rule_format]
  have "key (?ys ! parent k) \<le> key (?ys ! k)" if k: "0 < k" "k < length xs" "k \<noteq> ?i" for k
  proof -
    have p: "parent k < length xs" using parent_less [OF k(1)] k(2) by simp
    consider "k = j" | "k \<noteq> j" "parent k = j" | "k \<noteq> j" "parent k = ?i"
      | "k \<noteq> j" "parent k \<noteq> j" "parent k \<noteq> ?i" by blast
    then show ?thesis
      using h1 [of k] h2 [of k] k less jpos i nth [OF p] nth [OF k(2)]
      by cases (auto intro: order.trans [OF less_imp_le [OF less]])
  qed
  moreover have "key (?ys ! parent ?i) \<le> key (?ys ! k)"
    if k: "0 < k" "k < length xs" "parent k = ?i" "0 < ?i" for k
  proof -
    have pi: "parent ?i < ?i" using k(4) by (rule parent_less)
    have "?ys ! parent ?i = xs ! parent ?i" using nth [of "parent ?i"] pi i j by auto
    moreover have "key (xs ! parent ?i) \<le> key (xs ! ?i)" using h1 [of ?i] k(4) i j by auto
    moreover have "key (xs ! ?i) \<le> key (?ys ! k)"
    proof (cases "k = j")
      case True
      then show ?thesis using nth [of j] i j by simp
    next
      case False
      moreover have "k \<noteq> ?i" using parent_less [OF k(1)] k(3) by auto
      ultimately show ?thesis using nth [OF k(2)] h1 [of k] k by simp
    qed
    ultimately show ?thesis by simp
  qed
  ultimately show ?thesis by (simp add: up_inv_def)
qed

lemma heap_up_correct:
  assumes "up_inv key xs j" "j < length xs"
  shows "is_heap key (length xs) (heap_up key xs j) \<and> mset (heap_up key xs j) = mset xs \<and>
     length (heap_up key xs j) = length xs"
  using assms
proof (induction key xs j rule: heap_up.induct)
  case (1 key xs j)
  show ?case
  proof (cases "parent j = j \<or> \<not> key (xs ! j) < key (xs ! parent j)")
    case True
    have "j = 0" if "parent j = j" using that parent_less [of j] by (cases j) auto
    with True 1(2) have "is_heap key (length xs) xs"
      by (auto simp: is_heap_def up_inv_def not_less)
    with True show ?thesis by (simp add: heap_up.simps [of key xs j])
  next
    case False
    then have i: "parent j < length xs" using parent_less [of j] 1(3)
      by (cases "j = 0") (auto simp: parent_def)
    have "up_inv key (swap xs (parent j) j) (parent j)"
      using up_inv_swap [OF 1(2,3)] False by blast
    with 1(1) [OF refl False] i 1(3) False show ?thesis
      by (simp add: heap_up.simps [of key xs j] Let_def)
  qed
qed

text \<open>While an element sifts down, the order holds everywhere but below it, and its children are not
  below its parent.\<close>

definition down_inv :: "('a \<Rightarrow> 'k::linorder) \<Rightarrow> 'a list \<Rightarrow> nat \<Rightarrow> nat \<Rightarrow> bool" where
  "down_inv key xs i n =
     ((\<forall>k. 0 < k \<and> k < n \<and> parent k \<noteq> i \<longrightarrow> key (xs ! parent k) \<le> key (xs ! k)) \<and>
      (\<forall>k. 0 < k \<and> k < n \<and> parent k = i \<and> 0 < i \<longrightarrow> key (xs ! parent i) \<le> key (xs ! k)))"

lemma children: "0 < k \<Longrightarrow> parent k = i \<Longrightarrow> k = 2 * i + 1 \<or> k = 2 * i + 2"
  by (auto simp: parent_def)

lemma min_child:
  assumes "2 * i + 1 < n"
  shows "min_child key xs i n < n" "0 < min_child key xs i n" "parent (min_child key xs i n) = i"
    "i < min_child key xs i n"
    and "0 < k \<Longrightarrow> k < n \<Longrightarrow> parent k = i \<Longrightarrow> key (xs ! min_child key xs i n) \<le> key (xs ! k)"
  using assms children [of k i] by (auto simp: min_child_def Let_def parent_def)

lemma down_inv_swap:
  assumes inv: "down_inv key xs i n" and n: "n \<le> length xs" "2 * i + 1 < n"
    and less: "key (xs ! min_child key xs i n) < key (xs ! i)"
  shows "down_inv key (swap xs i (min_child key xs i n)) (min_child key xs i n) n"
proof -
  define j where "j = min_child key xs i n"
  note mc = min_child(1-4) [OF n(2), of key xs, folded j_def]
  note small = min_child(5) [OF n(2), of _ key xs, folded j_def]
  have nth: "swap xs i j ! k = (if k = i then xs ! j else if k = j then xs ! i else xs ! k)"
    if "k < n" for k using that mc n by (intro nth_swap) auto
  note h1 = conjunct1 [OF inv [unfolded down_inv_def], rule_format]
  note h2 = conjunct2 [OF inv [unfolded down_inv_def], rule_format]
  have lt: "key (xs ! j) < key (xs ! i)" using less by (simp add: j_def)
  have "key (swap xs i j ! parent k) \<le> key (swap xs i j ! k)"
    if k: "0 < k" "k < n" "parent k \<noteq> j" for k
  proof -
    have p: "parent k < n" using parent_less [OF k(1)] k(2) by simp
    consider "parent k = i" "k = j" | "parent k = i" "k \<noteq> j" | "k = i" "parent k \<noteq> i"
      | "parent k \<noteq> i" "k \<noteq> i" "k \<noteq> j" using mc(3) by blast
    then show ?thesis
      using nth [OF p] nth [OF k(2)] small [OF k(1,2)] h1 [of k] h2 [of j] k mc lt
      by cases (auto simp: parent_less)
  qed
  moreover have "key (swap xs i j ! parent j) \<le> key (swap xs i j ! k)"
    if k: "0 < k" "k < n" "parent k = j" for k
  proof -
    have "j < k" using parent_less [OF k(1)] k(3) by simp
    then show ?thesis using nth [OF k(2)] nth [of i] h1 [of k] k mc by auto
  qed
  ultimately show ?thesis unfolding down_inv_def j_def by blast
qed

lemma heap_down_correct:
  assumes "down_inv key xs i n" "n \<le> length xs"
  shows "is_heap key n (heap_down key xs i n) \<and> mset (heap_down key xs i n) = mset xs \<and>
     length (heap_down key xs i n) = length xs \<and>
     (\<forall>k. n \<le> k \<longrightarrow> heap_down key xs i n ! k = xs ! k)"
  using assms
proof (induction key xs i n rule: heap_down.induct)
  case (1 key xs i n)
  let ?j = "min_child key xs i n"
  show ?case
  proof (cases "n \<le> 2 * i + 1 \<or> \<not> key (xs ! ?j) < key (xs ! i)")
    case True
    have "key (xs ! parent k) \<le> key (xs ! k)" if k: "0 < k" "k < n" for k
    proof (cases "parent k = i")
      case p: True
      then have "2 * i + 1 < n" using children [OF k(1) p] k by auto
      then have "key (xs ! i) \<le> key (xs ! ?j)" "key (xs ! ?j) \<le> key (xs ! k)"
        using True min_child(5) [OF _ k p, of key xs] by auto
      with p show ?thesis by simp
    qed (use 1(2) k in \<open>auto simp: down_inv_def\<close>)
    with True show ?thesis by (auto simp: is_heap_def heap_down.simps [of key xs i n] Let_def)
  next
    case False
    then have n: "2 * i + 1 < n" by simp
    note mc = min_child(1-4) [OF n, of key xs]
    have "down_inv key (swap xs i ?j) ?j n"
      using down_inv_swap [OF 1(2,3) n] False by blast
    moreover have "swap xs i ?j ! k = xs ! k" if "n \<le> k" for k
      using that mc by (auto simp: swap_def)
    ultimately show ?thesis
      using 1(1) [OF _ refl] False mc 1(3) n
      by (auto simp: heap_down.simps [of key xs i n] Let_def)
  qed
qed

section \<open>The priority queue contract\<close>

text \<open>What a client of the heap relies on: elements go in and out as a multiset, and the element that
  comes out is the first one of the list and has a least key.\<close>

locale priority_queue =
  fixes key :: "'a \<Rightarrow> 'k::linorder" and inv :: "'a list \<Rightarrow> bool"
    and push :: "'a list \<Rightarrow> 'a \<Rightarrow> 'a list" and pop :: "'a list \<Rightarrow> 'a list \<times> 'a"
  assumes inv_Nil: "inv []"
    and push_inv: "inv h \<Longrightarrow> inv (push h x)"
    and push_mset: "inv h \<Longrightarrow> mset (push h x) = add_mset x (mset h)"
    and pop_inv: "inv h \<Longrightarrow> h \<noteq> [] \<Longrightarrow> inv (fst (pop h))"
    and pop_hd: "inv h \<Longrightarrow> h \<noteq> [] \<Longrightarrow> snd (pop h) = hd h"
    and pop_mset: "inv h \<Longrightarrow> h \<noteq> [] \<Longrightarrow> mset h = add_mset (snd (pop h)) (mset (fst (pop h)))"
    and pop_least: "inv h \<Longrightarrow> x \<in> set h \<Longrightarrow> key (snd (pop h)) \<le> key x"
begin

lemma push_set: "inv h \<Longrightarrow> set (push h x) = insert x (set h)"
  using push_mset [of h x] by (metis set_mset_add_mset_insert set_mset_mset)

lemma pop_set: "inv h \<Longrightarrow> h \<noteq> [] \<Longrightarrow> set h = insert (hd h) (set (fst (pop h)))"
  using pop_mset [of h] pop_hd [of h] by (metis set_mset_add_mset_insert set_mset_mset)

lemma pop_length: "inv h \<Longrightarrow> h \<noteq> [] \<Longrightarrow> length h = Suc (length (fst (pop h)))"
  using pop_mset [of h] by (metis size_add_mset size_mset)

lemma sum_list_mset: "mset xs = mset ys \<Longrightarrow> sum_list (map f xs) = (sum_list (map f ys) :: nat)"
  by (subst (1 2) sum_mset_sum_list [symmetric]) simp

lemma pop_sum:
  "inv h \<Longrightarrow> h \<noteq> [] \<Longrightarrow> sum_list (map f h) = (f (hd h) :: nat) + sum_list (map f (fst (pop h)))"
  using sum_list_mset [of h "hd h # fst (pop h)" f] pop_mset [of h] pop_hd [of h] by simp

lemma push_sum: "inv h \<Longrightarrow> sum_list (map f (push h x)) = (f x :: nat) + sum_list (map f h)"
  using sum_list_mset [of "push h x" "x # h" f] push_mset [of h x] by simp

end

lemma heap_Push_correct:
  assumes "is_heap key (length h) h"
  shows "is_heap key (Suc (length h)) (heap_Push key h x) \<and>
     mset (heap_Push key h x) = add_mset x (mset h) \<and> length (heap_Push key h x) = Suc (length h)"
proof -
  have "parent k < length h" "parent k \<noteq> length h" if "0 < k" "k < Suc (length h)" for k
    using parent_less [OF that(1)] that(2) by auto
  then have "up_inv key (h @ [x]) (length h)"
    using assms by (auto simp: up_inv_def is_heap_def nth_append less_Suc_eq)
  from heap_up_correct [OF this] show ?thesis by (simp add: heap_Push_def Let_def)
qed

lemma heap_Pop_correct:
  assumes heap: "is_heap key (length h) h" and h: "h \<noteq> []"
  shows "is_heap key (length (fst (heap_Pop key h))) (fst (heap_Pop key h)) \<and>
     snd (heap_Pop key h) = hd h \<and>
     mset h = add_mset (snd (heap_Pop key h)) (mset (fst (heap_Pop key h)))"
proof -
  define n where "n = length h - 1"
  define h' where "h' = heap_down key (swap h 0 n) 0 n"
  have len: "length h = Suc n" using h by (simp add: n_def)
  have nth: "swap h 0 n ! k = (if k = 0 then h ! n else if k = n then h ! 0 else h ! k)"
    if "k < Suc n" for k using that len by (intro nth_swap) auto
  have "key (swap h 0 n ! parent k) \<le> key (swap h 0 n ! k)" if "0 < k" "k < n" "parent k \<noteq> 0" for k
    using that heap parent_less [of k] nth [of k] nth [of "parent k"] by (auto simp: is_heap_def len)
  then have "down_inv key (swap h 0 n) 0 n" by (simp add: down_inv_def)
  from heap_down_correct [OF this] have d: "is_heap key n h'" "mset h' = mset h" "length h' = Suc n"
    "h' ! n = hd h"
    using len nth [of n] h by (auto simp: h'_def hd_conv_nth)
  have "h' = take n h' @ [h' ! n]"
    using d(3) take_Suc_conv_app_nth [of n h'] by simp
  then have "mset h' = mset (take n h' @ [h' ! n])" by (rule arg_cong)
  then have "mset h = add_mset (h' ! n) (mset (take n h'))"
    unfolding d(2) by simp
  moreover have "key (take n h' ! parent k) \<le> key (take n h' ! k)" if "0 < k" "k < n" for k
    using d(1) that parent_less [of k] by (simp add: is_heap_def)
  then have "is_heap key n (take n h')" by (simp add: is_heap_def)
  ultimately show ?thesis
    using d len by (simp add: heap_Pop_def Let_def flip: n_def h'_def)
qed

interpretation heap: priority_queue key "\<lambda>h. is_heap key (length h) h" "heap_Push key" "heap_Pop key"
  for key :: "'a \<Rightarrow> 'k::linorder"
proof (unfold_locales, goal_cases)
  case (7 h x)
  then obtain k where "k < length h" "x = h ! k" by (auto simp: in_set_conv_nth)
  with 7 show ?case
    using heap_Pop_correct [of key h] is_heap_root [of key "length h" h k]
    by (cases h) auto
qed (use heap_Push_correct [of key] heap_Pop_correct [of key] in \<open>auto simp: is_heap_def\<close>)

end
