(* ===== verification/Payloads_Queue.thy ===== *)
theory Payloads_Queue
  imports Payloads Go_Heap
begin

text \<open>
  The queue of unsafe payloads (\<open>op-node/rollup/derive/payloads_queue.go\<close>): a heap ordered by block
  number with a bound on the memory that the buffered payloads take.
\<close>

section \<open>State\<close>

record payload_and_size =
  ps_payload :: execution_payload
  ps_size :: u64

text \<open>\<open>Less\<close> compares block numbers.\<close>

definition ps_key :: "payload_and_size \<Rightarrow> u64" where
  "ps_key e = BlockNumber (ps_payload e)"

definition payloadMemFixedCost :: u64 where
  "payloadMemFixedCost = 800"

definition payloadTxMemOverhead :: u64 where
  "payloadTxMemOverhead = 24"

definition payloadMemSize :: "execution_payload option \<Rightarrow> u64" where
  "payloadMemSize p =
     (case p of
        None \<Rightarrow> payloadMemFixedCost
      | Some p \<Rightarrow>
          foldl (\<lambda>out tx. out + (of_nat (length tx) + payloadTxMemOverhead)) payloadMemFixedCost
            (ep_Transactions p))"

text \<open>\<open>blockHashes\<close> is a Go map with empty values: a set.\<close>

record payloads_queue =
  pq :: "payload_and_size list"
  currentSize :: u64
  MaxSize :: u64
  blockHashes :: "hash set"
  SizeFn :: "execution_payload option \<Rightarrow> u64"

definition NewPayloadsQueue :: "u64 \<Rightarrow> (execution_payload option \<Rightarrow> u64) \<Rightarrow> payloads_queue" where
  "NewPayloadsQueue maxSize sizeFn =
     \<lparr>pq = [], currentSize = 0, MaxSize = maxSize, blockHashes = {}, SizeFn = sizeFn\<rparr>"

section \<open>Operations\<close>

definition PayloadsQueue_Len :: "payloads_queue \<Rightarrow> nat" where
  "PayloadsQueue_Len upq = length (pq upq)"

definition MemSize :: "payloads_queue \<Rightarrow> u64" where
  "MemSize upq = currentSize upq"

definition PayloadsQueue_Peek :: "payloads_queue \<Rightarrow> execution_payload option" where
  "PayloadsQueue_Peek upq = (if length (pq upq) = 0 then None else Some (ps_payload (pq upq ! 0)))"

definition PayloadsQueue_Pop :: "payloads_queue \<Rightarrow> payloads_queue \<times> execution_payload option" where
  "PayloadsQueue_Pop upq =
     (if length (pq upq) = 0 then (upq, None)
      else let (h, ps) = heap_Pop ps_key (pq upq) in
           (upq\<lparr>pq := h, currentSize := currentSize upq - ps_size ps,
                blockHashes := blockHashes upq - {BlockHash (ps_payload ps)}\<rparr>,
            Some (ps_payload ps)))"

text \<open>The eviction loop of \<open>Push\<close>. Nothing in its text makes it end: on an empty queue \<open>Pop\<close> does
  nothing. Not returning is \<open>None\<close>.\<close>

partial_function (option) evict_loop :: "payloads_queue \<Rightarrow> payloads_queue option" where
  "evict_loop upq =
     (if currentSize upq > MaxSize upq then evict_loop (fst (PayloadsQueue_Pop upq)) else Some upq)"

definition PayloadsQueue_Push ::
  "payloads_queue \<Rightarrow> execution_payload option \<Rightarrow> (payloads_queue \<times> unit result) option" where
  "PayloadsQueue_Push upq p =
     (case p of
        None \<Rightarrow> Some (upq, Inl (Errorf ''cannot add nil payload''))
      | Some p \<Rightarrow>
          if BlockHash p \<in> blockHashes upq
          then Some (upq, Inl (Errorf ''cannot add duplicate payload''))
          else let size = SizeFn upq (Some p) in
            if size > MaxSize upq
            then Some (upq, Inl (Errorf ''payload mem size is larger than max queue size''))
            else (case evict_loop (upq\<lparr>pq := heap_Push ps_key (pq upq) \<lparr>ps_payload = p, ps_size = size\<rparr>,
                                       currentSize := currentSize upq + size\<rparr>) of
                    None \<Rightarrow> None
                  | Some upq' \<Rightarrow>
                      Some (upq'\<lparr>blockHashes := insert (BlockHash p) (blockHashes upq')\<rparr>, Inr ())))"

section \<open>Invariant\<close>

text \<open>The heap order, the sizes and their sum, and distinct blocks; the sum may exceed the limit
  while \<open>Push\<close> is at work.\<close>

definition pq_sum :: "payload_and_size list \<Rightarrow> nat" where
  "pq_sum h = sum_list (map (\<lambda>e. unat (ps_size e)) h)"

definition pq_core :: "payloads_queue \<Rightarrow> bool" where
  "pq_core q =
     (is_heap ps_key (length (pq q)) (pq q) \<and> list_all (\<lambda>e. ps_size e \<le> MaxSize q) (pq q) \<and>
      unat (currentSize q) = pq_sum (pq q) \<and>
      distinct (map (\<lambda>e. BlockHash (ps_payload e)) (pq q)))"

definition pq_inv :: "payloads_queue \<Rightarrow> bool" where
  "pq_inv q =
     (pq_core q \<and> currentSize q \<le> MaxSize q \<and> unat (MaxSize q) < 2 ^ 63 \<and>
      list_all (\<lambda>e. BlockHash (ps_payload e) \<in> blockHashes q) (pq q))"

lemma pq_inv_New: "unat m < 2 ^ 63 \<Longrightarrow> pq_inv (NewPayloadsQueue m f)"
  by (simp add: pq_inv_def pq_core_def NewPayloadsQueue_def is_heap_def pq_sum_def)

lemma distinct_map_mset: "mset xs = mset ys \<Longrightarrow> distinct (map f xs) \<longleftrightarrow> distinct (map f ys)"
  by (metis mset_eq_imp_distinct_iff mset_map)

lemma pq_sum_mset: "pq_sum h = sum_mset (image_mset (\<lambda>e. unat (ps_size e)) (mset h))"
  by (simp add: pq_sum_def sum_mset_sum_list flip: mset_map)

text \<open>\<open>Pop\<close> takes the first entry out, which has a least block number.\<close>

lemma Pop_core:
  assumes "pq_core q" "pq q \<noteq> []" "PayloadsQueue_Pop q = (q', r)"
  shows "pq_core q' \<and> r = Some (ps_payload (hd (pq q))) \<and> mset (pq q) = add_mset (hd (pq q)) (mset (pq q')) \<and>
     list_all (\<lambda>e. ps_key (hd (pq q)) \<le> ps_key e) (pq q) \<and>
     MaxSize q' = MaxSize q \<and> SizeFn q' = SizeFn q \<and>
     blockHashes q' = blockHashes q - {BlockHash (ps_payload (hd (pq q)))}"
proof -
  let ?h = "fst (heap_Pop ps_key (pq q))"
  have heap: "is_heap ps_key (length (pq q)) (pq q)" using assms(1) by (simp add: pq_core_def)
  note pop = heap.pop_inv [OF heap assms(2)] heap.pop_hd [OF heap assms(2)]
    heap.pop_mset [OF heap assms(2)] heap.pop_set [OF heap assms(2)]
  have q': "q' = q\<lparr>pq := ?h, currentSize := currentSize q - ps_size (hd (pq q)),
      blockHashes := blockHashes q - {BlockHash (ps_payload (hd (pq q)))}\<rparr>"
    and r: "r = Some (ps_payload (hd (pq q)))"
    using assms(2,3) pop(2) by (auto simp: PayloadsQueue_Pop_def split: prod.splits)
  have sum: "pq_sum (pq q) = unat (ps_size (hd (pq q))) + pq_sum ?h"
    unfolding pq_sum_def by (rule heap.pop_sum [OF heap assms(2)])
  then have "ps_size (hd (pq q)) \<le> currentSize q"
    using assms(1) by (simp add: pq_core_def word_le_nat_alt)
  then have "unat (currentSize q - ps_size (hd (pq q))) = pq_sum ?h"
    using assms(1) sum by (simp add: pq_core_def unat_sub)
  moreover have "mset (pq q) = mset (hd (pq q) # ?h)" using pop(2,3) by simp
  from distinct_map_mset [OF this, of "\<lambda>e. BlockHash (ps_payload e)"]
  have "distinct (map (\<lambda>e. BlockHash (ps_payload e)) ?h)"
    using assms(1) by (simp add: pq_core_def)
  moreover have "list_all (\<lambda>e. ps_size e \<le> MaxSize q) ?h"
    using assms(1) pop(4) by (simp add: pq_core_def list_all_iff)
  moreover have "list_all (\<lambda>e. ps_key (hd (pq q)) \<le> ps_key e) (pq q)"
    using heap.pop_least [OF heap] pop(2) by (simp add: list_all_iff)
  ultimately show ?thesis using q' r pop by (simp add: pq_core_def)
qed

text \<open>The loop ends, drops entries with the lowest numbers only, and leaves at least one entry.\<close>

lemma evict_loop_ok:
  assumes "pq_core q" "pq q \<noteq> []"
  shows "\<exists>q' dropped. evict_loop q = Some q' \<and> pq_core q' \<and> currentSize q' \<le> MaxSize q' \<and> pq q' \<noteq> [] \<and>
     mset (pq q) = mset dropped + mset (pq q') \<and>
     (\<forall>d e. d \<in> set dropped \<longrightarrow> e \<in> set (pq q') \<longrightarrow> ps_key d \<le> ps_key e) \<and>
     MaxSize q' = MaxSize q \<and> SizeFn q' = SizeFn q \<and>
     blockHashes q' = blockHashes q - (\<lambda>e. BlockHash (ps_payload e)) ` set dropped"
  using assms
proof (induction "length (pq q)" arbitrary: q rule: less_induct)
  case less
  show ?case
  proof (cases "MaxSize q < currentSize q")
    case False
    then show ?thesis
      using less.prems by (intro exI [of _ q] exI [of _ "[]"]) (simp_all add: evict_loop.simps [of q])
  next
    case True
    obtain q1 r where pop: "PayloadsQueue_Pop q = (q1, r)" by (cases "PayloadsQueue_Pop q")
    note c = Pop_core [OF less.prems pop]
    have len: "length (pq q) = Suc (length (pq q1))" using c by (metis size_add_mset size_mset)
    have "pq q1 \<noteq> []"
    proof
      assume "pq q1 = []"
      with len obtain e where e: "pq q = [e]" by (cases "pq q") auto
      then have "unat (currentSize q) = unat (ps_size e)" "ps_size e \<le> MaxSize q"
        using less.prems by (simp_all add: pq_core_def pq_sum_def)
      with True show False by (simp add: word_less_nat_alt word_le_nat_alt)
    qed
    with less.hyps [of q1] len c obtain q' dropped where IH: "evict_loop q1 = Some q'" "pq_core q'"
      "currentSize q' \<le> MaxSize q'" "pq q' \<noteq> []" "mset (pq q1) = mset dropped + mset (pq q')"
      "\<forall>d e. d \<in> set dropped \<longrightarrow> e \<in> set (pq q') \<longrightarrow> ps_key d \<le> ps_key e"
      "MaxSize q' = MaxSize q1" "SizeFn q' = SizeFn q1"
      "blockHashes q' = blockHashes q1 - (\<lambda>e. BlockHash (ps_payload e)) ` set dropped"
      by auto
    have "set (pq q') \<subseteq> set (pq q)"
      using c IH(5) by (metis set_mset_mset mset_subset_eq_add_right set_mset_mono subset_insertI
          set_mset_add_mset_insert order.trans)
    with c IH True pop show ?thesis
      by (intro exI [of _ q'] exI [of _ "hd (pq q) # dropped"])
        (auto simp: evict_loop.simps [of q] list_all_iff)
  qed
qed

lemma Push_core:
  assumes inv: "pq_inv q" and new: "BlockHash p \<notin> blockHashes q"
    and size: "SizeFn q (Some p) \<le> MaxSize q"
  shows "\<exists>q' dropped. PayloadsQueue_Push q (Some p) = Some (q', Inr ()) \<and> pq_inv q' \<and> pq q' \<noteq> [] \<and>
     add_mset \<lparr>ps_payload = p, ps_size = SizeFn q (Some p)\<rparr> (mset (pq q)) =
       mset dropped + mset (pq q') \<and>
     (\<forall>d e. d \<in> set dropped \<longrightarrow> e \<in> set (pq q') \<longrightarrow> ps_key d \<le> ps_key e) \<and>
     MaxSize q' = MaxSize q \<and> SizeFn q' = SizeFn q \<and> BlockHash p \<in> blockHashes q'"
proof -
  define x where "x = \<lparr>ps_payload = p, ps_size = SizeFn q (Some p)\<rparr>"
  define q1 where "q1 = q\<lparr>pq := heap_Push ps_key (pq q) x, currentSize := currentSize q + SizeFn q (Some p)\<rparr>"
  have heap: "is_heap ps_key (length (pq q)) (pq q)" using inv by (simp add: pq_inv_def pq_core_def)
  note push = heap.push_inv [OF heap, of x] heap.push_mset [OF heap, of x] heap.push_set [OF heap, of x]
  have "unat (currentSize q + SizeFn q (Some p)) = unat (currentSize q) + unat (SizeFn q (Some p))"
    using inv size by (intro unat_add_lem [THEN iffD1])
      (simp add: pq_inv_def word_le_nat_alt)
  then have "unat (currentSize q1) = pq_sum (pq q1)"
    using inv heap.push_sum [OF heap, of "\<lambda>e. unat (ps_size e)" x]
    by (simp add: q1_def pq_inv_def pq_core_def pq_sum_def x_def)
  moreover have "mset (pq q1) = mset (x # pq q)" using push(2) by (simp add: q1_def)
  from distinct_map_mset [OF this, of "\<lambda>e. BlockHash (ps_payload e)"]
  have "distinct (map (\<lambda>e. BlockHash (ps_payload e)) (pq q1))"
    using inv new by (auto simp: pq_inv_def pq_core_def x_def list_all_iff)
  ultimately have core: "pq_core q1"
    using inv push size by (auto simp: q1_def pq_inv_def pq_core_def list_all_iff x_def)
  have ne: "pq q1 \<noteq> []" using push(3) by (auto simp: q1_def)
  obtain q' dropped where e: "evict_loop q1 = Some q'" "pq_core q'" "currentSize q' \<le> MaxSize q'"
    "pq q' \<noteq> []" "mset (pq q1) = mset dropped + mset (pq q')"
    "\<forall>d e. d \<in> set dropped \<longrightarrow> e \<in> set (pq q') \<longrightarrow> ps_key d \<le> ps_key e"
    "MaxSize q' = MaxSize q1" "SizeFn q' = SizeFn q1"
    "blockHashes q' = blockHashes q1 - (\<lambda>e. BlockHash (ps_payload e)) ` set dropped"
    using evict_loop_ok [OF core ne] by blast
  have "mset (pq q1) = mset (dropped @ pq q')" using e(5) by simp
  from distinct_map_mset [OF this, of "\<lambda>e. BlockHash (ps_payload e)"] core
  have disj: "BlockHash (ps_payload d) \<noteq> BlockHash (ps_payload k)"
    if "d \<in> set dropped" "k \<in> set (pq q')" for d k
    using that by (auto simp: pq_core_def)
  have sub: "set (pq q') \<subseteq> insert x (set (pq q))"
    using arg_cong [OF e(5), of set_mset] push(3) by (auto simp: q1_def)
  have "BlockHash (ps_payload k) \<in> insert (BlockHash p) (blockHashes q')" if "k \<in> set (pq q')" for k
    using sub that inv disj [OF _ that] by (auto simp: e(9) q1_def x_def pq_inv_def list_all_iff) metis
  then have "pq_inv (q'\<lparr>blockHashes := insert (BlockHash p) (blockHashes q')\<rparr>)"
    using e inv by (simp add: pq_inv_def pq_core_def list_all_iff q1_def)
  moreover have "PayloadsQueue_Push q (Some p) =
      Some (q'\<lparr>blockHashes := insert (BlockHash p) (blockHashes q')\<rparr>, Inr ())"
    using new size e(1) by (simp add: PayloadsQueue_Push_def Let_def q1_def x_def not_less)
  ultimately show ?thesis
    using e push(2)
    by (intro exI [of _ "q'\<lparr>blockHashes := insert (BlockHash p) (blockHashes q')\<rparr>"] exI [of _ dropped])
      (simp add: q1_def x_def)
qed

section \<open>Properties\<close>

text \<open>C20: adding a payload to the queue returns (the eviction loop ends), keeps the invariant and so the
  memory limit, leaves the queue non-empty, and drops entries only from the low end: the entries
  before, with the new one, are the dropped ones and the kept ones, and no dropped entry has a
  higher block number than a kept one.\<close>

theorem PayloadsQueue_Push_evicts:
  assumes "pq_inv q" "BlockHash p \<notin> blockHashes q" "SizeFn q (Some p) \<le> MaxSize q"
  shows "\<exists>q' dropped. PayloadsQueue_Push q (Some p) = Some (q', Inr ()) \<and> pq_inv q' \<and>
     MemSize q' \<le> MaxSize q \<and> PayloadsQueue_Peek q' \<noteq> None \<and>
     add_mset \<lparr>ps_payload = p, ps_size = SizeFn q (Some p)\<rparr> (mset (pq q)) =
       mset dropped + mset (pq q') \<and>
     list_all (\<lambda>d. list_all (\<lambda>e. BlockNumber (ps_payload d) \<le> BlockNumber (ps_payload e)) (pq q')) dropped"
proof -
  from Push_core [OF assms] obtain q' dropped where q': "PayloadsQueue_Push q (Some p) = Some (q', Inr ())"
    "pq_inv q'" "pq q' \<noteq> []" "MaxSize q' = MaxSize q"
    "add_mset \<lparr>ps_payload = p, ps_size = SizeFn q (Some p)\<rparr> (mset (pq q)) = mset dropped + mset (pq q')"
    "\<forall>d e. d \<in> set dropped \<longrightarrow> e \<in> set (pq q') \<longrightarrow> ps_key d \<le> ps_key e"
    by blast
  moreover have "MemSize q' \<le> MaxSize q" using q'(2,4) by (simp add: pq_inv_def MemSize_def)
  ultimately show ?thesis
    by (intro exI [of _ q'] exI [of _ dropped])
      (simp add: PayloadsQueue_Peek_def list_all_iff ps_key_def)
qed

definition ex_block :: "u64 \<Rightarrow> byte \<Rightarrow> execution_payload" where
  "ex_block n h = \<lparr>ep_ParentHash = [], FeeRecipient = [], StateRoot = [], ReceiptsRoot = [],
     LogsBloom = [], ep_PrevRandao = [], BlockNumber = n, ep_GasLimit = 0, GasUsed = 0,
     ep_Timestamp = 0, ExtraData = [], BaseFeePerGas = 0, BlockHash = replicate 32 h,
     ep_Transactions = []\<rparr>"

text \<open>A queue with room for one payload of 800 bytes, which it holds.\<close>

definition ex_payloads :: payloads_queue where
  "ex_payloads = \<lparr>pq = [\<lparr>ps_payload = ex_block 7 1, ps_size = 800\<rparr>], currentSize = 800, MaxSize = 1000,
     blockHashes = {replicate 32 1}, SizeFn = payloadMemSize\<rparr>"

lemma ex_payloads_inv: "pq_inv ex_payloads"
  by (simp add: pq_inv_def pq_core_def ex_payloads_def ex_block_def is_heap_def pq_sum_def)

lemma ex_block_size: "payloadMemSize (Some (ex_block n h)) = 800"
  by (simp add: payloadMemSize_def ex_block_def payloadMemFixedCost_def)

lemma ex_block_simps [simp]: "BlockNumber (ex_block n h) = n" "BlockHash (ex_block n h) = replicate 32 h"
  by (simp_all add: ex_block_def)

theorem PayloadsQueue_Push_evicts_witness:
  "\<exists>q'. PayloadsQueue_Push ex_payloads (Some (ex_block 9 2)) = Some (q', Inr ()) \<and> MemSize q' \<le> 1000"
proof -
  have "replicate 32 2 \<notin> blockHashes ex_payloads" "MaxSize ex_payloads = 1000"
    "SizeFn ex_payloads (Some (ex_block 9 2)) \<le> MaxSize ex_payloads"
    by (simp_all add: ex_payloads_def ex_block_size replicate_eq_replicate)
  then show ?thesis
    using PayloadsQueue_Push_evicts [OF ex_payloads_inv, of "ex_block 9 2"] by fastforce
qed

text \<open>a payload that is itself evicted while it is added is refused for good: when the new payload
  has the lowest block number and the queue overflows, the queue ends up without it, the call
  reports success, and adding the same payload again fails as a duplicate.\<close>

theorem evicted_payload_stays_blocked:
  assumes "pq_inv q" "BlockHash p \<notin> blockHashes q" "SizeFn q (Some p) \<le> MaxSize q"
    and "MaxSize q < MemSize q + SizeFn q (Some p)"
    and "list_all (\<lambda>e. BlockNumber p < BlockNumber (ps_payload e)) (pq q)"
  shows "\<exists>q'. PayloadsQueue_Push q (Some p) = Some (q', Inr ()) \<and>
     list_all (\<lambda>e. BlockHash (ps_payload e) \<noteq> BlockHash p) (pq q') \<and>
     PayloadsQueue_Push q' (Some p) = Some (q', Inl (Errorf ''cannot add duplicate payload''))"
proof -
  let ?x = "\<lparr>ps_payload = p, ps_size = SizeFn q (Some p)\<rparr>"
  from Push_core [OF assms(1-3)] obtain q' dropped where q': "PayloadsQueue_Push q (Some p) = Some (q', Inr ())"
    "pq_inv q'" "add_mset ?x (mset (pq q)) = mset dropped + mset (pq q')"
    "\<forall>d e. d \<in> set dropped \<longrightarrow> e \<in> set (pq q') \<longrightarrow> ps_key d \<le> ps_key e"
    "MaxSize q' = MaxSize q" "BlockHash p \<in> blockHashes q'" by blast
  have set: "insert ?x (set (pq q)) = set dropped \<union> set (pq q')"
    using arg_cong [OF q'(3), of set_mset] by simp
  have "dropped \<noteq> []"
  proof
    assume "dropped = []"
    then have eq: "mset (?x # pq q) = mset (pq q')" using q'(3) by simp
    then have "pq_sum (pq q') = unat (SizeFn q (Some p)) + pq_sum (pq q)"
      by (simp add: pq_sum_mset flip: eq)
    then have "unat (currentSize q') = unat (SizeFn q (Some p)) + unat (currentSize q)"
      using q'(2) assms(1) by (simp add: pq_inv_def pq_core_def)
    moreover have "currentSize q' \<le> MaxSize q" using q'(2,5) by (simp add: pq_inv_def)
    moreover have "unat (currentSize q + SizeFn q (Some p)) \<le> unat (currentSize q) + unat (SizeFn q (Some p))"
      by (simp add: unat_word_ariths)
    ultimately show False using assms(4) by (simp add: MemSize_def word_less_nat_alt word_le_nat_alt)
  qed
  then obtain d where d: "d \<in> set dropped" by (cases dropped) auto
  have "?x \<notin> set (pq q')"
  proof
    assume x: "?x \<in> set (pq q')"
    then have "ps_key d \<le> BlockNumber p" using q'(4) [rule_format, OF d x] by (simp add: ps_key_def)
    moreover have "d \<in> insert ?x (set (pq q))" using d set by simp
    ultimately have "d = ?x" using assms(5) by (auto simp: ps_key_def list_all_iff)
    with d x have "0 < count (mset dropped) ?x" "0 < count (mset (pq q')) ?x"
      by (simp_all add: count_greater_zero_iff)
    moreover have "?x \<notin> set (pq q)" using assms(5) by (auto simp: list_all_iff)
    then have "count (add_mset ?x (mset (pq q))) ?x = Suc 0" by (simp add: count_eq_zero_iff)
    ultimately show False unfolding q'(3) count_union by linarith
  qed
  moreover have "e \<in> insert ?x (set (pq q))" if "e \<in> set (pq q')" for e
    using set that by simp
  ultimately have "e \<in> set (pq q)" if "e \<in> set (pq q')" for e
    using that by blast
  then have "list_all (\<lambda>e. BlockHash (ps_payload e) \<noteq> BlockHash p) (pq q')"
    using assms(1,2) unfolding list_all_iff pq_inv_def by metis
  moreover have "PayloadsQueue_Push q' (Some p) = Some (q', Inl (Errorf ''cannot add duplicate payload''))"
    using q'(6) by (simp add: PayloadsQueue_Push_def)
  ultimately show ?thesis using q'(1) by blast
qed

theorem evicted_payload_stays_blocked_witness:
  "\<exists>q'. PayloadsQueue_Push ex_payloads (Some (ex_block 3 2)) = Some (q', Inr ()) \<and>
     PayloadsQueue_Push q' (Some (ex_block 3 2)) =
       Some (q', Inl (Errorf ''cannot add duplicate payload''))"
proof -
  have "replicate 32 2 \<notin> blockHashes ex_payloads"
    "SizeFn ex_payloads (Some (ex_block 3 2)) \<le> MaxSize ex_payloads"
    "MaxSize ex_payloads < MemSize ex_payloads + SizeFn ex_payloads (Some (ex_block 3 2))"
    "list_all (\<lambda>e. BlockNumber (ex_block 3 2) < BlockNumber (ps_payload e)) (pq ex_payloads)"
    by (simp_all add: ex_payloads_def ex_block_size replicate_eq_replicate MemSize_def)
  then show ?thesis
    using evicted_payload_stays_blocked [OF ex_payloads_inv, of "ex_block 3 2"] by fastforce
qed

text \<open>Repeated \<open>Pop\<close>.\<close>

fun drain :: "nat \<Rightarrow> payloads_queue \<Rightarrow> execution_payload list" where
  "drain 0 q = []"
| "drain (Suc n) q =
     (case PayloadsQueue_Pop q of (q', None) \<Rightarrow> [] | (q', Some p) \<Rightarrow> p # drain n q')"

text \<open>popping all payloads of a queue yields each buffered payload once, in ascending order of block
  numbers, and what \<open>Pop\<close> returns is what \<open>Peek\<close> showed.\<close>

theorem PayloadsQueue_drain_sorted:
  assumes "pq_core q"
  shows "sorted (map BlockNumber (drain (PayloadsQueue_Len q) q)) \<and>
     mset (drain (PayloadsQueue_Len q) q) = mset (map ps_payload (pq q)) \<and>
     snd (PayloadsQueue_Pop q) = PayloadsQueue_Peek q"
proof -
  have pop: "snd (PayloadsQueue_Pop q) = PayloadsQueue_Peek q" if "pq_core q" for q
    using Pop_core [OF that, of "fst (PayloadsQueue_Pop q)" "snd (PayloadsQueue_Pop q)"]
    by (cases "pq q") (simp_all add: PayloadsQueue_Pop_def PayloadsQueue_Peek_def)
  have "sorted (map BlockNumber (drain (length (pq q)) q)) \<and>
      mset (drain (length (pq q)) q) = mset (map ps_payload (pq q))" if "pq_core q" for q
    using that
  proof (induction "length (pq q)" arbitrary: q)
    case (Suc n)
    obtain q' r where p: "PayloadsQueue_Pop q = (q', r)" by (cases "PayloadsQueue_Pop q")
    have ne: "pq q \<noteq> []" using Suc.hyps(2) by auto
    note c = Pop_core [OF Suc.prems ne p]
    have len: "n = length (pq q')" using c Suc.hyps(2) by (metis diff_Suc_1 size_add_mset size_mset)
    note IH = Suc.hyps(1) [OF len conjunct1 [OF c]]
    have ms: "mset (map ps_payload (pq q)) = add_mset (ps_payload (hd (pq q))) (mset (map ps_payload (pq q')))"
      using c by simp
    have "set (drain n q') \<subseteq> ps_payload ` set (pq q)"
      using IH arg_cong [OF ms, of set_mset] len by (metis set_map set_mset_add_mset_insert set_mset_mset subset_insertI)
    then have "BlockNumber (ps_payload (hd (pq q))) \<le> BlockNumber y" if "y \<in> set (drain n q')" for y
      using that c by (auto simp: list_all_iff ps_key_def)
    then show ?case using IH len c ms p by (simp flip: Suc.hyps(2))
  qed simp
  from this [OF assms] pop [OF assms] show ?thesis by (simp add: PayloadsQueue_Len_def)
qed

theorem PayloadsQueue_drain_sorted_witness:
  "sorted (map BlockNumber (drain (PayloadsQueue_Len ex_payloads) ex_payloads))"
proof -
  have "pq_core ex_payloads" using ex_payloads_inv by (simp add: pq_inv_def)
  from PayloadsQueue_drain_sorted [OF this] show ?thesis by blast
qed

end
