(* ===== verification/Sync_Start.thy ===== *)
theory Sync_Start
  imports L1_Stages Batches
begin

text \<open>
  Finding the L2 heads to start derivation from (\<open>op-node/rollup/sync/start.go\<close>): the walk back from
  the unsafe head of the engine over the L2 chain, checking the L1 origins on the way. The loop has
  no bound of its own; not returning is \<open>None\<close>.
\<close>

section \<open>Interfaces and results\<close>

datatype block_label = Unsafe | Safe | Finalized

record l2_chain =
  L2BlockRefByHash :: "hash \<Rightarrow> l2_block_ref result"
  L2BlockRefByLabel :: "block_label \<Rightarrow> l2_block_ref result"

definition ReorgFinalizedErr :: error where
  "ReorgFinalizedErr = Errorf ''cannot reorg finalized block''"

definition WrongChainErr :: error where
  "WrongChainErr = Errorf ''wrong chain''"

definition TooDeepReorgErr :: error where
  "TooDeepReorgErr = Errorf ''reorg is too deep''"

definition MaxReorgSeqWindows :: u64 where
  "MaxReorgSeqWindows = 5"

record find_heads_result =
  r_Unsafe :: l2_block_ref
  r_Safe :: l2_block_ref
  r_Finalized :: l2_block_ref

definition currentHeads :: "config \<Rightarrow> l2_chain \<Rightarrow> find_heads_result result" where
  "currentHeads cfg l2 =
     (let fin = (case L2BlockRefByLabel l2 Finalized of
                   Inl e \<Rightarrow> if errors_Is e NotFound
                            then L2BlockRefByHash l2 (Hash (gen_L2 (Genesis cfg))) else Inl e
                 | Inr b \<Rightarrow> Inr b)
      in case fin of
           Inl e \<Rightarrow> Inl (Wrap ''failed to find the finalized L2 block'' e)
         | Inr finalized \<Rightarrow>
             (case (case L2BlockRefByLabel l2 Safe of
                      Inl e \<Rightarrow> if errors_Is e NotFound then Inr finalized
                               else Inl (Wrap ''failed to find the safe L2 block'' e)
                    | Inr b \<Rightarrow> Inr b) of
                Inl e \<Rightarrow> Inl e
              | Inr safe \<Rightarrow>
                  (case L2BlockRefByLabel l2 Unsafe of
                     Inl e \<Rightarrow> Inl (Wrap ''failed to find the L2 head block'' e)
                   | Inr unsafe \<Rightarrow>
                       Inr \<lparr>r_Unsafe = unsafe, r_Safe = safe, r_Finalized = finalized\<rparr>)))"

section \<open>The walk\<close>

text \<open>The local variables of \<open>FindL2Heads\<close>.\<close>

record find_state =
  fs_result :: find_heads_result
  fs_n :: l2_block_ref
  fs_highest :: l2_block_ref
  fs_l1Block :: l1_block_ref
  fs_ahead :: bool
  fs_ready :: bool

text \<open>The L1 block at the height of the origin of \<open>n\<close>, and whether that height is not there yet.\<close>

definition find_l1_block ::
  "l1_client \<Rightarrow> l2_block_ref \<Rightarrow> l1_block_ref \<Rightarrow> bool \<Rightarrow> (l1_block_ref \<times> bool) result" where
  "find_l1_block l1 n l1Block ahead =
     (if Hash (L1Origin n) = l1_ParentHash l1Block
      then (case L1BlockRefByHash l1 (Hash (L1Origin n)) of
              Inl e \<Rightarrow> Inl (Wrap ''failed to retrieve L1 block'' e)
            | Inr b \<Rightarrow> Inr (b, False))
      else if l1Block = zero_l1_ref \<or> Hash (L1Origin n) \<noteq> l1_Hash l1Block
      then (case L1BlockRefByNumber l1 (Number (L1Origin n)) of
              Inl e \<Rightarrow> if errors_Is e NotFound then Inr (zero_l1_ref, True)
                       else Inl (Wrap ''failed to retrieve block from L1 for comparison'' e)
            | Inr b \<Rightarrow> Inr (b, False))
      else Inr (l1Block, ahead))"

text \<open>The checks against the genesis and the finalized block.\<close>

definition check_chain :: "config \<Rightarrow> find_heads_result \<Rightarrow> l2_block_ref \<Rightarrow> l1_block_ref \<Rightarrow> bool \<Rightarrow> unit result" where
  "check_chain cfg res n l1Block ahead =
     (if l2_Number n = Number (gen_L2 (Genesis cfg)) \<and> l2_Hash n \<noteq> Hash (gen_L2 (Genesis cfg))
      then Inl (Wrap ''L2 genesis'' WrongChainErr)
      else if l2_Number n = Number (gen_L2 (Genesis cfg)) \<and> \<not> ahead \<and>
              l1_Hash l1Block \<noteq> Hash (gen_L1 (Genesis cfg))
      then Inl (Wrap ''L1 genesis'' WrongChainErr)
      else if l2_Number n = l2_Number (r_Finalized res) \<and> l2_Hash n \<noteq> l2_Hash (r_Finalized res)
      then Inl (Wrap ''finalized'' ReorgFinalizedErr)
      else Inr ())"

text \<open>A usable unsafe head, unless the reorg is too deep.\<close>

definition set_unsafe :: "config \<Rightarrow> l2_block_ref \<Rightarrow> find_heads_result \<Rightarrow> l2_block_ref \<Rightarrow> find_heads_result result" where
  "set_unsafe cfg prevUnsafe res n =
     (if r_Unsafe res = zero_l2_ref
      then if Number (L1Origin n) + MaxReorgSeqWindows * SeqWindowSize cfg < Number (L1Origin prevUnsafe)
           then Inl (Wrap ''too deep compared to previous unsafe block'' TooDeepReorgErr)
           else Inr (res\<lparr>r_Unsafe := n\<rparr>)
      else Inr res)"

text \<open>The relation between a block and its parent.\<close>

definition check_parent :: "l2_block_ref \<Rightarrow> l2_block_ref \<Rightarrow> l1_block_ref \<Rightarrow> unit result" where
  "check_parent par n l1Block =
     (if L1Origin par \<noteq> L1Origin n
      then if Number (L1Origin par) + 1 \<noteq> Number (L1Origin n)
           then Inl (Errorf ''l2 parent has L1 origin that is not before'')
           else if SequenceNumber n \<noteq> 0
           then Inl (Errorf ''l2 block has parent with different L1 origin, but non-zero sequence number'')
           else if l1_Hash l1Block = Hash (L1Origin n) \<and> l1_ParentHash l1Block \<noteq> Hash (L1Origin par)
           then Inl (Errorf ''parent L2 block has unexpected origin'')
           else Inr ()
      else if SequenceNumber par + 1 \<noteq> SequenceNumber n
           then Inl (Errorf ''sequence number inconsistency'') else Inr ())"

datatype find_exit = Continue find_state | Return find_heads_result

text \<open>The middle part of an iteration: what the L1 origin of \<open>n\<close> says about the heads, and whether a
  full sequencing window of L1 blocks was seen.\<close>

definition note_origin ::
  "config \<Rightarrow> find_state \<Rightarrow> l1_block_ref \<Rightarrow> bool \<Rightarrow> find_heads_result \<Rightarrow> find_state" where
  "note_origin cfg st l1Block ahead res1 =
     (let n = fs_n st;
          same = (l1_Hash l1Block = Hash (L1Origin n));
          res2 = (if ahead \<or> same then res1 else res1\<lparr>r_Unsafe := zero_l2_ref\<rparr>);
          highest = (if ahead then fs_highest st
                     else if same then (if fs_highest st = zero_l2_ref then n else fs_highest st)
                     else zero_l2_ref)
      in \<lparr>fs_result = res2, fs_n = n, fs_highest = highest, fs_l1Block = l1Block, fs_ahead = ahead,
          fs_ready = (fs_ready st \<or>
                      (l2_Number n \<le> l2_Number (r_Safe res2) \<and>
                       Number (L1Origin n) + SeqWindowSize cfg < Number (L1Origin highest) \<and>
                       SequenceNumber n = 0))\<rparr>)"

text \<open>The last part: stop at the finalized block, jump to the safe head, or go to the parent.\<close>

definition next_block :: "l2_chain \<Rightarrow> bool \<Rightarrow> find_state \<Rightarrow> find_exit result" where
  "next_block l2 skipSyncStartCheck st =
     (let n = fs_n st; res = fs_result st in
      if l2_Number n = l2_Number (r_Finalized res) then Inr (Return (res\<lparr>r_Safe := n\<rparr>))
      else if skipSyncStartCheck \<and> l2_Hash (fs_highest st) = l2_Hash n
      then Inr (Continue (st\<lparr>fs_n := r_Safe res\<rparr>))
      else (case L2BlockRefByHash l2 (l2_ParentHash n) of
              Inl e \<Rightarrow> Inl (Wrap ''failed to fetch L2 block by hash'' e)
            | Inr par \<Rightarrow>
                rbind (check_parent par n (fs_l1Block st)) (\<lambda>_.
                  if fs_ready st then Inr (Return (res\<lparr>r_Safe := par\<rparr>))
                  else Inr (Continue (st\<lparr>fs_n := par\<rparr>)))))"

text \<open>One iteration of the loop.\<close>

definition find_step ::
  "config \<Rightarrow> l1_client \<Rightarrow> l2_chain \<Rightarrow> bool \<Rightarrow> l2_block_ref \<Rightarrow> find_state \<Rightarrow> find_exit result" where
  "find_step cfg l1 l2 skipSyncStartCheck prevUnsafe st =
     rbind (find_l1_block l1 (fs_n st) (fs_l1Block st) (fs_ahead st)) (\<lambda>(l1Block, ahead).
     rbind (check_chain cfg (fs_result st) (fs_n st) l1Block ahead) (\<lambda>_.
     rbind (set_unsafe cfg prevUnsafe (fs_result st) (fs_n st)) (\<lambda>res1.
       next_block l2 skipSyncStartCheck (note_origin cfg st l1Block ahead res1))))"

partial_function (option) find_loop ::
  "config \<Rightarrow> l1_client \<Rightarrow> l2_chain \<Rightarrow> bool \<Rightarrow> l2_block_ref \<Rightarrow> find_state \<Rightarrow> find_heads_result result option" where
  "find_loop cfg l1 l2 skip prevUnsafe st =
     (case find_step cfg l1 l2 skip prevUnsafe st of
        Inl e \<Rightarrow> Some (Inl e)
      | Inr (Return res) \<Rightarrow> Some (Inr res)
      | Inr (Continue st') \<Rightarrow> find_loop cfg l1 l2 skip prevUnsafe st')"

definition find_start :: "find_heads_result \<Rightarrow> find_state" where
  "find_start res =
     \<lparr>fs_result = res, fs_n = r_Unsafe res, fs_highest = zero_l2_ref, fs_l1Block = zero_l1_ref,
      fs_ahead = False, fs_ready = False\<rparr>"

definition FindL2Heads ::
  "config \<Rightarrow> l1_client \<Rightarrow> l2_chain \<Rightarrow> bool \<Rightarrow> find_heads_result result option" where
  "FindL2Heads cfg l1 l2 skipSyncStartCheck =
     (case currentHeads cfg l2 of
        Inl e \<Rightarrow> Some (Inl (Wrap ''failed to fetch current L2 forkchoice state'' e))
      | Inr res \<Rightarrow>
          find_loop cfg l1 l2 skipSyncStartCheck (r_Unsafe res) (find_start res))"

section \<open>What the walk relies on\<close>








section \<open>The invariant of the walk\<close>




lemma note_origin_simps [simp]:
  "fs_n (note_origin cfg st b ahead res1) = fs_n st" "fs_l1Block (note_origin cfg st b ahead res1) = b"
  "fs_ahead (note_origin cfg st b ahead res1) = ahead"
  "fs_result (note_origin cfg st b ahead res1) =
     (if ahead \<or> l1_Hash b = Hash (L1Origin (fs_n st)) then res1 else res1\<lparr>r_Unsafe := zero_l2_ref\<rparr>)"
  by (simp_all add: note_origin_def Let_def)








section \<open>Properties\<close>


text \<open>An L2 chain of three blocks, all with the same L1 origin, for the examples.\<close>

definition ex_l2 :: "byte \<Rightarrow> l2_block_ref" where
  "ex_l2 k = \<lparr>l2_Hash = replicate 32 k, l2_Number = ucast k, l2_ParentHash = replicate 32 (k - 1),
     l2_Time = 1000, L1Origin = L1_ID (ex_l1 100), SequenceNumber = ucast k - 60\<rparr>"

definition ex_l2_chain :: "byte \<Rightarrow> byte \<Rightarrow> byte \<Rightarrow> l2_chain" where
  "ex_l2_chain u s f = \<lparr>L2BlockRefByHash = (\<lambda>h. if h = replicate 32 61 then Inr (ex_l2 61)
       else if h = replicate 32 62 then Inr (ex_l2 62) else Inl NotFound),
     L2BlockRefByLabel = (\<lambda>l. case l of Unsafe \<Rightarrow> Inr (ex_l2 u) | Safe \<Rightarrow> Inr (ex_l2 s) | Finalized \<Rightarrow> Inr (ex_l2 f))\<rparr>"

definition ex_l1_chain :: l1_client where
  "ex_l1_chain = \<lparr>L1BlockRefByNumber = (\<lambda>n. Inr (ex_l1 n)), L1BlockRefByHash = (\<lambda>_. Inl NotFound),
     InfoByHash = (\<lambda>_. Inl NotFound), FetchReceipts = (\<lambda>_. Inl NotFound),
     InfoAndTxsByHash = (\<lambda>_. Inr [])\<rparr>"

lemma ex_currentHeads:
  "currentHeads cfg (ex_l2_chain u s f) = Inr \<lparr>r_Unsafe = ex_l2 u, r_Safe = ex_l2 s, r_Finalized = ex_l2 f\<rparr>"
  by (simp add: currentHeads_def ex_l2_chain_def)




text \<open>with \<open>SkipSyncStartCheck\<close> the search does not return when the safe head is the unsafe head, is
  not the finalized block, and has a canonical L1 origin: the jump to the safe head leads back to
  the same block in every iteration.\<close>

theorem skip_sync_start_check_loops:
  assumes heads: "currentHeads cfg l2 = Inr heads" and u: "r_Unsafe heads = u" "r_Safe heads = u"
    and num: "l2_Number u \<noteq> l2_Number (r_Finalized heads)" "l2_Number u \<noteq> Number (gen_L2 (Genesis cfg))"
    and zero: "u \<noteq> zero_l2_ref" "Hash (L1Origin u) \<noteq> zero_hash"
    and b: "L1BlockRefByNumber l1 (Number (L1Origin u)) = Inr b" "l1_Hash b = Hash (L1Origin u)"
      "Hash (L1Origin u) \<noteq> l1_ParentHash b"
  shows "FindL2Heads cfg l1 l2 True = None"
proof -
  define stuck where "stuck = (\<lambda>st :: find_state. fs_n st = u \<and> fs_result st = heads \<and> \<not> fs_ahead st \<and>
      (fs_l1Block st = zero_l1_ref \<or> fs_l1Block st = b) \<and> (fs_highest st = zero_l2_ref \<or> fs_highest st = u))"
  have step: "\<exists>st'. find_step cfg l1 l2 True u st = Inr (Continue st') \<and> stuck st'" if "stuck st" for st
  proof -
    let ?st = "note_origin cfg st b False heads"
    have st: "fs_n st = u" "fs_result st = heads" using that by (auto simp: stuck_def)
    have z: "l1_ParentHash zero_l1_ref = zero_hash" by (simp add: zero_l1_ref_def)
    from that have v: "fs_l1Block st = zero_l1_ref \<or> fs_l1Block st = b" "fs_ahead st = False"
      by (simp_all add: stuck_def)
    have l1: "find_l1_block l1 u (fs_l1Block st) (fs_ahead st) = Inr (b, False)"
      using v(1) by (rule disjE) (simp_all add: find_l1_block_def v(2) zero(2) b z)
    have ok: "check_chain cfg heads u b False = Inr ()" "set_unsafe cfg u heads u = Inr heads"
      using num zero u by (auto simp: check_chain_def set_unsafe_def)
    have r: "fs_result ?st = heads" "fs_highest ?st = u" "fs_n ?st = u"
      using that b by (auto simp: stuck_def note_origin_def Let_def)
    have "next_block l2 True ?st = Inr (Continue (?st\<lparr>fs_n := u\<rparr>))"
      using r num u by (simp add: next_block_def Let_def)
    moreover have "stuck (?st\<lparr>fs_n := u\<rparr>)" using r by (simp add: stuck_def)
    ultimately show ?thesis using l1 ok by (simp add: find_step_def st)
  qed
  have "(c, k, l, s, p) = (cfg, l1, l2, True, u) \<longrightarrow> \<not> stuck st" if "find_loop c k l s p st = Some r"
    for c k l s p st r
  proof (rule find_loop.raw_induct [where P = "\<lambda>c k l s p st r.
        (c, k, l, s, p) = (cfg, l1, l2, True, u) \<longrightarrow> \<not> stuck st", OF _ that], goal_cases)
    case (1 loop c k l s p st r)
    show ?case
    proof (intro impI notI)
      assume eq: "(c, k, l, s, p) = (cfg, l1, l2, True, u)" and "stuck st"
      then obtain st' where "find_step c k l s p st = Inr (Continue st')" "stuck st'"
        using step by auto
      with 1 eq show False by auto
    qed
  qed
  moreover have "stuck (find_start heads)"
    using u by (simp add: stuck_def find_start_def)
  ultimately show ?thesis
    using heads u by (cases "find_loop cfg l1 l2 True u (find_start heads)") (simp_all add: FindL2Heads_def)
qed

theorem skip_sync_start_check_loops_witness:
  "FindL2Heads example_cfg ex_l1_chain (ex_l2_chain 62 62 61) True = None"
proof -
  have "ex_l2 62 \<noteq> zero_l2_ref" by (simp add: ex_l2_def zero_l2_ref_def)
  moreover have "be_bytes 32 100 \<noteq> zero_hash" "be_bytes 32 100 \<noteq> be_bytes 32 99"
    using be_nat_bytes [of 32 100] be_nat_bytes [of 32 99] be_nat_zeros [of 32]
    by (auto simp: zero_hash_def)
  ultimately show ?thesis
    by (intro skip_sync_start_check_loops [OF ex_currentHeads, where b = "ex_l1 100"])
      (auto simp: ex_l2_def ex_l1_chain_def ex_l1_def)
qed

text \<open>when the L1 block at the origin of the finalized L2 block is another one, the search reports
  success with an unsafe head that is the zero value, and the finalized block as safe head; it is not
  an error.\<close>

theorem finalized_reorg_zero_unsafe:
  assumes heads: "currentHeads cfg l2 = Inr heads" and u: "r_Unsafe heads = u" "r_Finalized heads = u"
    and num: "l2_Number u \<noteq> Number (gen_L2 (Genesis cfg))"
    and zero: "u \<noteq> zero_l2_ref" "Hash (L1Origin u) \<noteq> zero_hash"
    and b: "L1BlockRefByNumber l1 (Number (L1Origin u)) = Inr b" "l1_Hash b \<noteq> Hash (L1Origin u)"
  shows "FindL2Heads cfg l1 l2 skip =
     Some (Inr \<lparr>r_Unsafe = zero_l2_ref, r_Safe = u, r_Finalized = u\<rparr>)"
proof -
  have l1: "find_l1_block l1 u zero_l1_ref False = Inr (b, False)"
    using zero b by (simp add: find_l1_block_def zero_l1_ref_def)
  have "check_chain cfg heads u b False = Inr ()" "set_unsafe cfg u heads u = Inr heads"
    using num zero u by (auto simp: check_chain_def set_unsafe_def)
  then have "find_step cfg l1 l2 skip u (find_start heads) =
      Inr (Return \<lparr>r_Unsafe = zero_l2_ref, r_Safe = u, r_Finalized = u\<rparr>)"
    using l1 u b
    by (cases heads) (simp add: find_step_def find_start_def next_block_def note_origin_def Let_def)
  then show ?thesis
    using heads u by (simp add: FindL2Heads_def find_loop.simps [of cfg l1 l2 skip u])
qed

theorem finalized_reorg_zero_unsafe_witness:
  "FindL2Heads example_cfg (ex_l1_chain\<lparr>L1BlockRefByNumber := \<lambda>n. Inr (ex_l1 (n + 1))\<rparr>)
     (ex_l2_chain 62 62 62) False =
   Some (Inr \<lparr>r_Unsafe = zero_l2_ref, r_Safe = ex_l2 62, r_Finalized = ex_l2 62\<rparr>)"
proof -
  have "ex_l2 62 \<noteq> zero_l2_ref" by (simp add: ex_l2_def zero_l2_ref_def)
  moreover have "be_bytes 32 100 \<noteq> zero_hash" "be_bytes 32 101 \<noteq> be_bytes 32 100"
    using be_nat_bytes [of 32 100] be_nat_bytes [of 32 101] be_nat_zeros [of 32]
    by (auto simp: zero_hash_def)
  ultimately show ?thesis
    by (intro finalized_reorg_zero_unsafe [OF ex_currentHeads, where b = "ex_l1 101"])
      (auto simp: ex_l2_def ex_l1_def)
qed

end
