(* ===== verification/Engine_Queue.thy ===== *)
theory Engine_Queue
  imports Attributes Payloads_Queue Sync_Start
begin

text \<open>
  The last stage of the derivation pipeline (\<open>op-node/rollup/derive/engine_queue.go\<close>) with the block
  building calls of \<open>engine_update.go\<close>: it tracks the unsafe, safe and finalized L2 heads, processes
  unsafe payloads, consolidates derived attributes with the existing chain or forces them into the
  engine, and finalizes L2 blocks when the L1 blocks they were derived from are final.
  The execution engine is a state of its own and a record of calls on it.
\<close>

section \<open>The execution engine\<close>

type_synonym payload_id = bytes

definition zero_id :: payload_id where
  "zero_id = replicate 8 0"

record 'e engine =
  eng_GetPayload :: "payload_id \<Rightarrow> 'e \<Rightarrow> 'e \<times> execution_payload result"
  eng_ForkchoiceUpdate ::
    "forkchoice_state \<Rightarrow> payload_attributes option \<Rightarrow> 'e \<Rightarrow> 'e \<times> (payload_status \<times> payload_id option) result"
  eng_NewPayload :: "execution_payload \<Rightarrow> 'e \<Rightarrow> 'e \<times> payload_status result"
  eng_PayloadByNumber :: "'e \<Rightarrow> u64 \<Rightarrow> execution_payload result"
  eng_chain :: "'e \<Rightarrow> l2_chain"
  eng_SystemConfigByL2Hash :: "'e \<Rightarrow> hash \<Rightarrow> system_config result"

section \<open>Building blocks (engine_update.go)\<close>

datatype block_insertion_err =
  BlockInsertOK | BlockInsertTemporaryErr | BlockInsertPrestateErr | BlockInsertPayloadErr

text \<open>A failed insertion is an error with its type. A panic passes through with the type it has.\<close>

type_synonym 'a insertion = "(block_insertion_err \<times> error) + 'a"

definition StartPayload ::
  "'e engine \<Rightarrow> forkchoice_state \<Rightarrow> payload_attributes \<Rightarrow> 'e \<Rightarrow> 'e \<times> payload_id insertion" where
  "StartPayload eng fc attrs e =
     (case eng_ForkchoiceUpdate eng fc (Some attrs) e of
        (e', Inl err) \<Rightarrow>
          (e', Inl (case errors_As_InputError err of
             Some (code, inner) \<Rightarrow>
               if code = InvalidForkchoiceState
               then (BlockInsertPrestateErr, Wrap ''pre-block-creation forkchoice update was inconsistent'' inner)
               else if code = InvalidPayloadAttributes
               then (BlockInsertPayloadErr, Wrap ''payload attributes are not valid'' inner)
               else (BlockInsertPrestateErr, Wrap ''unexpected error code in forkchoice-updated response'' err)
           | None \<Rightarrow> (BlockInsertTemporaryErr, Wrap ''failed to create new block via forkchoice'' err)))
      | (e', Inr (status, idOpt)) \<Rightarrow>
          (case status of
             ExecutionValid \<Rightarrow>
               (case idOpt of
                  None \<Rightarrow> (e', Inl (BlockInsertTemporaryErr, Errorf ''nil id in forkchoice result''))
                | Some i \<Rightarrow> (e', Inr i))
           | _ \<Rightarrow>
               (e', Inl (if status = ExecutionInvalid \<or> status = ExecutionInvalidBlockHash
                         then BlockInsertPayloadErr else BlockInsertTemporaryErr,
                         the (ForkchoiceUpdateErr status)))))"

text \<open>After the payload was executed, it is made canonical (and safe) with a second forkchoice update.\<close>

definition confirm_forkchoice ::
  "'e engine \<Rightarrow> forkchoice_state \<Rightarrow> execution_payload \<Rightarrow> bool \<Rightarrow> 'e \<Rightarrow> 'e \<times> execution_payload insertion" where
  "confirm_forkchoice eng fc0 payload updateSafe e =
     (let fc1 = fc0\<lparr>HeadBlockHash := BlockHash payload\<rparr>;
          fc = (if updateSafe then fc1\<lparr>SafeBlockHash := BlockHash payload\<rparr> else fc1)
      in case eng_ForkchoiceUpdate eng fc None e of
           (e', Inl err) \<Rightarrow>
             (e', Inl (case errors_As_InputError err of
                Some (code, inner) \<Rightarrow>
                  if code = InvalidForkchoiceState
                  then (BlockInsertPayloadErr, Wrap ''post-block-creation forkchoice update was inconsistent'' inner)
                  else (BlockInsertPrestateErr, Wrap ''unexpected error code in forkchoice-updated response'' err)
              | None \<Rightarrow>
                  (BlockInsertTemporaryErr, Wrap ''failed to make the new L2 block canonical via forkchoice'' err)))
         | (e', Inr (status, _)) \<Rightarrow>
             if status \<noteq> ExecutionValid
             then (e', Inl (BlockInsertPayloadErr, the (ForkchoiceUpdateErr status)))
             else (e', Inr payload))"

definition ConfirmPayload ::
  "'e engine \<Rightarrow> forkchoice_state \<Rightarrow> payload_id \<Rightarrow> bool \<Rightarrow> 'e \<Rightarrow> 'e \<times> execution_payload insertion" where
  "ConfirmPayload eng fc i updateSafe e =
     (case eng_GetPayload eng i e of
        (e1, Inl err) \<Rightarrow> (e1, Inl (BlockInsertTemporaryErr, Wrap ''failed to get execution payload'' err))
      | (e1, Inr payload) \<Rightarrow>
          (case sanityCheckPayload payload of
             Inl err \<Rightarrow> (e1, Inl (BlockInsertPayloadErr, err))
           | Inr _ \<Rightarrow>
               (case eng_NewPayload eng payload e1 of
                  (e2, Inl err) \<Rightarrow>
                    (e2, Inl (BlockInsertTemporaryErr, Wrap ''failed to insert execution payload'' err))
                | (e2, Inr status) \<Rightarrow>
                    if status = ExecutionInvalid \<or> status = ExecutionInvalidBlockHash
                    then (e2, Inl (BlockInsertPayloadErr, the (NewPayloadErr status)))
                    else if status \<noteq> ExecutionValid
                    then (e2, Inl (BlockInsertTemporaryErr, the (NewPayloadErr status)))
                    else confirm_forkchoice eng fc payload updateSafe e2)))"

section \<open>State of the engine queue\<close>

record attributes_with_parent =
  awp_attributes :: payload_attributes
  awp_parent :: l2_block_ref

record finality_data =
  fd_L2Block :: l2_block_ref
  fd_L1Block :: block_id

definition maxUnsafePayloadsMemory :: u64 where
  "maxUnsafePayloadsMemory = 500 * 1024 * 1024"

definition finalityLookback :: nat where
  "finalityLookback = 4 * 32 + 1"

definition finalityDelay :: u64 where
  "finalityDelay = 64"

record engine_queue =
  eq_finalized :: l2_block_ref
  eq_safeHead :: l2_block_ref
  eq_unsafeHead :: l2_block_ref
  eq_engineSyncTarget :: l2_block_ref
  buildingOnto :: l2_block_ref
  buildingID :: payload_id
  buildingSafe :: bool
  needForkchoiceUpdate :: bool
  finalizedL1 :: l1_block_ref
  triedFinalizeAt :: l1_block_ref
  safeAttributes :: "attributes_with_parent option"
  unsafePayloads :: payloads_queue
  finalityData :: "finality_data list"
  eq_origin :: l1_block_ref
  eq_sysCfg :: system_config

definition NewEngineQueue :: engine_queue where
  "NewEngineQueue =
     \<lparr>eq_finalized = zero_l2_ref, eq_safeHead = zero_l2_ref, eq_unsafeHead = zero_l2_ref,
      eq_engineSyncTarget = zero_l2_ref, buildingOnto = zero_l2_ref, buildingID = zero_id,
      buildingSafe = False, needForkchoiceUpdate = False, finalizedL1 = zero_l1_ref,
      triedFinalizeAt = zero_l1_ref, safeAttributes = None,
      unsafePayloads = NewPayloadsQueue maxUnsafePayloadsMemory payloadMemSize, finalityData = [],
      eq_origin = zero_l1_ref, eq_sysCfg = zero_system_config\<rparr>"

text \<open>What the queue is constructed with: configuration, options, engine, L1 client, the library
  functions that decode payloads, and the previous stage.\<close>

record ('e, 'p) eq_env =
  env_cfg :: config
  env_EngineSync :: bool
  env_SkipSyncStartCheck :: bool
  env_engine :: "'e engine"
  env_l1 :: l1_client
  env_keccak :: "bytes \<Rightarrow> hash"
  env_unmarshalTx :: "bytes \<Rightarrow> (byte \<times> bytes) result"
  env_prevOrigin :: "'p \<Rightarrow> l1_block_ref"
  env_nextAttributes :: "l2_block_ref \<Rightarrow> ('p, payload_attributes) pull"

definition payload_ref :: "('e, 'p) eq_env \<Rightarrow> execution_payload \<Rightarrow> l2_block_ref result" where
  "payload_ref env payload =
     PayloadToBlockRef (env_keccak env) (env_unmarshalTx env) payload (Genesis (env_cfg env))"

section \<open>Finality\<close>

definition finalize_entry ::
  "l1_block_ref \<Rightarrow> l2_block_ref \<times> bool \<Rightarrow> finality_data \<Rightarrow> l2_block_ref \<times> bool" where
  "finalize_entry finL1 acc fd =
     (case acc of (finalizedL2, need) \<Rightarrow>
        if l2_Number (fd_L2Block fd) > l2_Number finalizedL2 \<and> Number (fd_L1Block fd) \<le> l1_Number finL1
        then (fd_L2Block fd, True) else (finalizedL2, need))"

definition tryFinalizeL2 :: "engine_queue \<Rightarrow> engine_queue" where
  "tryFinalizeL2 eq =
     (if finalizedL1 eq = zero_l1_ref then eq
      else let (finalizedL2, need) =
                 foldl (finalize_entry (finalizedL1 eq)) (eq_finalized eq, needForkchoiceUpdate eq)
                   (finalityData eq)
           in eq\<lparr>triedFinalizeAt := eq_origin eq, eq_finalized := finalizedL2,
                 needForkchoiceUpdate := need\<rparr>)"

definition Finalize :: "l1_block_ref \<Rightarrow> engine_queue \<Rightarrow> engine_queue" where
  "Finalize l1Origin eq =
     (if l1_Number l1Origin < l1_Number (finalizedL1 eq) then eq
      else let eq1 = eq\<lparr>finalizedL1 := l1Origin\<rparr> in
           if list_ex (\<lambda>fd. fd_L1Block fd = L1_ID l1Origin) (finalityData eq1)
           then tryFinalizeL2 eq1 else eq1)"

definition postProcessSafeL2 :: "engine_queue \<Rightarrow> engine_queue" where
  "postProcessSafeL2 eq =
     (let fds = (if length (finalityData eq) \<ge> finalityLookback
                 then take (finalityLookback - 1) (drop 1 (finalityData eq)) else finalityData eq)
      in if fds = [] \<or> Number (fd_L1Block (last fds)) < l1_Number (eq_origin eq)
         then eq\<lparr>finalityData := fds @ [\<lparr>fd_L2Block = eq_safeHead eq, fd_L1Block = L1_ID (eq_origin eq)\<rparr>]\<rparr>
         else eq\<lparr>finalityData := butlast fds @ [(last fds)\<lparr>fd_L2Block := eq_safeHead eq\<rparr>]\<rparr>)"

definition tryFinalizePastL2Blocks :: "('e, 'p) eq_env \<Rightarrow> engine_queue \<Rightarrow> engine_queue \<times> unit result" where
  "tryFinalizePastL2Blocks env eq =
     (if finalizedL1 eq = zero_l1_ref then (eq, Inr ())
      else if l1_Number (finalizedL1 eq) < l1_Number (eq_origin eq) then (eq, Inr ())
      else if triedFinalizeAt eq \<noteq> zero_l1_ref \<and>
              l1_Number (eq_origin eq) \<le> l1_Number (triedFinalizeAt eq) + finalityDelay then (eq, Inr ())
      else (case L1BlockRefByNumber (env_l1 env) (l1_Number (eq_origin eq)) of
              Inl e \<Rightarrow> (eq, Inl (NewTemporaryError (Wrap ''failed to check if on finalizing L1 chain'' e)))
            | Inr ref \<Rightarrow>
                if l1_Hash ref \<noteq> l1_Hash (eq_origin eq)
                then (eq, Inl (NewResetError (Errorf ''need to reset, not on the finalizing L1 chain'')))
                else (tryFinalizeL2 eq, Inr ())))"

section \<open>Heads and unsafe payloads\<close>

definition SetUnsafeHead :: "l2_block_ref \<Rightarrow> engine_queue \<Rightarrow> engine_queue" where
  "SetUnsafeHead head eq = eq\<lparr>eq_unsafeHead := head\<rparr>"

definition SetEngineSyncTarget :: "l2_block_ref \<Rightarrow> engine_queue \<Rightarrow> engine_queue" where
  "SetEngineSyncTarget head eq = eq\<lparr>eq_engineSyncTarget := head\<rparr>"

definition isEngineSyncing :: "engine_queue \<Rightarrow> bool" where
  "isEngineSyncing eq = (l2_Hash (eq_unsafeHead eq) \<noteq> l2_Hash (eq_engineSyncTarget eq))"

text \<open>The outcome of \<open>AddUnsafePayload\<close> is \<open>None\<close> when the queue's push does not return. The first
  payload is dereferenced afterwards.\<close>

definition AddUnsafePayload :: "execution_payload option \<Rightarrow> engine_queue \<Rightarrow> engine_queue result option" where
  "AddUnsafePayload payload eq =
     (case payload of
        None \<Rightarrow> Some (Inr eq)
      | Some _ \<Rightarrow>
          (case PayloadsQueue_Push (unsafePayloads eq) payload of
             None \<Rightarrow> None
           | Some (q, Inl _) \<Rightarrow> Some (Inr (eq\<lparr>unsafePayloads := q\<rparr>))
           | Some (q, Inr _) \<Rightarrow>
               (case PayloadsQueue_Peek q of
                  None \<Rightarrow> Some (Inl (Panic ''nil pointer dereference''))
                | Some _ \<Rightarrow> Some (Inr (eq\<lparr>unsafePayloads := q\<rparr>)))))"

definition UnsafeL2SyncTarget :: "('e, 'p) eq_env \<Rightarrow> engine_queue \<Rightarrow> l2_block_ref" where
  "UnsafeL2SyncTarget env eq =
     (case PayloadsQueue_Peek (unsafePayloads eq) of
        Some first \<Rightarrow> (case payload_ref env first of Inl _ \<Rightarrow> zero_l2_ref | Inr ref \<Rightarrow> ref)
      | None \<Rightarrow> zero_l2_ref)"

text \<open>An error of the forkchoice update: only an invalid forkchoice state calls for a reset.\<close>

definition forkchoice_error :: "string \<Rightarrow> string \<Rightarrow> error \<Rightarrow> error" where
  "forkchoice_error inconsistent failed err =
     (case errors_As_InputError err of
        Some (code, inner) \<Rightarrow>
          if code = InvalidForkchoiceState then NewResetError (Wrap inconsistent inner)
          else NewTemporaryError (Wrap ''unexpected error code in forkchoice-updated response'' err)
      | None \<Rightarrow> NewTemporaryError (Wrap failed err))"

definition tryUpdateEngine :: "('e, 'p) eq_env \<Rightarrow> 'e \<times> engine_queue \<Rightarrow> ('e \<times> engine_queue) \<times> unit result" where
  "tryUpdateEngine env = (\<lambda>(e, eq).
     let fc = \<lparr>HeadBlockHash = l2_Hash (eq_engineSyncTarget eq), SafeBlockHash = l2_Hash (eq_safeHead eq),
               FinalizedBlockHash = l2_Hash (eq_finalized eq)\<rparr>
     in case eng_ForkchoiceUpdate (env_engine env) fc None e of
          (e', Inl err) \<Rightarrow>
            ((e', eq), Inl (forkchoice_error ''forkchoice update was inconsistent with engine''
                              ''failed to sync forkchoice with engine'' err))
        | (e', Inr _) \<Rightarrow> ((e', eq\<lparr>needForkchoiceUpdate := False\<rparr>), Inr ()))"

definition checkNewPayloadStatus :: "bool \<Rightarrow> payload_status \<Rightarrow> bool" where
  "checkNewPayloadStatus engineSync status =
     (if engineSync
      then status = ExecutionValid \<or> status = ExecutionSyncing \<or> status = ExecutionAccepted
      else status = ExecutionValid)"

definition checkForkchoiceUpdatedStatus :: "bool \<Rightarrow> payload_status \<Rightarrow> bool" where
  "checkForkchoiceUpdatedStatus engineSync status =
     (if engineSync then status = ExecutionValid \<or> status = ExecutionSyncing else status = ExecutionValid)"

definition pop_unsafe :: "engine_queue \<Rightarrow> engine_queue" where
  "pop_unsafe eq = eq\<lparr>unsafePayloads := fst (PayloadsQueue_Pop (unsafePayloads eq))\<rparr>"

text \<open>The second half of \<open>tryNextUnsafePayload\<close>: execute the payload and make it the head.\<close>

definition insert_unsafe ::
  "('e, 'p) eq_env \<Rightarrow> execution_payload \<Rightarrow> l2_block_ref \<Rightarrow> 'e \<times> engine_queue \<Rightarrow> ('e \<times> engine_queue) \<times> unit result" where
  "insert_unsafe env first ref = (\<lambda>(e, eq).
     case eng_NewPayload (env_engine env) first e of
       (e1, Inl err) \<Rightarrow> ((e1, eq), Inl (NewTemporaryError (Wrap ''failed to update insert payload'' err)))
     | (e1, Inr status) \<Rightarrow>
         if \<not> checkNewPayloadStatus (env_EngineSync env) status
         then ((e1, pop_unsafe eq), Inl (NewTemporaryError (Errorf ''cannot process unsafe payload'')))
         else
           let fc = \<lparr>HeadBlockHash = BlockHash first, SafeBlockHash = l2_Hash (eq_safeHead eq),
                     FinalizedBlockHash = l2_Hash (eq_finalized eq)\<rparr>
           in case eng_ForkchoiceUpdate (env_engine env) fc None e1 of
                (e2, Inl err) \<Rightarrow>
                  ((e2, eq), Inl (forkchoice_error ''pre-unsafe-block forkchoice update was inconsistent with engine''
                     ''failed to update forkchoice to prepare for new unsafe payload'' err))
              | (e2, Inr (fcStatus, _)) \<Rightarrow>
                  if \<not> checkForkchoiceUpdatedStatus (env_EngineSync env) fcStatus
                  then ((e2, pop_unsafe eq),
                        Inl (NewTemporaryError (Errorf ''cannot prepare unsafe chain for new payload'')))
                  else
                    let eq1 = eq\<lparr>eq_engineSyncTarget := ref\<rparr>;
                        eq2 = (if fcStatus = ExecutionValid then eq1\<lparr>eq_unsafeHead := ref\<rparr> else eq1)
                    in ((e2, pop_unsafe eq2), Inr ()))"

definition tryNextUnsafePayload ::
  "('e, 'p) eq_env \<Rightarrow> 'e \<times> engine_queue \<Rightarrow> ('e \<times> engine_queue) \<times> unit result" where
  "tryNextUnsafePayload env = (\<lambda>(e, eq).
     case PayloadsQueue_Peek (unsafePayloads eq) of
       None \<Rightarrow> ((e, eq), Inl (Panic ''nil pointer dereference''))
     | Some first \<Rightarrow>
         if BlockNumber first \<le> l2_Number (eq_safeHead eq) then ((e, pop_unsafe eq), Inr ())
         else if BlockNumber first \<le> l2_Number (eq_unsafeHead eq) then ((e, pop_unsafe eq), Inr ())
         else if \<not> env_EngineSync env \<and> ep_ParentHash first \<noteq> l2_Hash (eq_unsafeHead eq)
         then (if BlockNumber first = l2_Number (eq_unsafeHead eq) + 1
               then ((e, pop_unsafe eq), Inl EOF) else ((e, eq), Inl EOF))
         else (case payload_ref env first of
                 Inl _ \<Rightarrow> ((e, pop_unsafe eq), Inr ())
               | Inr ref \<Rightarrow> insert_unsafe env first ref (e, eq)))"

section \<open>Building blocks on the queue's heads\<close>

definition resetBuildingState :: "engine_queue \<Rightarrow> engine_queue" where
  "resetBuildingState eq = eq\<lparr>buildingID := zero_id, buildingOnto := zero_l2_ref, buildingSafe := False\<rparr>"

definition EngineQueue_StartPayload ::
  "('e, 'p) eq_env \<Rightarrow> l2_block_ref \<Rightarrow> payload_attributes \<Rightarrow> bool \<Rightarrow> 'e \<times> engine_queue \<Rightarrow>
   ('e \<times> engine_queue) \<times> unit insertion" where
  "EngineQueue_StartPayload env par attrs updateSafe = (\<lambda>(e, eq).
     if isEngineSyncing eq
     then ((e, eq), Inl (BlockInsertTemporaryErr, Errorf ''engine is in progess of p2p sync''))
     else
       let fc = \<lparr>HeadBlockHash = l2_Hash par, SafeBlockHash = l2_Hash (eq_safeHead eq),
                 FinalizedBlockHash = l2_Hash (eq_finalized eq)\<rparr>
       in case StartPayload (env_engine env) fc attrs e of
            (e', Inl err) \<Rightarrow> ((e', eq), Inl err)
          | (e', Inr i) \<Rightarrow>
              ((e', eq\<lparr>buildingID := i, buildingSafe := updateSafe, buildingOnto := par\<rparr>), Inr ()))"

definition wrap_insertion :: "string \<Rightarrow> block_insertion_err \<times> error \<Rightarrow> block_insertion_err \<times> error" where
  "wrap_insertion msg = (\<lambda>(t, err). (t, if is_panic err then err else Wrap msg err))"

text \<open>The new heads after a block was completed.\<close>

definition adopt_block :: "l2_block_ref \<Rightarrow> engine_queue \<Rightarrow> engine_queue" where
  "adopt_block ref eq =
     (let eq1 = eq\<lparr>eq_unsafeHead := ref, eq_engineSyncTarget := ref\<rparr>;
          eq2 = (if buildingSafe eq1 then postProcessSafeL2 (eq1\<lparr>eq_safeHead := ref\<rparr>) else eq1)
      in resetBuildingState eq2)"

definition EngineQueue_ConfirmPayload ::
  "('e, 'p) eq_env \<Rightarrow> 'e \<times> engine_queue \<Rightarrow> ('e \<times> engine_queue) \<times> execution_payload insertion" where
  "EngineQueue_ConfirmPayload env = (\<lambda>(e, eq).
     if buildingID eq = zero_id
     then ((e, eq), Inl (BlockInsertPrestateErr,
             Errorf ''cannot complete payload building: not currently building a payload''))
     else
       let fc = \<lparr>HeadBlockHash = zero_hash, SafeBlockHash = l2_Hash (eq_safeHead eq),
                 FinalizedBlockHash = l2_Hash (eq_finalized eq)\<rparr>
       in case ConfirmPayload (env_engine env) fc (buildingID eq) (buildingSafe eq) e of
            (e', Inl err) \<Rightarrow> ((e', eq), Inl (wrap_insertion ''failed to complete building on top of L2 chain'' err))
          | (e', Inr payload) \<Rightarrow>
              (case payload_ref env payload of
                 Inl err \<Rightarrow>
                   ((e', eq), Inl (BlockInsertPayloadErr,
                      NewResetError (Wrap ''failed to decode L2 block ref from payload'' err)))
               | Inr ref \<Rightarrow> ((e', adopt_block ref eq), Inr payload)))"

definition CancelPayload ::
  "('e, 'p) eq_env \<Rightarrow> bool \<Rightarrow> 'e \<times> engine_queue \<Rightarrow> ('e \<times> engine_queue) \<times> unit result" where
  "CancelPayload env force = (\<lambda>(e, eq).
     if buildingID eq = zero_id then ((e, eq), Inr ())
     else (case eng_GetPayload (env_engine env) (buildingID eq) e of
             (e', Inl err) \<Rightarrow>
               if \<not> force then ((e', eq), Inl err) else ((e', resetBuildingState eq), Inr ())
           | (e', Inr _) \<Rightarrow> ((e', resetBuildingState eq), Inr ())))"

section \<open>Safe attributes\<close>

definition depositCount :: "bytes list \<Rightarrow> nat" where
  "depositCount txs = length (filter (\<lambda>tx. tx \<noteq> [] \<and> hd tx = DepositTxType) txs)"

text \<open>What follows a failed insertion of the attributes.\<close>

definition force_failed ::
  "('e, 'p) eq_env \<Rightarrow> payload_attributes \<Rightarrow> block_insertion_err \<times> error \<Rightarrow> 'e \<times> engine_queue \<Rightarrow>
   ('e \<times> engine_queue) \<times> unit result" where
  "force_failed env attrs failure s =
     (case failure of (errType, err) \<Rightarrow>
        if is_panic err then (s, Inl err)
        else (case errType of
                BlockInsertTemporaryErr \<Rightarrow>
                  (s, Inl (NewTemporaryError (Wrap ''temporarily cannot insert new safe block'' err)))
              | BlockInsertPrestateErr \<Rightarrow>
                  (fst (CancelPayload env True s),
                   Inl (NewResetError (Wrap ''need reset to resolve pre-state problem'' err)))
              | BlockInsertPayloadErr \<Rightarrow>
                  (case fst (CancelPayload env True s) of (e, eq) \<Rightarrow>
                     if length (pa_Transactions attrs) = depositCount (pa_Transactions attrs)
                     then ((e, eq), Inl (NewCriticalError
                             (Wrap ''failed to process block with only deposit transactions'' err)))
                     else ((e, eq\<lparr>safeAttributes := None\<rparr>), Inr ()))
              | BlockInsertOK \<Rightarrow>
                  (s, Inl (NewCriticalError (Wrap ''unknown InsertHeadBlock error type'' err)))))"

definition forceNextSafeAttributes ::
  "('e, 'p) eq_env \<Rightarrow> 'e \<times> engine_queue \<Rightarrow> ('e \<times> engine_queue) \<times> unit result" where
  "forceNextSafeAttributes env = (\<lambda>(e, eq).
     case safeAttributes eq of
       None \<Rightarrow> ((e, eq), Inr ())
     | Some awp \<Rightarrow>
         let attrs = awp_attributes awp in
         (case EngineQueue_StartPayload env (eq_safeHead eq) attrs True (e, eq) of
            (s1, Inl err) \<Rightarrow> force_failed env attrs err s1
          | (s1, Inr _) \<Rightarrow>
              (case EngineQueue_ConfirmPayload env s1 of
                 (s2, Inl err) \<Rightarrow> force_failed env attrs err s2
               | ((e2, eq2), Inr _) \<Rightarrow> ((e2, eq2\<lparr>safeAttributes := None\<rparr>), Inr ()))))"

definition consolidateNextSafeAttributes ::
  "('e, 'p) eq_env \<Rightarrow> 'e \<times> engine_queue \<Rightarrow> ('e \<times> engine_queue) \<times> unit result" where
  "consolidateNextSafeAttributes env = (\<lambda>(e, eq).
     case safeAttributes eq of
       None \<Rightarrow> ((e, eq), Inl (Panic ''nil pointer dereference''))
     | Some awp \<Rightarrow>
         (case eng_PayloadByNumber (env_engine env) e (l2_Number (eq_safeHead eq) + 1) of
            Inl err \<Rightarrow>
              if errors_Is err NotFound
              then ((e, eq), Inl (NewResetError
                      (Wrap ''expected engine was synced and had unsafe block to reconcile'' err)))
              else ((e, eq), Inl (NewTemporaryError
                      (Wrap ''failed to get existing unsafe payload to compare'' err)))
          | Inr payload \<Rightarrow>
              if AttributesMatchBlock (awp_attributes awp) (l2_Hash (eq_safeHead eq)) payload \<noteq> None
              then forceNextSafeAttributes env (e, eq)
              else (case payload_ref env payload of
                      Inl err \<Rightarrow>
                        ((e, eq), Inl (NewResetError (Wrap ''failed to decode L2 block ref from payload'' err)))
                    | Inr ref \<Rightarrow>
                        ((e, postProcessSafeL2 (eq\<lparr>eq_safeHead := ref, needForkchoiceUpdate := True,
                                                   safeAttributes := None\<rparr>)), Inr ()))))"

definition tryNextSafeAttributes ::
  "('e, 'p) eq_env \<Rightarrow> 'e \<times> engine_queue \<Rightarrow> ('e \<times> engine_queue) \<times> unit result" where
  "tryNextSafeAttributes env = (\<lambda>(e, eq).
     case safeAttributes eq of
       None \<Rightarrow> ((e, eq), Inr ())
     | Some awp \<Rightarrow>
         if eq_safeHead eq \<noteq> awp_parent awp
         then (if l2_ParentHash (eq_safeHead eq) = l2_Hash (awp_parent awp)
               then ((e, eq\<lparr>safeAttributes := None\<rparr>), Inr ())
               else ((e, eq), Inl (NewResetError (Errorf ''safe head changed, conflicting with queued safe attributes''))))
         else if l2_Number (eq_safeHead eq) < l2_Number (eq_unsafeHead eq)
         then consolidateNextSafeAttributes env (e, eq)
         else if l2_Number (eq_safeHead eq) = l2_Number (eq_unsafeHead eq)
         then forceNextSafeAttributes env (e, eq)
         else ((e, eq\<lparr>eq_unsafeHead := eq_safeHead eq, eq_engineSyncTarget := eq_safeHead eq\<rparr>), Inr ()))"

section \<open>The step of the stage\<close>

definition verifyNewL1Origin :: "('e, 'p) eq_env \<Rightarrow> l1_block_ref \<Rightarrow> engine_queue \<Rightarrow> unit result" where
  "verifyNewL1Origin env newOrigin eq =
     (let unsafeOrigin = L1Origin (eq_unsafeHead eq) in
      if newOrigin = eq_origin eq then Inr ()
      else if l1_Number newOrigin = Number unsafeOrigin \<and> L1_ID newOrigin \<noteq> unsafeOrigin
      then Inl (NewResetError (Errorf ''l1 origin was inconsistent with l2 unsafe head origin''))
      else if l1_Number newOrigin = Number unsafeOrigin + 1 \<and> l1_ParentHash newOrigin \<noteq> Hash unsafeOrigin
      then Inl (NewResetError (Errorf ''l2 unsafe head origin is no longer canonical''))
      else if l1_Number newOrigin > Number unsafeOrigin + 1
      then (case L1BlockRefByNumber (env_l1 env) (Number unsafeOrigin) of
              Inl e \<Rightarrow> Inl (NewTemporaryError (Wrap ''failed to fetch canonical L1 block'' e))
            | Inr canonicalRef \<Rightarrow>
                if L1_ID canonicalRef \<noteq> unsafeOrigin
                then Inl (NewResetError (Errorf ''l2 unsafe head origin is no longer canonical''))
                else Inr ())
      else Inr ())"

text \<open>The last part of \<open>Step\<close>: follow the origin of the previous stage, finalize, and fetch attributes.\<close>

definition step_attributes ::
  "('e, 'p) eq_env \<Rightarrow> 'e \<times> 'p \<times> engine_queue \<Rightarrow> ('e \<times> 'p \<times> engine_queue) \<times> unit result" where
  "step_attributes env = (\<lambda>(e, p, eq).
     let newOrigin = env_prevOrigin env p in
     case verifyNewL1Origin env newOrigin eq of
       Inl err \<Rightarrow> ((e, p, eq), Inl err)
     | Inr _ \<Rightarrow>
         (case tryFinalizePastL2Blocks env (postProcessSafeL2 (eq\<lparr>eq_origin := newOrigin\<rparr>)) of
            (eq1, Inl err) \<Rightarrow> ((e, p, eq1), Inl err)
          | (eq1, Inr _) \<Rightarrow>
              (case env_nextAttributes env (eq_safeHead eq1) p of
                 (p', Inl err) \<Rightarrow> ((e, p', eq1), Inl err)
               | (p', Inr next) \<Rightarrow>
                   ((e, p', eq1\<lparr>safeAttributes := Some \<lparr>awp_attributes = next, awp_parent = eq_safeHead eq1\<rparr>\<rparr>),
                    Inl NotEnoughData))))"

definition step_safe ::
  "('e, 'p) eq_env \<Rightarrow> 'e \<times> 'p \<times> engine_queue \<Rightarrow> ('e \<times> 'p \<times> engine_queue) \<times> unit result" where
  "step_safe env = (\<lambda>(e, p, eq).
     if isEngineSyncing eq then ((e, p, eq), Inl EngineP2PSyncing)
     else if safeAttributes eq \<noteq> None
     then (case tryNextSafeAttributes env (e, eq) of ((e', eq'), r) \<Rightarrow> ((e', p, eq'), r))
     else step_attributes env (e, p, eq))"

definition EngineQueue_Step ::
  "('e, 'p) eq_env \<Rightarrow> 'e \<times> 'p \<times> engine_queue \<Rightarrow> ('e \<times> 'p \<times> engine_queue) \<times> unit result" where
  "EngineQueue_Step env = (\<lambda>(e, p, eq).
     if needForkchoiceUpdate eq
     then (case tryUpdateEngine env (e, eq) of ((e', eq'), r) \<Rightarrow> ((e', p, eq'), r))
     else if PayloadsQueue_Len (unsafePayloads eq) > 0
     then (case tryNextUnsafePayload env (e, eq) of
             ((e', eq'), r) \<Rightarrow>
               if r \<noteq> Inl EOF then ((e', p, eq'), r) else step_safe env (e', p, eq'))
     else step_safe env (e, p, eq))"

section \<open>Reset\<close>

text \<open>The walk back to an L2 block whose L1 origin is old enough to read all channels that are open at
  the safe head. Not returning is \<open>None\<close>.\<close>

partial_function (option) pipeline_walk ::
  "config \<Rightarrow> l2_chain \<Rightarrow> l1_block_ref \<Rightarrow> l2_block_ref \<Rightarrow> l2_block_ref result option" where
  "pipeline_walk cfg l2 l1Origin pipelineL2 =
     (if l2_Number pipelineL2 > Number (gen_L2 (Genesis cfg)) \<and>
         Number (L1Origin pipelineL2) > Number (gen_L1 (Genesis cfg)) \<and>
         Number (L1Origin pipelineL2) + ChannelTimeout cfg > l1_Number l1Origin
      then (case L2BlockRefByHash l2 (l2_ParentHash pipelineL2) of
              Inl e \<Rightarrow> Some (Inl (NewResetError (Errorf ''failed to fetch L2 parent block'')))
            | Inr par \<Rightarrow> pipeline_walk cfg l2 l1Origin par)
      else Some (Inr pipelineL2))"

definition reset_to ::
  "find_heads_result \<Rightarrow> l1_block_ref \<Rightarrow> system_config \<Rightarrow> engine_queue \<Rightarrow> engine_queue" where
  "reset_to heads pipelineOrigin l1Cfg eq =
     (resetBuildingState
        (eq\<lparr>eq_unsafeHead := r_Unsafe heads, eq_engineSyncTarget := r_Unsafe heads,
            eq_safeHead := r_Safe heads, safeAttributes := None, eq_finalized := r_Finalized heads\<rparr>))
       \<lparr>needForkchoiceUpdate := True, finalityData := [], eq_origin := pipelineOrigin, eq_sysCfg := l1Cfg\<rparr>"

definition EngineQueue_Reset ::
  "('e, 'p) eq_env \<Rightarrow> 'e \<Rightarrow> engine_queue \<Rightarrow> (engine_queue \<times> error) option" where
  "EngineQueue_Reset env e eq =
     (let l2 = eng_chain (env_engine env) e; l1 = env_l1 env in
      case FindL2Heads (env_cfg env) l1 l2 (env_SkipSyncStartCheck env) of
        None \<Rightarrow> None
      | Some (Inl err) \<Rightarrow> Some (eq, NewTemporaryError (Wrap ''failed to find the L2 Heads to start from'' err))
      | Some (Inr heads) \<Rightarrow>
          (case L1BlockRefByHash l1 (Hash (L1Origin (r_Safe heads))) of
             Inl err \<Rightarrow> Some (eq, NewTemporaryError (Wrap ''failed to fetch the new L1 progress'' err))
           | Inr l1Origin \<Rightarrow>
               if l2_Time (r_Safe heads) < l1_Time l1Origin
               then Some (eq, NewResetError (Errorf ''cannot reset block derivation, time invariant is broken''))
               else (case pipeline_walk (env_cfg env) l2 l1Origin (r_Safe heads) of
                       None \<Rightarrow> None
                     | Some (Inl err) \<Rightarrow> Some (eq, err)
                     | Some (Inr pipelineL2) \<Rightarrow>
                         (case L1BlockRefByHash l1 (Hash (L1Origin pipelineL2)) of
                            Inl err \<Rightarrow>
                              Some (eq, NewTemporaryError (Wrap ''failed to fetch the new L1 progress'' err))
                          | Inr pipelineOrigin \<Rightarrow>
                              (case eng_SystemConfigByL2Hash (env_engine env) e (l2_Hash pipelineL2) of
                                 Inl err \<Rightarrow>
                                   Some (eq, NewTemporaryError (Wrap ''failed to fetch L1 config of L2 block'' err))
                               | Inr l1Cfg \<Rightarrow> Some (reset_to heads pipelineOrigin l1Cfg eq, EOF))))))"

end
