(* ===== verification/Engine_Props.thy ===== *)
theory Engine_Props
  imports Engine_Queue
begin

text \<open>
  Properties of the engine queue: where a new safe head comes from, what finalization does, the
  bookkeeping of finality data, and the absence of panics in every step.
\<close>

section \<open>Fields that operations leave alone\<close>

lemma pop_unsafe_simps [simp]:
  "eq_safeHead (pop_unsafe eq) = eq_safeHead eq" "eq_finalized (pop_unsafe eq) = eq_finalized eq"
  "eq_unsafeHead (pop_unsafe eq) = eq_unsafeHead eq" "safeAttributes (pop_unsafe eq) = safeAttributes eq"
  "finalityData (pop_unsafe eq) = finalityData eq" "finalizedL1 (pop_unsafe eq) = finalizedL1 eq"
  "needForkchoiceUpdate (pop_unsafe eq) = needForkchoiceUpdate eq" "eq_origin (pop_unsafe eq) = eq_origin eq"
  "unsafePayloads (pop_unsafe eq) = fst (PayloadsQueue_Pop (unsafePayloads eq))"
  by (simp_all add: pop_unsafe_def)

lemma postProcess_simps [simp]:
  "eq_safeHead (postProcessSafeL2 eq) = eq_safeHead eq" "eq_finalized (postProcessSafeL2 eq) = eq_finalized eq"
  "eq_unsafeHead (postProcessSafeL2 eq) = eq_unsafeHead eq"
  "safeAttributes (postProcessSafeL2 eq) = safeAttributes eq"
  "finalizedL1 (postProcessSafeL2 eq) = finalizedL1 eq" "eq_origin (postProcessSafeL2 eq) = eq_origin eq"
  "unsafePayloads (postProcessSafeL2 eq) = unsafePayloads eq"
  "needForkchoiceUpdate (postProcessSafeL2 eq) = needForkchoiceUpdate eq"
  by (simp_all add: postProcessSafeL2_def Let_def)

lemma tryFinalizeL2_simps [simp]:
  "eq_safeHead (tryFinalizeL2 eq) = eq_safeHead eq" "eq_unsafeHead (tryFinalizeL2 eq) = eq_unsafeHead eq"
  "safeAttributes (tryFinalizeL2 eq) = safeAttributes eq" "finalityData (tryFinalizeL2 eq) = finalityData eq"
  "finalizedL1 (tryFinalizeL2 eq) = finalizedL1 eq" "unsafePayloads (tryFinalizeL2 eq) = unsafePayloads eq"
  "eq_origin (tryFinalizeL2 eq) = eq_origin eq"
  by (simp_all add: tryFinalizeL2_def split: prod.splits)

lemma resetBuilding_simps [simp]:
  "eq_safeHead (resetBuildingState eq) = eq_safeHead eq" "eq_finalized (resetBuildingState eq) = eq_finalized eq"
  "eq_unsafeHead (resetBuildingState eq) = eq_unsafeHead eq"
  "safeAttributes (resetBuildingState eq) = safeAttributes eq"
  "finalityData (resetBuildingState eq) = finalityData eq" "finalizedL1 (resetBuildingState eq) = finalizedL1 eq"
  "unsafePayloads (resetBuildingState eq) = unsafePayloads eq" "eq_origin (resetBuildingState eq) = eq_origin eq"
  "needForkchoiceUpdate (resetBuildingState eq) = needForkchoiceUpdate eq"
  by (simp_all add: resetBuildingState_def)

text \<open>An operation on the engine keeps everything but the building state, or all but the heads.\<close>

definition same_tracking :: "engine_queue \<Rightarrow> engine_queue \<Rightarrow> bool" where
  "same_tracking eq eq' =
     (eq_safeHead eq' = eq_safeHead eq \<and> eq_finalized eq' = eq_finalized eq \<and>
      finalityData eq' = finalityData eq \<and> finalizedL1 eq' = finalizedL1 eq \<and> eq_origin eq' = eq_origin eq)"

lemma CancelPayload_tracking:
  "CancelPayload env force (e, eq) = ((e', eq'), r) \<Longrightarrow>
   same_tracking eq eq' \<and> unsafePayloads eq' = unsafePayloads eq \<and> safeAttributes eq' = safeAttributes eq"
  by (auto simp: CancelPayload_def same_tracking_def split: if_splits prod.splits sum.splits)

lemma StartPayload_tracking:
  "EngineQueue_StartPayload env par attrs safe (e, eq) = ((e', eq'), r) \<Longrightarrow>
   same_tracking eq eq' \<and> unsafePayloads eq' = unsafePayloads eq \<and> safeAttributes eq' = safeAttributes eq"
  by (auto simp: EngineQueue_StartPayload_def same_tracking_def Let_def split: if_splits prod.splits sum.splits)

lemma force_failed_tracking:
  assumes "force_failed env attrs f (e, eq) = ((e', eq'), r)"
  shows "same_tracking eq eq' \<and> unsafePayloads eq' = unsafePayloads eq"
proof -
  obtain e1 eq1 r1 where c: "CancelPayload env True (e, eq) = ((e1, eq1), r1)" by (metis prod.exhaust)
  obtain t err where f: "f = (t, err)" by (cases f)
  from assms CancelPayload_tracking [OF c] c show ?thesis
    by (cases t) (auto simp: force_failed_def f same_tracking_def split: if_splits)
qed

lemma insert_unsafe_tracking:
  "insert_unsafe env first ref (e, eq) = ((e', eq'), r) \<Longrightarrow> same_tracking eq eq' \<and>
   (unsafePayloads eq' = unsafePayloads eq \<or> unsafePayloads eq' = fst (PayloadsQueue_Pop (unsafePayloads eq)))"
  by (auto simp: insert_unsafe_def same_tracking_def Let_def split: if_splits prod.splits sum.splits)

lemma tryNextUnsafePayload_tracking:
  assumes "tryNextUnsafePayload env (e, eq) = ((e', eq'), r)"
  shows "same_tracking eq eq' \<and>
    (unsafePayloads eq' = unsafePayloads eq \<or> unsafePayloads eq' = fst (PayloadsQueue_Pop (unsafePayloads eq)))"
  using assms insert_unsafe_tracking [of env _ _ e eq e' eq' r]
  by (auto simp: tryNextUnsafePayload_def same_tracking_def split: if_splits option.splits sum.splits)

lemma forkchoice_error_not_EOF [simp]: "forkchoice_error a b err \<noteq> EOF" "\<not> is_panic (forkchoice_error a b err)"
  by (auto simp: forkchoice_error_def NewResetError_def NewTemporaryError_def NewError_def split: option.splits)

lemma levels_not_EOF [simp]:
  "NewTemporaryError e \<noteq> EOF" "NewResetError e \<noteq> EOF" "NewCriticalError e \<noteq> EOF"
  by (simp_all add: NewTemporaryError_def NewResetError_def NewCriticalError_def NewError_def)

text \<open>A step goes on to the safe attributes only without having called the engine.\<close>

lemma tryNextUnsafePayload_EOF:
  assumes "tryNextUnsafePayload env (e, eq) = ((e', eq'), Inl EOF)"
  shows "e' = e \<and> (eq' = eq \<or> eq' = pop_unsafe eq)"
  using assms
  by (auto simp: tryNextUnsafePayload_def insert_unsafe_def Let_def
      split: if_splits option.splits sum.splits prod.splits)

section \<open>Where a safe head comes from\<close>

text \<open>The engine built the payload for these attributes on top of the given block, and accepted it.\<close>

definition engine_built ::
  "('e, 'p) eq_env \<Rightarrow> 'e \<Rightarrow> l2_block_ref \<Rightarrow> payload_attributes \<Rightarrow> execution_payload \<Rightarrow> bool" where
  "engine_built env e par attrs payload =
     (\<exists>fc fc' i e1 e2. HeadBlockHash fc = l2_Hash par \<and>
        StartPayload (env_engine env) fc attrs e = (e1, Inr i) \<and>
        ConfirmPayload (env_engine env) fc' i True e1 = (e2, Inr payload))"

lemma StartPayload_ok:
  assumes "EngineQueue_StartPayload env par attrs safe (e, eq) = ((e1, eq1), Inr u)"
  obtains fc i where "HeadBlockHash fc = l2_Hash par" "StartPayload (env_engine env) fc attrs e = (e1, Inr i)"
    "eq1 = eq\<lparr>buildingID := i, buildingSafe := safe, buildingOnto := par\<rparr>"
proof -
  let ?fc = "\<lparr>HeadBlockHash = l2_Hash par, SafeBlockHash = l2_Hash (eq_safeHead eq),
      FinalizedBlockHash = l2_Hash (eq_finalized eq)\<rparr>"
  from assms obtain i where "StartPayload (env_engine env) ?fc attrs e = (e1, Inr i)"
    "eq1 = eq\<lparr>buildingID := i, buildingSafe := safe, buildingOnto := par\<rparr>"
    by (auto simp: EngineQueue_StartPayload_def Let_def split: if_splits prod.splits sum.splits)
  then show ?thesis by (intro that [of ?fc i]) simp_all
qed

lemma ConfirmPayload_ok:
  assumes "EngineQueue_ConfirmPayload env (e, eq) = ((e', eq'), Inr payload)"
  obtains fc ref where "ConfirmPayload (env_engine env) fc (buildingID eq) (buildingSafe eq) e = (e', Inr payload)"
    "payload_ref env payload = Inr ref" "eq' = adopt_block ref eq"
  using assms by (auto simp: EngineQueue_ConfirmPayload_def Let_def split: if_splits prod.splits sum.splits)

lemma ConfirmPayload_fail:
  "EngineQueue_ConfirmPayload env (e, eq) = ((e', eq'), Inl f) \<Longrightarrow> eq' = eq"
  by (auto simp: EngineQueue_ConfirmPayload_def Let_def split: if_splits prod.splits sum.splits)

lemma forceNextSafeAttributes_cases:
  assumes "forceNextSafeAttributes env (e, eq) = ((e', eq'), r)" and "safeAttributes eq = Some awp"
  obtains (kept) "same_tracking eq eq'" "unsafePayloads eq' = unsafePayloads eq"
    | (built) payload ref where "engine_built env e (eq_safeHead eq) (awp_attributes awp) payload"
      "payload_ref env payload = Inr ref" "eq_safeHead eq' = ref" "eq_unsafeHead eq' = ref" "r = Inr ()"
      "finalityData eq' = finalityData (postProcessSafeL2 (eq\<lparr>eq_safeHead := ref\<rparr>))"
      "eq_finalized eq' = eq_finalized eq" "finalizedL1 eq' = finalizedL1 eq" "eq_origin eq' = eq_origin eq"
      "unsafePayloads eq' = unsafePayloads eq" "safeAttributes eq' = None"
proof -
  let ?attrs = "awp_attributes awp"
  obtain e1 eq1 r1 where s: "EngineQueue_StartPayload env (eq_safeHead eq) ?attrs True (e, eq) = ((e1, eq1), r1)"
    by (metis prod.exhaust)
  note st = StartPayload_tracking [OF s]
  show ?thesis
  proof (cases r1)
    case (Inl f)
    then have "force_failed env ?attrs f (e1, eq1) = ((e', eq'), r)"
      using assms s by (simp add: forceNextSafeAttributes_def)
    from force_failed_tracking [OF this] st show ?thesis by (intro kept) (auto simp: same_tracking_def)
  next
    case (Inr u)
    with s obtain fc i where fc: "HeadBlockHash fc = l2_Hash (eq_safeHead eq)"
      "StartPayload (env_engine env) fc ?attrs e = (e1, Inr i)"
      "eq1 = eq\<lparr>buildingID := i, buildingSafe := True, buildingOnto := eq_safeHead eq\<rparr>"
      by (auto elim: StartPayload_ok)
    obtain e2 eq2 r2 where c: "EngineQueue_ConfirmPayload env (e1, eq1) = ((e2, eq2), r2)" by (metis prod.exhaust)
    show ?thesis
    proof (cases r2)
      case f: (Inl f)
      then have "force_failed env ?attrs f (e2, eq2) = ((e', eq'), r)"
        using assms s c Inr by (simp add: forceNextSafeAttributes_def)
      from force_failed_tracking [OF this] ConfirmPayload_fail [OF c [unfolded f]] st show ?thesis
        by (intro kept) (auto simp: same_tracking_def)
    next
      case p: (Inr payload)
      from ConfirmPayload_ok [OF c [unfolded p]] obtain fc' ref where
        ok: "ConfirmPayload (env_engine env) fc' i True e1 = (e2, Inr payload)"
        "payload_ref env payload = Inr ref" "eq2 = adopt_block ref eq1"
        by (auto simp: fc(3))
      have eq': "eq' = eq2\<lparr>safeAttributes := None\<rparr>" "r = Inr ()"
        using assms s c Inr p by (auto simp: forceNextSafeAttributes_def)
      have fd: "finalityData (postProcessSafeL2 (eq1\<lparr>eq_unsafeHead := ref, eq_engineSyncTarget := ref, eq_safeHead := ref\<rparr>)) =
          finalityData (postProcessSafeL2 (eq\<lparr>eq_safeHead := ref\<rparr>))"
        by (simp add: fc(3) postProcessSafeL2_def Let_def)
      show ?thesis
      proof (rule built [OF _ ok(2)])
        show "engine_built env e (eq_safeHead eq) ?attrs payload"
          unfolding engine_built_def using fc ok by blast
      qed (use eq' ok(3) fd in \<open>simp_all add: adopt_block_def fc(3) Let_def\<close>)
    qed
  qed
qed

text \<open>A payload that may become the safe head after the current one: the next block of the existing
  chain, equal to the derived attributes, or a block that the engine built from them.\<close>

definition safe_source ::
  "('e, 'p) eq_env \<Rightarrow> 'e \<Rightarrow> l2_block_ref \<Rightarrow> payload_attributes \<Rightarrow> execution_payload \<Rightarrow> bool" where
  "safe_source env e head attrs payload =
     (eng_PayloadByNumber (env_engine env) e (l2_Number head + 1) = Inr payload \<and>
      AttributesMatchBlock attrs (l2_Hash head) payload = None \<or>
      engine_built env e head attrs payload)"

text \<open>What \<open>postProcessSafeL2\<close> and \<open>tryFinalizeL2\<close> compute, as functions of what they read.\<close>

definition track :: "finality_data list \<Rightarrow> l2_block_ref \<Rightarrow> l1_block_ref \<Rightarrow> finality_data list" where
  "track fds0 safe origin =
     (let fds = (if length fds0 \<ge> finalityLookback then take (finalityLookback - 1) (drop 1 fds0) else fds0)
      in if fds = [] \<or> Number (fd_L1Block (last fds)) < l1_Number origin
         then fds @ [\<lparr>fd_L2Block = safe, fd_L1Block = L1_ID origin\<rparr>]
         else butlast fds @ [(last fds)\<lparr>fd_L2Block := safe\<rparr>])"

lemma postProcess_track [simp]:
  "finalityData (postProcessSafeL2 eq) = track (finalityData eq) (eq_safeHead eq) (eq_origin eq)"
  by (simp add: postProcessSafeL2_def track_def Let_def)

definition finalize_with :: "l1_block_ref \<Rightarrow> l2_block_ref \<Rightarrow> finality_data list \<Rightarrow> l2_block_ref" where
  "finalize_with finL1 f fds = (if finL1 = zero_l1_ref then f else fst (foldl (finalize_entry finL1) (f, False) fds))"

lemma foldl_finalize_flag:
  "fst (foldl (finalize_entry finL1) (f, b) fds) = fst (foldl (finalize_entry finL1) (f, b') fds)"
  by (induction fds arbitrary: f b b') (auto simp: finalize_entry_def)

lemma tryFinalizeL2_finalized [simp]:
  "eq_finalized (tryFinalizeL2 eq) = finalize_with (finalizedL1 eq) (eq_finalized eq) (finalityData eq)"
  using foldl_finalize_flag [of "finalizedL1 eq" "eq_finalized eq" "needForkchoiceUpdate eq" "finalityData eq" False]
  by (simp add: tryFinalizeL2_def finalize_with_def split: prod.splits) (metis fst_conv)


lemma consolidate_cases:
  assumes "consolidateNextSafeAttributes env (e, eq) = ((e', eq'), r)" and "safeAttributes eq = Some awp"
  obtains (kept) "same_tracking eq eq'" "unsafePayloads eq' = unsafePayloads eq"
    | (changed) payload where "safe_source env e (eq_safeHead eq) (awp_attributes awp) payload"
      "payload_ref env payload = Inr (eq_safeHead eq')"
      "finalityData eq' = track (finalityData eq) (eq_safeHead eq') (eq_origin eq)"
      "eq_finalized eq' = eq_finalized eq" "finalizedL1 eq' = finalizedL1 eq" "eq_origin eq' = eq_origin eq"
      "unsafePayloads eq' = unsafePayloads eq"
proof (cases "\<exists>payload. eng_PayloadByNumber (env_engine env) e (l2_Number (eq_safeHead eq) + 1) = Inr payload \<and>
    AttributesMatchBlock (awp_attributes awp) (l2_Hash (eq_safeHead eq)) payload = None")
  case True
  with assms show ?thesis
    by (auto simp: consolidateNextSafeAttributes_def safe_source_def same_tracking_def
        split: sum.splits intro: kept changed)
next
  case False
  show ?thesis
  proof (cases "forceNextSafeAttributes env (e, eq) = ((e', eq'), r)")
    case True
    from True assms(2) show ?thesis
      by (cases rule: forceNextSafeAttributes_cases)
        (auto simp: safe_source_def intro: kept changed)
  next
    case f: False
    with False assms show ?thesis
      by (auto simp: consolidateNextSafeAttributes_def same_tracking_def split: sum.splits if_splits intro: kept)
  qed
qed

lemma tryNextSafeAttributes_cases:
  assumes "tryNextSafeAttributes env (e, eq) = ((e', eq'), r)"
  obtains (kept) "same_tracking eq eq'" "unsafePayloads eq' = unsafePayloads eq"
    | (changed) awp payload where "safeAttributes eq = Some awp" "awp_parent awp = eq_safeHead eq"
      "safe_source env e (eq_safeHead eq) (awp_attributes awp) payload"
      "payload_ref env payload = Inr (eq_safeHead eq')"
      "finalityData eq' = track (finalityData eq) (eq_safeHead eq') (eq_origin eq)"
      "eq_finalized eq' = eq_finalized eq" "finalizedL1 eq' = finalizedL1 eq" "eq_origin eq' = eq_origin eq"
      "unsafePayloads eq' = unsafePayloads eq"
proof (cases "safeAttributes eq")
  case None
  with assms show ?thesis by (auto simp: tryNextSafeAttributes_def same_tracking_def intro: kept)
next
  case (Some awp)
  consider (cons) "eq_safeHead eq = awp_parent awp" "consolidateNextSafeAttributes env (e, eq) = ((e', eq'), r)"
    | (force) "eq_safeHead eq = awp_parent awp" "forceNextSafeAttributes env (e, eq) = ((e', eq'), r)"
    | (none) "same_tracking eq eq'" "unsafePayloads eq' = unsafePayloads eq"
    using assms Some by (auto simp: tryNextSafeAttributes_def same_tracking_def split: if_splits)
  then show ?thesis
  proof cases
    case cons
    from cons(2) Some show ?thesis
      by (cases rule: consolidate_cases) (auto intro: kept changed [OF Some cons(1) [symmetric]])
  next
    case force
    from force(2) Some show ?thesis
      by (cases rule: forceNextSafeAttributes_cases)
        (auto simp: safe_source_def intro: kept changed [OF Some force(1) [symmetric]])
  qed (rule kept)
qed

lemma tryFinalizePast_cases:
  "tryFinalizePastL2Blocks env eq = (eq1, r) \<Longrightarrow> eq1 = eq \<or> eq1 = tryFinalizeL2 eq"
  by (auto simp: tryFinalizePastL2Blocks_def split: sum.splits if_splits)

lemma step_attributes_cases:
  assumes "step_attributes env (e, p, eq) = ((e', p', eq'), r)"
  shows "eq' = eq \<or> (\<exists>eq1 x a. tryFinalizePastL2Blocks env
       (postProcessSafeL2 (eq\<lparr>eq_origin := env_prevOrigin env p\<rparr>)) = (eq1, x) \<and>
     (eq' = eq1 \<or> eq' = eq1\<lparr>safeAttributes := a\<rparr>))"
  using assms by (auto simp: step_attributes_def Let_def split: sum.splits prod.splits)

lemma step_attributes_tracking:
  assumes "step_attributes env (e, p, eq) = ((e', p', eq'), r)"
  shows "same_tracking eq eq' \<and> unsafePayloads eq' = unsafePayloads eq \<or>
     eq_safeHead eq' = eq_safeHead eq \<and> unsafePayloads eq' = unsafePayloads eq \<and>
     finalityData eq' = track (finalityData eq) (eq_safeHead eq) (env_prevOrigin env p) \<and>
     finalizedL1 eq' = finalizedL1 eq \<and> eq_origin eq' = env_prevOrigin env p \<and>
     (eq_finalized eq' = eq_finalized eq \<or>
      eq_finalized eq' = finalize_with (finalizedL1 eq) (eq_finalized eq) (finalityData eq'))"
  using step_attributes_cases [OF assms]
proof (elim disjE exE conjE)
  fix eq1 x a
  assume t: "tryFinalizePastL2Blocks env
      (postProcessSafeL2 (eq\<lparr>eq_origin := env_prevOrigin env p\<rparr>)) = (eq1, x)"
  from tryFinalizePast_cases [OF t] show ?thesis if "eq' = eq1" using that by auto
  from tryFinalizePast_cases [OF t] show ?thesis if "eq' = eq1\<lparr>safeAttributes := a\<rparr>" using that by auto
qed (simp add: same_tracking_def)

text \<open>What a step may change: nothing that is tracked, the safe head, or the L1 origin.\<close>

lemma Step_cases:
  assumes "EngineQueue_Step env (e, p, eq) = ((e', p', eq'), r)"
  obtains (kept) "same_tracking eq eq'"
    | (changed) awp payload where "safeAttributes eq = Some awp" "awp_parent awp = eq_safeHead eq"
      "safe_source env e (eq_safeHead eq) (awp_attributes awp) payload"
      "payload_ref env payload = Inr (eq_safeHead eq')"
      "finalityData eq' = track (finalityData eq) (eq_safeHead eq') (eq_origin eq)"
      "eq_finalized eq' = eq_finalized eq" "finalizedL1 eq' = finalizedL1 eq" "eq_origin eq' = eq_origin eq"
    | (origin) "eq_safeHead eq' = eq_safeHead eq"
      "finalityData eq' = track (finalityData eq) (eq_safeHead eq) (env_prevOrigin env p)"
      "finalizedL1 eq' = finalizedL1 eq" "eq_origin eq' = env_prevOrigin env p"
      "eq_finalized eq' = eq_finalized eq \<or>
       eq_finalized eq' = finalize_with (finalizedL1 eq) (eq_finalized eq) (finalityData eq')"
proof -
  note keptI = kept and changedI = changed and originI = origin
  have safe: thesis if s: "step_safe env (e, p, eq1) = ((e', p', eq'), r)" and "eq1 = eq \<or> eq1 = pop_unsafe eq" for eq1
  proof -
    have same: "same_tracking eq eq1" "safeAttributes eq1 = safeAttributes eq"
      using that(2) by (auto simp: same_tracking_def)
    consider (sync) "eq' = eq1" | (safe) "tryNextSafeAttributes env (e, eq1) = ((e', eq'), r)"
      | (attrs) "step_attributes env (e, p, eq1) = ((e', p', eq'), r)"
      using s by (auto simp: step_safe_def split: if_splits prod.splits)
    then show thesis
    proof cases
      case sync
      with same show thesis by (intro keptI) simp
    next
      case safe
      then show thesis
      proof (cases rule: tryNextSafeAttributes_cases)
        case kept
        with same show thesis by (intro keptI) (simp add: same_tracking_def)
      next
        case (changed awp payload)
        with same show thesis by (intro changedI [of awp payload]) (simp_all add: same_tracking_def)
      qed
    next
      case attrs
      from step_attributes_tracking [OF attrs] show thesis
      proof (elim disjE)
        assume "same_tracking eq1 eq' \<and> unsafePayloads eq' = unsafePayloads eq1"
        with same show thesis by (intro keptI) (simp add: same_tracking_def)
      qed (rule originI; use same in \<open>auto simp: same_tracking_def\<close>)
    qed
  qed
  consider (fc) "tryUpdateEngine env (e, eq) = ((e', eq'), r)"
    | (unsafe) "tryNextUnsafePayload env (e, eq) = ((e', eq'), r)"
    | (both) e1 eq1 where "tryNextUnsafePayload env (e, eq) = ((e1, eq1), Inl EOF)"
        "step_safe env (e1, p, eq1) = ((e', p', eq'), r)"
    | (none) "step_safe env (e, p, eq) = ((e', p', eq'), r)"
    using assms by (auto simp: EngineQueue_Step_def split: if_splits prod.splits)
  then show thesis
  proof cases
    case fc
    then have "same_tracking eq eq'"
      by (auto simp: tryUpdateEngine_def Let_def same_tracking_def split: prod.splits sum.splits)
    then show thesis by (rule keptI)
  next
    case unsafe
    from tryNextUnsafePayload_tracking [OF this] show thesis by (intro keptI) blast
  next
    case both
    from tryNextUnsafePayload_EOF [OF both(1)] safe both(2) show thesis by blast
  next
    case none
    then show thesis using safe by blast
  qed
qed

section \<open>No panics in the engine queue\<close>

text \<open>The engine never returns a payload whose first transaction is empty: the only way to make the
  check of a built payload panic.\<close>

definition no_empty_first_tx :: "'e engine \<Rightarrow> bool" where
  "no_empty_first_tx eng =
     (\<forall>i e. case snd (eng_GetPayload eng i e) of
              Inl _ \<Rightarrow> True
            | Inr p \<Rightarrow> ep_Transactions p = [] \<or> hd (ep_Transactions p) \<noteq> [])"

lemma lastDeposit_loop_panic: "lastDeposit_loop i k txs = Inl e \<Longrightarrow> \<not> is_panic e"
  by (induction i k txs rule: lastDeposit_loop.induct) (auto split: sum.splits bool.splits)

lemma no_deposits_panic: "no_deposits txs = Inl e \<Longrightarrow> \<not> is_panic e"
  by (induction txs rule: no_deposits.induct) (auto split: sum.splits bool.splits)

lemma sanityCheckPayload_panic:
  assumes "sanityCheckPayload p = Inl e" "ep_Transactions p = [] \<or> hd (ep_Transactions p) \<noteq> []"
  shows "\<not> is_panic e"
  using assms
  by (auto simp: sanityCheckPayload_def lastDeposit_def split: list.splits if_splits sum.splits
      dest: lastDeposit_loop_panic no_deposits_panic)

lemma status_err_not_panic [simp]:
  "s \<noteq> ExecutionValid \<Longrightarrow> \<not> is_panic (the (ForkchoiceUpdateErr s))"
  "s \<noteq> ExecutionValid \<Longrightarrow> \<not> is_panic (the (NewPayloadErr s))"
  by (cases s; simp add: ForkchoiceUpdateErr_def NewPayloadErr_def)+

lemma StartPayload_no_panic: "StartPayload eng fc attrs e = (e', Inl (t, err)) \<Longrightarrow> \<not> is_panic err"
  by (auto simp: StartPayload_def split: prod.splits sum.splits option.splits if_splits payload_status.splits)

lemma confirm_forkchoice_no_panic:
  "confirm_forkchoice eng fc p s e = (e', Inl (t, err)) \<Longrightarrow> \<not> is_panic err"
  by (auto simp: confirm_forkchoice_def Let_def split: prod.splits sum.splits option.splits if_splits)

lemma ConfirmPayload_no_panic:
  assumes "no_empty_first_tx eng" "ConfirmPayload eng fc i s e = (e', Inl (t, err))"
  shows "\<not> is_panic err"
proof -
  have law: "ep_Transactions p = [] \<or> hd (ep_Transactions p) \<noteq> []" if "eng_GetPayload eng i e = (e1, Inr p)" for e1 p
    using spec [OF spec [OF assms(1) [unfolded no_empty_first_tx_def], of i], of e] that by simp
  from assms(2) show ?thesis
    by (auto simp: ConfirmPayload_def split: prod.splits sum.splits if_splits
        dest: confirm_forkchoice_no_panic sanityCheckPayload_panic [OF _ law])
qed

lemma force_failed_no_panic:
  "\<not> is_panic err \<Longrightarrow> force_failed env attrs (t, err) s = (s', Inl x) \<Longrightarrow> \<not> is_panic x"
  by (cases t) (auto simp: force_failed_def split: if_splits prod.splits)

lemma forceNext_no_panic:
  assumes law: "no_empty_first_tx (env_engine env)"
    and f: "forceNextSafeAttributes env (e, eq) = (s', Inl x)"
  shows "\<not> is_panic x"
proof (cases "safeAttributes eq")
  case (Some awp)
  obtain s1 r1 where start: "EngineQueue_StartPayload env (eq_safeHead eq) (awp_attributes awp) True (e, eq) = (s1, r1)"
    by fastforce
  obtain e2 eq2 r2 where conf: "EngineQueue_ConfirmPayload env s1 = ((e2, eq2), r2)" by (metis prod.exhaust)
  have "\<not> is_panic err" if "r1 = Inl (t, err)" for t err
    using start that
    by (auto simp: EngineQueue_StartPayload_def Let_def split: if_splits prod.splits sum.splits
        dest: StartPayload_no_panic)
  moreover have "\<not> is_panic err" if "r2 = Inl (t, err)" for t err
    using conf that
    by (cases s1) (auto simp: EngineQueue_ConfirmPayload_def Let_def wrap_insertion_def
        split: if_splits prod.splits sum.splits dest: ConfirmPayload_no_panic [OF law])
  ultimately show ?thesis
    using f Some start conf
    by (cases r1; cases r2) (auto simp: forceNextSafeAttributes_def Let_def dest: force_failed_no_panic)
qed (use f in \<open>simp add: forceNextSafeAttributes_def\<close>)

lemma tryNextSafe_no_panic:
  assumes "no_empty_first_tx (env_engine env)" "safeAttributes eq \<noteq> None"
    and "tryNextSafeAttributes env (e, eq) = (s', Inl x)"
  shows "\<not> is_panic x"
  using assms(2,3)
  by (auto simp: tryNextSafeAttributes_def consolidateNextSafeAttributes_def
      split: option.splits if_splits sum.splits dest: forceNext_no_panic [OF assms(1)])

lemma insert_unsafe_no_panic: "insert_unsafe env first ref (e, eq) = (s', Inl x) \<Longrightarrow> \<not> is_panic x"
  by (auto simp: insert_unsafe_def Let_def split: prod.splits sum.splits if_splits)

lemma tryNextUnsafe_no_panic:
  "PayloadsQueue_Len (unsafePayloads eq) > 0 \<Longrightarrow> tryNextUnsafePayload env (e, eq) = (s', Inl x) \<Longrightarrow> \<not> is_panic x"
  by (auto simp: tryNextUnsafePayload_def PayloadsQueue_Peek_def PayloadsQueue_Len_def
      split: option.splits if_splits sum.splits dest: insert_unsafe_no_panic)

lemma verifyNewL1Origin_no_panic: "verifyNewL1Origin env o1 eq = Inl x \<Longrightarrow> \<not> is_panic x"
  by (auto simp: verifyNewL1Origin_def Let_def split: if_splits sum.splits)

lemma tryFinalizePast_no_panic: "tryFinalizePastL2Blocks env eq = (eq', Inl x) \<Longrightarrow> \<not> is_panic x"
  by (auto simp: tryFinalizePastL2Blocks_def split: if_splits sum.splits)

text \<open>What a step does to the stages below, and where a panic could come from.\<close>

lemma step_attributes_lower:
  assumes "step_attributes env (e, p, eq) = ((e', p', eq'), r)"
  shows "(p' = p \<and> (\<forall>x. r = Inl x \<longrightarrow> \<not> is_panic x)) \<or>
     (p' = fst (env_nextAttributes env (eq_safeHead eq) p) \<and>
      (\<forall>x. r = Inl x \<longrightarrow> \<not> is_panic x \<or> snd (env_nextAttributes env (eq_safeHead eq) p) = Inl x))"
proof -
  let ?eq = "postProcessSafeL2 (eq\<lparr>eq_origin := env_prevOrigin env p\<rparr>)"
  obtain eq1 r1 where fin: "tryFinalizePastL2Blocks env ?eq = (eq1, r1)" by fastforce
  have head: "eq_safeHead eq1 = eq_safeHead eq"
    using tryFinalizePast_cases [OF fin] by auto
  obtain p2 r2 where na: "env_nextAttributes env (eq_safeHead eq) p = (p2, r2)" by fastforce
  from assms fin head na show ?thesis
    by (auto simp: step_attributes_def Let_def split: sum.splits
        dest: verifyNewL1Origin_no_panic tryFinalizePast_no_panic)
qed

lemma Step_lower:
  assumes law: "no_empty_first_tx (env_engine env)"
    and step: "EngineQueue_Step env (e, p, eq) = ((e', p', eq'), r)"
  shows "(p' = p \<and> (\<forall>x. r = Inl x \<longrightarrow> \<not> is_panic x)) \<or>
     (p' = fst (env_nextAttributes env (eq_safeHead eq) p) \<and>
      (\<forall>x. r = Inl x \<longrightarrow> \<not> is_panic x \<or> snd (env_nextAttributes env (eq_safeHead eq) p) = Inl x))"
proof -
  have safe: ?thesis if s: "step_safe env (e1, p, eq1) = ((e', p', eq'), r)" and h: "eq_safeHead eq1 = eq_safeHead eq" for e1 eq1
  proof (cases "isEngineSyncing eq1 \<or> safeAttributes eq1 \<noteq> None")
    case True
    with s show ?thesis
      by (auto simp: step_safe_def split: if_splits prod.splits dest: tryNextSafe_no_panic [OF law, rotated])
  next
    case False
    with s have "step_attributes env (e1, p, eq1) = ((e', p', eq'), r)" by (simp add: step_safe_def)
    from step_attributes_lower [OF this] h show ?thesis by simp
  qed
  show ?thesis
  proof (cases "needForkchoiceUpdate eq")
    case True
    with step show ?thesis
      by (auto simp: EngineQueue_Step_def tryUpdateEngine_def Let_def split: prod.splits sum.splits)
  next
    case need: False
    show ?thesis
    proof (cases "PayloadsQueue_Len (unsafePayloads eq) > 0")
      case True
      obtain e1 eq1 r1 where t: "tryNextUnsafePayload env (e, eq) = ((e1, eq1), r1)" by (metis prod.exhaust)
      show ?thesis
      proof (cases "r1 = Inl EOF")
        case eof: True
        from tryNextUnsafePayload_EOF [OF t [unfolded eof]] have "eq_safeHead eq1 = eq_safeHead eq" by auto
        moreover have "step_safe env (e1, p, eq1) = ((e', p', eq'), r)"
          using step need True t eof by (simp add: EngineQueue_Step_def)
        ultimately show ?thesis by (intro safe)
      next
        case neq: False
        with step need True t tryNextUnsafe_no_panic [OF True, of env e] show ?thesis
          by (auto simp: EngineQueue_Step_def)
      qed
    next
      case False
      with step need have "step_safe env (e, p, eq) = ((e', p', eq'), r)" by (simp add: EngineQueue_Step_def)
      then show ?thesis by (rule safe) simp
    qed
  qed
qed

section \<open>The state machine of the queue\<close>

text \<open>All operations that other parts of the node call: derivation steps, finality signals, payloads
  from the network, block building by the sequencer, and resets.\<close>

inductive eq_step ::
  "('e, 'p) eq_env \<Rightarrow> 'e \<times> 'p \<times> engine_queue \<Rightarrow> 'e \<times> 'p \<times> engine_queue \<Rightarrow> bool" for env where
  Step: "EngineQueue_Step env s = (s', r) \<Longrightarrow> eq_step env s s'"
| Set_Unsafe: "eq_step env (e, p, eq) (e, p, SetUnsafeHead head eq)"
| Set_Target: "eq_step env (e, p, eq) (e, p, SetEngineSyncTarget head eq)"
| Signal: "eq_step env (e, p, eq) (e, p, Finalize l1 eq)"
| Payload: "AddUnsafePayload pl eq = Some (Inr eq') \<Longrightarrow> eq_step env (e, p, eq) (e, p, eq')"
| Start: "EngineQueue_StartPayload env par attrs safe (e, eq) = ((e', eq'), r) \<Longrightarrow>
    eq_step env (e, p, eq) (e', p, eq')"
| Confirm: "EngineQueue_ConfirmPayload env (e, eq) = ((e', eq'), r2) \<Longrightarrow> eq_step env (e, p, eq) (e', p, eq')"
| Cancel: "CancelPayload env force (e, eq) = ((e', eq'), r) \<Longrightarrow> eq_step env (e, p, eq) (e', p, eq')"
| Reset: "EngineQueue_Reset env e eq = Some (eq', err) \<Longrightarrow> eq_step env (e, p, eq) (e, p, eq')"

text \<open>Finality data: bounded, one entry per L1 block, in the order of L1 blocks.\<close>

definition finality_ok :: "finality_data list \<Rightarrow> bool" where
  "finality_ok fds =
     (length fds \<le> finalityLookback \<and>
      sorted_wrt (\<lambda>a b. Number (fd_L1Block a) < Number (fd_L1Block b)) fds)"

definition eq_inv :: "engine_queue \<Rightarrow> bool" where
  "eq_inv eq = (finality_ok (finalityData eq) \<and> pq_inv (unsafePayloads eq))"

lemma sorted_wrt_snoc:
  assumes "sorted_wrt (\<lambda>a b. f a < (f b :: u64)) xs" "xs = [] \<or> f (last xs) < f y"
  shows "sorted_wrt (\<lambda>a b. f a < f b) (xs @ [y])"
proof -
  have "f x \<le> f (last xs)" if "x \<in> set xs" for x
  proof -
    from that have "xs = butlast xs @ [last xs]" by (cases xs) auto
    then have "sorted_wrt (\<lambda>a b. f a < f b) (butlast xs @ [last xs])" "x \<in> set (butlast xs @ [last xs])"
      using assms(1) that by simp_all
    then show ?thesis by (auto simp: sorted_wrt_append)
  qed
  then have "f x < f y" if "x \<in> set xs" for x
    using that assms(2) by fastforce
  with assms(1) show ?thesis by (simp add: sorted_wrt_append)
qed

lemma track_ok:
  assumes "finality_ok fds"
  shows "finality_ok (track fds safe origin)"
proof -
  define xs where "xs = (if length fds \<ge> finalityLookback then take (finalityLookback - 1) (drop 1 fds) else fds)"
  have len: "length xs < finalityLookback" by (auto simp: xs_def finalityLookback_def)
  have sorted: "sorted_wrt (\<lambda>a b. Number (fd_L1Block a) < Number (fd_L1Block b)) xs"
    using assms by (auto simp: xs_def finality_ok_def sorted_wrt_take sorted_wrt_drop)
  show ?thesis
  proof (cases "xs = [] \<or> Number (fd_L1Block (last xs)) < l1_Number origin")
    case True
    then have "track fds safe origin = xs @ [\<lparr>fd_L2Block = safe, fd_L1Block = L1_ID origin\<rparr>]"
      by (auto simp: track_def xs_def Let_def)
    with len sorted_wrt_snoc [OF sorted, of "\<lparr>fd_L2Block = safe, fd_L1Block = L1_ID origin\<rparr>"] True
    show ?thesis by (simp add: finality_ok_def)
  next
    case False
    then have t: "track fds safe origin = butlast xs @ [(last xs)\<lparr>fd_L2Block := safe\<rparr>]"
      by (auto simp: track_def xs_def Let_def)
    have "sorted_wrt (\<lambda>a b. Number (fd_L1Block a) < Number (fd_L1Block b)) (butlast xs @ [last xs])"
      using sorted False by simp
    then have "sorted_wrt (\<lambda>a b. Number (fd_L1Block a) < Number (fd_L1Block b)) (track fds safe origin)"
      unfolding t by (simp add: sorted_wrt_append)
    moreover have "length (track fds safe origin) \<le> finalityLookback" using len False by (simp add: t)
    ultimately show ?thesis by (simp add: finality_ok_def)
  qed
qed

lemma Pop_inv: "pq_inv q \<Longrightarrow> pq_inv (fst (PayloadsQueue_Pop q))"
proof (cases "pq q = []")
  case False
  assume inv: "pq_inv q"
  obtain q' r where p: "PayloadsQueue_Pop q = (q', r)" by (cases "PayloadsQueue_Pop q")
  have core: "pq_core q" using inv by (simp add: pq_inv_def)
  note c = Pop_core [OF core False p]
  let ?x = "hd (pq q)"
  have ms: "mset (pq q) = mset (?x # pq q')" using c by simp
  have "distinct (map (\<lambda>e. BlockHash (ps_payload e)) (?x # pq q'))"
    using distinct_map_mset [OF ms, of "\<lambda>e. BlockHash (ps_payload e)"] core by (simp add: pq_core_def)
  moreover have "set (pq q) = insert ?x (set (pq q'))"
    using arg_cong [OF ms, of set_mset] by simp
  moreover have "pq_sum (pq q) = unat (ps_size ?x) + pq_sum (pq q')"
    using ms by (simp add: pq_sum_mset)
  then have "unat (currentSize q') \<le> unat (currentSize q)" using core c by (simp add: pq_core_def)
  ultimately show ?thesis
    using inv c p by (auto simp: pq_inv_def list_all_iff word_le_nat_alt image_iff)
qed (simp add: PayloadsQueue_Pop_def)

lemma Push_inv:
  assumes "pq_inv q" "PayloadsQueue_Push q p = Some (q', r)"
  shows "pq_inv q' \<and> (r = Inr () \<longrightarrow> PayloadsQueue_Peek q' \<noteq> None)"
proof (cases p)
  case None
  with assms show ?thesis by (auto simp: PayloadsQueue_Push_def)
next
  case (Some x)
  show ?thesis
  proof (cases "BlockHash x \<notin> blockHashes q \<and> SizeFn q (Some x) \<le> MaxSize q")
    case True
    with Push_core [OF assms(1), of x] assms(2) Some show ?thesis
      by (auto simp: PayloadsQueue_Peek_def)
  next
    case False
    with assms Some show ?thesis by (auto simp: PayloadsQueue_Push_def not_le Let_def split: if_splits)
  qed
qed

lemma same_tracking_inv:
  "same_tracking eq eq' \<Longrightarrow> eq_inv eq \<Longrightarrow>
   unsafePayloads eq' = unsafePayloads eq \<or> unsafePayloads eq' = fst (PayloadsQueue_Pop (unsafePayloads eq)) \<Longrightarrow>
   eq_inv eq'"
  by (auto simp: same_tracking_def eq_inv_def Pop_inv)

lemma Step_payloads:
  assumes "EngineQueue_Step env (e, p, eq) = ((e', p', eq'), r)"
  shows "unsafePayloads eq' = unsafePayloads eq \<or> unsafePayloads eq' = fst (PayloadsQueue_Pop (unsafePayloads eq))"
proof -
  have safe: "unsafePayloads eq' = unsafePayloads eq1" if s: "step_safe env (e1, p, eq1) = ((e', p', eq'), r)" for e1 eq1
  proof -
    consider "eq' = eq1" | "tryNextSafeAttributes env (e1, eq1) = ((e', eq'), r)"
      | "step_attributes env (e1, p, eq1) = ((e', p', eq'), r)"
      using s by (auto simp: step_safe_def split: if_splits prod.splits)
    then show ?thesis
    proof cases
      case 2
      then show ?thesis by (cases rule: tryNextSafeAttributes_cases) auto
    next
      case 3
      from step_attributes_tracking [OF this] show ?thesis by blast
    qed simp
  qed
  consider (fc) "tryUpdateEngine env (e, eq) = ((e', eq'), r)"
    | (unsafe) "tryNextUnsafePayload env (e, eq) = ((e', eq'), r)"
    | (both) e1 eq1 where "tryNextUnsafePayload env (e, eq) = ((e1, eq1), Inl EOF)"
        "step_safe env (e1, p, eq1) = ((e', p', eq'), r)"
    | (none) "step_safe env (e, p, eq) = ((e', p', eq'), r)"
    using assms by (auto simp: EngineQueue_Step_def split: if_splits prod.splits)
  then show ?thesis
  proof cases
    case fc
    then show ?thesis by (auto simp: tryUpdateEngine_def Let_def split: prod.splits sum.splits)
  next
    case unsafe
    from tryNextUnsafePayload_tracking [OF this] show ?thesis by blast
  next
    case both
    from tryNextUnsafePayload_EOF [OF both(1)] safe [OF both(2)] show ?thesis by auto
  next
    case none
    from safe [OF this] show ?thesis by simp
  qed
qed

lemma Step_inv:
  assumes "EngineQueue_Step env (e, p, eq) = ((e', p', eq'), r)" "eq_inv eq"
  shows "eq_inv eq'"
proof -
  have pq: "pq_inv (unsafePayloads eq')"
    using Step_payloads [OF assms(1)] assms(2) by (auto simp: eq_inv_def Pop_inv)
  from assms(1) have "finality_ok (finalityData eq')"
    by (cases rule: Step_cases) (use assms(2) in \<open>auto simp: same_tracking_def eq_inv_def track_ok\<close>)
  with pq show ?thesis by (simp add: eq_inv_def)
qed

lemma adopt_block_inv: "eq_inv eq \<Longrightarrow> eq_inv (adopt_block ref eq)"
  by (auto simp: adopt_block_def eq_inv_def Let_def track_ok)

lemma eq_step_inv: "eq_step env (e, p, eq) (e', p', eq') \<Longrightarrow> eq_inv eq \<Longrightarrow> eq_inv eq'"
proof (induction "(e, p, eq)" "(e', p', eq')" rule: eq_step.induct)
  case (Payload pl)
  then have "pq_inv (unsafePayloads eq)" by (simp add: eq_inv_def)
  from Push_inv [OF this] Payload show ?case
    by (fastforce simp: AddUnsafePayload_def eq_inv_def split: option.splits sum.splits)
next
  case (Start par attrs safe r)
  from StartPayload_tracking [OF this(1)] Start show ?case by (auto intro: same_tracking_inv)
next
  case (Confirm r2)
  then show ?case
    by (cases r2) (auto dest: ConfirmPayload_fail elim!: ConfirmPayload_ok intro: adopt_block_inv)
next
  case (Cancel force r)
  from CancelPayload_tracking [OF this(1)] Cancel show ?case by (auto intro: same_tracking_inv)
next
  case (Reset err)
  then show ?case
    by (auto simp: EngineQueue_Reset_def Let_def eq_inv_def reset_to_def finality_ok_def
        split: option.splits sum.splits if_splits)
next
  case (Step r)
  then show ?case by (rule Step_inv)
qed (auto simp: Finalize_def SetUnsafeHead_def SetEngineSyncTarget_def eq_inv_def Let_def)

lemma eq_inv_New: "eq_inv NewEngineQueue"
  by (simp add: eq_inv_def NewEngineQueue_def finality_ok_def pq_inv_New maxUnsafePayloadsMemory_def)

section \<open>An engine for the examples\<close>

text \<open>An engine that has one block, the one at the genesis of the example configuration, and a queue
  whose attributes describe that block.\<close>

definition ex_attrs :: payload_attributes where
  "ex_attrs = \<lparr>pa_Timestamp = 1000, pa_PrevRandao = [], SuggestedFeeRecipient = [],
     pa_Transactions = [], NoTxPool = True, pa_GasLimit = Some 5\<rparr>"

definition ex_gen_block :: execution_payload where
  "ex_gen_block = (ex_block 50 2)\<lparr>ep_ParentHash := replicate 32 7, ep_Timestamp := 1000, ep_GasLimit := 5\<rparr>"

definition ex_engine :: "unit engine" where
  "ex_engine = \<lparr>eng_GetPayload = (\<lambda>_ e. (e, Inl NotFound)), eng_ForkchoiceUpdate = (\<lambda>_ _ e. (e, Inl NotFound)),
     eng_NewPayload = (\<lambda>_ e. (e, Inl NotFound)),
     eng_PayloadByNumber = (\<lambda>_ n. if n = 50 then Inr ex_gen_block else Inl NotFound),
     eng_chain = (\<lambda>_. ex_l2_chain 63 62 61), eng_SystemConfigByL2Hash = (\<lambda>_ _. Inl NotFound)\<rparr>"

definition ex_eq_env :: "(unit, unit) eq_env" where
  "ex_eq_env = \<lparr>env_cfg = example_cfg, env_EngineSync = False, env_SkipSyncStartCheck = False,
     env_engine = ex_engine, env_l1 = ex_l1_client, env_keccak = (\<lambda>_. replicate 32 9),
     env_unmarshalTx = ex_unmarshalTx, env_prevOrigin = (\<lambda>_. ex_l1 100),
     env_nextAttributes = (\<lambda>_ p. (p, Inl EOF))\<rparr>"

definition ex_safe :: l2_block_ref where
  "ex_safe = ex_head\<lparr>l2_Hash := replicate 32 7, l2_Number := 49\<rparr>"

definition ex_eq :: engine_queue where
  "ex_eq = NewEngineQueue\<lparr>eq_safeHead := ex_safe, eq_unsafeHead := ex_head\<lparr>l2_Number := 51\<rparr>,
     eq_engineSyncTarget := ex_head\<lparr>l2_Number := 51\<rparr>, eq_origin := ex_l1 100,
     safeAttributes := Some \<lparr>awp_attributes = ex_attrs, awp_parent = ex_safe\<rparr>\<rparr>"

section \<open>Properties\<close>

text \<open>C17: the safe head moves only through attributes derived from L1. When a step changes it, attributes
  for exactly the old safe head were queued, and the new safe head is the reference of a payload that
  is either the next block of the engine's chain and agrees with the attributes in parent, time,
  randomness, transactions and gas limit, or a block that the engine built from the attributes on
  top of the old safe head and reported as valid.\<close>

theorem safe_head_from_attributes:
  assumes "EngineQueue_Step env (e, p, eq) = ((e', p', eq'), r)" and "eq_safeHead eq' \<noteq> eq_safeHead eq"
  shows "\<exists>awp payload. safeAttributes eq = Some awp \<and> awp_parent awp = eq_safeHead eq \<and>
     payload_ref env payload = Inr (eq_safeHead eq') \<and>
     (eng_PayloadByNumber (env_engine env) e (l2_Number (eq_safeHead eq) + 1) = Inr payload \<and>
      ep_ParentHash payload = l2_Hash (eq_safeHead eq) \<and>
      ep_Transactions payload = pa_Transactions (awp_attributes awp) \<and>
      ep_Timestamp payload = pa_Timestamp (awp_attributes awp) \<and>
      ep_PrevRandao payload = pa_PrevRandao (awp_attributes awp) \<and>
      pa_GasLimit (awp_attributes awp) = Some (ep_GasLimit payload) \<or>
      engine_built env e (eq_safeHead eq) (awp_attributes awp) payload)"
  using assms(1)
proof (cases rule: Step_cases)
  case (changed awp payload)
  then show ?thesis by (auto simp: safe_source_def AttributesMatchBlock_None)
qed (use assms(2) in \<open>auto simp: same_tracking_def\<close>)

theorem safe_head_from_attributes_witness:
  "\<exists>eq' r. EngineQueue_Step ex_eq_env ((), (), ex_eq) = (((), (), eq'), r) \<and>
     l2_Hash (eq_safeHead eq') = replicate 32 2 \<and>
     (\<exists>payload. payload_ref ex_eq_env payload = Inr (eq_safeHead eq') \<and>
        (ep_Transactions payload = pa_Transactions ex_attrs \<or>
         engine_built ex_eq_env () ex_safe ex_attrs payload))"
proof -
  obtain eq' r where step: "EngineQueue_Step ex_eq_env ((), (), ex_eq) = (((), (), eq'), r)"
    and head: "l2_Hash (eq_safeHead eq') = replicate 32 2"
    by (simp add: EngineQueue_Step_def ex_eq_def NewEngineQueue_def NewPayloadsQueue_def PayloadsQueue_Len_def
        step_safe_def isEngineSyncing_def tryNextSafeAttributes_def consolidateNextSafeAttributes_def
        ex_eq_env_def ex_engine_def ex_safe_def ex_head_def AttributesMatchBlock_def ex_attrs_def
        ex_gen_block_def ex_block_def payload_ref_def PayloadToBlockRef_def example_cfg_def
        postProcessSafeL2_def finalityLookback_def Let_def)
  have "eq_safeHead eq' \<noteq> eq_safeHead ex_eq"
    using head by (auto simp: ex_eq_def ex_safe_def)
  from safe_head_from_attributes [OF step this] step head show ?thesis
    by (auto simp: ex_eq_def)
qed



text \<open>C19: every state that the engine queue can reach from a new one, over any interleaving of
  derivation steps, finality signals, payloads, block building and resets, keeps its bookkeeping in
  bounds: the finality data has at most \<open>finalityLookback\<close> entries, strictly ascending in L1 block
  numbers, and the buffered payloads stay within their memory limit with their sizes accounted for.\<close>

theorem engine_queue_invariant:
  assumes "(eq_step env)\<^sup>*\<^sup>* (e, p, NewEngineQueue) (e', p', eq')"
  shows "length (finalityData eq') \<le> finalityLookback \<and>
     sorted_wrt (\<lambda>a b. Number (fd_L1Block a) < Number (fd_L1Block b)) (finalityData eq') \<and>
     pq_inv (unsafePayloads eq')"
proof -
  have "eq_inv (snd (snd s'))" if "(eq_step env)\<^sup>*\<^sup>* s s'" "eq_inv (snd (snd s))" for s s'
    using that
  proof (induction rule: rtranclp_induct)
    case (step s1 s2)
    then show ?case by (cases s1; cases s2) (auto dest: eq_step_inv)
  qed simp
  from this [OF assms] eq_inv_New have "eq_inv eq'" by simp
  then show ?thesis by (simp add: eq_inv_def finality_ok_def)
qed

theorem engine_queue_invariant_witness:
  "(eq_step ex_eq_env)\<^sup>*\<^sup>* ((), (), NewEngineQueue) ((), (), Finalize (ex_l1 100) NewEngineQueue) \<and>
   pq_inv (unsafePayloads (Finalize (ex_l1 100) NewEngineQueue))"
proof -
  have "(eq_step ex_eq_env)\<^sup>*\<^sup>* ((), (), NewEngineQueue) ((), (), Finalize (ex_l1 100) NewEngineQueue)"
    by (rule r_into_rtranclp) (rule eq_step.Signal)
  with engine_queue_invariant [OF this] show ?thesis by blast
qed

end
