(* ===== verification/Pipeline.thy ===== *)
theory Pipeline
  imports Engine_Props
begin

text \<open>
  The derivation pipeline (\<open>op-node/rollup/derive/pipeline.go\<close>): the composition of all stages,
  its step and its reset, which goes through the stages one step at a time. A stage's reset may not
  return (the engine queue searches for its heads); that is \<open>None\<close>.
\<close>

section \<open>The pipeline\<close>

text \<open>What the pipeline is constructed with: configuration, options, the execution engine, the L1
  client and the library functions that decode transactions and channels.\<close>

record ('e, 's) dp_env =
  dp_cfg :: config
  dp_EngineSync :: bool
  dp_SkipSyncStartCheck :: bool
  dp_engine :: "'e engine"
  dp_l1 :: l1_client
  dp_keccak :: "bytes \<Rightarrow> hash"
  dp_marshalTx :: "deposit_tx \<Rightarrow> bytes result"
  dp_unmarshalTx :: "bytes \<Rightarrow> (byte \<times> bytes) result"
  dp_newReader :: "bytes \<Rightarrow> 's result"
  dp_decodeBatch :: "'s \<Rightarrow> 's \<times> batch_data result"

record 's derivation_pipeline =
  dp_resetting :: nat
  dp_lower :: "'s lower_stages"
  dp_eng :: engine_queue

text \<open>The attributes builder reads system configurations from the engine as it is at the start of a
  step: a step that pulls attributes does not call the engine before.\<close>

definition engine_env :: "('e, 's) dp_env \<Rightarrow> 'e \<Rightarrow> ('e, 's lower_stages) eq_env" where
  "engine_env env e =
     \<lparr>env_cfg = dp_cfg env, env_EngineSync = dp_EngineSync env,
      env_SkipSyncStartCheck = dp_SkipSyncStartCheck env, env_engine = dp_engine env,
      env_l1 = dp_l1 env, env_keccak = dp_keccak env, env_unmarshalTx = dp_unmarshalTx env,
      env_prevOrigin = attributes_origin,
      env_nextAttributes = attributes_pull (dp_cfg env) (dp_l1 env) (dp_newReader env) (dp_decodeBatch env)
        (PreparePayloadAttributes (dp_keccak env) (dp_marshalTx env) (dp_cfg env) (dp_l1 env)
           (eng_SystemConfigByL2Hash (dp_engine env) e))\<rparr>"

definition numStages :: nat where
  "numStages = 8"

definition NewDerivationPipeline :: "'s derivation_pipeline" where
  "NewDerivationPipeline =
     \<lparr>dp_resetting = 0,
      dp_lower = ((((((NewL1Traversal, NewL1Retrieval), NewFrameQueue), NewChannelBank),
                    \<lparr>nextBatchFn = None\<rparr>), NewBatchQueue), NewAttributesQueue),
      dp_eng = NewEngineQueue\<rparr>"

definition EngineReady :: "'s derivation_pipeline \<Rightarrow> bool" where
  "EngineReady dp = (dp_resetting dp > 0)"

definition Pipeline_Reset :: "'s derivation_pipeline \<Rightarrow> 's derivation_pipeline" where
  "Pipeline_Reset dp = dp\<lparr>dp_resetting := 0\<rparr>"

definition Pipeline_Origin :: "'s derivation_pipeline \<Rightarrow> l1_block_ref" where
  "Pipeline_Origin dp = eq_origin (dp_eng dp)"

definition Pipeline_Finalize :: "l1_block_ref \<Rightarrow> 's derivation_pipeline \<Rightarrow> 's derivation_pipeline" where
  "Pipeline_Finalize l1Origin dp = dp\<lparr>dp_eng := Finalize l1Origin (dp_eng dp)\<rparr>"

definition Pipeline_AddUnsafePayload ::
  "execution_payload option \<Rightarrow> 's derivation_pipeline \<Rightarrow> 's derivation_pipeline result option" where
  "Pipeline_AddUnsafePayload payload dp =
     map_option (map_sum id (\<lambda>eq. dp\<lparr>dp_eng := eq\<rparr>)) (AddUnsafePayload payload (dp_eng dp))"

definition Pipeline_StartPayload ::
  "('e, 's) dp_env \<Rightarrow> l2_block_ref \<Rightarrow> payload_attributes \<Rightarrow> bool \<Rightarrow> 'e \<times> 's derivation_pipeline \<Rightarrow>
   ('e \<times> 's derivation_pipeline) \<times> unit insertion" where
  "Pipeline_StartPayload env par attrs updateSafe = (\<lambda>(e, dp).
     case EngineQueue_StartPayload (engine_env env e) par attrs updateSafe (e, dp_eng dp) of
       ((e', eq'), r) \<Rightarrow> ((e', dp\<lparr>dp_eng := eq'\<rparr>), r))"

definition Pipeline_ConfirmPayload ::
  "('e, 's) dp_env \<Rightarrow> 'e \<times> 's derivation_pipeline \<Rightarrow>
   ('e \<times> 's derivation_pipeline) \<times> execution_payload insertion" where
  "Pipeline_ConfirmPayload env = (\<lambda>(e, dp).
     case EngineQueue_ConfirmPayload (engine_env env e) (e, dp_eng dp) of
       ((e', eq'), r) \<Rightarrow> ((e', dp\<lparr>dp_eng := eq'\<rparr>), r))"

definition Pipeline_CancelPayload ::
  "('e, 's) dp_env \<Rightarrow> bool \<Rightarrow> 'e \<times> 's derivation_pipeline \<Rightarrow>
   ('e \<times> 's derivation_pipeline) \<times> unit result" where
  "Pipeline_CancelPayload env force = (\<lambda>(e, dp).
     case CancelPayload (engine_env env e) force (e, dp_eng dp) of
       ((e', eq'), r) \<Rightarrow> ((e', dp\<lparr>dp_eng := eq'\<rparr>), r))"

text \<open>The stages in the order of their reset: the engine queue, then from L1 upwards.\<close>

definition reset_lower ::
  "config \<Rightarrow> l1_client \<Rightarrow> nat \<Rightarrow> l1_block_ref \<Rightarrow> system_config \<Rightarrow> 's lower_stages \<Rightarrow>
   's lower_stages \<times> error" where
  "reset_lower cfg l1 i base baseCfg = (\<lambda>((((((l1t, l1r), fq), cb), cr), bq), aq).
     if i = 1 then
       (case L1Traversal_Reset base baseCfg l1t of (l1t', e) \<Rightarrow> (((((((l1t', l1r), fq), cb), cr), bq), aq), e))
     else if i = 2 then
       (case L1Retrieval_Reset cfg l1 base baseCfg l1r of (l1r', e) \<Rightarrow> (((((((l1t, l1r'), fq), cb), cr), bq), aq), e))
     else if i = 3 then
       (case FrameQueue_Reset fq of (fq', e) \<Rightarrow> (((((((l1t, l1r), fq'), cb), cr), bq), aq), e))
     else if i = 4 then
       (case ChannelBank_Reset cb of (cb', e) \<Rightarrow> (((((((l1t, l1r), fq), cb'), cr), bq), aq), e))
     else if i = 5 then
       (case ChannelInReader_Reset cr of (cr', e) \<Rightarrow> (((((((l1t, l1r), fq), cb), cr'), bq), aq), e))
     else if i = 6 then
       (case BatchQueue_Reset base bq of (bq', e) \<Rightarrow> (((((((l1t, l1r), fq), cb), cr), bq'), aq), e))
     else
       (case AttributesQueue_Reset aq of (aq', e) \<Rightarrow> (((((((l1t, l1r), fq), cb), cr), bq), aq'), e)))"

definition reset_stage ::
  "('e, 's) dp_env \<Rightarrow> 'e \<Rightarrow> 's derivation_pipeline \<Rightarrow> ('s derivation_pipeline \<times> error) option" where
  "reset_stage env e dp =
     (if dp_resetting dp = 0
      then map_option (\<lambda>(eq, err). (dp\<lparr>dp_eng := eq\<rparr>, err)) (EngineQueue_Reset (engine_env env e) e (dp_eng dp))
      else case reset_lower (dp_cfg env) (dp_l1 env) (dp_resetting dp) (eq_origin (dp_eng dp))
                  (eq_sysCfg (dp_eng dp)) (dp_lower dp) of
             (lower, err) \<Rightarrow> Some (dp\<lparr>dp_lower := lower\<rparr>, err))"

definition advance_traversal ::
  "('e, 's) dp_env \<Rightarrow> 's lower_stages \<Rightarrow> 's lower_stages \<times> unit result" where
  "advance_traversal env = (\<lambda>((((((l1t, l1r), fq), cb), cr), bq), aq).
     case AdvanceL1Block (dp_keccak env) (dp_cfg env) (dp_l1 env) l1t of
       (l1t', r) \<Rightarrow> (((((((l1t', l1r), fq), cb), cr), bq), aq), r))"

definition Pipeline_Step ::
  "('e, 's) dp_env \<Rightarrow> 'e \<times> 's derivation_pipeline \<Rightarrow>
   (('e \<times> 's derivation_pipeline) \<times> unit result) option" where
  "Pipeline_Step env = (\<lambda>(e, dp).
     if dp_resetting dp < numStages
     then (case reset_stage env e dp of
             None \<Rightarrow> None
           | Some (dp', err) \<Rightarrow>
               if err = EOF then Some ((e, dp'\<lparr>dp_resetting := dp_resetting dp' + 1\<rparr>), Inr ())
               else Some ((e, dp'), Inl (Wrap ''stage failed resetting'' err)))
     else (case EngineQueue_Step (engine_env env e) (e, dp_lower dp, dp_eng dp) of
             ((e', p', eq'), Inr _) \<Rightarrow> Some ((e', dp\<lparr>dp_lower := p', dp_eng := eq'\<rparr>), Inr ())
           | ((e', p', eq'), Inl err) \<Rightarrow>
               if err = EOF
               then (case advance_traversal env p' of
                       (p'', r) \<Rightarrow> Some ((e', dp\<lparr>dp_lower := p'', dp_eng := eq'\<rparr>), r))
               else Some ((e', dp\<lparr>dp_lower := p', dp_eng := eq'\<rparr>),
                          Inl (if is_panic err \<or> errors_Is err EngineP2PSyncing then err
                               else Wrap ''engine stage failed'' err))))"


section \<open>Reset\<close>

text \<open>The stages below the engine queue right after a reset to a base block.\<close>

definition fresh_lower ::
  "config \<Rightarrow> l1_client \<Rightarrow> l1_block_ref \<Rightarrow> system_config \<Rightarrow> 's lower_stages \<Rightarrow> bool" where
  "fresh_lower cfg l1 base sysCfg = (\<lambda>((((((l1t, l1r), fq), cb), cr), bq), aq).
     trav_block l1t = base \<and> \<not> trav_done l1t \<and> trav_sysCfg l1t = sysCfg \<and>
     datas l1r = Some (OpenData cfg l1 (L1_ID base) (BatcherAddr sysCfg)) \<and>
     fq_frames fq = [] \<and> cb_channels cb = [] \<and> channelQueue cb = [] \<and> nextBatchFn cr = None \<and>
     bq_origin bq = base \<and> bq_batches bq = [] \<and> bq_l1Blocks bq = [base] \<and> aq_batch aq = None)"




lemma fresh_lower_inv: "fresh_lower cfg l1 base sc p \<Longrightarrow> lower_inv h p"
  by (auto simp: fresh_lower_def lower_inv_def channels_inv_def frame_queue_inv_def bank_inv_def
      queue_synced_def bq_inv_def)





section \<open>Steps of the pipeline\<close>

text \<open>Pulling attributes does not move the traversal. The block it stands on is an invariant of every
  stage, by the laws of the stages' interfaces.\<close>

definition lower_block :: "'s lower_stages \<Rightarrow> l1_block_ref" where
  "lower_block = (\<lambda>((((((l1t, l1r), fq), cb), cr), bq), aq). trav_block l1t)"

lemma retrieval_keeps_block:
  "NextDataProvider (\<lambda>(l1t, l1r). trav_block l1t = b) (L1Retrieval_NextData cfg l1)"
proof (unfold_locales, goal_cases)
  case (1 p)
  then show ?case
    by (auto simp: L1Retrieval_NextData_def NextL1Block_def Let_def split: option.splits prod.splits)
next
  case (2 p e)
  from 2(2) show ?case by (rule l1_data.pull_no_panic [OF TrueI])
qed

lemma attributes_keep_block:
  assumes "\<And>h i x. builder h i = Inl x \<Longrightarrow> \<not> is_panic x"
  shows "NextAttributesProvider (\<lambda>h p. lower_inv h p \<and> lower_block p = b)
     (attributes_pull cfg l1 newReader decodeBatch builder)"
proof -
  note fq = NextDataProvider.FrameQueue_stage [OF retrieval_keeps_block [of b cfg l1]]
  then have "NextFrameProvider (\<lambda>(p, fq). (case p of (l1t, l1r) \<Rightarrow> trav_block l1t = b) \<and> frame_queue_inv fq)
      (frames_pull cfg l1)"
    by (simp add: NextFrameProvider_def frames_pull_def)
  from NextFrameProvider.ChannelBank_stage [OF this, of cfg frames_origin]
  have "NextDataProvider (\<lambda>(p, cb). (case p of (p, fq) \<Rightarrow> (case p of (l1t, l1r) \<Rightarrow> trav_block l1t = b) \<and>
      frame_queue_inv fq) \<and> bank_inv cb) (channels_pull cfg l1)"
    by (simp add: NextDataProvider_def channels_pull_def)
  from NextDataProvider.ChannelInReader_stage [OF this, of newReader decodeBatch channels_origin]
  have "NextBatchProvider (\<lambda>(p, _). case p of (p, cb) \<Rightarrow> (case p of (p, fq) \<Rightarrow>
      (case p of (l1t, l1r) \<Rightarrow> trav_block l1t = b) \<and> frame_queue_inv fq) \<and> bank_inv cb)
      (batches_pull cfg l1 newReader decodeBatch)"
    by (simp add: NextBatchProvider_def batches_pull_def)
  from NextBatchProvider.NextAttributes_stage [OF this assms, where cfg = cfg and orig = batches_origin]
  have prov: "NextAttributesProvider (\<lambda>h ((p, bq), _). (case p of (p, _) \<Rightarrow> case p of (p, cb) \<Rightarrow> (case p of (p, fq) \<Rightarrow>
      (case p of (l1t, l1r) \<Rightarrow> trav_block l1t = b) \<and> frame_queue_inv fq) \<and> bank_inv cb) \<and> queue_synced h bq)
      (attributes_pull cfg l1 newReader decodeBatch builder)"
    by (simp add: attributes_pull_def)
  have inv: "(\<lambda>h ((p, bq), _). (case p of (p, _) \<Rightarrow> case p of (p, cb) \<Rightarrow> (case p of (p, fq) \<Rightarrow>
      (case p of (l1t, l1r) \<Rightarrow> trav_block l1t = b) \<and> frame_queue_inv fq) \<and> bank_inv cb) \<and> queue_synced h bq) =
      (\<lambda>h p. lower_inv h p \<and> lower_block p = b)"
    by (auto simp: fun_eq_iff lower_inv_def lower_block_def channels_inv_def)
  from prov show ?thesis unfolding inv .
qed

lemma advance_traversal_lower:
  assumes "advance_traversal env p = (p', r)"
  shows "(lower_inv h p' \<longleftrightarrow> lower_inv h p) \<and> (\<forall>x. r = Inl x \<longrightarrow> \<not> is_panic x) \<and>
     (lower_block p' = lower_block p \<or>
      L1BlockRefByNumber (dp_l1 env) (l1_Number (lower_block p) + 1) = Inr (lower_block p') \<and>
      l1_ParentHash (lower_block p') = l1_Hash (lower_block p))"
proof -
  obtain l1t l1r fq cb cr bq aq where p: "p = ((((((l1t, l1r), fq), cb), cr), bq), aq)"
    by (metis prod.exhaust)
  show ?thesis
    using assms
    by (auto simp: p advance_traversal_def AdvanceL1Block_def lower_inv_def lower_block_def
        channels_inv_def Let_def
        split: prod.splits sum.splits if_splits option.splits)
qed

section \<open>Properties\<close>


text \<open>An engine whose chain is one block, at all three labels.\<close>

definition ex_dp_env :: "(unit, unit) dp_env" where
  "ex_dp_env = \<lparr>dp_cfg = example_cfg, dp_EngineSync = False, dp_SkipSyncStartCheck = False,
     dp_engine = ex_engine\<lparr>eng_chain := (\<lambda>_. ex_l2_chain 61 61 61),
       eng_SystemConfigByL2Hash := (\<lambda>_ _. Inr zero_system_config)\<rparr>,
     dp_l1 = ex_l1_client, dp_keccak = (\<lambda>_. replicate 32 9), dp_marshalTx = ex_marshalTx,
     dp_unmarshalTx = ex_unmarshalTx, dp_newReader = (\<lambda>_. Inl EOF), dp_decodeBatch = (\<lambda>s. (s, Inl EOF))\<rparr>"




text \<open>C15: a step of a pipeline that is not being reset never panics, as long as the engine does not
  return a payload with an empty first transaction; it keeps the invariants of all stages; and
  the L1 block the stages read from changes only to its child, the block that the L1 client has at
  the next number and that names the current block as its parent.\<close>

theorem pipeline_step_safe:
  assumes "builder_env (dp_l1 env) (dp_marshalTx env)" and "no_empty_first_tx (dp_engine env)"
    and "lower_inv h (dp_lower dp)" and "Number (L1Origin h) \<le> Number (L1Origin (eq_safeHead (dp_eng dp)))"
    and "dp_resetting dp = numStages" and "Pipeline_Step env (e, dp) = Some ((e', dp'), r)"
  shows "(\<forall>x. r = Inl x \<longrightarrow> \<not> is_panic x) \<and>
     (lower_inv h (dp_lower dp') \<or> lower_inv (eq_safeHead (dp_eng dp)) (dp_lower dp')) \<and>
     (lower_block (dp_lower dp') = lower_block (dp_lower dp) \<or>
      L1BlockRefByNumber (dp_l1 env) (l1_Number (lower_block (dp_lower dp)) + 1) = Inr (lower_block (dp_lower dp')) \<and>
      l1_ParentHash (lower_block (dp_lower dp')) = l1_Hash (lower_block (dp_lower dp)))"
proof -
  let ?env = "engine_env env e" and ?head = "eq_safeHead (dp_eng dp)" and ?p = "dp_lower dp"
  obtain e1 p1 eq1 r1 where st: "EngineQueue_Step ?env (e, ?p, dp_eng dp) = ((e1, p1, eq1), r1)"
    by (metis prod.exhaust)
  have builder: "PreparePayloadAttributes keccak (dp_marshalTx env) cfg (dp_l1 env) sys hd i = Inl x \<Longrightarrow> \<not> is_panic x"
    for keccak cfg sys hd i x by (rule builder_no_panic [OF assms(1)])
  have "NextAttributesProvider (\<lambda>h p. lower_inv h p \<and> lower_block p = lower_block ?p) (env_nextAttributes ?env)"
    unfolding engine_env_def eq_env.simps by (rule attributes_keep_block) (rule builder)
  note attrs = NextAttributesProvider.next_inv [OF this, of h ?p ?head]
    NextAttributesProvider.next_no_panic [OF this, of h ?p ?head]
  have "no_empty_first_tx (env_engine ?env)" using assms(2) by (simp add: engine_env_def)
  from Step_lower [OF this st] attrs assms(3,4)
  have low: "(\<forall>x. r1 = Inl x \<longrightarrow> \<not> is_panic x) \<and> (lower_inv h p1 \<or> lower_inv ?head p1) \<and>
      lower_block p1 = lower_block ?p" by blast
  obtain p2 r2 where adv: "advance_traversal env p1 = (p2, r2)" by fastforce
  have res: "(dp_lower dp' = p1 \<and> (\<forall>x. r = Inl x \<longrightarrow> \<not> is_panic x)) \<or> (dp_lower dp' = p2 \<and> r = r2)"
    using assms(5,6) st low adv
    by (auto simp: Pipeline_Step_def split: sum.splits if_splits)
  then show ?thesis
  proof
    assume "dp_lower dp' = p1 \<and> (\<forall>x. r = Inl x \<longrightarrow> \<not> is_panic x)"
    with low show ?thesis by simp
  next
    assume "dp_lower dp' = p2 \<and> r = r2"
    with low advance_traversal_lower [OF adv, of h] advance_traversal_lower [OF adv, of ?head]
    show ?thesis by simp
  qed
qed

definition ex_dp :: "unit derivation_pipeline" where
  "ex_dp = NewDerivationPipeline\<lparr>dp_resetting := 8,
     dp_eng := NewEngineQueue\<lparr>needForkchoiceUpdate := True, eq_safeHead := ex_head\<rparr>\<rparr>"

theorem pipeline_step_safe_witness:
  "\<exists>dp' r. Pipeline_Step ex_dp_env ((), ex_dp) = Some (((), dp'), r) \<and> (\<forall>x. r = Inl x \<longrightarrow> \<not> is_panic x)"
proof -
  obtain dp' r where step: "Pipeline_Step ex_dp_env ((), ex_dp) = Some (((), dp'), r)"
    by (simp add: Pipeline_Step_def ex_dp_def numStages_def EngineQueue_Step_def tryUpdateEngine_def
        engine_env_def ex_dp_env_def ex_engine_def forkchoice_error_def Let_def)
  have "builder_env (dp_l1 ex_dp_env) (dp_marshalTx ex_dp_env)"
    by (simp add: ex_dp_env_def builder_env_def has_base_fees_def ex_l1_client_def ex_marshalTx_def)
  moreover have "no_empty_first_tx (dp_engine ex_dp_env)"
    by (simp add: ex_dp_env_def no_empty_first_tx_def ex_engine_def)
  moreover have "lower_inv ex_head (dp_lower ex_dp)"
    by (simp add: ex_dp_def NewDerivationPipeline_def lower_inv_def channels_inv_def frame_queue_inv_def
        NewFrameQueue_def bank_inv_New queue_synced_def bq_inv_def NewBatchQueue_def zero_l1_ref_def
        ex_head_def L1_ID_def ex_l1_def)
  moreover have "dp_resetting ex_dp = numStages" "eq_safeHead (dp_eng ex_dp) = ex_head"
    by (simp_all add: ex_dp_def numStages_def)
  ultimately show ?thesis
    using pipeline_step_safe [OF _ _ _ _ _ step, of ex_head] step by auto
qed

end
