(* ===== verification/Sequencer.thy ===== *)
theory Sequencer
  imports Pipeline
begin

text \<open>
  The sequencer of the driver (\<open>op-node/rollup/driver/\<close>): the tracked L1 state (\<open>l1_state.go\<close>), the view
  of L1 behind a confirmation distance (\<open>conf_depth.go\<close>), the choice of the L1 origin of the next block
  (\<open>origin_selector.go\<close>), and the block building jobs (\<open>sequencer.go\<close>) on the derivation pipeline as
  engine control. Instants and durations are integers in nanoseconds, durations in the range of
  \<open>int64\<close>.
\<close>

section \<open>L1 state\<close>

record l1_state =
  st_l1Head :: l1_block_ref
  st_l1Safe :: l1_block_ref
  st_l1Finalized :: l1_block_ref

definition NewL1State :: l1_state where
  "NewL1State = \<lparr>st_l1Head = zero_l1_ref, st_l1Safe = zero_l1_ref, st_l1Finalized = zero_l1_ref\<rparr>"

definition HandleNewL1HeadBlock :: "l1_block_ref \<Rightarrow> l1_state \<Rightarrow> l1_state" where
  "HandleNewL1HeadBlock head s = s\<lparr>st_l1Head := head\<rparr>"

definition HandleNewL1SafeBlock :: "l1_block_ref \<Rightarrow> l1_state \<Rightarrow> l1_state" where
  "HandleNewL1SafeBlock safe s = s\<lparr>st_l1Safe := safe\<rparr>"

definition HandleNewL1FinalizedBlock :: "l1_block_ref \<Rightarrow> l1_state \<Rightarrow> l1_state" where
  "HandleNewL1FinalizedBlock fin s = s\<lparr>st_l1Finalized := fin\<rparr>"

section \<open>Confirmation depth\<close>

definition confDepth_L1BlockRefByNumber ::
  "u64 \<Rightarrow> l1_block_ref \<Rightarrow> l1_client \<Rightarrow> u64 \<Rightarrow> l1_block_ref result" where
  "confDepth_L1BlockRefByNumber depth l1Head l1 num =
     (if l1Head = zero_l1_ref then L1BlockRefByNumber l1 num
      else if num = 0 \<or> depth = 0 \<or> num + depth \<le> l1_Number l1Head then L1BlockRefByNumber l1 num
      else Inl NotFound)"

definition NewConfDepth :: "u64 \<Rightarrow> l1_block_ref \<Rightarrow> l1_client \<Rightarrow> l1_client" where
  "NewConfDepth depth l1Head l1 =
     l1\<lparr>L1BlockRefByNumber := confDepth_L1BlockRefByNumber depth l1Head l1\<rparr>"

section \<open>Origin selection\<close>

definition FindL1Origin :: "config \<Rightarrow> l1_client \<Rightarrow> l2_block_ref \<Rightarrow> l1_block_ref result" where
  "FindL1Origin cfg l1 l2Head =
     (case L1BlockRefByHash l1 (Hash (L1Origin l2Head)) of
        Inl err \<Rightarrow> Inl err
      | Inr currentOrigin \<Rightarrow>
          let pastSeqDrift = (l2_Time l2Head + BlockTime cfg > l1_Time currentOrigin + MaxSequencerDrift cfg)
          in case L1BlockRefByNumber l1 (l1_Number currentOrigin + 1) of
               Inl err \<Rightarrow>
                 if pastSeqDrift
                 then Inl (Wrap ''cannot build next L2 block past current L1 origin'' err)
                 else Inr currentOrigin
             | Inr nextOrigin \<Rightarrow>
                 if l2_Time l2Head + BlockTime cfg \<ge> l1_Time nextOrigin then Inr nextOrigin
                 else Inr currentOrigin)"

section \<open>Block building\<close>

text \<open>The attributes of the next block: deposits and L1 info of the chosen origin, and transactions from
  the pool unless the block is beyond the sequencer drift.\<close>

definition sequencer_attributes ::
  "config \<Rightarrow> (l2_block_ref \<Rightarrow> l1_block_ref result) \<Rightarrow> attributes_builder \<Rightarrow> l2_block_ref \<Rightarrow>
   (l1_block_ref \<times> payload_attributes) result" where
  "sequencer_attributes cfg findL1Origin builder l2Head =
     rbind (findL1Origin l2Head) (\<lambda>l1Origin.
       if \<not> (Hash (L1Origin l2Head) = l1_ParentHash l1Origin \<or> Hash (L1Origin l2Head) = l1_Hash l1Origin)
       then Inl (NewResetError (Errorf ''cannot build new L2 block with L1 origin on current L2 head''))
       else rbind (builder l2Head (L1_ID l1Origin)) (\<lambda>attrs.
         Inr (l1Origin, attrs\<lparr>NoTxPool := (pa_Timestamp attrs > l1_Time l1Origin + MaxSequencerDrift cfg)\<rparr>)))"

definition StartBuildingBlock ::
  "('e, 's) dp_env \<Rightarrow> (l2_block_ref \<Rightarrow> l1_block_ref result) \<Rightarrow> attributes_builder \<Rightarrow>
   'e \<times> 's derivation_pipeline \<Rightarrow> ('e \<times> 's derivation_pipeline) \<times> unit result" where
  "StartBuildingBlock env findL1Origin builder = (\<lambda>(e, dp).
     let l2Head = eq_unsafeHead (dp_eng dp) in
     case sequencer_attributes (dp_cfg env) findL1Origin builder l2Head of
       Inl err \<Rightarrow> ((e, dp), Inl err)
     | Inr (_, attrs) \<Rightarrow>
         (case Pipeline_StartPayload env l2Head attrs False (e, dp) of
            (s', Inl (_, err)) \<Rightarrow>
              (s', Inl (if is_panic err then err else Wrap ''failed to start building on top of L2 chain'' err))
          | (s', Inr _) \<Rightarrow> (s', Inr ())))"

definition CompleteBuildingBlock ::
  "('e, 's) dp_env \<Rightarrow> 'e \<times> 's derivation_pipeline \<Rightarrow>
   ('e \<times> 's derivation_pipeline) \<times> execution_payload result" where
  "CompleteBuildingBlock env s =
     (case Pipeline_ConfirmPayload env s of
        (s', Inl (_, err)) \<Rightarrow>
          (s', Inl (if is_panic err then err else Wrap ''failed to complete building block'' err))
      | (s', Inr payload) \<Rightarrow> (s', Inr payload))"

definition CancelBuildingBlock ::
  "('e, 's) dp_env \<Rightarrow> 'e \<times> 's derivation_pipeline \<Rightarrow> 'e \<times> 's derivation_pipeline" where
  "CancelBuildingBlock env s = fst (Pipeline_CancelPayload env True s)"

definition BuildingOnto :: "'s derivation_pipeline \<Rightarrow> l2_block_ref" where
  "BuildingOnto dp = buildingOnto (dp_eng dp)"

section \<open>Timing\<close>

definition second :: int where
  "second = 1000000000"

definition sealingDuration :: int where
  "sealingDuration = 50000000"

text \<open>\<open>time.Duration(n) * time.Second\<close> wraps, \<open>Time.Sub\<close> saturates.\<close>

definition seconds :: "u64 \<Rightarrow> int" where
  "seconds n = signed_take_bit 63 (sint n * second)"

definition time_Sub :: "int \<Rightarrow> int \<Rightarrow> int" where
  "time_Sub t u = max (- (2 ^ 63)) (min (2 ^ 63 - 1) (t - u))"

record sequencer =
  nextAction :: int

text \<open>The zero value of \<open>time.Time\<close> is the start of the year 1.\<close>

definition NewSequencer :: sequencer where
  "NewSequencer = \<lparr>nextAction = - 62135596800 * second\<rparr>"

definition PlanNextSequencerAction :: "config \<Rightarrow> int \<Rightarrow> sequencer \<Rightarrow> 's derivation_pipeline \<Rightarrow> int" where
  "PlanNextSequencerAction cfg now sq dp =
     (let eq = dp_eng dp; head = eq_unsafeHead eq in
      if buildingSafe eq then seconds (BlockTime cfg)
      else
        let delay = time_Sub (nextAction sq) now in
        if delay > 0 \<and> l2_Hash (buildingOnto eq) = l2_Hash head then delay
        else
          let blockTime = seconds (BlockTime cfg);
              payloadTime = sint (l2_Time head + BlockTime cfg) * second;
              remainingTime = time_Sub payloadTime now
          in if buildingID eq \<noteq> zero_id \<and> l2_Hash (buildingOnto eq) = l2_Hash head
             then (if remainingTime < sealingDuration then 0 else remainingTime - sealingDuration)
             else (if remainingTime > blockTime then remainingTime - blockTime else 0))"

text \<open>The sequencer with the engine and the pipeline that it controls. The result is the payload to
  publish, if any; only critical errors (and panics) are passed on.\<close>

type_synonym ('e, 's) sequencer_state = "sequencer \<times> 'e \<times> 's derivation_pipeline"

definition complete_failed ::
  "('e, 's) dp_env \<Rightarrow> int \<Rightarrow> error \<Rightarrow> ('e, 's) sequencer_state \<Rightarrow>
   ('e, 's) sequencer_state \<times> execution_payload option result" where
  "complete_failed env now err = (\<lambda>(sq, s).
     if is_panic err \<or> errors_Is err ErrCritical then ((sq, s), Inl err)
     else if errors_Is err ErrReset
     then (case CancelBuildingBlock env s of (e, dp) \<Rightarrow>
             ((sq\<lparr>nextAction := now + seconds (BlockTime (dp_cfg env))\<rparr>, e, Pipeline_Reset dp), Inr None))
     else if errors_Is err ErrTemporary then ((sq\<lparr>nextAction := now + second\<rparr>, s), Inr None)
     else ((sq\<lparr>nextAction := now + second\<rparr>, CancelBuildingBlock env s), Inr None))"

definition start_failed ::
  "('e, 's) dp_env \<Rightarrow> int \<Rightarrow> error \<Rightarrow> ('e, 's) sequencer_state \<Rightarrow>
   ('e, 's) sequencer_state \<times> execution_payload option result" where
  "start_failed env now err = (\<lambda>(sq, e, dp).
     if is_panic err \<or> errors_Is err ErrCritical then ((sq, e, dp), Inl err)
     else if errors_Is err ErrReset
     then ((sq\<lparr>nextAction := now + seconds (BlockTime (dp_cfg env))\<rparr>, e, Pipeline_Reset dp), Inr None)
     else ((sq\<lparr>nextAction := now + second\<rparr>, e, dp), Inr None))"

definition RunNextSequencerAction ::
  "('e, 's) dp_env \<Rightarrow> (l2_block_ref \<Rightarrow> l1_block_ref result) \<Rightarrow> attributes_builder \<Rightarrow> int \<Rightarrow>
   ('e, 's) sequencer_state \<Rightarrow> ('e, 's) sequencer_state \<times> execution_payload option result" where
  "RunNextSequencerAction env findL1Origin builder now = (\<lambda>(sq, e, dp).
     if buildingID (dp_eng dp) \<noteq> zero_id
     then if buildingSafe (dp_eng dp)
          then ((sq\<lparr>nextAction := now + seconds (BlockTime (dp_cfg env))\<rparr>, e, dp), Inr None)
          else (case CompleteBuildingBlock env (e, dp) of
                  (s', Inl err) \<Rightarrow> complete_failed env now err (sq, s')
                | (s', Inr payload) \<Rightarrow> ((sq, s'), Inr (Some payload)))
     else (case StartBuildingBlock env findL1Origin builder (e, dp) of
             (s', Inl err) \<Rightarrow> start_failed env now err (sq, s')
           | (s', Inr _) \<Rightarrow> ((sq, s'), Inr None)))"

section \<open>What the sequencer leaves alone\<close>

text \<open>Everything but the building state and the unsafe head.\<close>

definition untouched :: "engine_queue \<Rightarrow> engine_queue \<Rightarrow> bool" where
  "untouched eq eq' = (same_tracking eq eq' \<and> unsafePayloads eq' = unsafePayloads eq)"

lemma Pipeline_building_tracking:
  "Pipeline_StartPayload env par attrs safe (e, dp) = ((e', dp'), r) \<Longrightarrow>
     untouched (dp_eng dp) (dp_eng dp') \<and> dp_lower dp' = dp_lower dp"
  "Pipeline_CancelPayload env force (e, dp) = ((e', dp'), r') \<Longrightarrow>
     untouched (dp_eng dp) (dp_eng dp') \<and> dp_lower dp' = dp_lower dp"
  by (auto simp: Pipeline_StartPayload_def Pipeline_CancelPayload_def untouched_def split: prod.splits
      dest: StartPayload_tracking CancelPayload_tracking)

lemma Pipeline_Confirm_tracking:
  assumes "Pipeline_ConfirmPayload env (e, dp) = ((e', dp'), r)" "\<not> buildingSafe (dp_eng dp)"
  shows "untouched (dp_eng dp) (dp_eng dp') \<and> dp_lower dp' = dp_lower dp \<and>
     (\<forall>payload. r = Inr payload \<longrightarrow> payload_ref (engine_env env e) payload = Inr (eq_unsafeHead (dp_eng dp')))"
proof -
  obtain eq1 where c: "EngineQueue_ConfirmPayload (engine_env env e) (e, dp_eng dp) = ((e', eq1), r)"
    and dp': "dp' = dp\<lparr>dp_eng := eq1\<rparr>"
    using assms(1) by (auto simp: Pipeline_ConfirmPayload_def split: prod.splits)
  show ?thesis
  proof (cases r)
    case (Inl f)
    then show ?thesis using ConfirmPayload_fail [OF c [unfolded Inl]] by (simp add: dp' untouched_def same_tracking_def)
  next
    case (Inr payload)
    from c [unfolded Inr] show ?thesis
      by (rule ConfirmPayload_ok) (use assms(2) in \<open>auto simp: dp' Inr adopt_block_def untouched_def same_tracking_def Let_def\<close>)
  qed
qed

lemma untouched_refl [simp]: "untouched eq eq"
  by (simp add: untouched_def same_tracking_def)

lemma untouched_trans: "untouched a b \<Longrightarrow> untouched b c \<Longrightarrow> untouched a c"
  by (simp add: untouched_def same_tracking_def)

lemma CancelBuilding_tracking:
  "CancelBuildingBlock env (e, dp) = (e', dp') \<Longrightarrow>
   untouched (dp_eng dp) (dp_eng dp') \<and> dp_lower dp' = dp_lower dp"
  using Pipeline_building_tracking(2) [of env True e dp e' dp' "snd (Pipeline_CancelPayload env True (e, dp))"]
  by (simp add: CancelBuildingBlock_def prod_eq_iff)

lemma complete_failed_tracking:
  assumes "complete_failed env now err (sq, e, dp) = ((sq', e', dp'), r)"
  shows "untouched (dp_eng dp) (dp_eng dp') \<and> dp_lower dp' = dp_lower dp \<and>
     (\<forall>x. r = Inl x \<longrightarrow> is_panic x \<or> errors_Is x ErrCritical) \<and> (\<forall>p. r \<noteq> Inr (Some p))"
proof -
  obtain e1 dp1 where c: "CancelBuildingBlock env (e, dp) = (e1, dp1)" by fastforce
  from assms CancelBuilding_tracking [OF c] show ?thesis
    by (auto simp: complete_failed_def c Pipeline_Reset_def split: if_splits)
qed

lemma start_failed_tracking:
  assumes "start_failed env now err (sq, e, dp) = ((sq', e', dp'), r)"
  shows "untouched (dp_eng dp) (dp_eng dp') \<and> dp_lower dp' = dp_lower dp \<and>
     (\<forall>x. r = Inl x \<longrightarrow> is_panic x \<or> errors_Is x ErrCritical) \<and> (\<forall>p. r \<noteq> Inr (Some p))"
  using assms by (auto simp: start_failed_def Pipeline_Reset_def split: if_splits)

lemma StartBuilding_tracking:
  assumes "StartBuildingBlock env f b (e, dp) = ((e', dp'), r)"
  shows "untouched (dp_eng dp) (dp_eng dp') \<and> dp_lower dp' = dp_lower dp"
  using assms
  by (auto simp: StartBuildingBlock_def Let_def split: sum.splits prod.splits
      dest: Pipeline_building_tracking(1))

lemma RunNext_tracking:
  assumes "RunNextSequencerAction env findL1Origin builder now (sq, e, dp) = ((sq', e', dp'), r)"
  shows "untouched (dp_eng dp) (dp_eng dp') \<and> dp_lower dp' = dp_lower dp \<and>
     (\<forall>payload. r = Inr (Some payload) \<longrightarrow>
        payload_ref (engine_env env e) payload = Inr (eq_unsafeHead (dp_eng dp'))) \<and>
     (\<forall>x. r = Inl x \<longrightarrow> is_panic x \<or> errors_Is x ErrCritical)"
proof (cases "buildingID (dp_eng dp) = zero_id")
  case True
  obtain e1 dp1 r1 where s: "StartBuildingBlock env findL1Origin builder (e, dp) = ((e1, dp1), r1)"
    by (metis prod.exhaust)
  show ?thesis
  proof (cases r1)
    case (Inl err)
    with assms True s have "start_failed env now err (sq, e1, dp1) = ((sq', e', dp'), r)"
      by (simp add: RunNextSequencerAction_def)
    from start_failed_tracking [OF this] StartBuilding_tracking [OF s] show ?thesis
      by (simp add: untouched_def same_tracking_def)
  next
    case (Inr u)
    with assms True s StartBuilding_tracking [OF s] show ?thesis by (auto simp: RunNextSequencerAction_def)
  qed
next
  case building: False
  show ?thesis
  proof (cases "buildingSafe (dp_eng dp)")
    case True
    with building assms show ?thesis by (auto simp: RunNextSequencerAction_def)
  next
    case False
    obtain e1 dp1 r1 where c: "Pipeline_ConfirmPayload env (e, dp) = ((e1, dp1), r1)" by (metis prod.exhaust)
    show ?thesis
    proof (cases r1)
      case (Inl f)
      obtain err where "complete_failed env now err (sq, e1, dp1) = ((sq', e', dp'), r)"
        using assms building False c Inl
        by (cases f) (simp add: RunNextSequencerAction_def CompleteBuildingBlock_def)
      from complete_failed_tracking [OF this] Pipeline_Confirm_tracking [OF c False] show ?thesis
        by (simp add: untouched_def same_tracking_def)
    next
      case (Inr payload)
      with assms building False c Pipeline_Confirm_tracking [OF c False] show ?thesis
        by (auto simp: RunNextSequencerAction_def CompleteBuildingBlock_def)
    qed
  qed
qed

section \<open>Properties\<close>

text \<open>The batch of the block that the sequencer builds with these attributes on this head.\<close>

definition batch_of_block :: "l2_block_ref \<Rightarrow> l1_block_ref \<Rightarrow> payload_attributes \<Rightarrow> bytes list \<Rightarrow> batch_data" where
  "batch_of_block head origin attrs txs =
     \<lparr>b_ParentHash = l2_Hash head, EpochNum = l1_Number origin, EpochHash = l1_Hash origin,
      Timestamp = pa_Timestamp attrs, Transactions = txs\<rparr>"

lemma PreparePayloadAttributes_time:
  "PreparePayloadAttributes keccak marshalTx cfg l1 sys head i = Inr attrs \<Longrightarrow>
   pa_Timestamp attrs = l2_Time head + BlockTime cfg"
  by (auto simp: PreparePayloadAttributes_def rbind_Inr Let_def split: sum.splits prod.splits if_splits)

text \<open>C14: what the sequencer builds, verifiers accept. Take the attributes that the sequencer prepares on
  a head whose L1 origin it knows, and a block with them whose transactions are well formed and
  empty when the attributes ask for no pool transactions. Once a verifier knows the L1 block after
  the origin, and the batch was included within the sequencing window, \<open>CheckBatch\<close> accepts the batch
  of this block, whether the sequencer saw the next L1 block already or not.\<close>

theorem sequencer_block_accepted:
  assumes "sequencer_attributes cfg (FindL1Origin cfg l1)
      (PreparePayloadAttributes keccak marshalTx cfg l1' sys) head = Inr (origin, attrs)"
    and "L1BlockRefByHash l1 (Hash (L1Origin head)) = Inr cur"
    and "L1BlockRefByNumber l1 (l1_Number cur + 1) = Inr next \<or> (\<exists>err. L1BlockRefByNumber l1 (l1_Number cur + 1) = Inl err)"
    and "l1_Number next = l1_Number cur + 1" and "l1_Number cur < l1_Number next"
    and "l1_Time cur \<le> l2_Time head + BlockTime cfg"
    and "NoTxPool attrs \<longrightarrow> txs = []" and "list_all tx_ok txs"
    and "l1_Number incl \<le> l1_Number origin + SeqWindowSize cfg"
  shows "CheckBatch cfg (cur # next # later) head
     \<lparr>L1InclusionBlock = incl, Batch = batch_of_block head origin attrs txs\<rparr> = BatchAccept"
proof -
  from assms(1) obtain attrs0 where find: "FindL1Origin cfg l1 head = Inr origin"
    and prep: "PreparePayloadAttributes keccak marshalTx cfg l1' sys head (L1_ID origin) = Inr attrs0"
    and attrs: "attrs = attrs0\<lparr>NoTxPool := (pa_Timestamp attrs0 > l1_Time origin + MaxSequencerDrift cfg)\<rparr>"
    by (auto simp: sequencer_attributes_def rbind_Inr split: if_splits)
  have time: "pa_Timestamp attrs = l2_Time head + BlockTime cfg"
    using PreparePayloadAttributes_time [OF prep] attrs by simp
  have drift: "pa_Timestamp attrs \<le> l1_Time origin + MaxSequencerDrift cfg \<or> txs = []"
    using assms(7) attrs by (auto simp: not_less)
  have origin: "origin = next \<and> l1_Time next \<le> pa_Timestamp attrs \<or>
      origin = cur \<and> (pa_Timestamp attrs < l1_Time next \<or>
        pa_Timestamp attrs \<le> l1_Time cur + MaxSequencerDrift cfg)"
    using find assms(2,3) time
    by (auto simp: FindL1Origin_def Let_def not_less not_le split: if_splits)
  have "l1_Number next \<noteq> l1_Number cur" using assms(5) by auto
  then show ?thesis
    unfolding CheckBatch_accept
    using origin assms(4,5,6,8,9) time drift
    by (auto simp: batch_rules_def batch_origin_def batch_of_block_def drift_ok_def Let_def not_less
        not_le)
qed

text \<open>A sequencer that does not see L1 block 101 yet stays on block 100; the verifier knows both.\<close>

theorem sequencer_block_accepted_witness:
  "\<exists>attrs. sequencer_attributes example_cfg (FindL1Origin example_cfg (ex_l1_client\<lparr>L1BlockRefByNumber := \<lambda>_. Inl NotFound\<rparr>))
       (PreparePayloadAttributes (\<lambda>_. replicate 32 9) ex_marshalTx example_cfg ex_l1_client
          (\<lambda>_. Inr (gen_SystemConfig (Genesis example_cfg)))) ex_head = Inr (ex_l1 100, attrs) \<and>
     CheckBatch example_cfg [ex_l1 100, ex_l1 101] ex_head
       \<lparr>L1InclusionBlock = ex_l1 101, Batch = batch_of_block ex_head (ex_l1 100) attrs [[1, 2]]\<rparr> = BatchAccept"
proof -
  let ?l1 = "ex_l1_client\<lparr>L1BlockRefByNumber := \<lambda>_. Inl NotFound\<rparr>"
    and ?sc = "gen_SystemConfig (Genesis example_cfg)"
  have find: "FindL1Origin example_cfg ?l1 ex_head = Inr (ex_l1 100)"
    by (simp add: FindL1Origin_def ex_l1_client_def ex_head_def ex_l1_def)
  obtain attrs0 where prep: "PreparePayloadAttributes (\<lambda>_. replicate 32 9) ex_marshalTx example_cfg ex_l1_client
      (\<lambda>_. Inr ?sc) ex_head (L1_ID (ex_l1 100)) = Inr attrs0" and t: "pa_Timestamp attrs0 = 912"
    by (simp add: PreparePayloadAttributes_def epoch_inputs_def ex_head_def
        ex_l1_client_def L1InfoDepositBytes_def L1InfoDeposit_def L1Info_MarshalBinary_def
        WriteUint256_def ex_marshalTx_def example_cfg_def Let_def)
  have l1_time: "l1_Time (ex_l1 100) = 900" by (simp add: ex_l1_def)
  have "Hash (L1Origin ex_head) = l1_Hash (ex_l1 100)" by (simp add: ex_head_def L1_ID_def)
  then obtain attrs where attrs: "sequencer_attributes example_cfg (FindL1Origin example_cfg ?l1)
      (PreparePayloadAttributes (\<lambda>_. replicate 32 9) ex_marshalTx example_cfg ex_l1_client (\<lambda>_. Inr ?sc))
      ex_head = Inr (ex_l1 100, attrs)" and pool: "\<not> NoTxPool attrs"
    using t l1_time by (simp add: sequencer_attributes_def find prep)
  from sequencer_block_accepted [OF attrs, of "ex_l1 100" "ex_l1 101" "[[1, 2]]" "ex_l1 101" "[]"] attrs pool
  show ?thesis
    by (auto simp: ex_l1_client_def ex_l1_def ex_head_def tx_ok_def DepositTxType_def)
qed

text \<open>the sequencer never touches what is derived from L1: whatever it does, the safe head, the finalized
  head, the finality data and the stages of the pipeline stay as they are. A payload that it hands
  out for publishing is the new unsafe head, and only critical errors reach the driver.\<close>

theorem sequencer_keeps_safe:
  assumes "RunNextSequencerAction env findL1Origin builder now (sq, e, dp) = ((sq', e', dp'), r)"
  shows "eq_safeHead (dp_eng dp') = eq_safeHead (dp_eng dp) \<and> eq_finalized (dp_eng dp') = eq_finalized (dp_eng dp) \<and>
     finalityData (dp_eng dp') = finalityData (dp_eng dp) \<and> dp_lower dp' = dp_lower dp \<and>
     (\<forall>payload. r = Inr (Some payload) \<longrightarrow>
        payload_ref (engine_env env e) payload = Inr (eq_unsafeHead (dp_eng dp'))) \<and>
     (\<forall>x. r = Inl x \<longrightarrow> is_panic x \<or> errors_Is x ErrCritical)"
  using RunNext_tracking [OF assms] by (simp add: untouched_def same_tracking_def)

theorem sequencer_keeps_safe_witness:
  "\<exists>sq' e' dp' r. RunNextSequencerAction ex_dp_env (\<lambda>_. Inl NotFound) (\<lambda>_ _. Inl EOF) 0 (NewSequencer, (), ex_dp) =
       ((sq', e', dp'), r) \<and> eq_safeHead (dp_eng dp') = ex_head"
proof -
  obtain sq' e' dp' r where run: "RunNextSequencerAction ex_dp_env (\<lambda>_. Inl NotFound) (\<lambda>_ _. Inl EOF) 0
      (NewSequencer, (), ex_dp) = ((sq', e', dp'), r)"
    by (metis prod.exhaust)
  have "eq_safeHead (dp_eng ex_dp) = ex_head" by (simp add: ex_dp_def)
  with sequencer_keeps_safe [OF run] run show ?thesis by auto
qed

end
