(* ===== verification/Driver.thy ===== *)
theory Driver
  imports Sequencer
begin

text \<open>
  The driver of the rollup node (\<open>op-node/rollup/driver/driver.go\<close>, \<open>state.go\<close>): the mailboxes for signals
  from L1 and for payloads from the network, and the event loop that serves them. Every case of the
  loop's \<open>select\<close> is an event with a handler; a handler that does not return is \<open>None\<close>. Timers fire at
  any time after they were set, so only whether they are set is kept.
\<close>

section \<open>State\<close>

record driver_config =
  VerifierConfDepth :: u64
  SequencerConfDepth :: u64
  SequencerEnabled :: bool
  SequencerMaxSafeLag :: u64

text \<open>The network is optional; publishing a payload may fail and has a state of its own. The listener of
  the sequencer's state answers to starts and stops.\<close>

record ('e, 's, 'n) driver_env =
  drv_cfg :: driver_config
  drv_dp :: "('e, 's) dp_env"
  drv_network :: "(execution_payload \<Rightarrow> 'n \<Rightarrow> 'n \<times> unit result) option"
  drv_SequencerStarted :: "unit result"
  drv_SequencerStopped :: "unit result"

record ('e, 's, 'n) driver =
  dr_l1State :: l1_state
  dr_sequencer :: sequencer
  dr_engine :: 'e
  dr_derivation :: "'s derivation_pipeline"
  dr_net :: 'n
  SequencerStopped :: bool
  l1HeadSig :: "l1_block_ref list"
  l1SafeSig :: "l1_block_ref list"
  l1FinalizedSig :: "l1_block_ref list"
  unsafeL2Payloads :: "execution_payload list"
  stepReqCh :: bool
  delayedStepReq :: bool
  stepAttempts :: nat
  sequencerCh :: bool
  lastUnsafeL2 :: l2_block_ref
  dr_exited :: bool

definition NewDriver :: "bool \<Rightarrow> 'e \<Rightarrow> 'n \<Rightarrow> ('e, 's, 'n) driver" where
  "NewDriver stopped e net =
     \<lparr>dr_l1State = NewL1State, dr_sequencer = NewSequencer, dr_engine = e,
      dr_derivation = NewDerivationPipeline, dr_net = net, SequencerStopped = stopped, l1HeadSig = [],
      l1SafeSig = [], l1FinalizedSig = [], unsafeL2Payloads = [], stepReqCh = False,
      delayedStepReq = False, stepAttempts = 0, sequencerCh = False, lastUnsafeL2 = zero_l2_ref,
      dr_exited = False\<rparr>"

text \<open>The clients that the driver hands to the pipeline and to the sequencer.\<close>

definition pipeline_env :: "('e, 's, 'n) driver_env \<Rightarrow> ('e, 's, 'n) driver \<Rightarrow> ('e, 's) dp_env" where
  "pipeline_env env s =
     (drv_dp env)\<lparr>dp_l1 := NewConfDepth (VerifierConfDepth (drv_cfg env)) (st_l1Head (dr_l1State s)) (dp_l1 (drv_dp env))\<rparr>"

definition driver_findL1Origin ::
  "('e, 's, 'n) driver_env \<Rightarrow> ('e, 's, 'n) driver \<Rightarrow> l2_block_ref \<Rightarrow> l1_block_ref result" where
  "driver_findL1Origin env s =
     FindL1Origin (dp_cfg (drv_dp env))
       (NewConfDepth (SequencerConfDepth (drv_cfg env)) (st_l1Head (dr_l1State s)) (dp_l1 (drv_dp env)))"

definition driver_builder :: "('e, 's, 'n) driver_env \<Rightarrow> ('e, 's, 'n) driver \<Rightarrow> attributes_builder" where
  "driver_builder env s =
     PreparePayloadAttributes (dp_keccak (drv_dp env)) (dp_marshalTx (drv_dp env)) (dp_cfg (drv_dp env))
       (dp_l1 (drv_dp env)) (eng_SystemConfigByL2Hash (dp_engine (drv_dp env)) (dr_engine s))"

section \<open>Mailboxes\<close>

text \<open>A send on a channel with room for ten elements, or the context's error. When the channel is full,
  the send waits; it goes through later or fails when the context expires.\<close>

definition mailbox_size :: nat where
  "mailbox_size = 10"

definition DeadlineExceeded :: error where
  "DeadlineExceeded = External ''context deadline exceeded''"

definition send :: "bool \<Rightarrow> 'a \<Rightarrow> 'a list \<Rightarrow> 'a list \<times> unit result" where
  "send expired x box =
     (if length box < mailbox_size \<and> \<not> expired then (box @ [x], Inr ()) else (box, Inl DeadlineExceeded))"

definition OnL1Head ::
  "bool \<Rightarrow> l1_block_ref \<Rightarrow> ('e, 's, 'n) driver \<Rightarrow> ('e, 's, 'n) driver \<times> unit result" where
  "OnL1Head expired ref s = (case send expired ref (l1HeadSig s) of (box, r) \<Rightarrow> (s\<lparr>l1HeadSig := box\<rparr>, r))"

definition OnL1Safe ::
  "bool \<Rightarrow> l1_block_ref \<Rightarrow> ('e, 's, 'n) driver \<Rightarrow> ('e, 's, 'n) driver \<times> unit result" where
  "OnL1Safe expired ref s = (case send expired ref (l1SafeSig s) of (box, r) \<Rightarrow> (s\<lparr>l1SafeSig := box\<rparr>, r))"

definition OnL1Finalized ::
  "bool \<Rightarrow> l1_block_ref \<Rightarrow> ('e, 's, 'n) driver \<Rightarrow> ('e, 's, 'n) driver \<times> unit result" where
  "OnL1Finalized expired ref s =
     (case send expired ref (l1FinalizedSig s) of (box, r) \<Rightarrow> (s\<lparr>l1FinalizedSig := box\<rparr>, r))"

definition OnUnsafeL2Payload ::
  "bool \<Rightarrow> execution_payload \<Rightarrow> ('e, 's, 'n) driver \<Rightarrow> ('e, 's, 'n) driver \<times> unit result" where
  "OnUnsafeL2Payload expired payload s =
     (case send expired payload (unsafeL2Payloads s) of (box, r) \<Rightarrow> (s\<lparr>unsafeL2Payloads := box\<rparr>, r))"

section \<open>Step requests\<close>

definition step :: "('e, 's, 'n) driver \<Rightarrow> ('e, 's, 'n) driver" where
  "step s = s\<lparr>stepReqCh := True\<rparr>"

definition reqStep :: "('e, 's, 'n) driver \<Rightarrow> ('e, 's, 'n) driver" where
  "reqStep s = (if stepAttempts s > 0 then s\<lparr>delayedStepReq := True\<rparr> else step s)"

definition planSequencerAction :: "('e, 's, 'n) driver \<Rightarrow> ('e, 's, 'n) driver" where
  "planSequencerAction s = s\<lparr>sequencerCh := True\<rparr>"

definition Driver_Start ::
  "('e, 's, 'n) driver_env \<Rightarrow> ('e, 's, 'n) driver \<Rightarrow> ('e, 's, 'n) driver \<times> unit result" where
  "Driver_Start env s =
     (let s1 = s\<lparr>dr_derivation := Pipeline_Reset (dr_derivation s)\<rparr>;
          notified = (if \<not> SequencerEnabled (drv_cfg env) then Inr ()
                      else if SequencerStopped s then drv_SequencerStopped env else drv_SequencerStarted env)
      in case notified of
           Inl err \<Rightarrow> (s1, Inl (Wrap ''persist initial sequencer state'' err))
         | Inr _ \<Rightarrow>
             ((reqStep s1)\<lparr>lastUnsafeL2 := eq_unsafeHead (dp_eng (dr_derivation s1))\<rparr>, Inr ()))"

text \<open>The start of every iteration: whether the sequencer's timer is set.\<close>

definition loop_head :: "('e, 's, 'n) driver_env \<Rightarrow> ('e, 's, 'n) driver \<Rightarrow> ('e, 's, 'n) driver" where
  "loop_head env s =
     (let eq = dp_eng (dr_derivation s); ready = EngineReady (dr_derivation s);
          lag = SequencerMaxSafeLag (drv_cfg env);
          s1 = (if SequencerEnabled (drv_cfg env) \<and> \<not> SequencerStopped s \<and>
                   st_l1Head (dr_l1State s) \<noteq> zero_l1_ref \<and> ready
                then if lag > 0 \<and> l2_Number (eq_safeHead eq) + lag \<le> l2_Number (eq_unsafeHead eq)
                     then s\<lparr>sequencerCh := False\<rparr>
                     else if L2_ID (BuildingOnto (dr_derivation s)) \<noteq> L2_ID (eq_unsafeHead eq)
                     then planSequencerAction s else s
                else s\<lparr>sequencerCh := False\<rparr>)
      in if eq_unsafeHead eq \<noteq> lastUnsafeL2 s1 \<or> \<not> ready then s1\<lparr>lastUnsafeL2 := eq_unsafeHead eq\<rparr> else s1)"

section \<open>Events\<close>

text \<open>What follows the result of a derivation step. A panic ends the process.\<close>

definition after_step :: "unit result \<Rightarrow> ('e, 's, 'n) driver \<Rightarrow> ('e, 's, 'n) driver" where
  "after_step r s0 =
     (let s = s0\<lparr>stepAttempts := stepAttempts s0 + 1\<rparr> in
      case r of
        Inr _ \<Rightarrow> reqStep (s\<lparr>stepAttempts := 0\<rparr>)
      | Inl err \<Rightarrow>
          if is_panic err then s\<lparr>dr_exited := True\<rparr>
          else if err = EOF then s\<lparr>stepAttempts := 0\<rparr>
          else if errors_Is err EngineP2PSyncing then s\<lparr>stepAttempts := 0\<rparr>
          else if errors_Is err ErrReset then s\<lparr>dr_derivation := Pipeline_Reset (dr_derivation s)\<rparr>
          else if errors_Is err ErrTemporary then reqStep s
          else if errors_Is err ErrCritical then s\<lparr>dr_exited := True\<rparr>
          else if errors_Is err NotEnoughData then reqStep (s\<lparr>stepAttempts := 0\<rparr>)
          else reqStep s)"

definition handle_StepReq ::
  "('e, 's, 'n) driver_env \<Rightarrow> ('e, 's, 'n) driver \<Rightarrow> ('e, 's, 'n) driver option" where
  "handle_StepReq env s =
     (case Pipeline_Step (pipeline_env env s) (dr_engine s, dr_derivation s) of
        None \<Rightarrow> None
      | Some ((e, dp), r) \<Rightarrow>
          Some (after_step r (s\<lparr>stepReqCh := False, dr_engine := e, dr_derivation := dp\<rparr>)))"

text \<open>A new block is published when there is a network; a failure to publish is only logged.\<close>

definition publish_block ::
  "('e, 's, 'n) driver_env \<Rightarrow> execution_payload option \<Rightarrow> ('e, 's, 'n) driver \<Rightarrow> ('e, 's, 'n) driver" where
  "publish_block env payload s =
     (case (drv_network env, payload) of
        (Some publish, Some p) \<Rightarrow> s\<lparr>dr_net := fst (publish p (dr_net s))\<rparr>
      | _ \<Rightarrow> s)"

definition handle_Sequencer ::
  "('e, 's, 'n) driver_env \<Rightarrow> int \<Rightarrow> ('e, 's, 'n) driver \<Rightarrow> ('e, 's, 'n) driver" where
  "handle_Sequencer env now s =
     (case RunNextSequencerAction (pipeline_env env s) (driver_findL1Origin env s) (driver_builder env s) now
             (dr_sequencer s, dr_engine s, dr_derivation s) of
        ((sq, e, dp), r) \<Rightarrow>
          let s1 = s\<lparr>dr_sequencer := sq, dr_engine := e, dr_derivation := dp\<rparr> in
          case r of
            Inl _ \<Rightarrow> s1\<lparr>dr_exited := True\<rparr>
          | Inr payload \<Rightarrow> planSequencerAction (publish_block env payload s1))"

definition handle_UnsafePayload :: "('e, 's, 'n) driver \<Rightarrow> ('e, 's, 'n) driver option" where
  "handle_UnsafePayload s =
     (case unsafeL2Payloads s of
        [] \<Rightarrow> Some s
      | payload # rest \<Rightarrow>
          let s1 = s\<lparr>unsafeL2Payloads := rest\<rparr> in
          (case Pipeline_AddUnsafePayload (Some payload) (dr_derivation s1) of
             None \<Rightarrow> None
           | Some (Inl _) \<Rightarrow> Some (s1\<lparr>dr_exited := True\<rparr>)
           | Some (Inr dp) \<Rightarrow> Some (reqStep (s1\<lparr>dr_derivation := dp\<rparr>))))"

definition handle_L1Head :: "('e, 's, 'n) driver \<Rightarrow> ('e, 's, 'n) driver" where
  "handle_L1Head s =
     (case l1HeadSig s of
        [] \<Rightarrow> s
      | ref # rest \<Rightarrow>
          reqStep (s\<lparr>l1HeadSig := rest, dr_l1State := HandleNewL1HeadBlock ref (dr_l1State s)\<rparr>))"

definition handle_L1Safe :: "('e, 's, 'n) driver \<Rightarrow> ('e, 's, 'n) driver" where
  "handle_L1Safe s =
     (case l1SafeSig s of
        [] \<Rightarrow> s
      | ref # rest \<Rightarrow> s\<lparr>l1SafeSig := rest, dr_l1State := HandleNewL1SafeBlock ref (dr_l1State s)\<rparr>)"

definition handle_L1Finalized :: "('e, 's, 'n) driver \<Rightarrow> ('e, 's, 'n) driver" where
  "handle_L1Finalized s =
     (case l1FinalizedSig s of
        [] \<Rightarrow> s
      | ref # rest \<Rightarrow>
          reqStep (s\<lparr>l1FinalizedSig := rest, dr_l1State := HandleNewL1FinalizedBlock ref (dr_l1State s),
                     dr_derivation := Pipeline_Finalize ref (dr_derivation s)\<rparr>))"

definition handle_Delayed :: "('e, 's, 'n) driver \<Rightarrow> ('e, 's, 'n) driver" where
  "handle_Delayed s = step (s\<lparr>delayedStepReq := False\<rparr>)"

definition handle_ForceReset :: "('e, 's, 'n) driver \<Rightarrow> ('e, 's, 'n) driver" where
  "handle_ForceReset s = s\<lparr>dr_derivation := Pipeline_Reset (dr_derivation s)\<rparr>"

definition handle_StartSequencer ::
  "('e, 's, 'n) driver_env \<Rightarrow> hash \<Rightarrow> ('e, 's, 'n) driver \<Rightarrow> ('e, 's, 'n) driver \<times> unit result" where
  "handle_StartSequencer env h s =
     (if \<not> SequencerStopped s then (s, Inl (Errorf ''sequencer already running''))
      else if l2_Hash (eq_unsafeHead (dp_eng (dr_derivation s))) \<noteq> h
      then (s, Inl (Errorf ''block hash does not match''))
      else (case drv_SequencerStarted env of
              Inl err \<Rightarrow> (s, Inl (Wrap ''sequencer start notification'' err))
            | Inr _ \<Rightarrow> (planSequencerAction (s\<lparr>SequencerStopped := False\<rparr>), Inr ())))"

definition handle_StopSequencer ::
  "('e, 's, 'n) driver_env \<Rightarrow> ('e, 's, 'n) driver \<Rightarrow> ('e, 's, 'n) driver \<times> hash result" where
  "handle_StopSequencer env s =
     (if SequencerStopped s then (s, Inl (Errorf ''sequencer not running''))
      else (case drv_SequencerStopped env of
              Inl err \<Rightarrow> (s, Inl (Wrap ''sequencer start notification'' err))
            | Inr _ \<Rightarrow> (s\<lparr>SequencerStopped := True\<rparr>, Inr (l2_Hash (eq_unsafeHead (dp_eng (dr_derivation s)))))))"

text \<open>The range of blocks that is requested from the alternative sync source; \<open>None\<close> is no request.\<close>

definition checkForGapInUnsafeQueue ::
  "('e, 's, 'n) driver_env \<Rightarrow> ('e, 's, 'n) driver \<Rightarrow> (l2_block_ref \<times> l2_block_ref) option" where
  "checkForGapInUnsafeQueue env s =
     (let start = eq_unsafeHead (dp_eng (dr_derivation s));
          end' = UnsafeL2SyncTarget (engine_env (pipeline_env env s) (dr_engine s)) (dp_eng (dr_derivation s))
      in if end' = zero_l2_ref then Some (start, zero_l2_ref)
         else if l2_Number end' > l2_Number start + 1 then Some (start, end')
         else None)"

record sync_status =
  CurrentL1 :: l1_block_ref
  CurrentL1Finalized :: l1_block_ref
  HeadL1 :: l1_block_ref
  SafeL1 :: l1_block_ref
  FinalizedL1 :: l1_block_ref
  UnsafeL2 :: l2_block_ref
  SafeL2 :: l2_block_ref
  FinalizedL2 :: l2_block_ref
  SyncTarget :: l2_block_ref
  EngineTarget :: l2_block_ref

definition syncStatus :: "('e, 's, 'n) driver_env \<Rightarrow> ('e, 's, 'n) driver \<Rightarrow> sync_status" where
  "syncStatus env s =
     (let eq = dp_eng (dr_derivation s); l1 = dr_l1State s in
      \<lparr>CurrentL1 = eq_origin eq, CurrentL1Finalized = finalizedL1 eq, HeadL1 = st_l1Head l1,
       SafeL1 = st_l1Safe l1, FinalizedL1 = st_l1Finalized l1, UnsafeL2 = eq_unsafeHead eq,
       SafeL2 = eq_safeHead eq, FinalizedL2 = eq_finalized eq,
       SyncTarget = UnsafeL2SyncTarget (engine_env (pipeline_env env s) (dr_engine s)) eq,
       EngineTarget = eq_engineSyncTarget eq\<rparr>)"

section \<open>The event loop\<close>

text \<open>One iteration: the head of the loop, then one of the events that are possible. Signals from the
  outside arrive between iterations.\<close>

inductive driver_loop ::
  "('e, 's, 'n) driver_env \<Rightarrow> ('e, 's, 'n) driver \<Rightarrow> ('e, 's, 'n) driver \<Rightarrow> bool" for env where
  Seq: "\<not> dr_exited s \<Longrightarrow> sequencerCh (loop_head env s) \<Longrightarrow>
    driver_loop env s (handle_Sequencer env now ((loop_head env s)\<lparr>sequencerCh := False\<rparr>))"
| Payload: "\<not> dr_exited s \<Longrightarrow> unsafeL2Payloads s \<noteq> [] \<Longrightarrow>
    handle_UnsafePayload (loop_head env s) = Some s' \<Longrightarrow> driver_loop env s s'"
| Head: "\<not> dr_exited s \<Longrightarrow> l1HeadSig s \<noteq> [] \<Longrightarrow> driver_loop env s (handle_L1Head (loop_head env s))"
| Safe: "\<not> dr_exited s \<Longrightarrow> l1SafeSig s \<noteq> [] \<Longrightarrow> driver_loop env s (handle_L1Safe (loop_head env s))"
| Final: "\<not> dr_exited s \<Longrightarrow> l1FinalizedSig s \<noteq> [] \<Longrightarrow> driver_loop env s (handle_L1Finalized (loop_head env s))"
| Delayed: "\<not> dr_exited s \<Longrightarrow> delayedStepReq s \<Longrightarrow> driver_loop env s (handle_Delayed (loop_head env s))"
| Derive: "\<not> dr_exited s \<Longrightarrow> stepReqCh s \<Longrightarrow> handle_StepReq env (loop_head env s) = Some s' \<Longrightarrow> driver_loop env s s'"
| Force: "\<not> dr_exited s \<Longrightarrow> driver_loop env s (handle_ForceReset (loop_head env s))"
| StartSeq: "\<not> dr_exited s \<Longrightarrow> driver_loop env s (fst (handle_StartSequencer env h (loop_head env s)))"
| StopSeq: "\<not> dr_exited s \<Longrightarrow> driver_loop env s (fst (handle_StopSequencer env (loop_head env s)))"
| Idle: "\<not> dr_exited s \<Longrightarrow> driver_loop env s (loop_head env s)"
| Done: "\<not> dr_exited s \<Longrightarrow> driver_loop env s ((loop_head env s)\<lparr>dr_exited := True\<rparr>)"

text \<open>The driver as the rest of the node sees it: iterations of the loop and incoming signals.\<close>

inductive driver_step ::
  "('e, 's, 'n) driver_env \<Rightarrow> ('e, 's, 'n) driver \<Rightarrow> ('e, 's, 'n) driver \<Rightarrow> bool" for env where
  Loop: "driver_loop env s s' \<Longrightarrow> driver_step env s s'"
| Signal_Head: "driver_step env s (fst (OnL1Head expired ref s))"
| Signal_Safe: "driver_step env s (fst (OnL1Safe expired ref s))"
| Signal_Finalized: "driver_step env s (fst (OnL1Finalized expired ref s))"
| Signal_Payload: "driver_step env s (fst (OnUnsafeL2Payload expired payload s))"

section \<open>The safe head in the driver\<close>

abbreviation safe_head :: "('e, 's, 'n) driver \<Rightarrow> l2_block_ref" where
  "safe_head s \<equiv> eq_safeHead (dp_eng (dr_derivation s))"

lemma loop_head_simps [simp]:
  "dr_derivation (loop_head env s) = dr_derivation s" "dr_engine (loop_head env s) = dr_engine s"
  "dr_l1State (loop_head env s) = dr_l1State s" "dr_sequencer (loop_head env s) = dr_sequencer s"
  "unsafeL2Payloads (loop_head env s) = unsafeL2Payloads s" "dr_net (loop_head env s) = dr_net s"
  by (simp_all add: loop_head_def planSequencerAction_def Let_def)

lemma reqStep_simps [simp]:
  "dr_derivation (reqStep s) = dr_derivation s" "unsafeL2Payloads (reqStep s) = unsafeL2Payloads s"
  "dr_derivation (planSequencerAction s) = dr_derivation s"
  by (simp_all add: reqStep_def step_def planSequencerAction_def)

lemma signals_derivation [simp]:
  "dr_derivation (fst (OnL1Head x r s)) = dr_derivation s" "dr_derivation (fst (OnL1Safe x r s)) = dr_derivation s"
  "dr_derivation (fst (OnL1Finalized x r s)) = dr_derivation s"
  "dr_derivation (fst (OnUnsafeL2Payload x p s)) = dr_derivation s"
  by (simp_all add: OnL1Head_def OnL1Safe_def OnL1Finalized_def OnUnsafeL2Payload_def split: prod.splits)

lemma Finalize_safeHead [simp]: "eq_safeHead (Finalize l1 eq) = eq_safeHead eq"
  by (simp add: Finalize_def Let_def)

lemma AddUnsafePayload_safeHead:
  "AddUnsafePayload p eq = Some (Inr eq') \<Longrightarrow> eq_safeHead eq' = eq_safeHead eq"
  by (auto simp: AddUnsafePayload_def split: option.splits sum.splits)

lemma events_keep_safe_head:
  "safe_head (handle_L1Head s) = safe_head s" "safe_head (handle_L1Safe s) = safe_head s"
  "safe_head (handle_L1Finalized s) = safe_head s" "safe_head (handle_Delayed s) = safe_head s"
  "safe_head (handle_ForceReset s) = safe_head s" "safe_head (fst (handle_StartSequencer env h s)) = safe_head s"
  "safe_head (fst (handle_StopSequencer env s)) = safe_head s"
  by (simp_all add: handle_L1Head_def handle_L1Safe_def handle_L1Finalized_def handle_Delayed_def step_def
      handle_ForceReset_def Pipeline_Reset_def Pipeline_Finalize_def handle_StartSequencer_def
      handle_StopSequencer_def split: list.splits sum.splits)

lemma Pipeline_AddUnsafePayload_Inr:
  "Pipeline_AddUnsafePayload p dp = Some (Inr dp') \<longleftrightarrow>
   (\<exists>eq. AddUnsafePayload p (dp_eng dp) = Some (Inr eq) \<and> dp' = dp\<lparr>dp_eng := eq\<rparr>)"
  by (cases "AddUnsafePayload p (dp_eng dp)"; cases "the (AddUnsafePayload p (dp_eng dp))")
    (auto simp: Pipeline_AddUnsafePayload_def)

lemma handle_UnsafePayload_safe_head:
  "handle_UnsafePayload s = Some s' \<Longrightarrow> safe_head s' = safe_head s"
  by (auto simp: handle_UnsafePayload_def Let_def Pipeline_AddUnsafePayload_Inr
      split: list.splits option.splits sum.splits dest: AddUnsafePayload_safeHead)

lemma handle_Sequencer_safe_head: "safe_head (handle_Sequencer env now s) = safe_head s"
proof -
  obtain sq e dp r where run: "RunNextSequencerAction (pipeline_env env s) (driver_findL1Origin env s)
      (driver_builder env s) now (dr_sequencer s, dr_engine s, dr_derivation s) = ((sq, e, dp), r)"
    by (metis prod.exhaust)
  from RunNext_tracking [OF this] show ?thesis
    by (auto simp: handle_Sequencer_def run publish_block_def untouched_def same_tracking_def Let_def
        split: sum.splits option.splits)
qed

lemma after_step_safe_head: "safe_head (after_step r s) = safe_head s"
  by (auto simp: after_step_def Pipeline_Reset_def Let_def split: sum.splits)

text \<open>A derivation step changes the safe head by a reset of the engine queue, or in a step of the engine queue
  from queued attributes.\<close>

lemma Pipeline_Step_safe_head:
  assumes "Pipeline_Step env (e, dp) = Some ((e', dp'), r)"
    and "eq_safeHead (dp_eng dp') \<noteq> eq_safeHead (dp_eng dp)"
  shows "(\<exists>eq. dp_resetting dp = 0 \<and> EngineQueue_Reset (engine_env env e) e (dp_eng dp) = Some (eq, EOF) \<and> dp_eng dp' = eq) \<or>
     (\<exists>awp payload. safeAttributes (dp_eng dp) = Some awp \<and> awp_parent awp = eq_safeHead (dp_eng dp) \<and>
        safe_source (engine_env env e) e (eq_safeHead (dp_eng dp)) (awp_attributes awp) payload \<and>
        payload_ref (engine_env env e) payload = Inr (eq_safeHead (dp_eng dp')))"
proof (cases "dp_resetting dp < numStages")
  case True
  have "err = EOF" if "EngineQueue_Reset (engine_env env e) e (dp_eng dp) = Some (eq, err)" "eq_safeHead eq \<noteq> eq_safeHead (dp_eng dp)" for eq err
    using that by (auto simp: EngineQueue_Reset_def Let_def split: option.splits sum.splits if_splits)
  with True assms show ?thesis
    by (auto simp: Pipeline_Step_def reset_stage_def split: option.splits if_splits prod.splits)
next
  case False
  obtain e1 p1 eq1 r1 where st: "EngineQueue_Step (engine_env env e) (e, dp_lower dp, dp_eng dp) = ((e1, p1, eq1), r1)"
    by (metis prod.exhaust)
  have eq1: "dp_eng dp' = eq1"
    using assms(1) False st by (auto simp: Pipeline_Step_def split: sum.splits if_splits prod.splits)
  from st show ?thesis
  proof (cases rule: Step_cases)
    case (changed awp payload)
    then show ?thesis using eq1 by blast
  qed (use assms(2) eq1 in \<open>auto simp: same_tracking_def\<close>)
qed

lemma driver_loop_safe_head:
  assumes "driver_loop env s s'" and "safe_head s' \<noteq> safe_head s"
  shows "\<not> dr_exited s \<and> stepReqCh s \<and>
     ((\<exists>eq. dp_resetting (dr_derivation s) = 0 \<and>
         EngineQueue_Reset (engine_env (pipeline_env env s) (dr_engine s)) (dr_engine s) (dp_eng (dr_derivation s)) = Some (eq, EOF) \<and>
         safe_head s' = eq_safeHead eq) \<or>
      (\<exists>awp payload. safeAttributes (dp_eng (dr_derivation s)) = Some awp \<and> awp_parent awp = safe_head s \<and>
         safe_source (engine_env (pipeline_env env s) (dr_engine s)) (dr_engine s) (safe_head s) (awp_attributes awp) payload \<and>
         payload_ref (engine_env (pipeline_env env s) (dr_engine s)) payload = Inr (safe_head s')))"
  using assms
proof (induction rule: driver_loop.induct)
  case (Derive s s')
  have env: "pipeline_env env (loop_head env s) = pipeline_env env s" by (simp add: pipeline_env_def)
  obtain e dp r where st: "Pipeline_Step (pipeline_env env s) (dr_engine s, dr_derivation s) = Some ((e, dp), r)"
    and head: "safe_head s' = eq_safeHead (dp_eng dp)"
    using Derive(3) by (auto simp: handle_StepReq_def env after_step_safe_head split: option.splits)
  from Pipeline_Step_safe_head [OF st] Derive head show ?case by auto
qed (simp_all add: events_keep_safe_head handle_UnsafePayload_safe_head handle_Sequencer_safe_head)

section \<open>Properties\<close>

text \<open>C13: in the running node, whatever signals arrive and in whatever order the events are served, the
  safe head changes only in a derivation step: either that step resets the engine queue and its heads
  are found anew, or attributes derived from L1 for the old safe head were queued and the new safe
  head is a block that agrees with them or that the engine built from them. Neither payloads from the
  network, nor the sequencer, nor finality signals move it.\<close>

theorem driver_safe_head_derived:
  assumes "driver_step env s s'" and "safe_head s' \<noteq> safe_head s"
  shows "\<not> dr_exited s \<and> stepReqCh s \<and>
     ((\<exists>eq. dp_resetting (dr_derivation s) = 0 \<and>
         EngineQueue_Reset (engine_env (pipeline_env env s) (dr_engine s)) (dr_engine s) (dp_eng (dr_derivation s)) = Some (eq, EOF) \<and>
         safe_head s' = eq_safeHead eq) \<or>
      (\<exists>awp payload. safeAttributes (dp_eng (dr_derivation s)) = Some awp \<and> awp_parent awp = safe_head s \<and>
         safe_source (engine_env (pipeline_env env s) (dr_engine s)) (dr_engine s) (safe_head s) (awp_attributes awp) payload \<and>
         payload_ref (engine_env (pipeline_env env s) (dr_engine s)) payload = Inr (safe_head s')))"
  using assms(1)
proof cases
  case Loop
  then show ?thesis using assms(2) by (rule driver_loop_safe_head)
qed (use assms(2) in simp_all)

text \<open>The driver with the engine queue of the earlier examples, about to take a derivation step.\<close>

definition ex_driver_env :: "(unit, unit, unit) driver_env" where
  "ex_driver_env = \<lparr>drv_cfg = \<lparr>VerifierConfDepth = 0, SequencerConfDepth = 4, SequencerEnabled = False,
     SequencerMaxSafeLag = 0\<rparr>, drv_dp = ex_dp_env, drv_network = None, drv_SequencerStarted = Inr (),
     drv_SequencerStopped = Inr ()\<rparr>"

definition ex_driver :: "(unit, unit, unit) driver" where
  "ex_driver = (NewDriver True () ())\<lparr>stepReqCh := True,
     dr_derivation := NewDerivationPipeline\<lparr>dp_resetting := 8, dp_eng := ex_eq\<rparr>\<rparr>"

theorem driver_safe_head_derived_witness:
  "\<exists>s'. driver_step ex_driver_env ex_driver s' \<and> l2_Hash (safe_head s') = replicate 32 2 \<and>
     (\<exists>awp. safeAttributes (dp_eng (dr_derivation ex_driver)) = Some awp \<and> awp_parent awp = safe_head ex_driver)"
proof -
  let ?env = "pipeline_env ex_driver_env ex_driver"
  obtain e1 p1 eq1 where st: "EngineQueue_Step (engine_env ?env ()) ((), dp_lower (dr_derivation ex_driver), ex_eq) = ((e1, p1, eq1), Inr ())"
    and hash: "l2_Hash (eq_safeHead eq1) = replicate 32 2"
    by (simp add: EngineQueue_Step_def ex_eq_def NewEngineQueue_def NewPayloadsQueue_def PayloadsQueue_Len_def
        step_safe_def isEngineSyncing_def tryNextSafeAttributes_def consolidateNextSafeAttributes_def
        pipeline_env_def ex_driver_env_def engine_env_def ex_dp_env_def ex_engine_def ex_safe_def ex_head_def
        AttributesMatchBlock_def ex_attrs_def ex_gen_block_def ex_block_def payload_ref_def
        PayloadToBlockRef_def example_cfg_def postProcessSafeL2_def finalityLookback_def Let_def)
  have d: "dr_derivation ex_driver = NewDerivationPipeline\<lparr>dp_resetting := 8, dp_eng := ex_eq\<rparr>"
    by (simp add: ex_driver_def)
  have env: "pipeline_env ex_driver_env (loop_head ex_driver_env ex_driver) = ?env"
    by (simp add: pipeline_env_def)
  obtain s' where s': "handle_StepReq ex_driver_env (loop_head ex_driver_env ex_driver) = Some s'"
    and eng: "dp_eng (dr_derivation s') = eq1"
    using st by (simp add: handle_StepReq_def env Pipeline_Step_def d numStages_def after_step_def)
  have step: "driver_step ex_driver_env ex_driver s'"
    by (rule driver_step.Loop [OF driver_loop.Derive [OF _ _ s']]) (simp_all add: ex_driver_def NewDriver_def)
  have "safe_head s' \<noteq> safe_head ex_driver"
    using hash eng by (auto simp: d ex_eq_def ex_safe_def)
  from driver_safe_head_derived [OF step this] step hash eng show ?thesis
    by (auto simp: d)
qed

end
