(* ===== verification/Commitments.thy ===== *)
theory Commitments
  imports Driver
begin

text \<open>
  Sequencer commitments: the node (\<open>op-node/node/\<close>) hands a payload from the network to its driver, and
  publishes a payload of its own sequencer, only after the L1 contract \<open>SystemConfig\<close> has screened it
  (\<open>pepc.go\<close>, \<open>node.go\<close>), with the sequencer address that is read from L1 (\<open>runtime_config.go\<close>). The L1
  contract, the ABI encoder and the hexadecimal codecs of go-ethereum are parameters.
\<close>

section \<open>Runtime configuration\<close>

record runtime_config =
  rc_l1Ref :: l1_block_ref
  p2pBlockSignerAddr :: address

definition UnsafeBlockSignerAddressSystemConfigStorageSlot :: hash where
  "UnsafeBlockSignerAddressSystemConfigStorageSlot =
     be_bytes 32 0x65a7ed542fb37fe237fdfbdd70b31598523fe5b32879e307bae27a0bd9581c08"

definition NewRuntimeConfig :: runtime_config where
  "NewRuntimeConfig = \<lparr>rc_l1Ref = zero_l1_ref, p2pBlockSignerAddr = zero_address\<rparr>"

definition P2PSequencerAddress :: "runtime_config \<Rightarrow> address" where
  "P2PSequencerAddress r = p2pBlockSignerAddr r"

text \<open>The address is the last 20 bytes of the storage value.\<close>

definition RuntimeConfig_Load ::
  "(address \<Rightarrow> hash \<Rightarrow> hash \<Rightarrow> hash result) \<Rightarrow> config \<Rightarrow> l1_block_ref \<Rightarrow> runtime_config \<Rightarrow>
   runtime_config \<times> unit result" where
  "RuntimeConfig_Load readStorageAt cfg l1Ref r =
     (case readStorageAt (L1SystemConfigAddress cfg) UnsafeBlockSignerAddressSystemConfigStorageSlot (l1_Hash l1Ref) of
        Inl err \<Rightarrow> (r, Inl (Wrap ''failed to fetch unsafe block signing address from system config'' err))
      | Inr val \<Rightarrow>
          (r\<lparr>rc_l1Ref := l1Ref, p2pBlockSignerAddr := drop (length val - 20) val\<rparr>, Inr ()))"

section \<open>Encoding of a payload\<close>

text \<open>The struct that is handed to the ABI encoder. The logs bloom is encoded as its hexadecimal string, the
  transactions as one byte string.\<close>

record abi_payload =
  abi_ParentHash :: hash
  abi_FeeRecipient :: address
  abi_StateRoot :: bytes
  abi_ReceiptsRoot :: bytes
  abi_LogsBloom :: bytes
  abi_PrevRandao :: bytes
  abi_BlockNumber :: u64
  abi_GasLimit :: u64
  abi_GasUsed :: u64
  abi_Timestamp :: u64
  abi_ExtraData :: bytes
  abi_BaseFeePerGas :: bytes
  abi_BlockHash :: hash
  abi_Transactions :: bytes

definition encodeTransactions :: "bytes list \<Rightarrow> bytes" where
  "encodeTransactions txs = concat txs"

definition abi_of_payload :: "(bytes \<Rightarrow> string) \<Rightarrow> execution_payload \<Rightarrow> abi_payload" where
  "abi_of_payload hexEncode payload =
     \<lparr>abi_ParentHash = ep_ParentHash payload, abi_FeeRecipient = FeeRecipient payload,
      abi_StateRoot = StateRoot payload, abi_ReceiptsRoot = ReceiptsRoot payload,
      abi_LogsBloom = ascii (hexEncode (LogsBloom payload)), abi_PrevRandao = ep_PrevRandao payload,
      abi_BlockNumber = BlockNumber payload, abi_GasLimit = ep_GasLimit payload,
      abi_GasUsed = GasUsed payload, abi_Timestamp = ep_Timestamp payload,
      abi_ExtraData = ExtraData payload, abi_BaseFeePerGas = be_bytes 32 (unat (BaseFeePerGas payload)),
      abi_BlockHash = BlockHash payload, abi_Transactions = encodeTransactions (ep_Transactions payload)\<rparr>"

definition encodePayload ::
  "(abi_payload \<Rightarrow> bytes result) \<Rightarrow> (bytes \<Rightarrow> string) \<Rightarrow> execution_payload \<Rightarrow> bytes result" where
  "encodePayload abiPack hexEncode payload = abiPack (abi_of_payload hexEncode payload)"

section \<open>Screening\<close>

text \<open>What the node has: the binding of the L1 contract (an instance is its function \<open>screen\<close>), the
  codecs, the identity of its network host if it runs one, and its signer.\<close>

record node_env =
  nd_cfg :: config
  nd_NewSystemConfig :: "address \<Rightarrow> (address \<Rightarrow> bytes \<Rightarrow> bytes \<Rightarrow> bool result) result"
  nd_abiPack :: "abi_payload \<Rightarrow> bytes result"
  nd_hexEncode :: "bytes \<Rightarrow> string"
  nd_Hex2BytesFixed :: "string \<Rightarrow> nat \<Rightarrow> bytes"
  nd_hostID :: "bytes option"
  nd_signer :: bool

definition target :: "node_env \<Rightarrow> bytes" where
  "target n = nd_Hex2BytesFixed n ''0x0000000000000000000000000000000000000000000000000000000000000001'' 32"

definition validateCommitments :: "node_env \<Rightarrow> runtime_config \<Rightarrow> execution_payload \<Rightarrow> unit result" where
  "validateCommitments n r payload =
     rbind (nd_NewSystemConfig n (L1SystemConfigAddress (nd_cfg n))) (\<lambda>screen.
     rbind (encodePayload (nd_abiPack n) (nd_hexEncode n) payload) (\<lambda>payloadBytes.
     rbind (screen (P2PSequencerAddress r) (target n) payloadBytes) (\<lambda>satisfied.
       if \<not> satisfied then Inl (Errorf ''Failed_Screening'') else Inr ())))"

section \<open>The node's handlers\<close>

definition Node_OnUnsafeL2Payload ::
  "node_env \<Rightarrow> runtime_config \<Rightarrow> bool \<Rightarrow> bytes \<Rightarrow> execution_payload \<Rightarrow> ('e, 's, 'n) driver \<Rightarrow>
   ('e, 's, 'n) driver \<times> unit result" where
  "Node_OnUnsafeL2Payload n r expired from payload s =
     (if nd_hostID n = Some from then (s, Inr ())
      else case validateCommitments n r payload of
             Inl err \<Rightarrow> (s, Inl err)
           | Inr _ \<Rightarrow> (fst (OnUnsafeL2Payload expired payload s), Inr ()))"

text \<open>Publishing on the gossip network, whose state is \<open>'g\<close>.\<close>

definition PublishL2Payload ::
  "(execution_payload \<Rightarrow> 'g \<Rightarrow> 'g \<times> unit result) \<Rightarrow> node_env \<Rightarrow> runtime_config \<Rightarrow> execution_payload \<Rightarrow>
   'g \<Rightarrow> 'g \<times> unit result" where
  "PublishL2Payload gossip n r payload g =
     (case validateCommitments n r payload of
        Inl err \<Rightarrow> (g, Inl err)
      | Inr _ \<Rightarrow>
          if nd_hostID n \<noteq> None
          then if \<not> nd_signer n then (g, Inl (Errorf ''node has no p2p signer, payload cannot be published''))
               else gossip payload g
          else (g, Inr ()))"

definition OnNewL1Head :: "bool \<Rightarrow> l1_block_ref \<Rightarrow> ('e, 's, 'n) driver \<Rightarrow> ('e, 's, 'n) driver" where
  "OnNewL1Head expired ref s = fst (OnL1Head expired ref s)"

definition OnNewL1Safe :: "bool \<Rightarrow> l1_block_ref \<Rightarrow> ('e, 's, 'n) driver \<Rightarrow> ('e, 's, 'n) driver" where
  "OnNewL1Safe expired ref s = fst (OnL1Safe expired ref s)"

definition OnNewL1Finalized :: "bool \<Rightarrow> l1_block_ref \<Rightarrow> ('e, 's, 'n) driver \<Rightarrow> ('e, 's, 'n) driver" where
  "OnNewL1Finalized expired ref s = fst (OnL1Finalized expired ref s)"

text \<open>The node: its handlers and the event loop of its driver. The node's environment changes with the L1
  chain; \<open>views\<close> are the environments and runtime configurations at which it may receive payloads.\<close>

inductive node_step ::
  "(node_env \<times> runtime_config) set \<Rightarrow> ('e, 's, 'n) driver_env \<Rightarrow> ('e, 's, 'n) driver \<Rightarrow> ('e, 's, 'n) driver \<Rightarrow> bool"
  for views env where
  Gossip: "(n, r) \<in> views \<Longrightarrow> Node_OnUnsafeL2Payload n r expired from payload s = (s', res) \<Longrightarrow>
    node_step views env s s'"
| L1Head: "node_step views env s (OnNewL1Head expired ref s)"
| L1Safe: "node_step views env s (OnNewL1Safe expired ref s)"
| L1Finalized: "node_step views env s (OnNewL1Finalized expired ref s)"
| Loop: "driver_loop env s s' \<Longrightarrow> node_step views env s s'"

section \<open>Enforcement\<close>

text \<open>A payload passed the screening of the L1 contract, for the sequencer and the target of the node.\<close>

definition screened :: "node_env \<times> runtime_config \<Rightarrow> execution_payload \<Rightarrow> bool" where
  "screened v payload =
     (case v of (n, r) \<Rightarrow>
        case nd_NewSystemConfig n (L1SystemConfigAddress (nd_cfg n)) of
          Inl _ \<Rightarrow> False
        | Inr screen \<Rightarrow>
            (case nd_abiPack n (abi_of_payload (nd_hexEncode n) payload) of
               Inl _ \<Rightarrow> False
             | Inr payloadBytes \<Rightarrow> screen (p2pBlockSignerAddr r) (target n) payloadBytes = Inr True))"

lemma validateCommitments_screened: "validateCommitments n r payload = Inr u \<longleftrightarrow> screened (n, r) payload"
  by (auto simp: validateCommitments_def screened_def encodePayload_def P2PSequencerAddress_def rbind_Inr
      split: sum.splits)

text \<open>The payloads that the driver has received and not processed, and those that wait for the engine.\<close>

definition queued_payloads :: "('e, 's, 'n) driver \<Rightarrow> execution_payload set" where
  "queued_payloads s =
     set (unsafeL2Payloads s) \<union> ps_payload ` set (pq (unsafePayloads (dp_eng (dr_derivation s))))"

abbreviation engine_payloads :: "('e, 's, 'n) driver \<Rightarrow> payloads_queue" where
  "engine_payloads s \<equiv> unsafePayloads (dp_eng (dr_derivation s))"

lemma Pop_payloads:
  assumes "pq_inv q"
  shows "set (pq (fst (PayloadsQueue_Pop q))) \<subseteq> set (pq q)"
proof (cases "pq q = []")
  case False
  obtain q' r where p: "PayloadsQueue_Pop q = (q', r)" by fastforce
  have "pq_core q" using assms by (simp add: pq_inv_def)
  from Pop_core [OF this False p] have "mset (pq q) = add_mset (hd (pq q)) (mset (pq q'))" by simp
  from arg_cong [OF this, of set_mset] show ?thesis by (auto simp: p)
qed (simp add: PayloadsQueue_Pop_def)

lemma Push_payloads:
  assumes "pq_inv q" "PayloadsQueue_Push q (Some p) = Some (q', r)"
  shows "ps_payload ` set (pq q') \<subseteq> insert p (ps_payload ` set (pq q))"
proof (cases "BlockHash p \<notin> blockHashes q \<and> SizeFn q (Some p) \<le> MaxSize q")
  case True
  with Push_core [OF assms(1), of p] assms(2) obtain dropped where
    "add_mset \<lparr>ps_payload = p, ps_size = SizeFn q (Some p)\<rparr> (mset (pq q)) = mset dropped + mset (pq q')" by auto
  from arg_cong [OF this, of set_mset]
  have "set (pq q') \<subseteq> insert \<lparr>ps_payload = p, ps_size = SizeFn q (Some p)\<rparr> (set (pq q))" by auto
  from image_mono [OF this, of ps_payload] show ?thesis by simp
next
  case False
  with assms(2) have "q' = q" by (auto simp: PayloadsQueue_Push_def not_le Let_def split: if_splits)
  then show ?thesis by auto
qed

lemma Pipeline_Step_payloads:
  assumes "Pipeline_Step env (e, dp) = Some ((e', dp'), r)"
  shows "unsafePayloads (dp_eng dp') = unsafePayloads (dp_eng dp) \<or>
     unsafePayloads (dp_eng dp') = fst (PayloadsQueue_Pop (unsafePayloads (dp_eng dp)))"
proof (cases "dp_resetting dp < numStages")
  case True
  have "unsafePayloads eq = unsafePayloads (dp_eng dp)"
    if "EngineQueue_Reset (engine_env env e) e (dp_eng dp) = Some (eq, err)" for eq err
    using that by (auto simp: EngineQueue_Reset_def reset_to_def Let_def split: option.splits sum.splits if_splits)
  with True assms show ?thesis
    by (auto simp: Pipeline_Step_def reset_stage_def split: option.splits if_splits prod.splits)
next
  case False
  obtain e1 p1 eq1 r1 where st: "EngineQueue_Step (engine_env env e) (e, dp_lower dp, dp_eng dp) = ((e1, p1, eq1), r1)"
    by (metis prod.exhaust)
  have "dp_eng dp' = eq1"
    using assms(1) False st by (auto simp: Pipeline_Step_def split: sum.splits if_splits prod.splits)
  with Step_payloads [OF st] show ?thesis by simp
qed

text \<open>What the driver keeps: a property of all queued payloads.\<close>

definition queues_ok :: "(execution_payload \<Rightarrow> bool) \<Rightarrow> ('e, 's, 'n) driver \<Rightarrow> bool" where
  "queues_ok Q s = ((\<forall>p \<in> queued_payloads s. Q p) \<and> pq_inv (engine_payloads s))"

lemma queues_ok_mono:
  "queues_ok Q s \<Longrightarrow> queued_payloads s' \<subseteq> queued_payloads s \<Longrightarrow> pq_inv (engine_payloads s') \<Longrightarrow>
   queues_ok Q s'"
  by (auto simp: queues_ok_def)

lemma queued_same:
  "unsafeL2Payloads s' = unsafeL2Payloads s \<Longrightarrow> engine_payloads s' = engine_payloads s \<Longrightarrow>
   queues_ok Q s \<Longrightarrow> queues_ok Q s'"
  by (auto simp: queues_ok_def queued_payloads_def)

lemma Finalize_payloads [simp]: "unsafePayloads (Finalize l1 eq) = unsafePayloads eq"
  by (simp add: Finalize_def Let_def)

lemma quiet_events:
  "unsafeL2Payloads (handle_L1Head s) = unsafeL2Payloads s" "engine_payloads (handle_L1Head s) = engine_payloads s"
  "unsafeL2Payloads (handle_L1Safe s) = unsafeL2Payloads s" "engine_payloads (handle_L1Safe s) = engine_payloads s"
  "unsafeL2Payloads (handle_L1Finalized s) = unsafeL2Payloads s"
  "engine_payloads (handle_L1Finalized s) = engine_payloads s"
  "unsafeL2Payloads (handle_Delayed s) = unsafeL2Payloads s" "engine_payloads (handle_Delayed s) = engine_payloads s"
  "unsafeL2Payloads (handle_ForceReset s) = unsafeL2Payloads s" "engine_payloads (handle_ForceReset s) = engine_payloads s"
  "unsafeL2Payloads (fst (handle_StartSequencer env h s)) = unsafeL2Payloads s"
  "engine_payloads (fst (handle_StartSequencer env h s)) = engine_payloads s"
  "unsafeL2Payloads (fst (handle_StopSequencer env s)) = unsafeL2Payloads s"
  "engine_payloads (fst (handle_StopSequencer env s)) = engine_payloads s"
  by (simp_all add: handle_L1Head_def handle_L1Safe_def handle_L1Finalized_def handle_Delayed_def step_def
      handle_ForceReset_def Pipeline_Reset_def Pipeline_Finalize_def handle_StartSequencer_def
      planSequencerAction_def handle_StopSequencer_def split: list.splits sum.splits)

lemma handle_Sequencer_queues:
  "unsafeL2Payloads (handle_Sequencer env now s) = unsafeL2Payloads s \<and>
   engine_payloads (handle_Sequencer env now s) = engine_payloads s"
proof -
  obtain sq e dp r where run: "RunNextSequencerAction (pipeline_env env s) (driver_findL1Origin env s)
      (driver_builder env s) now (dr_sequencer s, dr_engine s, dr_derivation s) = ((sq, e, dp), r)"
    by (metis prod.exhaust)
  from RunNext_tracking [OF this] show ?thesis
    by (auto simp: handle_Sequencer_def run publish_block_def planSequencerAction_def untouched_def Let_def
        split: sum.splits option.splits)
qed

lemma handle_UnsafePayload_inv:
  assumes "queues_ok Q s" "handle_UnsafePayload s = Some s'"
  shows "queues_ok Q s'"
proof (cases "unsafeL2Payloads s")
  case (Cons p rest)
  let ?s = "s\<lparr>unsafeL2Payloads := rest\<rparr>"
  have inv: "queues_ok Q ?s" "Q p" "pq_inv (engine_payloads s)"
    using assms(1) Cons by (auto simp: queues_ok_def queued_payloads_def)
  consider (same) "s' = ?s\<lparr>dr_exited := True\<rparr>"
    | (added) dp where "Pipeline_AddUnsafePayload (Some p) (dr_derivation s) = Some (Inr dp)" "s' = reqStep (?s\<lparr>dr_derivation := dp\<rparr>)"
    using assms(2) Cons by (auto simp: handle_UnsafePayload_def Let_def split: option.splits sum.splits)
  then show ?thesis
  proof cases
    case same
    with inv(1) show ?thesis by (intro queued_same [of s' ?s]) simp_all
  next
    case added
    then obtain eq where eq: "AddUnsafePayload (Some p) (dp_eng (dr_derivation s)) = Some (Inr eq)"
      and dp: "dp = (dr_derivation s)\<lparr>dp_eng := eq\<rparr>"
      by (auto simp: Pipeline_AddUnsafePayload_Inr)
    then obtain q r where push: "PayloadsQueue_Push (engine_payloads s) (Some p) = Some (q, r)"
      and q: "unsafePayloads eq = q"
      by (auto simp: AddUnsafePayload_def split: option.splits sum.splits)
    from Push_inv [OF inv(3) push] Push_payloads [OF inv(3) push] inv added dp q show ?thesis
      by (auto simp: queues_ok_def queued_payloads_def)
  qed
qed (use assms in \<open>simp add: handle_UnsafePayload_def\<close>)

lemma after_step_queues [simp]:
  "unsafeL2Payloads (after_step r s) = unsafeL2Payloads s" "engine_payloads (after_step r s) = engine_payloads s"
  by (auto simp: after_step_def Pipeline_Reset_def Let_def split: sum.splits)

lemma handle_StepReq_inv:
  assumes "queues_ok Q s" "handle_StepReq env s = Some s'"
  shows "queues_ok Q s'"
proof -
  obtain e dp r where st: "Pipeline_Step (pipeline_env env s) (dr_engine s, dr_derivation s) = Some ((e, dp), r)"
    and s': "s' = after_step r (s\<lparr>stepReqCh := False, dr_engine := e, dr_derivation := dp\<rparr>)"
    using assms(2) by (auto simp: handle_StepReq_def split: option.splits)
  have inv: "pq_inv (engine_payloads s)" using assms(1) by (simp add: queues_ok_def)
  have "set (pq (engine_payloads s')) \<subseteq> set (pq (engine_payloads s)) \<and> pq_inv (engine_payloads s')"
    using Pipeline_Step_payloads [OF st] Pop_payloads [OF inv] Pop_inv [OF inv] inv by (auto simp: s')
  with assms(1) show ?thesis
    by (intro queues_ok_mono [OF assms(1)]) (auto simp: queued_payloads_def s')
qed

lemma loop_head_inv [simp]: "queues_ok Q (loop_head env s) = queues_ok Q s"
  by (simp add: queues_ok_def queued_payloads_def)

lemma driver_loop_inv: "driver_loop env s s' \<Longrightarrow> queues_ok Q s \<Longrightarrow> queues_ok Q s'"
proof (induction rule: driver_loop.induct)
  case (Payload s s')
  then show ?case using handle_UnsafePayload_inv [of Q "loop_head env s" s'] by simp
next
  case (Derive s s')
  then show ?case using handle_StepReq_inv [of Q "loop_head env s"] by simp
qed (erule queued_same [rotated 2]; simp add: quiet_events handle_Sequencer_queues)+

text \<open>What the node keeps: every queued payload was screened.\<close>

abbreviation node_inv :: "(node_env \<times> runtime_config) set \<Rightarrow> ('e, 's, 'n) driver \<Rightarrow> bool" where
  "node_inv views \<equiv> queues_ok (\<lambda>p. \<exists>v \<in> views. screened v p)"

lemma delivered_inv:
  assumes "Node_OnUnsafeL2Payload n r expired from payload s = (s', res)" "queues_ok Q s" "screened (n, r) payload \<Longrightarrow> Q payload"
  shows "queues_ok Q s'"
proof (cases "s' = s")
  case False
  with assms(1) have scr: "screened (n, r) payload" and s': "s' = fst (OnUnsafeL2Payload expired payload s)"
    by (auto simp: Node_OnUnsafeL2Payload_def validateCommitments_screened split: if_splits sum.splits)
  have "set (unsafeL2Payloads s') \<subseteq> insert payload (set (unsafeL2Payloads s))"
    by (auto simp: s' OnUnsafeL2Payload_def send_def)
  with assms(2,3) scr show ?thesis by (auto simp: queues_ok_def queued_payloads_def s')
qed (use assms in simp)

lemma L1_signals_inv:
  "queues_ok Q s \<Longrightarrow> queues_ok Q (OnNewL1Head expired ref s)" "queues_ok Q s \<Longrightarrow> queues_ok Q (OnNewL1Safe expired ref s)"
  "queues_ok Q s \<Longrightarrow> queues_ok Q (OnNewL1Finalized expired ref s)"
  by (erule queued_same [rotated 2]; simp add: OnNewL1Head_def OnNewL1Safe_def OnNewL1Finalized_def OnL1Head_def OnL1Safe_def
      OnL1Finalized_def split: prod.splits)+

lemma node_step_inv: "node_step views env s s' \<Longrightarrow> node_inv views s \<Longrightarrow> node_inv views s'"
proof (induction rule: node_step.induct)
  case (Gossip n r expired sender payload s s' res)
  then show ?case by (intro delivered_inv [OF Gossip(2,3)]) blast
next
  case (Loop s s')
  then show ?case by (rule driver_loop_inv)
qed (simp_all add: L1_signals_inv)

lemma queues_ok_New: "queues_ok Q (NewDriver stopped e net)"
  by (simp add: queues_ok_def queued_payloads_def NewDriver_def NewDerivationPipeline_def NewEngineQueue_def
      NewPayloadsQueue_def pq_inv_New [unfolded NewPayloadsQueue_def] maxUnsafePayloadsMemory_def)

lemma node_run_inv:
  assumes "(node_step views env)\<^sup>*\<^sup>* s s'" "node_inv views s"
  shows "node_inv views s'"
  using assms by (induction rule: rtranclp_induct) (auto dest: node_step_inv)

section \<open>The target of the screening\<close>

text \<open>\<open>hex.DecodeString\<close> returns what it decoded before the first character that is not a hexadecimal digit;
  \<open>Hex2BytesFixed\<close> takes its last bytes, or fills it up with zeros on the left.\<close>

definition hex_digit :: "char \<Rightarrow> byte option" where
  "hex_digit c =
     (let n = of_char c :: nat in
      if 48 \<le> n \<and> n \<le> 57 then Some (of_nat (n - 48))
      else if 97 \<le> n \<and> n \<le> 102 then Some (of_nat (n - 87))
      else if 65 \<le> n \<and> n \<le> 70 then Some (of_nat (n - 55))
      else None)"

fun hex_DecodeString :: "string \<Rightarrow> bytes" where
  "hex_DecodeString (c # d # cs) =
     (case hex_digit c of
        None \<Rightarrow> []
      | Some a \<Rightarrow> (case hex_digit d of None \<Rightarrow> [] | Some b \<Rightarrow> (a * 16 + b) # hex_DecodeString cs))"
| "hex_DecodeString _ = []"

definition fixed_bytes :: "nat \<Rightarrow> bytes \<Rightarrow> bytes" where
  "fixed_bytes n h = replicate (n - length h) 0 @ drop (length h - n) h"

definition hex2bytes_law :: "(string \<Rightarrow> nat \<Rightarrow> bytes) \<Rightarrow> bool" where
  "hex2bytes_law f = (\<forall>s n. f s n = fixed_bytes n (hex_DecodeString s))"

section \<open>Properties\<close>

text \<open>C1: commitments are enforced. In every state that a node can reach, every payload that waits in the
  driver's mailbox or in the engine queue was screened by the L1 contract: the call of \<open>screen\<close> for the
  sequencer's address, the node's target and the encoded payload returned true in one of the views of L1
  the node had. And a payload reaches the gossip network only after it was screened.\<close>

theorem commitments_enforced:
  assumes "(node_step views env)\<^sup>*\<^sup>* (NewDriver stopped e net) s" and "p \<in> queued_payloads s"
    and "PublishL2Payload gossip n r payload g = (g', res)" and "g' \<noteq> g"
  shows "(\<exists>v \<in> views. screened v p) \<and> screened (n, r) payload"
proof -
  have "node_inv views s" using node_run_inv [OF assms(1) queues_ok_New] .
  then have "\<exists>v \<in> views. screened v p" using assms(2) by (simp add: queues_ok_def)
  moreover have "screened (n, r) payload"
    using assms(3,4)
    by (auto simp: PublishL2Payload_def validateCommitments_screened split: sum.splits if_splits)
  ultimately show ?thesis ..
qed

text \<open>A contract that accepts the payloads of one fee recipient.\<close>

definition ex_node :: node_env where
  "ex_node = \<lparr>nd_cfg = example_cfg, nd_NewSystemConfig = (\<lambda>_. Inr (\<lambda>_ _ v. Inr (v = replicate 20 7))),
     nd_abiPack = (\<lambda>p. Inr (abi_FeeRecipient p)), nd_hexEncode = (\<lambda>_. ''0x''),
     nd_Hex2BytesFixed = (\<lambda>s n. fixed_bytes n (hex_DecodeString s)), nd_hostID = Some [1], nd_signer = True\<rparr>"

definition ex_screened :: execution_payload where
  "ex_screened = (ex_block 60 8)\<lparr>FeeRecipient := replicate 20 7\<rparr>"

theorem commitments_enforced_witness:
  "\<exists>s. (node_step {(ex_node, NewRuntimeConfig)} ex_driver_env)\<^sup>*\<^sup>* (NewDriver True () ()) s \<and>
     ex_screened \<in> queued_payloads s \<and> screened (ex_node, NewRuntimeConfig) ex_screened"
proof -
  let ?views = "{(ex_node, NewRuntimeConfig)}" and ?gossip = "\<lambda>p (g :: execution_payload list). (p # g, Inr ())"
  have scr: "validateCommitments ex_node NewRuntimeConfig ex_screened = Inr ()"
    by (simp add: validateCommitments_def encodePayload_def abi_of_payload_def ex_node_def ex_screened_def)
  obtain s :: "(unit, unit, unit) driver" where s: "Node_OnUnsafeL2Payload ex_node NewRuntimeConfig False [2] ex_screened (NewDriver True () ()) = (s, Inr ())"
    and q: "ex_screened \<in> queued_payloads s"
    using scr by (simp add: Node_OnUnsafeL2Payload_def OnUnsafeL2Payload_def send_def mailbox_size_def
        NewDriver_def queued_payloads_def ex_node_def)
  have run: "(node_step ?views ex_driver_env)\<^sup>*\<^sup>* (NewDriver True () ()) s"
    using s by (intro r_into_rtranclp) (rule node_step.Gossip, simp)
  have pub: "PublishL2Payload ?gossip ex_node NewRuntimeConfig ex_screened [] = ([ex_screened], Inr ())"
    using scr by (simp add: PublishL2Payload_def) (simp add: ex_node_def)
  from commitments_enforced [OF run q pub] run q show ?thesis by auto
qed

text \<open>the target that the node screens for is the zero word. The constant it decodes, the number 1 in 32
  bytes, is written with the prefix \<open>0x\<close>, which the decoder does not accept: nothing is decoded and the
  result is filled up with zeros.\<close>

theorem target_is_zero:
  assumes "hex2bytes_law (nd_Hex2BytesFixed n)"
  shows "target n = replicate 32 0 \<and> target n \<noteq> replicate 31 0 @ [1]"
proof -
  have "target n = fixed_bytes 32 (hex_DecodeString ''0x0000000000000000000000000000000000000000000000000000000000000001'')"
    using assms by (simp add: hex2bytes_law_def target_def)
  also have "\<dots> = replicate 32 0"
    by (simp add: hex_digit_def fixed_bytes_def)
  finally have t: "target n = replicate 32 0" .
  moreover have "replicate 32 (0 :: byte) \<noteq> replicate 31 0 @ [1]"
    by (simp add: numeral_eq_Suc)
  ultimately show ?thesis by simp
qed

theorem target_is_zero_witness:
  "hex2bytes_law (nd_Hex2BytesFixed ex_node) \<and> target ex_node = replicate 32 0"
proof -
  have "hex2bytes_law (nd_Hex2BytesFixed ex_node)" by (simp add: hex2bytes_law_def ex_node_def)
  with target_is_zero show ?thesis by blast
qed

text \<open>Screening does not see where one transaction ends and the next one starts.\<close>

lemma screening_ignores_boundaries:
  "concat txs = concat (ep_Transactions payload) \<Longrightarrow>
   validateCommitments n r (payload\<lparr>ep_Transactions := txs\<rparr>) = validateCommitments n r payload"
  by (simp add: validateCommitments_def encodePayload_def abi_of_payload_def encodeTransactions_def)

end
