(* ===== verification/Compressor.thy ===== *)
theory Compressor
  imports Batches "HOL-Library.Log_Nat"
begin

text \<open>
  The compressors of the batcher (\<open>op-batcher/compressor\<close>) behind the interface \<open>derive.Compressor\<close> of
  \<open>channel_out.go\<close>. A Go interface value is a table of methods together with the object, so the interface is
  a record of operations \<open>compressor_ops\<close>, and the ratio and the shadow compressor are two such records.

  The zlib writer is a parameter: a state with the operations of \<open>compress/zlib\<close>, each of which returns the
  bytes that it appends to the buffer behind it. What it has been given and what it has written is tracked by
  \<open>writer_log\<close>; the locale \<open>compressor_contract\<close> states what the users of the interface rely on.
\<close>

section \<open>The zlib writer, floating point\<close>

text \<open>\<open>float_to_uint64\<close> is the conversion of a floating point value outside the range of \<open>uint64\<close> (\<open>None\<close> for
  an infinity or NaN), which Go leaves to the implementation.\<close>

record 'z zlib =
  zl_NewWriterLevel :: "string + 'z"
  zl_Write :: "bytes \<Rightarrow> 'z \<Rightarrow> 'z \<times> bytes \<times> (string + nat)"
  zl_Flush :: "'z \<Rightarrow> 'z \<times> bytes \<times> (string + unit)"
  zl_Close :: "'z \<Rightarrow> 'z \<times> bytes \<times> (string + unit)"
  zl_Reset :: "'z \<Rightarrow> 'z"
  float_to_uint64 :: "rat option \<Rightarrow> u64"

definition ext :: "string + 'a \<Rightarrow> 'a result" where
  "ext r = (case r of Inl m \<Rightarrow> Inl (External m) | Inr a \<Rightarrow> Inr a)"

lemma ext_simps [simp]:
  "ext (Inr a) = Inr a" "ext (Inl m) = Inl (External m)" "ext r = Inr a \<longleftrightarrow> r = Inr a"
  "ext r \<noteq> Inl (Errorf s)"
  by (auto simp: ext_def split: sum.splits)

lemma ext_Inl [simp]: "ext r = Inl e \<longleftrightarrow> (\<exists>m. r = Inl m \<and> e = External m)"
  by (auto simp: ext_def split: sum.splits)

text \<open>\<open>float64\<close> values are rationals; \<open>fl64\<close> rounds to the nearest value with 53 significant bits, ties to even.
  The exponent is not bounded: a result that would overflow or be subnormal is far outside or below the range
  of the integer it is converted to.\<close>

definition ulp_exponent :: "rat \<Rightarrow> int" where
  "ulp_exponent r =
     (let (n, d) = quotient_of r;
          k = int (floorlog 2 (nat \<bar>n\<bar>)) - int (floorlog 2 (nat d))
      in (if 2 powi k \<le> \<bar>r\<bar> then k else k - 1) - 52)"

definition round_half_even :: "rat \<Rightarrow> int" where
  "round_half_even x =
     (let f = \<lfloor>x\<rfloor>; d = x - of_int f
      in if d < 1 / 2 \<or> d = 1 / 2 \<and> even f then f else f + 1)"

definition fl64 :: "rat \<Rightarrow> rat" where
  "fl64 r = (if r = 0 then 0
     else of_int (round_half_even (r / 2 powi ulp_exponent r)) * 2 powi ulp_exponent r)"

section \<open>The interface (channel_out.go)\<close>

definition CompressorFullErr :: error where
  "CompressorFullErr = Errorf ''compressor is full''"

lemma ext_not_full [simp]: "ext r \<noteq> Inl CompressorFullErr" "CompressorFullErr \<noteq> External m"
  by (simp_all add: CompressorFullErr_def)

text \<open>\<open>cm_ReadFull\<close> is \<open>io.ReadFull\<close> on the compressor: both compressors read from a buffer that has all its
  bytes at hand.\<close>

record 'c compressor_ops =
  cm_Write :: "bytes \<Rightarrow> 'c \<Rightarrow> 'c \<times> nat result"
  cm_Close :: "'c \<Rightarrow> 'c \<times> unit result"
  cm_ReadFull :: "nat \<Rightarrow> 'c \<Rightarrow> 'c \<times> bytes result"
  cm_Reset :: "'c \<Rightarrow> 'c"
  cm_Len :: "'c \<Rightarrow> nat"
  cm_Flush :: "'c \<Rightarrow> 'c \<times> unit result"
  cm_FullErr :: "'c \<Rightarrow> error option"

section \<open>Configuration (config.go)\<close>

text \<open>\<open>TargetNumFrames\<close> is an \<open>int\<close> of 64 bits.\<close>

record compressor_config =
  TargetFrameSize :: u64
  TargetNumFrames :: int
  ApproxComprRatio :: rat
  Kind :: string

definition RatioKind :: string where
  "RatioKind = ''ratio''"

definition ShadowKind :: string where
  "ShadowKind = ''shadow''"

section \<open>The ratio compressor (ratio_compressor.go)\<close>

record 'z ratio_compressor =
  rc_config :: compressor_config
  rc_inputBytes :: nat
  rc_buf :: bytes
  rc_compress :: 'z

definition NewRatioCompressor :: "'z zlib \<Rightarrow> compressor_config \<Rightarrow> 'z ratio_compressor result" where
  "NewRatioCompressor zl config =
     rbind (ext (zl_NewWriterLevel zl)) (\<lambda>z.
       Inr \<lparr>rc_config = config, rc_inputBytes = 0, rc_buf = [], rc_compress = z\<rparr>)"

definition InputThreshold :: "'z zlib \<Rightarrow> compressor_config \<Rightarrow> u64" where
  "InputThreshold zl c =
     (if ApproxComprRatio c = 0 then float_to_uint64 zl None
      else let x = fl64 (fl64 (fl64 (of_int (TargetNumFrames c)) *
                                fl64 (of_nat (unat (TargetFrameSize c)))) / ApproxComprRatio c)
           in if -1 < x \<and> x < 2 ^ 64 then of_int (if x < 0 then \<lceil>x\<rceil> else \<lfloor>x\<rfloor>)
              else float_to_uint64 zl (Some x))"

definition inputTargetReached :: "'z zlib \<Rightarrow> 'z ratio_compressor \<Rightarrow> bool" where
  "inputTargetReached zl t = (of_nat (rc_inputBytes t) \<ge> InputThreshold zl (rc_config t))"

definition Ratio_FullErr :: "'z zlib \<Rightarrow> 'z ratio_compressor \<Rightarrow> error option" where
  "Ratio_FullErr zl t = (if inputTargetReached zl t then Some CompressorFullErr else None)"

definition Ratio_Write :: "'z zlib \<Rightarrow> bytes \<Rightarrow> 'z ratio_compressor \<Rightarrow> 'z ratio_compressor \<times> nat result" where
  "Ratio_Write zl p t =
     (case Ratio_FullErr zl t of
        Some err \<Rightarrow> (t, Inl err)
      | None \<Rightarrow>
          (case zl_Write zl p (rc_compress t) of
             (z, out, r) \<Rightarrow>
               (t\<lparr>rc_inputBytes := rc_inputBytes t + length p, rc_buf := rc_buf t @ out, rc_compress := z\<rparr>,
                ext r)))"

definition Ratio_Close :: "'z zlib \<Rightarrow> 'z ratio_compressor \<Rightarrow> 'z ratio_compressor \<times> unit result" where
  "Ratio_Close zl t =
     (case zl_Close zl (rc_compress t) of
        (z, out, r) \<Rightarrow> (t\<lparr>rc_buf := rc_buf t @ out, rc_compress := z\<rparr>, ext r))"

text \<open>\<open>io.ReadFull\<close> on a \<open>bytes.Buffer\<close>: what could be read is gone from the buffer also when it fails.\<close>

definition buffer_ReadFull :: "nat \<Rightarrow> bytes \<Rightarrow> bytes \<times> bytes result" where
  "buffer_ReadFull n buf =
     (case read_full n buf of Inl e \<Rightarrow> ([], Inl e) | Inr (d, rest) \<Rightarrow> (rest, Inr d))"

definition Ratio_Read :: "nat \<Rightarrow> 'z ratio_compressor \<Rightarrow> 'z ratio_compressor \<times> bytes result" where
  "Ratio_Read n t = (case buffer_ReadFull n (rc_buf t) of (rest, r) \<Rightarrow> (t\<lparr>rc_buf := rest\<rparr>, r))"

definition Ratio_Reset :: "'z zlib \<Rightarrow> 'z ratio_compressor \<Rightarrow> 'z ratio_compressor" where
  "Ratio_Reset zl t = t\<lparr>rc_buf := [], rc_compress := zl_Reset zl (rc_compress t), rc_inputBytes := 0\<rparr>"

definition Ratio_Len :: "'z ratio_compressor \<Rightarrow> nat" where
  "Ratio_Len t = length (rc_buf t)"

definition Ratio_Flush :: "'z zlib \<Rightarrow> 'z ratio_compressor \<Rightarrow> 'z ratio_compressor \<times> unit result" where
  "Ratio_Flush zl t =
     (case zl_Flush zl (rc_compress t) of
        (z, out, r) \<Rightarrow> (t\<lparr>rc_buf := rc_buf t @ out, rc_compress := z\<rparr>, ext r))"

definition ratio_ops :: "'z zlib \<Rightarrow> 'z ratio_compressor compressor_ops" where
  "ratio_ops zl = \<lparr>cm_Write = Ratio_Write zl, cm_Close = Ratio_Close zl, cm_ReadFull = Ratio_Read,
     cm_Reset = Ratio_Reset zl, cm_Len = Ratio_Len, cm_Flush = Ratio_Flush zl, cm_FullErr = Ratio_FullErr zl\<rparr>"

section \<open>The shadow compressor (shadow_compressor.go)\<close>

record 'z shadow_compressor =
  sh_config :: compressor_config
  sh_buf :: bytes
  sh_compress :: 'z
  shadowBuf :: bytes
  shadowCompress :: 'z
  sh_fullErr :: "error option"

definition NewShadowCompressor :: "'z zlib \<Rightarrow> compressor_config \<Rightarrow> 'z shadow_compressor result" where
  "NewShadowCompressor zl config =
     rbind (ext (zl_NewWriterLevel zl)) (\<lambda>z. rbind (ext (zl_NewWriterLevel zl)) (\<lambda>z'.
       Inr \<lparr>sh_config = config, sh_buf = [], sh_compress = z, shadowBuf = [], shadowCompress = z',
            sh_fullErr = None\<rparr>))"

text \<open>\<open>t.compress.Write(p)\<close>, the last line of \<open>Write\<close>.\<close>

definition Shadow_put :: "'z zlib \<Rightarrow> bytes \<Rightarrow> 'z shadow_compressor \<Rightarrow> 'z shadow_compressor \<times> nat result" where
  "Shadow_put zl p t =
     (case zl_Write zl p (sh_compress t) of
        (z, out, r) \<Rightarrow> (t\<lparr>sh_buf := sh_buf t @ out, sh_compress := z\<rparr>, ext r))"

definition Shadow_Write :: "'z zlib \<Rightarrow> bytes \<Rightarrow> 'z shadow_compressor \<Rightarrow> 'z shadow_compressor \<times> nat result" where
  "Shadow_Write zl p t =
     (case zl_Write zl p (shadowCompress t) of
        (z, out, r) \<Rightarrow>
          let t1 = t\<lparr>shadowBuf := shadowBuf t @ out, shadowCompress := z\<rparr> in
          (case ext r of
             Inl err \<Rightarrow> (t1, Inl err)
           | Inr _ \<Rightarrow>
               (case zl_Flush zl (shadowCompress t1) of
                  (z', out', r') \<Rightarrow>
                    let t2 = t1\<lparr>shadowBuf := shadowBuf t1 @ out', shadowCompress := z'\<rparr> in
                    (case ext r' of
                       Inl err \<Rightarrow> (t2, Inl err)
                     | Inr _ \<Rightarrow>
                         if of_nat (length (shadowBuf t2)) >
                            TargetFrameSize (sh_config t2) * of_int (TargetNumFrames (sh_config t2))
                         then let t3 = t2\<lparr>sh_fullErr := Some CompressorFullErr\<rparr>
                              in if 0 < length (sh_buf t3) then (t3, Inl CompressorFullErr)
                                 else Shadow_put zl p t3
                         else Shadow_put zl p t2))))"

definition Shadow_Close :: "'z zlib \<Rightarrow> 'z shadow_compressor \<Rightarrow> 'z shadow_compressor \<times> unit result" where
  "Shadow_Close zl t =
     (case zl_Close zl (sh_compress t) of
        (z, out, r) \<Rightarrow> (t\<lparr>sh_buf := sh_buf t @ out, sh_compress := z\<rparr>, ext r))"

definition Shadow_Read :: "nat \<Rightarrow> 'z shadow_compressor \<Rightarrow> 'z shadow_compressor \<times> bytes result" where
  "Shadow_Read n t = (case buffer_ReadFull n (sh_buf t) of (rest, r) \<Rightarrow> (t\<lparr>sh_buf := rest\<rparr>, r))"

definition Shadow_Reset :: "'z zlib \<Rightarrow> 'z shadow_compressor \<Rightarrow> 'z shadow_compressor" where
  "Shadow_Reset zl t =
     t\<lparr>sh_buf := [], sh_compress := zl_Reset zl (sh_compress t), shadowBuf := [],
       shadowCompress := zl_Reset zl (shadowCompress t), sh_fullErr := None\<rparr>"

definition Shadow_Len :: "'z shadow_compressor \<Rightarrow> nat" where
  "Shadow_Len t = length (sh_buf t)"

definition Shadow_Flush :: "'z zlib \<Rightarrow> 'z shadow_compressor \<Rightarrow> 'z shadow_compressor \<times> unit result" where
  "Shadow_Flush zl t =
     (case zl_Flush zl (sh_compress t) of
        (z, out, r) \<Rightarrow> (t\<lparr>sh_buf := sh_buf t @ out, sh_compress := z\<rparr>, ext r))"

definition shadow_ops :: "'z zlib \<Rightarrow> 'z shadow_compressor compressor_ops" where
  "shadow_ops zl = \<lparr>cm_Write = Shadow_Write zl, cm_Close = Shadow_Close zl, cm_ReadFull = Shadow_Read,
     cm_Reset = Shadow_Reset zl, cm_Len = Shadow_Len, cm_Flush = Shadow_Flush zl, cm_FullErr = sh_fullErr\<rparr>"

section \<open>Either of them (compressors.go)\<close>

datatype 'z compressor = RatioCompressor "'z ratio_compressor" | ShadowCompressor "'z shadow_compressor"

definition Kinds :: "'z zlib \<Rightarrow> (string, compressor_config \<Rightarrow> 'z compressor result) gomap" where
  "Kinds zl =
     [(RatioKind, \<lambda>c. rbind (NewRatioCompressor zl c) (\<lambda>t. Inr (RatioCompressor t))),
      (ShadowKind, \<lambda>c. rbind (NewShadowCompressor zl c) (\<lambda>t. Inr (ShadowCompressor t)))]"

definition NewCompressor :: "'z zlib \<Rightarrow> compressor_config \<Rightarrow> 'z compressor result" where
  "NewCompressor zl c =
     (case map_of (Kinds zl) (Kind c) of
        Some k \<Rightarrow> k c
      | None \<Rightarrow> rbind (NewRatioCompressor zl c) (\<lambda>t. Inr (RatioCompressor t)))"

text \<open>The methods of the interface, dispatched on the object behind it.\<close>

definition compressor_methods :: "'z zlib \<Rightarrow> 'z compressor compressor_ops" where
  "compressor_methods zl =
     \<lparr>cm_Write = (\<lambda>p c. case c of
          RatioCompressor t \<Rightarrow> apfst RatioCompressor (Ratio_Write zl p t)
        | ShadowCompressor t \<Rightarrow> apfst ShadowCompressor (Shadow_Write zl p t)),
      cm_Close = (\<lambda>c. case c of
          RatioCompressor t \<Rightarrow> apfst RatioCompressor (Ratio_Close zl t)
        | ShadowCompressor t \<Rightarrow> apfst ShadowCompressor (Shadow_Close zl t)),
      cm_ReadFull = (\<lambda>n c. case c of
          RatioCompressor t \<Rightarrow> apfst RatioCompressor (Ratio_Read n t)
        | ShadowCompressor t \<Rightarrow> apfst ShadowCompressor (Shadow_Read n t)),
      cm_Reset = (\<lambda>c. case c of
          RatioCompressor t \<Rightarrow> RatioCompressor (Ratio_Reset zl t)
        | ShadowCompressor t \<Rightarrow> ShadowCompressor (Shadow_Reset zl t)),
      cm_Len = (\<lambda>c. case c of RatioCompressor t \<Rightarrow> Ratio_Len t | ShadowCompressor t \<Rightarrow> Shadow_Len t),
      cm_Flush = (\<lambda>c. case c of
          RatioCompressor t \<Rightarrow> apfst RatioCompressor (Ratio_Flush zl t)
        | ShadowCompressor t \<Rightarrow> apfst ShadowCompressor (Shadow_Flush zl t)),
      cm_FullErr = (\<lambda>c. case c of
          RatioCompressor t \<Rightarrow> Ratio_FullErr zl t | ShadowCompressor t \<Rightarrow> sh_fullErr t)\<rparr>"

section \<open>What the interface promises\<close>

text \<open>\<open>writer_log zl z plain out fin\<close>: the zlib writer \<open>z\<close> was given the bytes \<open>plain\<close> and wrote the bytes
  \<open>out\<close> since it was made or reset, and it was closed if \<open>fin\<close> holds. It was not flushed: nothing in the repository
  calls \<open>Flush\<close> of a channel, tests apart.\<close>

inductive writer_log :: "'z zlib \<Rightarrow> 'z \<Rightarrow> bytes \<Rightarrow> bytes \<Rightarrow> bool \<Rightarrow> bool" for zl where
  New: "zl_NewWriterLevel zl = Inr z \<Longrightarrow> writer_log zl z [] [] False"
| Reset: "writer_log zl (zl_Reset zl z) [] [] False"
| Write: "writer_log zl z plain out False \<Longrightarrow> zl_Write zl p z = (z', o', Inr n) \<Longrightarrow>
    writer_log zl z' (plain @ p) (out @ o') False"
| Close: "writer_log zl z plain out False \<Longrightarrow> zl_Close zl z = (z', o', Inr u) \<Longrightarrow>
    writer_log zl z' plain (out @ o') True"

text \<open>The contract: \<open>view c plain got ready fin\<close> relates a compressor to the bytes written to it, the bytes
  read from it so far and the bytes that are ready. A write is all or nothing, the full error leaves
  everything as it was, and reads return the ready bytes in order.\<close>

locale compressor_contract =
  fixes ops :: "'c compressor_ops"
    and view :: "'c \<Rightarrow> bytes \<Rightarrow> bytes \<Rightarrow> bytes \<Rightarrow> bool \<Rightarrow> bool"
  assumes Write_ok: "view c plain got ready False \<Longrightarrow> cm_Write ops p c = (c', Inr n) \<Longrightarrow>
      \<exists>new. view c' (plain @ p) got (ready @ new) False"
    and Write_full: "view c plain got ready False \<Longrightarrow> cm_Write ops p c = (c', Inl CompressorFullErr) \<Longrightarrow>
      view c' plain got ready False"
    and Write_err: "cm_Write ops p c = (c', Inl e) \<Longrightarrow> e = CompressorFullErr \<or> (\<exists>m. e = External m)"
    and Close_ok: "view c plain got ready False \<Longrightarrow> cm_Close ops c = (c', Inr u) \<Longrightarrow>
      \<exists>new. view c' plain got (ready @ new) True"
    and Reset_ok: "view (cm_Reset ops c) [] [] [] False"
    and Len_ok: "view c plain got ready fin \<Longrightarrow> cm_Len ops c = length ready"
    and Read_ok: "view c plain got ready fin \<Longrightarrow> n \<le> length ready \<Longrightarrow>
      \<exists>c'. cm_ReadFull ops n c = (c', Inr (take n ready)) \<and>
        view c' plain (got @ take n ready) (drop n ready) fin"

definition ratio_view :: "'z zlib \<Rightarrow> 'z ratio_compressor \<Rightarrow> bytes \<Rightarrow> bytes \<Rightarrow> bytes \<Rightarrow> bool \<Rightarrow> bool" where
  "ratio_view zl t plain got ready fin =
     (rc_buf t = ready \<and> writer_log zl (rc_compress t) plain (got @ ready) fin)"

definition shadow_view :: "'z zlib \<Rightarrow> 'z shadow_compressor \<Rightarrow> bytes \<Rightarrow> bytes \<Rightarrow> bytes \<Rightarrow> bool \<Rightarrow> bool" where
  "shadow_view zl t plain got ready fin =
     (sh_buf t = ready \<and> writer_log zl (sh_compress t) plain (got @ ready) fin)"

lemma buffer_ReadFull_ok: "n \<le> length buf \<Longrightarrow> buffer_ReadFull n buf = (drop n buf, Inr (take n buf))"
  by (simp add: buffer_ReadFull_def read_full_def)

lemma log_grows:
  "writer_log zl z plain (got @ ready) False \<Longrightarrow> zl_Write zl p z = (z', o', Inr n) \<Longrightarrow>
     writer_log zl z' (plain @ p) (got @ ready @ o') False"
  "writer_log zl z plain (got @ ready) False \<Longrightarrow> zl_Close zl z = (z', o', Inr u) \<Longrightarrow>
     writer_log zl z' plain (got @ ready @ o') True"
  using writer_log.Write writer_log.Close by fastforce+

interpretation ratio: compressor_contract "ratio_ops zl" "ratio_view zl" for zl
proof unfold_locales
  fix c plain got ready p c' n
  assume "ratio_view zl c plain got ready False" "cm_Write (ratio_ops zl) p c = (c', Inr n)"
  then show "\<exists>new. ratio_view zl c' (plain @ p) got (ready @ new) False"
    by (auto simp: ratio_ops_def Ratio_Write_def ratio_view_def log_grows split: option.splits prod.splits)
next
  fix c plain got ready p c'
  assume "ratio_view zl c plain got ready False" "cm_Write (ratio_ops zl) p c = (c', Inl CompressorFullErr)"
  then show "ratio_view zl c' plain got ready False"
    by (auto simp: ratio_ops_def Ratio_Write_def split: option.splits prod.splits)
next
  fix c plain got ready c' u
  assume "ratio_view zl c plain got ready False" "cm_Close (ratio_ops zl) c = (c', Inr u)"
  then show "\<exists>new. ratio_view zl c' plain got (ready @ new) True"
    by (auto simp: ratio_ops_def Ratio_Close_def ratio_view_def log_grows split: prod.splits)
next
  fix c p c' e
  assume "cm_Write (ratio_ops zl) p c = (c', Inl e)"
  then show "e = CompressorFullErr \<or> (\<exists>m. e = External m)"
    by (auto simp: ratio_ops_def Ratio_Write_def Ratio_FullErr_def split: prod.splits if_splits)
qed (auto simp: ratio_ops_def ratio_view_def Ratio_Reset_def Ratio_Len_def Ratio_Read_def
    buffer_ReadFull_ok writer_log.Reset)

lemma Shadow_Write_cases:
  assumes "Shadow_Write zl p t = (t', r)"
  obtains (kept) e where "sh_buf t' = sh_buf t" "sh_compress t' = sh_compress t" "r = Inl e"
      "e = CompressorFullErr \<or> (\<exists>m. e = External m)"
    | (put) o' n where "zl_Write zl p (sh_compress t) = (sh_compress t', o', n)" "sh_buf t' = sh_buf t @ o'"
        "r = ext n"
proof -
  obtain z1 o1 r1 where w: "zl_Write zl p (shadowCompress t) = (z1, o1, r1)" by (metis prod.exhaust)
  obtain z2 o2 r2 where f: "zl_Flush zl z1 = (z2, o2, r2)" by (metis prod.exhaust)
  obtain z3 o3 r3 where q: "zl_Write zl p (sh_compress t) = (z3, o3, r3)" by (metis prod.exhaust)
  show thesis
  proof (cases r1)
    case (Inl m)
    then show thesis using assms w by (intro kept) (auto simp: Shadow_Write_def Let_def)
  next
    case r1: (Inr n1)
    show thesis
    proof (cases r2)
      case (Inl m)
      then show thesis using assms w f r1 by (intro kept) (auto simp: Shadow_Write_def Let_def)
    next
      case (Inr u)
      then show thesis using assms w f q r1 kept put [of o3 r3]
        by (auto simp: Shadow_Write_def Shadow_put_def Let_def split: if_splits)
    qed
  qed
qed

interpretation shadow: compressor_contract "shadow_ops zl" "shadow_view zl" for zl
proof unfold_locales
  fix c plain got ready p c' n
  assume v: "shadow_view zl c plain got ready False" and "cm_Write (shadow_ops zl) p c = (c', Inr n)"
  then have "Shadow_Write zl p c = (c', Inr n)" by (simp add: shadow_ops_def)
  then show "\<exists>new. shadow_view zl c' (plain @ p) got (ready @ new) False"
    using v by (cases rule: Shadow_Write_cases)
      (auto simp: shadow_view_def log_grows dest: sym [of "Inr n"])
next
  fix c plain got ready p c'
  assume v: "shadow_view zl c plain got ready False"
    and "cm_Write (shadow_ops zl) p c = (c', Inl CompressorFullErr)"
  then have "Shadow_Write zl p c = (c', Inl CompressorFullErr)" by (simp add: shadow_ops_def)
  then show "shadow_view zl c' plain got ready False"
    using v by (cases rule: Shadow_Write_cases) (auto simp: shadow_view_def dest: sym [of "Inl CompressorFullErr"])
next
  fix c plain got ready c' u
  assume "shadow_view zl c plain got ready False" "cm_Close (shadow_ops zl) c = (c', Inr u)"
  then show "\<exists>new. shadow_view zl c' plain got (ready @ new) True"
    by (auto simp: shadow_ops_def Shadow_Close_def shadow_view_def log_grows split: prod.splits)
next
  fix c p c' e
  assume "cm_Write (shadow_ops zl) p c = (c', Inl e)"
  then have "Shadow_Write zl p c = (c', Inl e)" by (simp add: shadow_ops_def)
  then show "e = CompressorFullErr \<or> (\<exists>m. e = External m)"
    by (cases rule: Shadow_Write_cases) (auto dest: sym [of "Inl e"])
qed (auto simp: shadow_ops_def shadow_view_def Shadow_Reset_def Shadow_Len_def Shadow_Read_def
    buffer_ReadFull_ok writer_log.Reset)

text \<open>The interface value that \<open>NewCompressor\<close> returns keeps the contract whichever object is behind it.\<close>

fun compressor_view :: "'z zlib \<Rightarrow> 'z compressor \<Rightarrow> bytes \<Rightarrow> bytes \<Rightarrow> bytes \<Rightarrow> bool \<Rightarrow> bool" where
  "compressor_view zl (RatioCompressor t) = ratio_view zl t"
| "compressor_view zl (ShadowCompressor t) = shadow_view zl t"

lemma compressor_dispatch:
  "cm_Write (compressor_methods zl) p (RatioCompressor t) = apfst RatioCompressor (cm_Write (ratio_ops zl) p t)"
  "cm_Write (compressor_methods zl) p (ShadowCompressor t') = apfst ShadowCompressor (cm_Write (shadow_ops zl) p t')"
  "cm_Close (compressor_methods zl) (RatioCompressor t) = apfst RatioCompressor (cm_Close (ratio_ops zl) t)"
  "cm_Close (compressor_methods zl) (ShadowCompressor t') = apfst ShadowCompressor (cm_Close (shadow_ops zl) t')"
  "cm_ReadFull (compressor_methods zl) n (RatioCompressor t) = apfst RatioCompressor (cm_ReadFull (ratio_ops zl) n t)"
  "cm_ReadFull (compressor_methods zl) n (ShadowCompressor t') = apfst ShadowCompressor (cm_ReadFull (shadow_ops zl) n t')"
  "cm_Reset (compressor_methods zl) (RatioCompressor t) = RatioCompressor (cm_Reset (ratio_ops zl) t)"
  "cm_Reset (compressor_methods zl) (ShadowCompressor t') = ShadowCompressor (cm_Reset (shadow_ops zl) t')"
  "cm_Len (compressor_methods zl) (RatioCompressor t) = cm_Len (ratio_ops zl) t"
  "cm_Len (compressor_methods zl) (ShadowCompressor t') = cm_Len (shadow_ops zl) t'"
  by (simp_all add: compressor_methods_def ratio_ops_def shadow_ops_def)

lemma apfst_eq: "apfst f x = (a, b) \<longleftrightarrow> (\<exists>y. x = (y, b) \<and> f y = a)"
  by (cases x) auto

interpretation comp: compressor_contract "compressor_methods zl" "compressor_view zl" for zl
proof unfold_locales
  fix c plain got ready p c' n
  assume "compressor_view zl c plain got ready False" "cm_Write (compressor_methods zl) p c = (c', Inr n)"
  then show "\<exists>new. compressor_view zl c' (plain @ p) got (ready @ new) False"
    by (cases c) (auto simp: compressor_dispatch apfst_eq dest: ratio.Write_ok shadow.Write_ok)
next
  fix c plain got ready p c'
  assume "compressor_view zl c plain got ready False"
    "cm_Write (compressor_methods zl) p c = (c', Inl CompressorFullErr)"
  then show "compressor_view zl c' plain got ready False"
    by (cases c) (auto simp: compressor_dispatch apfst_eq dest: ratio.Write_full shadow.Write_full)
next
  fix c p c' e
  assume "cm_Write (compressor_methods zl) p c = (c', Inl e)"
  then show "e = CompressorFullErr \<or> (\<exists>m. e = External m)"
    by (cases c) (auto simp: compressor_dispatch apfst_eq dest: ratio.Write_err shadow.Write_err)
next
  fix c plain got ready c' u
  assume "compressor_view zl c plain got ready False" "cm_Close (compressor_methods zl) c = (c', Inr u)"
  then show "\<exists>new. compressor_view zl c' plain got (ready @ new) True"
    by (cases c) (auto simp: compressor_dispatch apfst_eq dest: ratio.Close_ok shadow.Close_ok)
next
  fix c
  show "compressor_view zl (cm_Reset (compressor_methods zl) c) [] [] [] False"
    by (cases c) (simp_all add: compressor_dispatch ratio.Reset_ok shadow.Reset_ok)
next
  fix c plain got ready fin
  assume "compressor_view zl c plain got ready fin"
  then show "cm_Len (compressor_methods zl) c = length ready"
    by (cases c) (auto simp: compressor_dispatch dest: ratio.Len_ok shadow.Len_ok)
next
  fix c plain got ready fin n
  assume "compressor_view zl c plain got ready fin" "n \<le> length ready"
  then show "\<exists>c'. cm_ReadFull (compressor_methods zl) n c = (c', Inr (take n ready)) \<and>
      compressor_view zl c' plain (got @ take n ready) (drop n ready) fin"
  proof (cases c)
    case (RatioCompressor t)
    with \<open>compressor_view zl c plain got ready fin\<close> have "ratio_view zl t plain got ready fin" by simp
    from ratio.Read_ok [OF this \<open>n \<le> length ready\<close>] RatioCompressor show ?thesis
      by (auto simp: compressor_dispatch)
  next
    case (ShadowCompressor t)
    with \<open>compressor_view zl c plain got ready fin\<close> have "shadow_view zl t plain got ready fin" by simp
    from shadow.Read_ok [OF this \<open>n \<le> length ready\<close>] ShadowCompressor show ?thesis
      by (auto simp: compressor_dispatch)
  qed
qed

lemma NewCompressor_view: "NewCompressor zl c = Inr k \<Longrightarrow> compressor_view zl k [] [] [] False"
  by (auto simp: NewCompressor_def Kinds_def NewRatioCompressor_def NewShadowCompressor_def rbind_Inr
      ratio_view_def shadow_view_def writer_log.New split: option.splits if_splits)

lemma compressor_view_log:
  "compressor_view zl c plain got ready fin \<Longrightarrow> \<exists>z. writer_log zl z plain (got @ ready) fin"
  by (cases c) (auto simp: ratio_view_def shadow_view_def)

end
