(* ===== verification/Channel_Out.thy ===== *)
theory Channel_Out
  imports Compressor L1_Info
begin

text \<open>
  Channels as the batcher writes them: \<open>op-node/rollup/derive/channel_out.go\<close>, with the L2 blocks that it reads and
  \<open>l2block_util.go\<close>. A \<open>ChannelOut\<close> is a compressor behind the interface \<open>compressor_ops\<close> and a frame counter;
  what it outputs is shown to be a chain of frames that carries the compressed bytes.
\<close>

section \<open>L2 blocks\<close>

text \<open>What the code reads of \<open>types.Block\<close> and \<open>types.Transaction\<close>: the answers of their methods. \<open>tx_Marshal\<close> is
  the answer of \<open>MarshalBinary\<close>.\<close>

record geth_tx =
  l2tx_Type :: byte
  l2tx_Data :: bytes
  tx_Marshal :: "bytes result"

record geth_block =
  blk_Hash :: hash
  blk_ParentHash :: hash
  blk_Number :: u64
  blk_Time :: u64
  blk_Transactions :: "geth_tx list"

definition ToBlockID :: "geth_block \<Rightarrow> block_id" where
  "ToBlockID b = \<lparr>Hash = blk_Hash b, Number = blk_Number b\<rparr>"

definition L2BlockToBlockRef :: "(bytes \<Rightarrow> hash) \<Rightarrow> geth_block \<Rightarrow> genesis \<Rightarrow> l2_block_ref result" where
  "L2BlockToBlockRef keccak block gen =
     (let ref = (\<lambda>l1Origin sequenceNumber.
            \<lparr>l2_Hash = blk_Hash block, l2_Number = blk_Number block, l2_ParentHash = blk_ParentHash block,
             l2_Time = blk_Time block, L1Origin = l1Origin, SequenceNumber = sequenceNumber\<rparr>)
      in if blk_Number block = Number (gen_L2 gen)
         then (if blk_Hash block \<noteq> Hash (gen_L2 gen)
               then Inl (Errorf ''expected L2 genesis hash to match L2 block at genesis block number'')
               else Inr (ref (gen_L1 gen) 0))
         else (case blk_Transactions block of
                 [] \<Rightarrow> Inl (Errorf ''l2 block is missing L1 info deposit tx'')
               | tx # _ \<Rightarrow>
                   if l2tx_Type tx \<noteq> DepositTxType then Inl (Errorf ''first payload tx has unexpected tx type'')
                   else (case L1InfoDepositTxData keccak (l2tx_Data tx) of
                           Inl e \<Rightarrow> Inl (Wrap ''failed to parse L1 info deposit tx from L2 block'' e)
                         | Inr info \<Rightarrow>
                             Inr (ref \<lparr>Hash = info_BlockHash info, Number = info_Number info\<rparr>
                                      (info_SequenceNumber info)))))"

section \<open>Blocks to batches\<close>

definition ErrNotDepositTx :: error where
  "ErrNotDepositTx = Errorf ''first transaction in block is not a deposit tx''"

fun opaque_txs :: "geth_tx list \<Rightarrow> bytes list result" where
  "opaque_txs [] = Inr []"
| "opaque_txs (tx # txs) =
     (if l2tx_Type tx = DepositTxType then opaque_txs txs
      else case tx_Marshal tx of
             Inl e \<Rightarrow> Inl (Wrap ''could not encode tx'' e)
           | Inr otx \<Rightarrow> rbind (opaque_txs txs) (\<lambda>rest. Inr (otx # rest)))"

definition BlockToBatch :: "(bytes \<Rightarrow> hash) \<Rightarrow> geth_block \<Rightarrow> (batch_data \<times> l1_block_info) result" where
  "BlockToBatch keccak block =
     rbind (opaque_txs (blk_Transactions block)) (\<lambda>opaqueTxs.
       case blk_Transactions block of
         [] \<Rightarrow> Inl (Errorf ''block has no transactions'')
       | l1InfoTx # _ \<Rightarrow>
           if l2tx_Type l1InfoTx \<noteq> DepositTxType then Inl ErrNotDepositTx
           else (case L1InfoDepositTxData keccak (l2tx_Data l1InfoTx) of
                   Inl e \<Rightarrow> Inl (Wrap ''could not parse the L1 Info deposit'' e)
                 | Inr l1Info \<Rightarrow>
                     Inr (\<lparr>b_ParentHash = blk_ParentHash block, EpochNum = info_Number l1Info,
                           EpochHash = info_BlockHash l1Info, Timestamp = blk_Time block,
                           Transactions = opaqueTxs\<rparr>, l1Info)))"

section \<open>The channel\<close>

definition MaxRLPBytesPerChannel :: nat where
  "MaxRLPBytesPerChannel = 10000000"

definition FrameV0OverHeadSize :: u64 where
  "FrameV0OverHeadSize = 23"

definition ErrMaxFrameSizeTooSmall :: error where
  "ErrMaxFrameSizeTooSmall = Errorf ''maxSize is too small to fit the fixed frame overhead''"

definition ErrTooManyRLPBytes :: error where
  "ErrTooManyRLPBytes = Errorf ''batch would cause RLP bytes to go over limit''"

record 'c channel_out =
  co_id :: channel_id
  co_frame :: u64
  co_rlpLength :: nat
  co_compress :: 'c
  co_closed :: bool

text \<open>\<open>rnd\<close> is the answer of \<open>rand.Read\<close>: the random identifier.\<close>

definition NewChannelOut :: "channel_id result \<Rightarrow> 'c \<Rightarrow> 'c channel_out result" where
  "NewChannelOut rnd compress =
     rbind rnd (\<lambda>i. Inr \<lparr>co_id = i, co_frame = 0, co_rlpLength = 0, co_compress = compress, co_closed = False\<rparr>)"

definition ChannelOut_Reset ::
  "'c compressor_ops \<Rightarrow> channel_id result \<Rightarrow> 'c channel_out \<Rightarrow> 'c channel_out \<times> unit result" where
  "ChannelOut_Reset ops rnd co =
     (let co1 = co\<lparr>co_frame := 0, co_rlpLength := 0, co_compress := cm_Reset ops (co_compress co),
                   co_closed := False\<rparr>
      in case rnd of Inl e \<Rightarrow> (co1, Inl e) | Inr i \<Rightarrow> (co1\<lparr>co_id := i\<rparr>, Inr ()))"

text \<open>\<open>encode\<close> is \<open>rlp.Encode\<close> of a batch, which calls \<open>EncodeRLP\<close>. The length is counted before the compressor
  is asked, also when the compressor refuses the batch.\<close>

definition ChannelOut_AddBatch ::
  "'c compressor_ops \<Rightarrow> (batch_data \<Rightarrow> bytes) \<Rightarrow> batch_data \<Rightarrow> 'c channel_out \<Rightarrow>
   'c channel_out \<times> u64 result" where
  "ChannelOut_AddBatch ops encode batch co =
     (if co_closed co then (co, Inl (Errorf ''already closed''))
      else let buf = encode batch in
           if co_rlpLength co + length buf > MaxRLPBytesPerChannel
           then (co, Inl (Wrap ''could not add bytes to channel'' ErrTooManyRLPBytes))
           else let co1 = co\<lparr>co_rlpLength := co_rlpLength co + length buf\<rparr> in
                case cm_Write ops buf (co_compress co1) of
                  (c, r) \<Rightarrow> (co1\<lparr>co_compress := c\<rparr>, rbind r (\<lambda>written. Inr (of_nat written))))"

definition ChannelOut_AddBlock ::
  "'c compressor_ops \<Rightarrow> (bytes \<Rightarrow> hash) \<Rightarrow> (batch_data \<Rightarrow> bytes) \<Rightarrow> geth_block \<Rightarrow> 'c channel_out \<Rightarrow>
   'c channel_out \<times> u64 result" where
  "ChannelOut_AddBlock ops keccak encode block co =
     (if co_closed co then (co, Inl (Errorf ''already closed''))
      else case BlockToBatch keccak block of
             Inl err \<Rightarrow> (co, Inl err)
           | Inr (batch, _) \<Rightarrow> ChannelOut_AddBatch ops encode batch co)"

definition InputBytes :: "'c channel_out \<Rightarrow> nat" where
  "InputBytes co = co_rlpLength co"

definition ReadyBytes :: "'c compressor_ops \<Rightarrow> 'c channel_out \<Rightarrow> nat" where
  "ReadyBytes ops co = cm_Len ops (co_compress co)"

definition ChannelOut_Flush :: "'c compressor_ops \<Rightarrow> 'c channel_out \<Rightarrow> 'c channel_out \<times> unit result" where
  "ChannelOut_Flush ops co =
     (case cm_Flush ops (co_compress co) of (c, r) \<Rightarrow> (co\<lparr>co_compress := c\<rparr>, r))"

definition ChannelOut_FullErr :: "'c compressor_ops \<Rightarrow> 'c channel_out \<Rightarrow> error option" where
  "ChannelOut_FullErr ops co = cm_FullErr ops (co_compress co)"

definition ChannelOut_Close :: "'c compressor_ops \<Rightarrow> 'c channel_out \<Rightarrow> 'c channel_out \<times> unit result" where
  "ChannelOut_Close ops co =
     (if co_closed co then (co, Inl (Errorf ''already closed''))
      else case cm_Close ops (co_compress co) of
             (c, r) \<Rightarrow> (co\<lparr>co_closed := True, co_compress := c\<rparr>, r))"

text \<open>\<open>OutputFrame\<close> appends a frame to the buffer \<open>w\<close>. It returns a number together with an error: with
  \<open>io.EOF\<close> after the last frame, with nil before it, and zero with any other error.\<close>

definition OutputFrame ::
  "'c compressor_ops \<Rightarrow> u64 \<Rightarrow> 'c channel_out \<times> bytes \<Rightarrow> ('c channel_out \<times> bytes) \<times> u16 \<times> error option" where
  "OutputFrame ops maxSize = (\<lambda>(co, w).
     if maxSize < FrameV0OverHeadSize then ((co, w), 0, Some ErrMaxFrameSizeTooSmall)
     else
       let len = of_nat (cm_Len ops (co_compress co));
           spill = (maxSize - FrameV0OverHeadSize > len);
           maxDataSize = (if spill then len else maxSize - FrameV0OverHeadSize);
           isLast = (spill \<and> co_closed co)
       in case cm_ReadFull ops (unat maxDataSize) (co_compress co) of
            (c, Inl err) \<Rightarrow> ((co\<lparr>co_compress := c\<rparr>, w), 0, Some err)
          | (c, Inr dat) \<Rightarrow>
              let f = \<lparr>ID = co_id co, FrameNumber = ucast (co_frame co), Data = dat, IsLast = isLast\<rparr>
              in ((co\<lparr>co_compress := c, co_frame := co_frame co + 1\<rparr>, w @ MarshalBinary f), FrameNumber f,
                  if isLast then Some EOF else None))"

section \<open>Force-closing a channel\<close>

fun scan_frames ::
  "channel_id \<Rightarrow> frame list \<Rightarrow> u16 \<times> bool \<times> u16 list \<Rightarrow> (u16 \<times> bool \<times> u16 list) result" where
  "scan_frames i [] s = Inr s"
| "scan_frames i (f # fs) (closeNumber, done, frameNumbers) =
     (let closeNumber' = (if \<not> done \<and> IsLast f then FrameNumber f else closeNumber);
          done' = (done \<or> IsLast f);
          frameNumbers' = List.insert (FrameNumber f) frameNumbers
      in if ID f \<noteq> i then Inl (Errorf ''invalid ID in list'')
         else scan_frames i fs (closeNumber', done', frameNumbers'))"

definition empty_frame :: "channel_id \<Rightarrow> u16 \<Rightarrow> bool \<Rightarrow> frame" where
  "empty_frame i n isLast = \<lparr>ID = i, FrameNumber = n, Data = [], IsLast = isLast\<rparr>"

text \<open>\<open>for i := uint16(0); i <= closeNumber; i++\<close>: the counter wraps, so that the loop does not end for the largest
  close number.\<close>

partial_function (option) fill_loop ::
  "channel_id \<Rightarrow> u16 list \<Rightarrow> u16 \<Rightarrow> u16 \<Rightarrow> bytes \<Rightarrow> bytes option" where
  "fill_loop cid frameNumbers closeNumber i out =
     (if i \<le> closeNumber
      then fill_loop cid frameNumbers closeNumber (i + 1)
             (if i \<in> set frameNumbers then out else out @ MarshalBinary (empty_frame cid i False))
      else Some out)"

definition ForceCloseTxData :: "frame list \<Rightarrow> bytes result option" where
  "ForceCloseTxData frames =
     (case frames of
        [] \<Rightarrow> Some (Inl (Errorf ''must provide at least one frame''))
      | f # _ \<Rightarrow>
          (case scan_frames (ID f) frames (0, False, []) of
             Inl err \<Rightarrow> Some (Inl err)
           | Inr (closeNumber, done, frameNumbers) \<Rightarrow>
               if \<not> done
               then Some (Inr (DerivationVersion0 # MarshalBinary (empty_frame (ID f) 0 True)))
               else map_option Inr (fill_loop (ID f) frameNumbers closeNumber 0 [DerivationVersion0])))"

section \<open>What a channel outputs\<close>

text \<open>Frames of one channel, numbered from 0 (modulo \<open>2 ^ 16\<close>); with \<open>fin\<close> the last of them closes the channel.\<close>

definition frame_chain :: "channel_id \<Rightarrow> frame list \<Rightarrow> bool \<Rightarrow> bool" where
  "frame_chain i fs fin =
     list_all (\<lambda>n. ID (fs ! n) = i \<and> FrameNumber (fs ! n) = of_nat n \<and>
                    IsLast (fs ! n) = (fin \<and> n = length fs - 1)) [0..<length fs]"

lemma frame_chain_Nil [simp]: "frame_chain i [] fin"
  by (simp add: frame_chain_def)

lemma frame_chain_snoc:
  assumes "frame_chain i fs False"
  shows "frame_chain i (fs @ [\<lparr>ID = i, FrameNumber = of_nat (length fs), Data = d, IsLast = l\<rparr>]) l"
  using assms by (auto simp: frame_chain_def list_all_iff nth_append)

lemma frame_chain_complete:
  "frame_chain i fs True \<Longrightarrow> fs \<noteq> [] \<Longrightarrow> length fs \<le> 65536 \<Longrightarrow> complete_channel i fs"
  by (simp add: frame_chain_def complete_channel_def)

lemma ucast_of_nat_u16 [simp]: "(ucast (of_nat n :: u64) :: u16) = of_nat n"
  by (simp add: unsigned_of_nat word_unat_eq_iff unat_of_nat take_bit_eq_mod mod_mod_cancel)

text \<open>The state of a channel that was given \<open>plain\<close>, has output the frames \<open>fs\<close> and has the bytes \<open>ready\<close>
  left, in terms of the contract of its compressor.\<close>

definition co_log ::
  "('c \<Rightarrow> bytes \<Rightarrow> bytes \<Rightarrow> bytes \<Rightarrow> bool \<Rightarrow> bool) \<Rightarrow> 'c channel_out \<Rightarrow> bytes \<Rightarrow> frame list \<Rightarrow> bytes \<Rightarrow>
   bool \<Rightarrow> bool" where
  "co_log view co plain fs ready fin =
     (view (co_compress co) plain (concat (map Data fs)) ready (co_closed co) \<and>
      co_frame co = of_nat (length fs) \<and> frame_chain (co_id co) fs fin \<and>
      length plain \<le> co_rlpLength co \<and> co_rlpLength co \<le> MaxRLPBytesPerChannel \<and>
      (fin \<longrightarrow> co_closed co \<and> ready = []))"

lemma co_log_New:
  "NewChannelOut rnd c = Inr co \<Longrightarrow> view c [] [] [] False \<Longrightarrow> co_log view co [] [] [] False"
  by (auto simp: NewChannelOut_def co_log_def rbind_Inr)

definition frame_room :: "u64 \<Rightarrow> nat" where
  "frame_room maxSize = unat maxSize - 23"

lemma frame_room_word: "\<not> maxSize < FrameV0OverHeadSize \<Longrightarrow> unat (maxSize - FrameV0OverHeadSize) = frame_room maxSize"
  by (simp add: FrameV0OverHeadSize_def frame_room_def unat_sub word_less_nat_alt word_le_nat_alt)

context compressor_contract
begin

lemma AddBatch_ok:
  assumes "co_log view co plain fs ready False" and "ChannelOut_AddBatch ops encode b co = (co', Inr n)"
  shows "\<exists>new. co_log view co' (plain @ encode b) fs (ready @ new) False \<and> co_id co' = co_id co \<and>
     \<not> co_closed co'"
  using assms Write_ok
  by (fastforce simp: ChannelOut_AddBatch_def co_log_def Let_def rbind_Inr split: if_splits prod.splits)

lemma AddBatch_refused:
  assumes "co_log view co plain fs ready fin" and "ChannelOut_AddBatch ops encode b co = (co', Inl e)"
    and "errors_Is e ErrTooManyRLPBytes \<or> errors_Is e CompressorFullErr"
  shows "co_log view co' plain fs ready fin \<and> co_id co' = co_id co \<and> co_closed co' = co_closed co"
proof (cases "co_closed co \<or> co_rlpLength co + length (encode b) > MaxRLPBytesPerChannel")
  case True
  then show ?thesis using assms(1,2) by (auto simp: ChannelOut_AddBatch_def Let_def split: if_splits)
next
  case False
  obtain c r where w: "cm_Write ops (encode b) (co_compress co) = (c, r)" by (metis prod.exhaust)
  with False assms(2) have r: "r = Inl e" and co': "co' = co\<lparr>co_rlpLength := co_rlpLength co + length (encode b), co_compress := c\<rparr>"
    by (auto simp: ChannelOut_AddBatch_def Let_def rbind_def split: sum.splits)
  then have e: "e = CompressorFullErr"
    using Write_err [OF w [unfolded r]] assms(3) by (auto simp: CompressorFullErr_def ErrTooManyRLPBytes_def)
  then show ?thesis
    using Write_full [OF _ w [unfolded r e]] assms(1) False co' by (auto simp: co_log_def)
qed

lemma Close_log:
  assumes "co_log view co plain fs ready False" and "ChannelOut_Close ops co = (co', Inr u)"
  shows "\<exists>new. co_log view co' plain fs (ready @ new) False \<and> co_closed co' \<and> co_id co' = co_id co"
  using assms Close_ok by (fastforce simp: ChannelOut_Close_def co_log_def split: prod.splits if_splits)

lemma OutputFrame_ok:
  assumes log: "co_log view co plain fs ready False" and size: "\<not> maxSize < FrameV0OverHeadSize"
    and fits: "length ready < 2 ^ 64"
  shows "\<exists>co' f. OutputFrame ops maxSize (co, w) =
       ((co', w @ MarshalBinary f), of_nat (length fs), if IsLast f then Some EOF else None) \<and>
     co_log view co' plain (fs @ [f]) (drop (frame_room maxSize) ready) (IsLast f) \<and>
     co_id co' = co_id co \<and> co_closed co' = co_closed co \<and>
     f = \<lparr>ID = co_id co, FrameNumber = of_nat (length fs), Data = take (frame_room maxSize) ready,
          IsLast = (co_closed co \<and> length ready < frame_room maxSize)\<rparr>"
proof -
  let ?room = "frame_room maxSize" and ?c = "co_compress co"
  let ?k = "min ?room (length ready)"
  have v: "view ?c plain (concat (map Data fs)) ready (co_closed co)"
    and n: "co_frame co = of_nat (length fs)" and ch: "frame_chain (co_id co) fs False"
    and rlp: "length plain \<le> co_rlpLength co" "co_rlpLength co \<le> MaxRLPBytesPerChannel"
    using log by (auto simp: co_log_def)
  have len: "cm_Len ops ?c = length ready" by (rule Len_ok [OF v])
  have spill: "maxSize - FrameV0OverHeadSize > of_nat (length ready) \<longleftrightarrow> length ready < ?room"
    using fits frame_room_word [OF size] by (simp add: word_less_nat_alt unat_of_nat)
  have "?k \<le> length ready" by simp
  from Read_ok [OF v this] obtain c' where
    rd: "cm_ReadFull ops ?k ?c = (c', Inr (take ?k ready))" and
    v': "view c' plain (concat (map Data fs) @ take ?k ready) (drop ?k ready) (co_closed co)"
    by blast
  let ?f = "\<lparr>ID = co_id co, FrameNumber = of_nat (length fs), Data = take ?room ready,
      IsLast = (co_closed co \<and> length ready < ?room)\<rparr>"
  let ?co = "co\<lparr>co_compress := c', co_frame := co_frame co + 1\<rparr>"
  have tk: "take ?k ready = take ?room ready" "drop ?k ready = drop ?room ready" by (simp_all add: min_def)
  have "OutputFrame ops maxSize (co, w) =
      ((?co, w @ MarshalBinary ?f), of_nat (length fs), if IsLast ?f then Some EOF else None)"
  proof (cases "length ready < ?room")
    case True
    then have "cm_ReadFull ops (unat (of_nat (length ready) :: u64)) ?c = (c', Inr ready)"
      using rd fits by (simp add: unat_of_nat)
    then show ?thesis using size True spill by (simp add: OutputFrame_def len Let_def n)
  next
    case False
    then have "cm_ReadFull ops ?room ?c = (c', Inr (take ?room ready))" using rd by (simp add: min_def)
    then show ?thesis using size False spill by (simp add: OutputFrame_def len Let_def n frame_room_word)
  qed
  moreover have "co_log view ?co plain (fs @ [?f]) (drop ?room ready) (IsLast ?f)"
    using v' n rlp frame_chain_snoc [OF ch] by (simp add: co_log_def tk)
  ultimately show ?thesis by (intro exI [of _ ?co] exI [of _ ?f]) simp
qed

end

section \<open>What force-closing achieves\<close>

definition seen_numbers :: "frame list \<Rightarrow> u16 list \<Rightarrow> u16 list" where
  "seen_numbers gs ns = fold (\<lambda>f. List.insert (FrameNumber f)) gs ns"

lemma set_seen_numbers: "set (seen_numbers gs ns) = set ns \<union> FrameNumber ` set gs"
  by (induction gs arbitrary: ns) (auto simp: seen_numbers_def)

lemma scan_frames_ok:
  assumes "list_all (\<lambda>f. ID f = i) gs"
  shows "scan_frames i gs (c0, d0, n0) =
     Inr (if d0 \<or> \<not> list_ex IsLast gs then c0 else FrameNumber (hd (filter IsLast gs)),
          d0 \<or> list_ex IsLast gs, seen_numbers gs n0)"
  using assms by (induction gs arbitrary: c0 d0 n0) (auto simp: Let_def seen_numbers_def)

definition fill_frames :: "channel_id \<Rightarrow> u16 list \<Rightarrow> nat list \<Rightarrow> frame list" where
  "fill_frames cid nums ns = map (\<lambda>n. empty_frame cid (of_nat n) False) (filter (\<lambda>n. of_nat n \<notin> set nums) ns)"

lemma fill_loop_ends:
  assumes "unat c < 65535" and "unat i \<le> Suc (unat c)"
  shows "fill_loop cid nums c i out =
     Some (out @ concat (map MarshalBinary (fill_frames cid nums [unat i..<Suc (unat c)])))"
  using assms
proof (induction "Suc (unat c) - unat i" arbitrary: i out)
  case 0
  then have "\<not> i \<le> c" by (simp add: word_le_nat_alt)
  with 0 show ?case by (simp add: fill_loop.simps fill_frames_def)
next
  case (Suc k)
  then have le: "i \<le> c" "unat i \<le> unat c" by (simp_all add: word_le_nat_alt)
  have inc: "unat (i + 1) = Suc (unat i)"
    using le Suc.prems(1) by (subst unat_word_ariths) simp
  have upt: "[unat i..<Suc (unat c)] = unat i # [Suc (unat i)..<Suc (unat c)]"
    using le by (simp add: upt_conv_Cons)
  have "fill_loop cid nums c (i + 1) out' =
      Some (out' @ concat (map MarshalBinary (fill_frames cid nums [Suc (unat i)..<Suc (unat c)])))" for out'
    using Suc.hyps(1) [of "i + 1" out'] Suc.hyps(2) Suc.prems le by (simp add: inc del: upt_Suc)
  then show ?case
    using le by (subst fill_loop.simps) (simp add: fill_frames_def upt del: upt_Suc)
qed

text \<open>The channel with the missing frames filled in.\<close>

definition filled :: "channel_id \<Rightarrow> frame list \<Rightarrow> frame list \<Rightarrow> frame list" where
  "filled i fs gs = map (\<lambda>n. if fs ! n \<in> set gs then fs ! n else empty_frame i (of_nat n) False) [0..<length fs]"

lemma filled_complete:
  assumes "complete_channel i fs" and "last fs \<in> set gs"
  shows "complete_channel i (filled i fs gs)"
proof -
  have "fs ! (length fs - 1) \<in> set gs" using assms by (simp add: complete_channel_def last_conv_nth)
  then show ?thesis
    using assms(1) by (fastforce simp: complete_channel_def filled_def list_all_iff empty_frame_def)
qed

lemma frame_number_in:
  assumes fs: "complete_channel i fs" and "set gs \<subseteq> set fs" and n: "n < length fs"
  shows "of_nat n \<in> FrameNumber ` set gs \<longleftrightarrow> fs ! n \<in> set gs"
proof
  have fn: "FrameNumber (fs ! n) = of_nat n" using fs n by (auto simp: complete_channel_def list_all_iff)
  { assume "of_nat n \<in> FrameNumber ` set gs"
    then obtain g where g: "g \<in> set gs" "FrameNumber g = FrameNumber (fs ! n)" using fn by auto
    then have "g = fs ! n" using assms complete_channel_unique [OF fs, of g "fs ! n"] by auto
    with g show "fs ! n \<in> set gs" by simp }
  show "fs ! n \<in> set gs \<Longrightarrow> of_nat n \<in> FrameNumber ` set gs" using fn by (metis image_eqI)
qed

lemma set_filled:
  assumes "complete_channel i fs" and "set gs \<subseteq> set fs" and "set nums = FrameNumber ` set gs"
  shows "set gs \<union> set (fill_frames i nums [0..<length fs]) = set (filled i fs gs)"
proof -
  have fn: "(of_nat n \<in> set nums) = (fs ! n \<in> set gs)" if "n < length fs" for n
    using frame_number_in [OF assms(1,2) that] assms(3) by simp
  have "f \<in> set (filled i fs gs)" if f: "f \<in> set gs" for f
  proof -
    have "f \<in> set fs" using assms(2) f by blast
    then obtain n where "n < length fs" "f = fs ! n" by (auto simp: in_set_conv_nth)
    with f show ?thesis by (auto simp: filled_def image_iff intro!: bexI [of _ n])
  qed
  moreover have "f \<in> set (filled i fs gs)" if "f \<in> set (fill_frames i nums [0..<length fs])" for f
  proof -
    from that obtain n where "n < length fs" "of_nat n \<notin> set nums" "f = empty_frame i (of_nat n) False"
      by (auto simp: fill_frames_def)
    then show ?thesis using fn [of n] by (auto simp: filled_def image_iff intro!: bexI [of _ n])
  qed
  moreover have "f \<in> set gs \<union> set (fill_frames i nums [0..<length fs])" if "f \<in> set (filled i fs gs)" for f
  proof -
    from that obtain n where "n < length fs" "f = (if fs ! n \<in> set gs then fs ! n else empty_frame i (of_nat n) False)"
      unfolding filled_def by auto
    then show ?thesis using fn [of n] by (cases "fs ! n \<in> set gs") (simp_all add: fill_frames_def)
  qed
  ultimately show ?thesis by blast
qed

lemma last_frame:
  assumes fs: "complete_channel i fs" and "set gs \<subseteq> set fs"
  shows "list_ex IsLast gs \<longleftrightarrow> last fs \<in> set gs"
    and "list_ex IsLast gs \<Longrightarrow> unat (FrameNumber (hd (filter IsLast gs))) = length fs - 1"
proof -
  have is_last: "IsLast g \<longleftrightarrow> g = last fs" "IsLast g \<Longrightarrow> unat (FrameNumber g) = length fs - 1"
    if g: "g \<in> set fs" for g
  proof -
    from g obtain n where n: "n < length fs" "g = fs ! n" by (auto simp: in_set_conv_nth)
    have ne: "length fs - 1 < length fs" using n by simp
    have l: "last fs = fs ! (length fs - 1)" using n by (intro last_conv_nth) auto
    show "IsLast g \<Longrightarrow> unat (FrameNumber g) = length fs - 1"
      using complete_channel_nth [OF fs n(1)] n by simp
    show "IsLast g \<longleftrightarrow> g = last fs"
    proof
      assume "IsLast g"
      then have "n = length fs - 1" using complete_channel_nth [OF fs n(1)] n(2) by simp
      then show "g = last fs" using n(2) l by simp
    next
      assume "g = last fs"
      then show "IsLast g" using complete_channel_nth [OF fs ne] l by simp
    qed
  qed
  have "last fs \<in> set fs" using fs by (auto simp: complete_channel_def)
  then show "list_ex IsLast gs \<longleftrightarrow> last fs \<in> set gs"
    using is_last assms(2) by (auto simp: list_ex_iff subset_iff)
  assume "list_ex IsLast gs"
  then have "filter IsLast gs \<noteq> []" by (auto simp: list_ex_iff filter_empty_conv)
  then have "hd (filter IsLast gs) \<in> set (filter IsLast gs)" by (rule hd_in_set)
  then show "unat (FrameNumber (hd (filter IsLast gs))) = length fs - 1" using is_last assms(2) by auto
qed

lemma ForceClose_closed:
  assumes fs: "complete_channel i fs" and gs: "set gs \<subseteq> set fs" and l: "last fs \<in> set gs"
    and len: "length fs \<le> 65535"
  shows "\<exists>hs. ForceCloseTxData gs = Some (Inr (DerivationVersion0 # concat (map MarshalBinary hs))) \<and>
     set (gs @ hs) = set (filled i fs gs) \<and> list_all (\<lambda>h. ID h = i \<and> Data h = []) hs"
proof -
  obtain g gs' where gs': "gs = g # gs'" using l by (cases gs) auto
  have ids: "ID f = i" if "f \<in> set fs" for f
    using that complete_channel_nth [OF fs] by (metis in_set_conv_nth)
  have "list_all (\<lambda>f. ID f = i) gs" using gs ids by (auto simp: list_all_iff)
  note scan = scan_frames_ok [OF this, of 0 False "[]"]
  have ex: "list_ex IsLast gs" using last_frame(1) [OF fs gs] l by simp
  let ?c = "FrameNumber (hd (filter IsLast gs))" and ?hs = "fill_frames i (seen_numbers gs []) [0..<length fs]"
  have c: "unat ?c = length fs - 1" by (rule last_frame(2) [OF fs gs ex])
  have ne: "fs \<noteq> []" using fs by (simp add: complete_channel_def)
  have scan: "scan_frames i gs (0, False, []) = Inr (?c, True, seen_numbers gs [])"
    using scan ex by simp
  have fill: "fill_loop i (seen_numbers gs []) ?c 0 [DerivationVersion0] =
      Some ([DerivationVersion0] @ concat (map MarshalBinary ?hs))"
    using fill_loop_ends [of ?c 0 i "seen_numbers gs []" "[DerivationVersion0]"] c len ne by simp
  have "ID g = i" using gs ids gs' by auto
  with scan fill have "ForceCloseTxData gs = Some (Inr (DerivationVersion0 # concat (map MarshalBinary ?hs)))"
    unfolding gs' ForceCloseTxData_def by (simp del: scan_frames.simps filter.simps)
  moreover have "set (gs @ ?hs) = set (filled i fs gs)"
    using set_filled [OF fs gs, of "seen_numbers gs []"] by (simp add: set_seen_numbers)
  ultimately show ?thesis
    by (intro exI [of _ ?hs]) (auto simp: list_all_iff fill_frames_def empty_frame_def)
qed

lemma ForceClose_open:
  assumes fs: "complete_channel i fs" and gs: "set gs \<subseteq> set fs" "gs \<noteq> []" and l: "last fs \<notin> set gs"
  shows "ForceCloseTxData gs = Some (Inr (DerivationVersion0 # MarshalBinary (empty_frame i 0 True)))"
proof -
  obtain g gs' where gs': "gs = g # gs'" using gs(2) by (cases gs) auto
  have ids: "ID f = i" if "f \<in> set fs" for f
    using that complete_channel_nth [OF fs] by (metis in_set_conv_nth)
  have "list_all (\<lambda>f. ID f = i) gs" using gs(1) ids by (auto simp: list_all_iff)
  note scan = scan_frames_ok [OF this, of 0 False "[]"]
  moreover have "\<not> list_ex IsLast gs" using last_frame(1) [OF fs gs(1)] l by simp
  moreover have "ID g = i" using gs(1) ids gs' by auto
  ultimately show ?thesis using gs' by (simp add: ForceCloseTxData_def)
qed

lemma add_or_ignore_inv:
  "channel_inv ch \<Longrightarrow> channel_inv (foldl (add_or_ignore b) ch gs)"
  by (induction gs arbitrary: ch) (auto simp: add_or_ignore_def AddFrame_inv split: sum.splits)

lemma closing_frame_0:
  assumes fs: "complete_channel i fs" and gs: "set gs \<subseteq> set fs" "gs \<noteq> []" and l: "last fs \<notin> set gs"
  shows "IsReady (foldl (add_or_ignore b) (NewChannel i b0) (gs @ [empty_frame i 0 True])) \<longleftrightarrow> fs ! 0 \<notin> set gs"
proof -
  let ?ch = "foldl (add_or_ignore b) (NewChannel i b0) gs" and ?h = "empty_frame i 0 True"
  have st: "partial_state i fs (set gs) ?ch" by (rule partial_state_gs [OF fs gs(1)])
  have inv: "channel_inv ?ch" by (simp add: add_or_ignore_inv)
  have "\<not> list_ex IsLast gs" using last_frame(1) [OF fs gs(1)] l by simp
  then have not_closed: "\<not> ch_closed ?ch" using st by (auto simp: partial_state_def list_ex_iff)
  have ne: "0 < length fs" using fs by (simp add: complete_channel_def)
  have zero: "map_of (inputs ?ch) 0 = None \<longleftrightarrow> fs ! 0 \<notin> set gs"
  proof -
    have "map_of (inputs ?ch) 0 = None \<longleftrightarrow> (\<forall>f. \<not> (f \<in> set gs \<and> 0 = (ucast (FrameNumber f) :: u64)))"
    proof -
      have "map_of (inputs ?ch) 0 = Some f \<longleftrightarrow> f \<in> set gs \<and> 0 = (ucast (FrameNumber f) :: u64)" for f
        using st by (simp add: partial_state_def)
      then show ?thesis by (cases "map_of (inputs ?ch) 0") auto
    qed
    also have "\<dots> \<longleftrightarrow> (0 :: u16) \<notin> FrameNumber ` set gs"
      using ucast_u16_u64(1) [of 0] by auto
    finally show ?thesis using frame_number_in [OF fs gs(1) ne] by simp
  qed
  show ?thesis
  proof (cases "fs ! 0 \<in> set gs")
    case True
    then have "add_or_ignore b ?ch ?h = ?ch"
      using zero not_closed by (auto simp: add_or_ignore_def AddFrame_def empty_frame_def)
    then show ?thesis using True not_closed by (simp add: IsReady_def)
  next
    case False
    obtain g where g: "g \<in> set gs" using gs(2) by (cases gs) auto
    then have in_g: "map_of (inputs ?ch) (ucast (FrameNumber g)) = Some g"
      using st by (auto simp: partial_state_def)
    then have "FrameNumber g \<noteq> 0" using zero False by auto
    moreover have "FrameNumber g \<le> highestFrameNumber ?ch"
      using input_ok_frame [OF inv in_g] by (simp add: input_ok_def)
    ultimately have prunes: "add_prunes ?ch ?h" by (simp add: add_prunes_def empty_frame_def word_neq_0_conv)
    have "AddFrame ?ch ?h b = Inr (accept_frame ?ch ?h b)"
      using False zero not_closed st by (simp add: AddFrame_def empty_frame_def partial_state_def)
    then have "add_or_ignore b ?ch ?h = accept_frame ?ch ?h b" by (simp add: add_or_ignore_def)
    moreover have "inputs (accept_frame ?ch ?h b) = [(0, ?h)]"
      using prunes by (simp add: kept_inputs_def empty_frame_def)
    ultimately show ?thesis
      using False by (simp add: IsReady_def frame_indices_def) (simp add: empty_frame_def)
  qed
qed

section \<open>Properties\<close>

text \<open>force-closing a channel. Given frames of a channel with at most 65535 frames that were submitted, in
  any order, \<open>ForceCloseTxData\<close> returns data that parses into well-formed frames of the channel. If the
  closing frame was submitted, the data fills every gap and the channel becomes ready; if it was not, the
  data is a closing frame number 0, which closes the channel exactly when frame 0 was not submitted:
  otherwise the derivation ignores it as a duplicate and the channel stays open.\<close>

theorem force_close_effect:
  assumes "complete_channel i fs" and "length fs \<le> 65535" and "length i = ChannelIDLength"
    and "set gs \<subseteq> set fs" and "gs \<noteq> []"
  shows "\<exists>hs. ForceCloseTxData gs = Some (Inr (DerivationVersion0 # concat (map MarshalBinary hs))) \<and>
     list_all frame_ok hs \<and>
     (IsReady (foldl (add_or_ignore b) (NewChannel i b0) (gs @ hs)) \<longleftrightarrow> last fs \<in> set gs \<or> fs ! 0 \<notin> set gs)"
proof (cases "last fs \<in> set gs")
  case True
  from ForceClose_closed [OF assms(1,4) True assms(2)] obtain hs where
    hs: "ForceCloseTxData gs = Some (Inr (DerivationVersion0 # concat (map MarshalBinary hs)))"
    "set (gs @ hs) = set (filled i fs gs)" "list_all (\<lambda>h. ID h = i \<and> Data h = []) hs" by blast
  have "list_all frame_ok hs" using hs(3) assms(3) by (auto simp: list_all_iff frame_ok_def)
  with hs reassemble [OF filled_complete [OF assms(1) True] hs(2)] True show ?thesis by blast
next
  case False
  have "frame_ok (empty_frame i 0 True)" using assms(3) by (simp add: frame_ok_def empty_frame_def)
  with False ForceClose_open [OF assms(1,4,5) False] closing_frame_0 [OF assms(1,4,5) False]
  show ?thesis by (intro exI [of _ "[empty_frame i 0 True]"]) simp
qed

text \<open>A channel of two frames of which only the first was submitted: the closing frame is of no use.\<close>

theorem force_close_effect_witness:
  "\<exists>hs. ForceCloseTxData [ex_frame 0 [7] False] = Some (Inr (DerivationVersion0 # concat (map MarshalBinary hs))) \<and>
     \<not> IsReady (foldl (add_or_ignore zero_l1_ref) (NewChannel (replicate 16 1) zero_l1_ref) (ex_frame 0 [7] False # hs))"
proof -
  let ?fs = "[ex_frame 0 [7] False, ex_frame 1 [8] True]"
  have "complete_channel (replicate 16 1) ?fs"
    by (simp add: complete_channel_def ex_frame_def upt_conv_Cons)
  from force_close_effect [OF this, of "[ex_frame 0 [7] False]" zero_l1_ref zero_l1_ref]
  show ?thesis by (auto simp: ChannelIDLength_def ex_frame_def)
qed

end
