(* ===== verification/Channel_Builder.thy ===== *)
theory Channel_Builder
  imports Channel_Out
begin

text \<open>
  The channel builder of the batcher, \<open>op-batcher/batcher/channel_builder.go\<close>: it fills a \<open>ChannelOut\<close> with the
  batches of L2 blocks, keeps the L1 block number at which the channel has to be closed, and cuts the compressed
  data into frames. The loops that create frames may run forever for one frame size, so they are partial
  functions; for every other valid size they are shown to end.
\<close>

section \<open>Configuration and state\<close>

definition ErrInvalidChannelTimeout :: error where
  "ErrInvalidChannelTimeout = Errorf ''channel timeout is less than the safety margin''"

definition ErrMaxFrameIndex :: error where
  "ErrMaxFrameIndex = Errorf ''max frame index reached (uint16)''"

definition ErrMaxDurationReached :: error where
  "ErrMaxDurationReached = Errorf ''max channel duration reached''"

definition ErrChannelTimeoutClose :: error where
  "ErrChannelTimeoutClose = Errorf ''close to channel timeout''"

definition ErrSeqWindowClose :: error where
  "ErrSeqWindowClose = Errorf ''close to sequencer window timeout''"

definition ErrTerminated :: error where
  "ErrTerminated = Errorf ''channel terminated''"

record channel_config =
  cc_SeqWindowSize :: u64
  cc_ChannelTimeout :: u64
  MaxChannelDuration :: u64
  SubSafetyMargin :: u64
  MaxFrameSize :: u64
  CompressorConfig :: compressor_config

definition ChannelConfig_Check :: "channel_config \<Rightarrow> unit result" where
  "ChannelConfig_Check cc =
     (if cc_ChannelTimeout cc < SubSafetyMargin cc then Inl ErrInvalidChannelTimeout
      else if MaxFrameSize cc = 0 then Inl (Errorf ''max frame size cannot be zero'')
      else if MaxFrameSize cc < FrameV0OverHeadSize
        then Inl (Errorf ''max frame size is less than the minimum 23'')
      else Inr ())"

record frame_id =
  chID :: channel_id
  frameNumber :: u16

record frame_data =
  fr_data :: bytes
  fr_id :: frame_id

record 'z channel_builder =
  bd_cfg :: channel_config
  bd_timeout :: u64
  bd_timeoutReason :: "error option"
  bd_fullErr :: "error option"
  bd_co :: "'z compressor channel_out"
  bd_blocks :: "geth_block list"
  bd_frames :: "frame_data list"
  bd_numFrames :: nat
  bd_outputBytes :: nat

text \<open>What the batcher calls outside the repository: the zlib writer, keccak and the RLP encoder.\<close>

record 'z batcher_env =
  be_zlib :: "'z zlib"
  be_keccak :: "bytes \<Rightarrow> hash"
  be_rlpString :: "bytes \<Rightarrow> bytes"
  be_rlpEncode :: "batch_data \<Rightarrow> bytes"

definition encode_batch :: "'z batcher_env \<Rightarrow> batch_data \<Rightarrow> bytes" where
  "encode_batch env b = Batch_EncodeRLP (be_rlpString env) (be_rlpEncode env) b"

abbreviation methods :: "'z batcher_env \<Rightarrow> 'z compressor compressor_ops" where
  "methods env \<equiv> compressor_methods (be_zlib env)"

definition newChannelBuilder ::
  "'z batcher_env \<Rightarrow> channel_id result \<Rightarrow> channel_config \<Rightarrow> 'z channel_builder result" where
  "newChannelBuilder env rnd cfg =
     rbind (NewCompressor (be_zlib env) (CompressorConfig cfg)) (\<lambda>c.
     rbind (NewChannelOut rnd c) (\<lambda>co.
       Inr \<lparr>bd_cfg = cfg, bd_timeout = 0, bd_timeoutReason = None, bd_fullErr = None, bd_co = co,
            bd_blocks = [], bd_frames = [], bd_numFrames = 0, bd_outputBytes = 0\<rparr>))"

definition Builder_ID :: "'z channel_builder \<Rightarrow> channel_id" where
  "Builder_ID c = co_id (bd_co c)"

definition Builder_InputBytes :: "'z channel_builder \<Rightarrow> nat" where
  "Builder_InputBytes c = InputBytes (bd_co c)"

definition Builder_ReadyBytes :: "'z batcher_env \<Rightarrow> 'z channel_builder \<Rightarrow> nat" where
  "Builder_ReadyBytes env c = ReadyBytes (methods env) (bd_co c)"

definition Builder_Reset ::
  "'z batcher_env \<Rightarrow> channel_id result \<Rightarrow> 'z channel_builder \<Rightarrow> 'z channel_builder \<times> unit result" where
  "Builder_Reset env rnd c =
     (case ChannelOut_Reset (methods env) rnd (bd_co c) of
        (co, r) \<Rightarrow> (c\<lparr>bd_blocks := [], bd_frames := [], bd_timeout := 0, bd_fullErr := None, bd_co := co\<rparr>, r))"

section \<open>Full channels and timeouts\<close>

definition Builder_IsFull :: "'z channel_builder \<Rightarrow> bool" where
  "Builder_IsFull c = (bd_fullErr c \<noteq> None)"

definition setFullErr :: "error \<Rightarrow> 'z channel_builder \<Rightarrow> 'z channel_builder" where
  "setFullErr err c = c\<lparr>bd_fullErr := Some (ChannelFullError err)\<rparr>"

definition updateTimeout :: "u64 \<Rightarrow> error \<Rightarrow> 'z channel_builder \<Rightarrow> 'z channel_builder" where
  "updateTimeout timeoutBlockNum reason c =
     (if bd_timeout c = 0 \<or> bd_timeout c > timeoutBlockNum
      then c\<lparr>bd_timeout := timeoutBlockNum, bd_timeoutReason := Some reason\<rparr> else c)"

definition updateSwTimeout :: "batch_data \<Rightarrow> 'z channel_builder \<Rightarrow> 'z channel_builder" where
  "updateSwTimeout batch c =
     updateTimeout (EpochNum batch + cc_SeqWindowSize (bd_cfg c) - SubSafetyMargin (bd_cfg c)) ErrSeqWindowClose c"

definition updateDurationTimeout :: "u64 \<Rightarrow> 'z channel_builder \<Rightarrow> 'z channel_builder" where
  "updateDurationTimeout l1BlockNum c =
     (if MaxChannelDuration (bd_cfg c) = 0 then c
      else updateTimeout (l1BlockNum + MaxChannelDuration (bd_cfg c)) ErrMaxDurationReached c)"

definition FramePublished :: "u64 \<Rightarrow> 'z channel_builder \<Rightarrow> 'z channel_builder" where
  "FramePublished l1BlockNum c =
     updateTimeout (l1BlockNum + cc_ChannelTimeout (bd_cfg c) - SubSafetyMargin (bd_cfg c)) ErrChannelTimeoutClose c"

definition TimedOut :: "u64 \<Rightarrow> 'z channel_builder \<Rightarrow> bool" where
  "TimedOut blockNum c = (bd_timeout c \<noteq> 0 \<and> blockNum \<ge> bd_timeout c)"

text \<open>A timeout that is set has a reason; \<open>setFullErr\<close> of a nil reason would be a full error all the same.\<close>

definition checkTimeout :: "u64 \<Rightarrow> 'z channel_builder \<Rightarrow> 'z channel_builder" where
  "checkTimeout blockNum c =
     (if \<not> Builder_IsFull c \<and> TimedOut blockNum c
      then setFullErr (case bd_timeoutReason c of Some e \<Rightarrow> e | None \<Rightarrow> Errorf ''nil'') c else c)"

definition Builder_RegisterL1Block :: "u64 \<Rightarrow> 'z channel_builder \<Rightarrow> 'z channel_builder" where
  "Builder_RegisterL1Block l1BlockNum c = checkTimeout l1BlockNum (updateDurationTimeout l1BlockNum c)"

section \<open>Adding blocks\<close>

text \<open>\<open>co.AddBatch\<close> succeeded: the block is recorded, the timeout updated, and the channel marked as full
  when the compressor is.\<close>

definition block_added ::
  "'z batcher_env \<Rightarrow> geth_block \<Rightarrow> batch_data \<Rightarrow> 'z channel_builder \<Rightarrow> 'z channel_builder" where
  "block_added env block batch c =
     (let c2 = updateSwTimeout batch (c\<lparr>bd_blocks := bd_blocks c @ [block]\<rparr>)
      in case ChannelOut_FullErr (methods env) (bd_co c2) of
           Some err \<Rightarrow> setFullErr err c2
         | None \<Rightarrow> c2)"

definition Builder_AddBlock ::
  "'z batcher_env \<Rightarrow> geth_block \<Rightarrow> 'z channel_builder \<Rightarrow> 'z channel_builder \<times> l1_block_info result" where
  "Builder_AddBlock env block c =
     (case bd_fullErr c of
        Some err \<Rightarrow> (c, Inl err)
      | None \<Rightarrow>
          (case BlockToBatch (be_keccak env) block of
             Inl err \<Rightarrow> (c, Inl (Wrap ''converting block to batch'' err))
           | Inr (batch, l1info) \<Rightarrow>
               (case ChannelOut_AddBatch (methods env) (encode_batch env) batch (bd_co c) of
                  (co, r) \<Rightarrow>
                    let c1 = c\<lparr>bd_co := co\<rparr> in
                    (case r of
                       Inl err \<Rightarrow>
                         if errors_Is err ErrTooManyRLPBytes \<or> errors_Is err CompressorFullErr
                         then (setFullErr err c1, Inl (ChannelFullError err))
                         else (c1, Inl (Wrap ''adding block to channel out'' err))
                     | Inr _ \<Rightarrow> (block_added env block batch c1, Inr l1info)))))"

section \<open>Creating frames\<close>

definition outputFrame :: "'z batcher_env \<Rightarrow> 'z channel_builder \<Rightarrow> 'z channel_builder \<times> error option" where
  "outputFrame env c =
     (case OutputFrame (methods env) (MaxFrameSize (bd_cfg c)) (bd_co c, []) of
        ((co, buf), fn, err) \<Rightarrow>
          let c1 = c\<lparr>bd_co := co\<rparr> in
          if err \<noteq> Some EOF \<and> err \<noteq> None
          then (c1, map_option (Wrap ''writing frame'') err)
          else let c2 = (if fn = -1 then setFullErr ErrMaxFrameIndex c1 else c1);
                   frame = \<lparr>fr_data = buf, fr_id = \<lparr>chID = co_id (bd_co c2), frameNumber = fn\<rparr>\<rparr>
               in (c2\<lparr>bd_frames := bd_frames c2 @ [frame], bd_numFrames := bd_numFrames c2 + 1,
                      bd_outputBytes := bd_outputBytes c2 + length (fr_data frame)\<rparr>, err))"

text \<open>\<open>int(c.cfg.MaxFrameSize)\<close> is the signed reading of the word. \<open>None\<close> is a loop that does not end.\<close>

partial_function (option) outputReadyFrames ::
  "'z batcher_env \<Rightarrow> 'z channel_builder \<Rightarrow> ('z channel_builder \<times> error option) option" where
  "outputReadyFrames env c =
     (if int (Builder_ReadyBytes env c) \<ge> sint (MaxFrameSize (bd_cfg c))
      then (case outputFrame env c of
              (c', err) \<Rightarrow>
                if err = Some EOF then Some (c', None)
                else if err \<noteq> None then Some (c', err)
                else outputReadyFrames env c')
      else Some (c, None))"

partial_function (option) outputAllFrames ::
  "'z batcher_env \<Rightarrow> 'z channel_builder \<Rightarrow> ('z channel_builder \<times> error option) option" where
  "outputAllFrames env c =
     (case outputFrame env c of
        (c', err) \<Rightarrow>
          if err = Some EOF then Some (c', None)
          else if err \<noteq> None then Some (c', err)
          else outputAllFrames env c')"

definition closeAndOutputAllFrames ::
  "'z batcher_env \<Rightarrow> 'z channel_builder \<Rightarrow> ('z channel_builder \<times> error option) option" where
  "closeAndOutputAllFrames env c =
     (case ChannelOut_Close (methods env) (bd_co c) of
        (co, Inl err) \<Rightarrow> Some (c\<lparr>bd_co := co\<rparr>, Some (Wrap ''closing channel out'' err))
      | (co, Inr _) \<Rightarrow> outputAllFrames env (c\<lparr>bd_co := co\<rparr>))"

definition Builder_OutputFrames ::
  "'z batcher_env \<Rightarrow> 'z channel_builder \<Rightarrow> ('z channel_builder \<times> error option) option" where
  "Builder_OutputFrames env c =
     (if Builder_IsFull c then closeAndOutputAllFrames env c else outputReadyFrames env c)"

definition Builder_Close :: "'z channel_builder \<Rightarrow> 'z channel_builder" where
  "Builder_Close c = (if \<not> Builder_IsFull c then setFullErr ErrTerminated c else c)"

section \<open>The queue of frames\<close>

definition Builder_HasFrame :: "'z channel_builder \<Rightarrow> bool" where
  "Builder_HasFrame c = (bd_frames c \<noteq> [])"

definition Builder_PendingFrames :: "'z channel_builder \<Rightarrow> nat" where
  "Builder_PendingFrames c = length (bd_frames c)"

definition NextFrame :: "'z channel_builder \<Rightarrow> 'z channel_builder \<times> frame_data result" where
  "NextFrame c =
     (case bd_frames c of
        [] \<Rightarrow> (c, Inl (Panic ''no next frame''))
      | f # fs \<Rightarrow> (c\<lparr>bd_frames := fs\<rparr>, Inr f))"

definition PushFrame :: "frame_data \<Rightarrow> 'z channel_builder \<Rightarrow> 'z channel_builder \<times> unit result" where
  "PushFrame frame c =
     (if chID (fr_id frame) \<noteq> Builder_ID c then (c, Inl (Panic ''wrong channel''))
      else (c\<lparr>bd_frames := bd_frames c @ [frame]\<rparr>, Inr ()))"

section \<open>What the builder has done\<close>

abbreviation log_of :: "'z batcher_env \<Rightarrow> 'z channel_builder \<Rightarrow> bytes \<Rightarrow> frame list \<Rightarrow> bytes \<Rightarrow> bool \<Rightarrow> bool" where
  "log_of env c \<equiv> co_log (compressor_view (be_zlib env)) (bd_co c)"

text \<open>A frame as it waits to be sent.\<close>

definition frame_bytes :: "frame \<Rightarrow> frame_data" where
  "frame_bytes f = \<lparr>fr_data = MarshalBinary f, fr_id = \<lparr>chID = ID f, frameNumber = FrameNumber f\<rparr>\<rparr>"

text \<open>From \<open>c\<close> to \<open>c'\<close> the frames \<open>gs\<close> were put into the queue and nothing else happened.\<close>

definition emitted :: "frame list \<Rightarrow> 'z channel_builder \<Rightarrow> 'z channel_builder \<Rightarrow> bool" where
  "emitted gs c c' =
     (bd_cfg c' = bd_cfg c \<and> bd_blocks c' = bd_blocks c \<and> bd_frames c' = bd_frames c @ map frame_bytes gs \<and>
      bd_numFrames c' = bd_numFrames c + length gs \<and>
      list_all (\<lambda>f. length (Data f) \<le> frame_room (MaxFrameSize (bd_cfg c))) gs \<and> Builder_ID c' = Builder_ID c \<and>
      co_closed (bd_co c') = co_closed (bd_co c) \<and> (Builder_IsFull c \<longrightarrow> Builder_IsFull c'))"

lemma emitted_Nil [simp]: "emitted [] c c"
  by (simp add: emitted_def)

lemma emitted_trans: "emitted gs c c' \<Longrightarrow> emitted hs c' c'' \<Longrightarrow> emitted (gs @ hs) c c''"
  by (simp add: emitted_def)

lemma of_nat_u16_max: "n < 65535 \<Longrightarrow> (of_nat n :: u16) \<noteq> -1"
proof -
  have "unat (-1 :: u16) = 65535" by (simp add: unsigned_minus_1_eq_mask mask_eq_exp_minus_1)
  then show "n < 65535 \<Longrightarrow> (of_nat n :: u16) \<noteq> -1" by (auto simp: word_unat_eq_iff unat_of_nat)
qed

lemma outputFrame_ok:
  assumes log: "log_of env c plain fs ready False" and "\<not> MaxFrameSize (bd_cfg c) < FrameV0OverHeadSize"
    and "length ready < 2 ^ 64"
  shows "\<exists>c' f. outputFrame env c = (c', if IsLast f then Some EOF else None) \<and>
     log_of env c' plain (fs @ [f]) (drop (frame_room (MaxFrameSize (bd_cfg c))) ready) (IsLast f) \<and>
     IsLast f = (co_closed (bd_co c) \<and> length ready < frame_room (MaxFrameSize (bd_cfg c))) \<and> emitted [f] c c' \<and>
     (length fs < 65535 \<longrightarrow> Builder_IsFull c' = Builder_IsFull c)"
proof -
  let ?size = "MaxFrameSize (bd_cfg c)"
  from comp.OutputFrame_ok [OF log assms(2,3), of "[]"] obtain co' f where
    out: "OutputFrame (methods env) ?size (bd_co c, []) =
      ((co', MarshalBinary f), of_nat (length fs), if IsLast f then Some EOF else None)"
    and log': "co_log (compressor_view (be_zlib env)) co' plain (fs @ [f]) (drop (frame_room ?size) ready) (IsLast f)"
    and co': "co_id co' = co_id (bd_co c)" "co_closed co' = co_closed (bd_co c)"
    and f: "f = \<lparr>ID = co_id (bd_co c), FrameNumber = of_nat (length fs), Data = take (frame_room ?size) ready,
          IsLast = (co_closed (bd_co c) \<and> length ready < frame_room ?size)\<rparr>"
    by auto
  have num: "FrameNumber f = of_nat (length fs)" "ID f = co_id (bd_co c)" using f by simp_all
  let ?c1 = "c\<lparr>bd_co := co'\<rparr>"
  let ?c2 = "if of_nat (length fs) = (-1 :: u16) then setFullErr ErrMaxFrameIndex ?c1 else ?c1"
  let ?c' = "?c2\<lparr>bd_frames := bd_frames c @ [frame_bytes f], bd_numFrames := bd_numFrames c + 1,
      bd_outputBytes := bd_outputBytes c + length (MarshalBinary f)\<rparr>"
  have "outputFrame env c = (?c', if IsLast f then Some EOF else None)"
    by (simp add: outputFrame_def out Let_def frame_bytes_def num co' setFullErr_def)
  moreover have "emitted [f] c ?c'"
    using co' f by (simp add: emitted_def Builder_ID_def Builder_IsFull_def setFullErr_def)
  moreover have "log_of env ?c' plain (fs @ [f]) (drop (frame_room ?size) ready) (IsLast f)"
    using log' by (simp add: setFullErr_def)
  moreover have "IsLast f = (co_closed (bd_co c) \<and> length ready < frame_room ?size)" using f by simp
  moreover have "Builder_IsFull ?c' = Builder_IsFull c" if "length fs < 65535"
    using that of_nat_u16_max by (simp add: Builder_IsFull_def)
  ultimately show ?thesis by blast
qed

lemma frame_room_pos: "23 < n \<Longrightarrow> 0 < frame_room n \<and> \<not> n < FrameV0OverHeadSize"
  by (simp add: frame_room_def FrameV0OverHeadSize_def word_less_nat_alt)

text \<open>Once the channel is closed, the loop ends with the frame that closes it, provided a frame has room for
  at least one byte.\<close>

lemma outputAllFrames_ends:
  assumes "log_of env c plain fs ready False" and "23 < MaxFrameSize (bd_cfg c)"
    and "length ready < 2 ^ 64" and "co_closed (bd_co c)"
  shows "\<exists>c' gs. outputAllFrames env c = Some (c', None) \<and> gs \<noteq> [] \<and> emitted gs c c' \<and>
     log_of env c' plain (fs @ gs) [] True"
  using assms
proof (induction "length ready" arbitrary: c fs ready rule: less_induct)
  case less
  note room = frame_room_pos [OF less.prems(2)]
  from outputFrame_ok [OF less.prems(1) _ less.prems(3)] room obtain c1 f where
    out: "outputFrame env c = (c1, if IsLast f then Some EOF else None)"
    and log: "log_of env c1 plain (fs @ [f]) (drop (frame_room (MaxFrameSize (bd_cfg c))) ready) (IsLast f)"
    and fin: "IsLast f = (length ready < frame_room (MaxFrameSize (bd_cfg c)))" and em: "emitted [f] c c1"
    using less.prems(4) by auto
  show ?case
  proof (cases "IsLast f")
    case True
    then show ?thesis
      using out log fin em by (intro exI [of _ c1] exI [of _ "[f]"]) (simp add: outputAllFrames.simps)
  next
    case False
    have cfg: "bd_cfg c1 = bd_cfg c" "co_closed (bd_co c1)" using em less.prems(4) by (simp_all add: emitted_def)
    let ?rest = "drop (frame_room (MaxFrameSize (bd_cfg c))) ready"
    have "length ?rest < length ready" using False fin room by (simp, arith)
    from less.hyps [OF this] log False cfg less.prems(2,3) obtain c' gs where
      "outputAllFrames env c1 = Some (c', None)" "emitted gs c1 c'" "log_of env c' plain ((fs @ [f]) @ gs) [] True"
      by fastforce
    then show ?thesis
      using out False emitted_trans [OF em]
      by (intro exI [of _ c'] exI [of _ "f # gs"]) (simp add: outputAllFrames.simps [of env c])
  qed
qed

lemma sint_small: "(w :: u64) < 2 ^ 63 \<Longrightarrow> sint w = int (unat w)"
  by (simp add: sint_nonneg word_less_nat_alt)

lemma outputReadyFrames_ends:
  assumes "log_of env c plain fs ready False" and "23 < MaxFrameSize (bd_cfg c)" and "MaxFrameSize (bd_cfg c) < 2 ^ 63"
    and "length ready < 2 ^ 64" and "\<not> co_closed (bd_co c)"
  shows "\<exists>c' gs ready'. outputReadyFrames env c = Some (c', None) \<and> emitted gs c c' \<and>
     log_of env c' plain (fs @ gs) ready' False \<and>
     (length (fs @ gs) \<le> 65535 \<longrightarrow> Builder_IsFull c' = Builder_IsFull c)"
  using assms
proof (induction "length ready" arbitrary: c fs ready rule: less_induct)
  case less
  note room = frame_room_pos [OF less.prems(2)]
  let ?size = "MaxFrameSize (bd_cfg c)"
  have len: "Builder_ReadyBytes env c = length ready"
    using comp.Len_ok less.prems(1) by (auto simp: Builder_ReadyBytes_def ReadyBytes_def co_log_def)
  have sint: "sint ?size = int (unat ?size)"
    by (rule sint_small [OF less.prems(3)])
  show ?case
  proof (cases "int (length ready) \<ge> sint ?size")
    case False
    then show ?thesis
      using less.prems(1) len by (intro exI [of _ c] exI [of _ "[]"] exI [of _ ready])
        (simp add: outputReadyFrames.simps)
  next
    case True
    from outputFrame_ok [OF less.prems(1) _ less.prems(4)] room obtain c1 f where
      out: "outputFrame env c = (c1, None)"
      and log: "log_of env c1 plain (fs @ [f]) (drop (frame_room ?size) ready) False" and em: "emitted [f] c c1"
      and nf: "length fs < 65535 \<longrightarrow> Builder_IsFull c1 = Builder_IsFull c"
      using less.prems(5) by auto
    have cfg: "bd_cfg c1 = bd_cfg c" "\<not> co_closed (bd_co c1)" using em less.prems(5) by (simp_all add: emitted_def)
    have "length (drop (frame_room ?size) ready) < length ready"
    proof -
      have "unat ?size \<le> length ready" "23 < unat ?size"
        using True sint less.prems(2) by (simp_all add: word_less_nat_alt flip: of_nat_le_iff [where ?'a = int])
      then have "0 < length ready" by linarith
      then show ?thesis using room by (simp add: diff_less)
    qed
    from less.hyps [OF this log] cfg less.prems(2,3,4) obtain c' gs ready' where
      "outputReadyFrames env c1 = Some (c', None)" "emitted gs c1 c'" "log_of env c' plain ((fs @ [f]) @ gs) ready' False"
      "length ((fs @ [f]) @ gs) \<le> 65535 \<longrightarrow> Builder_IsFull c' = Builder_IsFull c1"
      by fastforce
    then show ?thesis
      using out True len nf emitted_trans [OF em]
      by (intro exI [of _ c'] exI [of _ "f # gs"] exI [of _ ready']) (simp add: outputReadyFrames.simps [of env c])
  qed
qed

text \<open>With a frame size of exactly the overhead no frame has room for data, none is the last one, and the
  loop goes on forever.\<close>

lemma outputAllFrames_stuck:
  assumes "log_of env c plain fs ready False" and "MaxFrameSize (bd_cfg c) = 23" and "length ready < 2 ^ 64"
  shows "outputAllFrames env c \<noteq> Some r"
proof
  assume "outputAllFrames env c = Some r"
  then have "\<forall>fs. log_of env c plain fs ready False \<longrightarrow> MaxFrameSize (bd_cfg c) = 23 \<longrightarrow> False"
  proof (rule outputAllFrames.raw_induct [rotated])
    fix loop env' c' r'
    assume hyp: "\<And>env'' c'' r''. loop env'' c'' = Some r'' \<Longrightarrow>
        \<forall>fs. log_of env'' c'' plain fs ready False \<longrightarrow> MaxFrameSize (bd_cfg c'') = 23 \<longrightarrow> False"
      and run: "(case outputFrame env' c' of (c'', err) \<Rightarrow>
          if err = Some EOF then Some (c'', None) else if err \<noteq> None then Some (c'', err) else loop env' c'') = Some r'"
    show "\<forall>fs. log_of env' c' plain fs ready False \<longrightarrow> MaxFrameSize (bd_cfg c') = 23 \<longrightarrow> False"
    proof (intro allI impI)
      fix fs
      assume log: "log_of env' c' plain fs ready False" and size: "MaxFrameSize (bd_cfg c') = 23"
      have room: "frame_room (MaxFrameSize (bd_cfg c')) = 0" "\<not> MaxFrameSize (bd_cfg c') < FrameV0OverHeadSize"
        by (simp_all add: size frame_room_def FrameV0OverHeadSize_def)
      from outputFrame_ok [OF log room(2) assms(3)] obtain c1 f where
        "outputFrame env' c' = (c1, None)" and log1: "log_of env' c1 plain (fs @ [f]) ready False"
        and "emitted [f] c' c1"
        by (auto simp: room)
      then have "loop env' c1 = Some r'" "MaxFrameSize (bd_cfg c1) = 23"
        using run size by (simp_all add: emitted_def)
      with hyp log1 show False by blast
    qed
  qed
  with assms show False by blast
qed

text \<open>A bound on what zlib makes of the bytes of one channel: its size can be counted in \<open>uint64\<close>.\<close>

definition zlib_bounded :: "'z zlib \<Rightarrow> bool" where
  "zlib_bounded zl \<longleftrightarrow>
     (\<forall>z plain out fin. writer_log zl z plain out fin \<and> length plain \<le> MaxRLPBytesPerChannel \<longrightarrow> length out < 2 ^ 64)"

lemma log_fits:
  assumes "log_of env c plain fs ready fin" and "zlib_bounded (be_zlib env)"
  shows "length ready < 2 ^ 64"
proof -
  from assms(1) have v: "compressor_view (be_zlib env) (co_compress (bd_co c)) plain (concat (map Data fs)) ready (co_closed (bd_co c))"
    and "length plain \<le> MaxRLPBytesPerChannel"
    by (auto simp: co_log_def)
  with compressor_view_log [OF v] assms(2) have "length (concat (map Data fs) @ ready) < 2 ^ 64"
    unfolding zlib_bounded_def by blast
  then show ?thesis by simp
qed

definition block_batch :: "'z batcher_env \<Rightarrow> geth_block \<Rightarrow> batch_data \<Rightarrow> bool" where
  "block_batch env block b = (\<exists>info. BlockToBatch (be_keccak env) block = Inr (b, info))"

text \<open>The builder holds the blocks of the batches \<open>bs\<close> and has created the frames \<open>fs\<close> so far; once it is closed, the
  frames are all there is.\<close>

definition builder_log :: "'z batcher_env \<Rightarrow> 'z channel_builder \<Rightarrow> batch_data list \<Rightarrow> frame list \<Rightarrow> bool" where
  "builder_log env c bs fs =
     ((\<exists>ready. log_of env c (concat (map (encode_batch env) bs)) fs ready (co_closed (bd_co c))) \<and>
      list_all2 (block_batch env) (bd_blocks c) bs \<and> bd_numFrames c = length fs \<and>
      list_all (\<lambda>f. length (Data f) \<le> frame_room (MaxFrameSize (bd_cfg c))) fs \<and>
      (co_closed (bd_co c) \<longrightarrow> Builder_IsFull c \<and> fs \<noteq> []))"

lemma builder_log_New:
  "newChannelBuilder env rnd cfg = Inr c \<Longrightarrow> builder_log env c [] [] \<and> bd_frames c = [] \<and> bd_cfg c = cfg"
  using co_log_New NewCompressor_view
  by (fastforce simp: newChannelBuilder_def rbind_Inr builder_log_def NewChannelOut_def)

lemma builder_log_cong:
  "bd_co c' = bd_co c \<Longrightarrow> bd_blocks c' = bd_blocks c \<Longrightarrow> bd_numFrames c' = bd_numFrames c \<Longrightarrow>
   bd_cfg c' = bd_cfg c \<Longrightarrow> (Builder_IsFull c \<longrightarrow> Builder_IsFull c') \<Longrightarrow> builder_log env c bs fs \<Longrightarrow> builder_log env c' bs fs"
  by (auto simp: builder_log_def)

lemma updateTimeout_simps [simp]:
  "bd_co (updateTimeout t e c) = bd_co c" "bd_blocks (updateTimeout t e c) = bd_blocks c"
  "bd_numFrames (updateTimeout t e c) = bd_numFrames c" "bd_frames (updateTimeout t e c) = bd_frames c"
  "bd_cfg (updateTimeout t e c) = bd_cfg c" "bd_fullErr (updateTimeout t e c) = bd_fullErr c"
  by (simp_all add: updateTimeout_def)

lemma setFullErr_simps [simp]:
  "bd_co (setFullErr e c) = bd_co c" "bd_blocks (setFullErr e c) = bd_blocks c"
  "bd_numFrames (setFullErr e c) = bd_numFrames c" "bd_frames (setFullErr e c) = bd_frames c"
  "bd_cfg (setFullErr e c) = bd_cfg c" "bd_fullErr (setFullErr e c) = Some (ChannelFullError e)"
  by (simp_all add: setFullErr_def)

text \<open>Operations that only move the timeout or mark the channel as full.\<close>

definition same_channel :: "'z channel_builder \<Rightarrow> 'z channel_builder \<Rightarrow> bool" where
  "same_channel c c' =
     (bd_co c' = bd_co c \<and> bd_blocks c' = bd_blocks c \<and> bd_numFrames c' = bd_numFrames c \<and>
      bd_frames c' = bd_frames c \<and> bd_cfg c' = bd_cfg c \<and> (Builder_IsFull c \<longrightarrow> Builder_IsFull c'))"

lemma same_channel_ops:
  "same_channel c (FramePublished n c)" "same_channel c (Builder_RegisterL1Block n c)"
  "same_channel c (Builder_Close c)"
  by (auto simp: same_channel_def FramePublished_def Builder_RegisterL1Block_def updateDurationTimeout_def
      checkTimeout_def Builder_Close_def Builder_IsFull_def)

lemma same_channel_log: "same_channel c c' \<Longrightarrow> builder_log env c bs fs \<Longrightarrow> builder_log env c' bs fs"
  by (auto simp: same_channel_def intro: builder_log_cong [of c' c])

lemma block_added_simps:
  "bd_co (block_added env block batch c) = bd_co c" "bd_blocks (block_added env block batch c) = bd_blocks c @ [block]"
  "bd_numFrames (block_added env block batch c) = bd_numFrames c"
  "bd_frames (block_added env block batch c) = bd_frames c" "bd_cfg (block_added env block batch c) = bd_cfg c"
  by (simp_all add: block_added_def updateSwTimeout_def Let_def split: option.splits)

lemma AddBlock_ok:
  assumes log: "builder_log env c bs fs" and add: "Builder_AddBlock env block c = (c', Inr info)"
  shows "\<exists>b. BlockToBatch (be_keccak env) block = Inr (b, info) \<and> builder_log env c' (bs @ [b]) fs \<and>
     bd_frames c' = bd_frames c \<and> bd_cfg c' = bd_cfg c \<and> Builder_ID c' = Builder_ID c \<and> \<not> Builder_IsFull c"
proof -
  from add obtain b co n where nf: "bd_fullErr c = None"
    and b: "BlockToBatch (be_keccak env) block = Inr (b, info)"
    and ab: "ChannelOut_AddBatch (methods env) (encode_batch env) b (bd_co c) = (co, Inr n)"
    and c': "c' = block_added env block b (c\<lparr>bd_co := co\<rparr>)"
    by (auto simp: Builder_AddBlock_def Let_def split: option.splits sum.splits prod.splits if_splits)
  have open_co: "\<not> co_closed (bd_co c)" using log nf by (auto simp: builder_log_def Builder_IsFull_def)
  from log obtain ready where
    l: "log_of env c (concat (map (encode_batch env) bs)) fs ready False"
    using open_co by (auto simp: builder_log_def)
  from comp.AddBatch_ok [OF l ab] obtain new where
    "co_log (compressor_view (be_zlib env)) co (concat (map (encode_batch env) (bs @ [b]))) fs (ready @ new) False"
    "co_id co = co_id (bd_co c)" "\<not> co_closed co" by auto
  then have "builder_log env c' (bs @ [b]) fs" "Builder_ID c' = Builder_ID c"
    using log b unfolding c'
    by (auto simp: builder_log_def block_added_simps Builder_ID_def block_batch_def intro!: list_all2_appendI)
  then show ?thesis using b nf c' by (simp add: block_added_simps Builder_IsFull_def)
qed

lemma AddBlock_refused:
  assumes log: "builder_log env c bs fs" and add: "Builder_AddBlock env block c = (c', Inl e)"
    and "\<And>e'. e \<noteq> Wrap ''adding block to channel out'' e'"
  shows "builder_log env c' bs fs \<and> bd_frames c' = bd_frames c \<and> bd_cfg c' = bd_cfg c \<and>
     Builder_ID c' = Builder_ID c \<and> bd_blocks c' = bd_blocks c"
proof (cases "c' = c")
  case True
  then show ?thesis using log by simp
next
  case False
  with add assms(3) obtain b info co err where
    ab: "ChannelOut_AddBatch (methods env) (encode_batch env) b (bd_co c) = (co, Inl err)"
    and full: "errors_Is err ErrTooManyRLPBytes \<or> errors_Is err CompressorFullErr"
    and c': "c' = setFullErr err (c\<lparr>bd_co := co\<rparr>)" and nf: "bd_fullErr c = None"
    by (auto simp: Builder_AddBlock_def Let_def split: option.splits sum.splits prod.splits if_splits)
  from log obtain ready where
    l: "log_of env c (concat (map (encode_batch env) bs)) fs ready (co_closed (bd_co c))"
    unfolding builder_log_def by blast
  from comp.AddBatch_refused [OF l ab full] show ?thesis
    using log unfolding c' by (auto simp: builder_log_def Builder_ID_def Builder_IsFull_def)
qed

lemma closing_log:
  assumes l: "log_of env c plain fs ready False" and close: "snd (ChannelOut_Close (methods env) (bd_co c)) = Inr ()"
  obtains co ready' where "ChannelOut_Close (methods env) (bd_co c) = (co, Inr ())"
    "log_of env (c\<lparr>bd_co := co\<rparr>) plain fs ready' False" "co_closed co" "co_id co = co_id (bd_co c)"
proof -
  obtain co where co: "ChannelOut_Close (methods env) (bd_co c) = (co, Inr ())"
    using close by (cases "ChannelOut_Close (methods env) (bd_co c)") auto
  from comp.Close_log [OF l co] obtain new where
    "log_of env (c\<lparr>bd_co := co\<rparr>) plain fs (ready @ new) False" "co_closed co" "co_id co = co_id (bd_co c)" by auto
  with co show thesis using that by blast
qed

lemma OutputFrames_ends:
  assumes log: "builder_log env c bs fs" and size: "23 < MaxFrameSize (bd_cfg c)" "MaxFrameSize (bd_cfg c) < 2 ^ 63"
    and fits: "zlib_bounded (be_zlib env)" and not_closed: "\<not> co_closed (bd_co c)"
    and close: "Builder_IsFull c \<longrightarrow> snd (ChannelOut_Close (methods env) (bd_co c)) = Inr ()"
  shows "\<exists>c' gs. Builder_OutputFrames env c = Some (c', None) \<and> builder_log env c' bs (fs @ gs) \<and>
     bd_frames c' = bd_frames c @ map frame_bytes gs \<and> bd_cfg c' = bd_cfg c \<and> bd_blocks c' = bd_blocks c \<and>
     Builder_ID c' = Builder_ID c \<and> co_closed (bd_co c') = Builder_IsFull c \<and>
     (bd_numFrames c' \<le> 65535 \<longrightarrow> Builder_IsFull c' = Builder_IsFull c)"
proof -
  let ?plain = "concat (map (encode_batch env) bs)"
  from log not_closed obtain ready where l: "log_of env c ?plain fs ready False" by (auto simp: builder_log_def)
  show ?thesis
  proof (cases "Builder_IsFull c")
    case True
    with close have "snd (ChannelOut_Close (methods env) (bd_co c)) = Inr ()" by blast
    from closing_log [OF l this] obtain co ready' where
      co: "ChannelOut_Close (methods env) (bd_co c) = (co, Inr ())"
      and l1: "log_of env (c\<lparr>bd_co := co\<rparr>) ?plain fs ready' False" and cl: "co_closed co"
      and i: "co_id co = co_id (bd_co c)" .
    let ?c1 = "c\<lparr>bd_co := co\<rparr>"
    from outputAllFrames_ends [OF l1 _ log_fits [OF l1 fits]] cl size obtain c' gs where
      "outputAllFrames env ?c1 = Some (c', None)" "gs \<noteq> []" "emitted gs ?c1 c'" "log_of env c' ?plain (fs @ gs) [] True"
      by auto
    then show ?thesis
      using True co i cl log by (intro exI [of _ c'] exI [of _ gs])
        (auto simp: Builder_OutputFrames_def closeAndOutputAllFrames_def builder_log_def emitted_def Builder_ID_def
          Builder_IsFull_def)
  next
    case False
    from outputReadyFrames_ends [OF l size log_fits [OF l fits] not_closed] obtain c' gs ready' where
      "outputReadyFrames env c = Some (c', None)" "emitted gs c c'" "log_of env c' ?plain (fs @ gs) ready' False"
      "length (fs @ gs) \<le> 65535 \<longrightarrow> Builder_IsFull c' = Builder_IsFull c"
      by blast
    then show ?thesis
      using False not_closed log by (intro exI [of _ c'] exI [of _ gs])
        (auto simp: Builder_OutputFrames_def builder_log_def emitted_def)
  qed
qed

section \<open>Properties\<close>

text \<open>C21: creating frames ends. For a channel that is still open and a configuration that passes \<open>Check\<close>, with a
  frame size above the overhead of 23 bytes (and in the range of \<open>int\<close>), \<open>OutputFrames\<close> returns, and the frames
  it adds continue the channel: their numbers are consecutive and, if the channel is full, the last of them closes
  it. But \<open>Check\<close> also accepts a frame size of exactly 23 bytes, and then \<open>OutputFrames\<close> of a full channel runs
  forever.\<close>

theorem OutputFrames_returns:
  assumes "builder_log env c bs fs" and "\<not> co_closed (bd_co c)" and "ChannelConfig_Check (bd_cfg c) = Inr ()"
    and "MaxFrameSize (bd_cfg c) < 2 ^ 63" and "zlib_bounded (be_zlib env)"
    and "Builder_IsFull c \<longrightarrow> snd (ChannelOut_Close (methods env) (bd_co c)) = Inr ()"
  shows "if MaxFrameSize (bd_cfg c) = 23 then Builder_IsFull c \<longrightarrow> Builder_OutputFrames env c = None
     else \<exists>c' gs. Builder_OutputFrames env c = Some (c', None) \<and>
       bd_frames c' = bd_frames c @ map frame_bytes gs \<and>
       frame_chain (Builder_ID c') (fs @ gs) (Builder_IsFull c)"
proof (cases "MaxFrameSize (bd_cfg c) = 23")
  case True
  show ?thesis
  proof (cases "Builder_IsFull c")
    case full: True
    from assms(1,2) obtain ready where l: "log_of env c (concat (map (encode_batch env) bs)) fs ready False"
      by (auto simp: builder_log_def)
    have "snd (ChannelOut_Close (methods env) (bd_co c)) = Inr ()" using assms(6) full by blast
    from closing_log [OF l this] obtain co ready' where
      co: "ChannelOut_Close (methods env) (bd_co c) = (co, Inr ())"
      and l1: "log_of env (c\<lparr>bd_co := co\<rparr>) (concat (map (encode_batch env) bs)) fs ready' False" .
    let ?c1 = "c\<lparr>bd_co := co\<rparr>"
    have "outputAllFrames env ?c1 = None"
      using outputAllFrames_stuck [OF l1 _ log_fits [OF l1 assms(5)]] True by (cases "outputAllFrames env ?c1") auto
    then show ?thesis using True full co by (simp add: Builder_OutputFrames_def closeAndOutputAllFrames_def)
  qed (simp add: True)
next
  case False
  have "\<not> MaxFrameSize (bd_cfg c) < 23"
    using assms(3) by (auto simp: ChannelConfig_Check_def FrameV0OverHeadSize_def split: if_splits)
  with False have "23 < MaxFrameSize (bd_cfg c)" by (simp add: word_less_nat_alt word_unat_eq_iff)
  from OutputFrames_ends [OF assms(1) this assms(4,5,2,6)] obtain c' gs where
    "Builder_OutputFrames env c = Some (c', None)" "builder_log env c' bs (fs @ gs)"
    "bd_frames c' = bd_frames c @ map frame_bytes gs" "co_closed (bd_co c') = Builder_IsFull c" by blast
  then show ?thesis using False by (auto simp: builder_log_def co_log_def Builder_ID_def)
qed

text \<open>An environment for the witnesses: a zlib writer that passes bytes on unchanged, and short encodings.\<close>

definition ex_zlib :: "unit zlib" where
  "ex_zlib = \<lparr>zl_NewWriterLevel = Inr (), zl_Write = (\<lambda>p z. (z, p, Inr (length p))), zl_Flush = (\<lambda>z. (z, [], Inr ())),
     zl_Close = (\<lambda>z. (z, [], Inr ())), zl_Reset = (\<lambda>z. z), float_to_uint64 = (\<lambda>_. 0)\<rparr>"

definition ex_batcher_env :: "unit batcher_env" where
  "ex_batcher_env = \<lparr>be_zlib = ex_zlib, be_keccak = (\<lambda>_. replicate 32 9), be_rlpString = (\<lambda>b. b),
     be_rlpEncode = (\<lambda>b. take 1 (b_ParentHash b) @ take 2 (concat (Transactions b)))\<rparr>"

definition ex_channel_config :: "u64 \<Rightarrow> channel_config" where
  "ex_channel_config n = \<lparr>cc_SeqWindowSize = 100, cc_ChannelTimeout = 50, MaxChannelDuration = 0, SubSafetyMargin = 4,
     MaxFrameSize = n, CompressorConfig = \<lparr>TargetFrameSize = 1000, TargetNumFrames = 1, ApproxComprRatio = 1,
       Kind = ShadowKind\<rparr>\<rparr>"

definition ex_builder :: "u64 \<Rightarrow> unit channel_builder" where
  "ex_builder n = (case newChannelBuilder ex_batcher_env (Inr (replicate 16 1)) (ex_channel_config n) of
     Inr c \<Rightarrow> Builder_Close c | Inl _ \<Rightarrow> undefined)"

lemma ex_zlib_log: "writer_log ex_zlib z plain out fin \<Longrightarrow> out = plain"
  by (induction rule: writer_log.induct) (auto simp: ex_zlib_def)

lemma ex_zlib_bounded: "zlib_bounded ex_zlib"
  by (auto simp: zlib_bounded_def MaxRLPBytesPerChannel_def dest: ex_zlib_log)

theorem OutputFrames_returns_witness:
  "Builder_OutputFrames ex_batcher_env (ex_builder 23) = None \<and>
   (\<exists>c' gs. Builder_OutputFrames ex_batcher_env (ex_builder 24) = Some (c', None) \<and>
      frame_chain (Builder_ID c') gs True)"
proof -
  have new: "\<exists>c. newChannelBuilder ex_batcher_env (Inr (replicate 16 1)) (ex_channel_config n) = Inr c \<and>
      ex_builder n = Builder_Close c" for n
    by (simp add: ex_builder_def newChannelBuilder_def NewCompressor_def Kinds_def NewShadowCompressor_def
        NewChannelOut_def ex_batcher_env_def ex_zlib_def ex_channel_config_def RatioKind_def ShadowKind_def)
  have log: "builder_log ex_batcher_env (ex_builder n) [] []" and cfg: "bd_cfg (ex_builder n) = ex_channel_config n" for n
  proof -
    obtain c where c: "newChannelBuilder ex_batcher_env (Inr (replicate 16 1)) (ex_channel_config n) = Inr c"
      "ex_builder n = Builder_Close c" using new by blast
    show "builder_log ex_batcher_env (ex_builder n) [] []"
      unfolding c(2) using builder_log_New [OF c(1)] by (intro same_channel_log [OF same_channel_ops(3)]) simp
    show "bd_cfg (ex_builder n) = ex_channel_config n"
      using builder_log_New [OF c(1)] c(2) same_channel_ops(3) [of c] by (simp add: same_channel_def)
  qed
  have st: "\<not> co_closed (bd_co (ex_builder n))" "Builder_IsFull (ex_builder n)"
    "snd (ChannelOut_Close (methods ex_batcher_env) (bd_co (ex_builder n))) = Inr ()" for n
    by (simp_all add: ex_builder_def newChannelBuilder_def NewCompressor_def Kinds_def NewShadowCompressor_def
        NewChannelOut_def ex_batcher_env_def ex_zlib_def ex_channel_config_def RatioKind_def ShadowKind_def
        Builder_Close_def Builder_IsFull_def ChannelOut_Close_def compressor_methods_def Shadow_Close_def setFullErr_def)
  have zl: "zlib_bounded (be_zlib ex_batcher_env)" by (simp add: ex_batcher_env_def ex_zlib_bounded)
  have chk: "ChannelConfig_Check (ex_channel_config 23) = Inr ()" "ChannelConfig_Check (ex_channel_config 24) = Inr ()"
    by (simp_all add: ChannelConfig_Check_def ex_channel_config_def FrameV0OverHeadSize_def)
  have size: "MaxFrameSize (ex_channel_config n) = n" for n by (simp add: ex_channel_config_def)
  show ?thesis
    using OutputFrames_returns [OF log st(1) _ _ zl, of 23] OutputFrames_returns [OF log st(1) _ _ zl, of 24]
    by (auto simp: cfg chk size st(2,3))
qed

end
