(* ===== verification/Batcher_Channel.thy ===== *)
theory Batcher_Channel
  imports Channel_Builder "HOL-Library.Multiset"
begin

text \<open>
  A channel of the batcher with its transactions, \<open>op-batcher/batcher/channel.go\<close> and \<open>tx_data.go\<close>: a channel builder,
  the frames that were sent and not confirmed yet, and the L1 blocks of those that were. It is shown that no frame is
  lost, and that a channel the batcher takes for fully submitted can be read back by the derivation: this joins the
  batcher to the theories \<open>Frames\<close>, \<open>Channels\<close> and \<open>Batches\<close>.
\<close>

section \<open>Transaction data (tx_data.go)\<close>

type_synonym tx_id = frame_id

record tx_data =
  td_frame :: frame_data

definition TxData_ID :: "tx_data \<Rightarrow> tx_id" where
  "TxData_ID td = fr_id (td_frame td)"

definition TxData_Bytes :: "tx_data \<Rightarrow> bytes" where
  "TxData_Bytes td = DerivationVersion0 # fr_data (td_frame td)"

definition TxData_Len :: "tx_data \<Rightarrow> nat" where
  "TxData_Len td = 1 + length (fr_data (td_frame td))"

section \<open>The channel (channel.go)\<close>

record 'z bchannel =
  bc_cfg :: channel_config
  bc_builder :: "'z channel_builder"
  pendingTransactions :: "(tx_id, tx_data) gomap"
  confirmedTransactions :: "(tx_id, block_id) gomap"

definition newChannel :: "'z batcher_env \<Rightarrow> channel_id result \<Rightarrow> channel_config \<Rightarrow> 'z bchannel result" where
  "newChannel env rnd cfg =
     rbind (on_error (Wrap ''creating new channel'') (newChannelBuilder env rnd cfg)) (\<lambda>cb.
       Inr \<lparr>bc_cfg = cfg, bc_builder = cb, pendingTransactions = [], confirmedTransactions = []\<rparr>)"

definition BChannel_ID :: "'z bchannel \<Rightarrow> channel_id" where
  "BChannel_ID s = Builder_ID (bc_builder s)"

definition BChannel_IsFull :: "'z bchannel \<Rightarrow> bool" where
  "BChannel_IsFull s = Builder_IsFull (bc_builder s)"

definition BChannel_HasFrame :: "'z bchannel \<Rightarrow> bool" where
  "BChannel_HasFrame s = Builder_HasFrame (bc_builder s)"

definition BChannel_PendingFrames :: "'z bchannel \<Rightarrow> nat" where
  "BChannel_PendingFrames s = Builder_PendingFrames (bc_builder s)"

definition BChannel_RegisterL1Block :: "u64 \<Rightarrow> 'z bchannel \<Rightarrow> 'z bchannel" where
  "BChannel_RegisterL1Block n s = s\<lparr>bc_builder := Builder_RegisterL1Block n (bc_builder s)\<rparr>"

definition BChannel_AddBlock ::
  "'z batcher_env \<Rightarrow> geth_block \<Rightarrow> 'z bchannel \<Rightarrow> 'z bchannel \<times> l1_block_info result" where
  "BChannel_AddBlock env block s =
     (case Builder_AddBlock env block (bc_builder s) of (c, r) \<Rightarrow> (s\<lparr>bc_builder := c\<rparr>, r))"

definition BChannel_OutputFrames ::
  "'z batcher_env \<Rightarrow> 'z bchannel \<Rightarrow> ('z bchannel \<times> error option) option" where
  "BChannel_OutputFrames env s =
     map_option (\<lambda>(c, err). (s\<lparr>bc_builder := c\<rparr>, err)) (Builder_OutputFrames env (bc_builder s))"

definition BChannel_Close :: "'z bchannel \<Rightarrow> 'z bchannel" where
  "BChannel_Close s = s\<lparr>bc_builder := Builder_Close (bc_builder s)\<rparr>"

definition BChannel_TxFailed :: "tx_id \<Rightarrow> 'z bchannel \<Rightarrow> 'z bchannel \<times> unit result" where
  "BChannel_TxFailed i s =
     (case map_of (pendingTransactions s) i of
        Some dat \<Rightarrow>
          (case PushFrame (td_frame dat) (bc_builder s) of
             (c, Inl p) \<Rightarrow> (s\<lparr>bc_builder := c\<rparr>, Inl p)
           | (c, Inr _) \<Rightarrow>
               (s\<lparr>bc_builder := c, pendingTransactions := AList.delete i (pendingTransactions s)\<rparr>, Inr ()))
      | None \<Rightarrow> (s, Inr ()))"

text \<open>The loop over the confirmed transactions, from \<open>min = MaxUint64\<close> and \<open>max = 0\<close>.\<close>

definition inclusion_range :: "(tx_id, block_id) gomap \<Rightarrow> u64 \<times> u64" where
  "inclusion_range m =
     foldl (\<lambda>(lo, hi) (_, b). (if Number b < lo then Number b else lo, if Number b > hi then Number b else hi))
       (-1, 0) m"

definition isTimedOut :: "'z bchannel \<Rightarrow> bool" where
  "isTimedOut s =
     (if confirmedTransactions s = [] then False
      else let (lo, hi) = inclusion_range (confirmedTransactions s) in hi - lo \<ge> cc_ChannelTimeout (bc_cfg s))"

definition isFullySubmitted :: "'z bchannel \<Rightarrow> bool" where
  "isFullySubmitted s = (BChannel_IsFull s \<and> length (pendingTransactions s) + BChannel_PendingFrames s = 0)"

definition NoneSubmitted :: "'z bchannel \<Rightarrow> bool" where
  "NoneSubmitted s = (length (confirmedTransactions s) = 0 \<and> length (pendingTransactions s) = 0)"

definition BChannel_TxConfirmed ::
  "tx_id \<Rightarrow> block_id \<Rightarrow> 'z bchannel \<Rightarrow> 'z bchannel \<times> bool \<times> geth_block list" where
  "BChannel_TxConfirmed i inclusionBlock s =
     (case map_of (pendingTransactions s) i of
        None \<Rightarrow> (s, False, [])
      | Some _ \<Rightarrow>
          let s' = s\<lparr>pendingTransactions := AList.delete i (pendingTransactions s),
                     confirmedTransactions := AList.update i inclusionBlock (confirmedTransactions s),
                     bc_builder := FramePublished (Number inclusionBlock) (bc_builder s)\<rparr>
          in if isTimedOut s' then (s', True, bd_blocks (bc_builder s'))
             else if isFullySubmitted s' then (s', True, [])
             else (s', False, []))"

definition NextTxData :: "'z bchannel \<Rightarrow> 'z bchannel \<times> tx_data result" where
  "NextTxData s =
     (case NextFrame (bc_builder s) of
        (c, Inl p) \<Rightarrow> (s\<lparr>bc_builder := c\<rparr>, Inl p)
      | (c, Inr frame) \<Rightarrow>
          let txdata = \<lparr>td_frame = frame\<rparr>
          in (s\<lparr>bc_builder := c,
                pendingTransactions := AList.update (TxData_ID txdata) txdata (pendingTransactions s)\<rparr>,
              Inr txdata))"

section \<open>Runs of a channel\<close>

text \<open>\<open>channel_run env cfg s cs\<close>: the channel was made with the configuration and came to \<open>s\<close> by its operations, in any
  order; \<open>cs\<close> are the transactions that were confirmed. Writing to the compressor and creating frames may not
  fail; a block may be refused.\<close>

inductive channel_run ::
  "'z batcher_env \<Rightarrow> channel_config \<Rightarrow> 'z bchannel \<Rightarrow> tx_data list \<Rightarrow> bool" for env cfg where
  New: "newChannel env rnd cfg = Inr s \<Longrightarrow> channel_run env cfg s []"
| AddBlock: "channel_run env cfg s cs \<Longrightarrow> BChannel_AddBlock env block s = (s', r) \<Longrightarrow>
    (\<And>e. r \<noteq> Inl (Wrap ''adding block to channel out'' e)) \<Longrightarrow> channel_run env cfg s' cs"
| RegisterL1Block: "channel_run env cfg s cs \<Longrightarrow> channel_run env cfg (BChannel_RegisterL1Block n s) cs"
| Close: "channel_run env cfg s cs \<Longrightarrow> channel_run env cfg (BChannel_Close s) cs"
| OutputFrames: "channel_run env cfg s cs \<Longrightarrow>
    BChannel_OutputFrames env s = Some (s', None) \<Longrightarrow> channel_run env cfg s' cs"
| NextTxData: "channel_run env cfg s cs \<Longrightarrow> NextTxData s = (s', Inr td) \<Longrightarrow> channel_run env cfg s' cs"
| TxFailed: "channel_run env cfg s cs \<Longrightarrow> BChannel_TxFailed i s = (s', Inr u) \<Longrightarrow> channel_run env cfg s' cs"
| TxConfirmed: "channel_run env cfg s cs \<Longrightarrow> BChannel_TxConfirmed i b s = (s', done, blocks) \<Longrightarrow>
    channel_run env cfg s' (case map_of (pendingTransactions s) i of None \<Rightarrow> cs | Some td \<Rightarrow> cs @ [td])"

definition tx_of :: "frame \<Rightarrow> tx_data" where
  "tx_of f = \<lparr>td_frame = frame_bytes f\<rparr>"

definition tx_id_of :: "frame \<Rightarrow> tx_id" where
  "tx_id_of f = TxData_ID (tx_of f)"

lemma tx_of_simps [simp]:
  "td_frame (tx_of f) = frame_bytes f" "TxData_ID (tx_of f) = tx_id_of f" "fr_id (frame_bytes f) = tx_id_of f"
  "chID (tx_id_of f) = ID f" "frameNumber (tx_id_of f) = FrameNumber f" "\<lparr>td_frame = frame_bytes f\<rparr> = tx_of f"
  by (simp_all add: tx_of_def tx_id_of_def TxData_ID_def frame_bytes_def)

text \<open>No frame is lost: while the frame numbers do not wrap around, the frames that were created are those that wait
  (\<open>qs\<close>), those that were sent (\<open>ps\<close>) and those that were confirmed (\<open>ks\<close>).\<close>

definition frames_accounted :: "'z bchannel \<Rightarrow> tx_data list \<Rightarrow> frame list \<Rightarrow> bool" where
  "frames_accounted s cs fs =
     (\<exists>qs ps ks. bd_frames (bc_builder s) = map frame_bytes qs \<and>
        pendingTransactions s = map (\<lambda>f. (tx_id_of f, tx_of f)) ps \<and> cs = map tx_of ks \<and>
        mset qs + mset ps + mset ks = mset fs)"

definition channel_log ::
  "'z batcher_env \<Rightarrow> channel_config \<Rightarrow> 'z bchannel \<Rightarrow> tx_data list \<Rightarrow> batch_data list \<Rightarrow> frame list \<Rightarrow> bool" where
  "channel_log env cfg s cs bs fs =
     (builder_log env (bc_builder s) bs fs \<and> bc_cfg s = cfg \<and> bd_cfg (bc_builder s) = cfg \<and>
      (length fs \<le> 65536 \<longrightarrow> frames_accounted s cs fs))"

lemma chain_ids:
  assumes "frame_chain i fs fin" and "f \<in> set fs"
  shows "ID f = i"
proof -
  from assms(2) obtain n where "n < length fs" "f = fs ! n" by (auto simp: in_set_conv_nth)
  then show ?thesis using assms(1) by (auto simp: frame_chain_def list_all_iff)
qed

lemma chain_distinct:
  assumes "frame_chain i fs fin" and "length fs \<le> 65536"
  shows "distinct (map tx_id_of fs)"
proof -
  have "m = n" if "m < length fs" "n < length fs" "tx_id_of (fs ! m) = tx_id_of (fs ! n)" for m n
  proof -
    have "(of_nat m :: u16) = of_nat n"
      using that assms(1) by (auto simp: frame_chain_def list_all_iff dest!: arg_cong [of _ _ frameNumber])
    then have "unat (of_nat m :: u16) = unat (of_nat n :: u16)" by simp
    then show ?thesis using that assms(2) by (simp add: unat_of_nat)
  qed
  then show ?thesis by (auto simp: distinct_conv_nth)
qed

lemma builder_log_chain:
  "builder_log env c bs fs \<Longrightarrow> frame_chain (Builder_ID c) fs (co_closed (bd_co c))"
  by (auto simp: builder_log_def co_log_def Builder_ID_def)

lemma accounted_distinct:
  assumes "mset qs + mset ps + mset ks = mset fs" and "frame_chain i fs fin" and "length fs \<le> 65536"
  shows "distinct (map tx_id_of (qs @ ps @ ks)) \<and> set (qs @ ps @ ks) = set fs"
proof -
  have m: "mset (qs @ ps @ ks) = mset fs" using assms(1) by (simp add: add.assoc)
  then have "mset (map tx_id_of (qs @ ps @ ks)) = mset (map tx_id_of fs)" by (simp only: mset_map)
  then show ?thesis using chain_distinct [OF assms(2,3)] mset_eq_imp_distinct_iff mset_eq_setD [OF m] by blast
qed

lemma delete_pending:
  assumes "distinct (map tx_id_of ps)" and "f \<in> set ps"
  shows "AList.delete (tx_id_of f) (map (\<lambda>f. (tx_id_of f, tx_of f)) ps) = map (\<lambda>f. (tx_id_of f, tx_of f)) (remove1 f ps)"
proof -
  have "AList.delete (tx_id_of f) (map (\<lambda>f. (tx_id_of f, tx_of f)) ps) =
      map (\<lambda>f. (tx_id_of f, tx_of f)) (filter (\<lambda>g. tx_id_of f \<noteq> tx_id_of g) ps)"
    by (simp add: AList.delete_eq filter_map o_def split_def)
  also have "filter (\<lambda>g. tx_id_of f \<noteq> tx_id_of g) ps = filter (\<lambda>g. g \<noteq> f) ps"
    using assms by (auto intro!: filter_cong simp: distinct_map inj_on_def)
  also have "\<dots> = remove1 f ps"
    using assms(1) by (simp add: distinct_remove1_removeAll removeAll_filter_not_eq distinct_map eq_commute)
  finally show ?thesis .
qed

lemma lookup_pending:
  assumes "map_of (map (\<lambda>f. (tx_id_of f, tx_of f)) ps) i = Some td"
  obtains f where "f \<in> set ps" "i = tx_id_of f" "td = tx_of f"
  using assms by (auto dest!: map_of_SomeD)

lemma update_fresh: "k \<notin> fst ` set m \<Longrightarrow> AList.update k v m = m @ [(k, v)]"
  by (induction m) auto

lemma accounted_same:
  "bd_frames (bc_builder s') = bd_frames (bc_builder s) \<Longrightarrow> pendingTransactions s' = pendingTransactions s \<Longrightarrow>
   frames_accounted s cs fs \<Longrightarrow> frames_accounted s' cs fs"
  by (simp add: frames_accounted_def)

lemma channel_log_builder:
  assumes "channel_log env cfg s cs bs fs" and "same_channel (bc_builder s) c"
  shows "channel_log env cfg (s\<lparr>bc_builder := c\<rparr>) cs bs fs"
  using assms same_channel_log [OF assms(2)]
  by (auto simp: channel_log_def same_channel_def intro: accounted_same [of _ s])

lemma frames_accountedI:
  "bd_frames (bc_builder s) = map frame_bytes qs \<Longrightarrow> pendingTransactions s = map (\<lambda>f. (tx_id_of f, tx_of f)) ps \<Longrightarrow>
   cs = map tx_of ks \<Longrightarrow> mset qs + mset ps + mset ks = mset fs \<Longrightarrow> frames_accounted s cs fs"
  by (auto simp: frames_accounted_def)

lemma NextTxData_log:
  assumes log: "channel_log env cfg s cs bs fs" and tx: "NextTxData s = (s', Inr td)"
  shows "channel_log env cfg s' cs bs fs"
proof -
  from tx obtain d ds where q: "bd_frames (bc_builder s) = d # ds" and
    s': "s' = s\<lparr>bc_builder := bc_builder s\<lparr>bd_frames := ds\<rparr>,
      pendingTransactions := AList.update (fr_id d) \<lparr>td_frame = d\<rparr> (pendingTransactions s)\<rparr>"
    by (auto simp: NextTxData_def NextFrame_def Let_def TxData_ID_def split: list.splits)
  have "frames_accounted s' cs fs" if small: "length fs \<le> 65536"
  proof -
    from log small obtain qs ps ks where a: "bd_frames (bc_builder s) = map frame_bytes qs"
      "pendingTransactions s = map (\<lambda>f. (tx_id_of f, tx_of f)) ps" "cs = map tx_of ks"
      "mset qs + mset ps + mset ks = mset fs"
      by (auto simp: channel_log_def frames_accounted_def)
    from a(1) q obtain f qs' where f: "qs = f # qs'" "d = frame_bytes f" "ds = map frame_bytes qs'"
      by (cases qs) auto
    have "frame_chain (Builder_ID (bc_builder s)) fs (co_closed (bd_co (bc_builder s)))"
      using log builder_log_chain by (auto simp: channel_log_def)
    from accounted_distinct [OF a(4) this small] have "tx_id_of f \<notin> tx_id_of ` set ps" by (auto simp: f)
    then have "pendingTransactions s' = map (\<lambda>f. (tx_id_of f, tx_of f)) (ps @ [f])"
      using a(2) f(2) by (simp add: s' update_fresh image_image)
    then show ?thesis
      using a f by (intro frames_accountedI [of _ qs' "ps @ [f]" _ ks]) (simp_all add: s')
  qed
  then show ?thesis
    using log by (auto simp: channel_log_def s' intro: builder_log_cong [of _ "bc_builder s"] simp: Builder_IsFull_def)
qed

lemma TxFailed_log:
  assumes log: "channel_log env cfg s cs bs fs" and tx: "BChannel_TxFailed i s = (s', Inr u)"
  shows "channel_log env cfg s' cs bs fs"
proof (cases "map_of (pendingTransactions s) i")
  case None
  then show ?thesis using assms by (simp add: BChannel_TxFailed_def)
next
  case (Some td)
  with tx have s': "s' = s\<lparr>bc_builder := (bc_builder s)\<lparr>bd_frames := bd_frames (bc_builder s) @ [td_frame td]\<rparr>,
      pendingTransactions := AList.delete i (pendingTransactions s)\<rparr>"
    by (auto simp: BChannel_TxFailed_def PushFrame_def split: if_splits)
  have "frames_accounted s' cs fs" if small: "length fs \<le> 65536"
  proof -
    from log small obtain qs ps ks where a: "bd_frames (bc_builder s) = map frame_bytes qs"
      "pendingTransactions s = map (\<lambda>f. (tx_id_of f, tx_of f)) ps" "cs = map tx_of ks"
      "mset qs + mset ps + mset ks = mset fs"
      by (auto simp: channel_log_def frames_accounted_def)
    from Some a(2) obtain f where f: "f \<in> set ps" "i = tx_id_of f" "td = tx_of f" by (auto elim: lookup_pending)
    have "frame_chain (Builder_ID (bc_builder s)) fs (co_closed (bd_co (bc_builder s)))"
      using log builder_log_chain by (auto simp: channel_log_def)
    from accounted_distinct [OF a(4) this small] have "distinct (map tx_id_of ps)" by simp
    from delete_pending [OF this f(1)] show ?thesis
      using a f by (intro frames_accountedI [of _ "qs @ [f]" "remove1 f ps" _ ks]) (simp_all add: s')
  qed
  then show ?thesis
    using log by (auto simp: channel_log_def s' intro: builder_log_cong [of _ "bc_builder s"] simp: Builder_IsFull_def)
qed

lemma TxConfirmed_log:
  assumes log: "channel_log env cfg s cs bs fs" and tx: "BChannel_TxConfirmed i b s = (s', fin, blocks)"
  shows "channel_log env cfg s' (case map_of (pendingTransactions s) i of None \<Rightarrow> cs | Some td \<Rightarrow> cs @ [td]) bs fs"
proof (cases "map_of (pendingTransactions s) i")
  case None
  then show ?thesis using assms by (simp add: BChannel_TxConfirmed_def)
next
  case (Some td)
  with tx have s': "s' = s\<lparr>pendingTransactions := AList.delete i (pendingTransactions s),
      confirmedTransactions := AList.update i b (confirmedTransactions s),
      bc_builder := FramePublished (Number b) (bc_builder s)\<rparr>"
    by (auto simp: BChannel_TxConfirmed_def Let_def split: if_splits)
  have sc: "same_channel (bc_builder s) (FramePublished (Number b) (bc_builder s))" by (rule same_channel_ops)
  have "frames_accounted s' (cs @ [td]) fs" if small: "length fs \<le> 65536"
  proof -
    from log small obtain qs ps ks where a: "bd_frames (bc_builder s) = map frame_bytes qs"
      "pendingTransactions s = map (\<lambda>f. (tx_id_of f, tx_of f)) ps" "cs = map tx_of ks"
      "mset qs + mset ps + mset ks = mset fs"
      by (auto simp: channel_log_def frames_accounted_def)
    from Some a(2) obtain f where f: "f \<in> set ps" "i = tx_id_of f" "td = tx_of f" by (auto elim: lookup_pending)
    have "frame_chain (Builder_ID (bc_builder s)) fs (co_closed (bd_co (bc_builder s)))"
      using log builder_log_chain by (auto simp: channel_log_def)
    from accounted_distinct [OF a(4) this small] f(1) have "distinct (map tx_id_of ps)" "f \<in># mset fs" by auto
    from delete_pending [OF this(1) f(1)] this(2) show ?thesis
      using a f sc by (intro frames_accountedI [of _ qs "remove1 f ps" _ "ks @ [f]"])
        (simp_all add: s' same_channel_def insert_DiffM)
  qed
  then show ?thesis
    using log sc same_channel_log [OF sc] Some by (auto simp: channel_log_def s' same_channel_def)
qed

lemma OutputFrames_succeeded:
  assumes "Builder_OutputFrames env c = Some (c', None)" and "Builder_IsFull c"
  shows "\<not> co_closed (bd_co c) \<and> snd (ChannelOut_Close (methods env) (bd_co c)) = Inr ()"
  using assms by (auto simp: Builder_OutputFrames_def closeAndOutputAllFrames_def ChannelOut_Close_def
      split: prod.splits sum.splits if_splits)

lemma OutputFrames_log:
  assumes log: "channel_log env cfg s cs bs fs" and out: "BChannel_OutputFrames env s = Some (s', None)"
    and fits: "zlib_bounded (be_zlib env)" and size: "23 < MaxFrameSize cfg" "MaxFrameSize cfg < 2 ^ 63"
  shows "\<exists>gs. channel_log env cfg s' cs bs (fs @ gs)"
proof -
  let ?c = "bc_builder s"
  from out obtain c' where c': "Builder_OutputFrames env ?c = Some (c', None)" "s' = s\<lparr>bc_builder := c'\<rparr>"
    by (auto simp: BChannel_OutputFrames_def)
  have bl: "builder_log env ?c bs fs" and cfg: "bd_cfg ?c = cfg" using log by (auto simp: channel_log_def)
  have "\<not> co_closed (bd_co ?c)" "Builder_IsFull ?c \<longrightarrow> snd (ChannelOut_Close (methods env) (bd_co ?c)) = Inr ()"
    using OutputFrames_succeeded [OF c'(1)] bl by (auto simp: builder_log_def)
  from OutputFrames_ends [OF bl _ _ fits this] size cfg c'(1) obtain gs where
    gs: "builder_log env c' bs (fs @ gs)" "bd_frames c' = bd_frames ?c @ map frame_bytes gs" "bd_cfg c' = bd_cfg ?c"
    by auto
  have "frames_accounted s' cs (fs @ gs)" if small: "length (fs @ gs) \<le> 65536"
  proof -
    from log small obtain qs ps ks where a: "bd_frames ?c = map frame_bytes qs"
      "pendingTransactions s = map (\<lambda>f. (tx_id_of f, tx_of f)) ps" "cs = map tx_of ks"
      "mset qs + mset ps + mset ks = mset fs"
      by (auto simp: channel_log_def frames_accounted_def)
    then show ?thesis
      using gs(2) by (intro frames_accountedI [of _ "qs @ gs" ps _ ks]) (simp_all add: c'(2) flip: a(4))
  qed
  then show ?thesis using gs log cfg by (auto simp: channel_log_def c'(2))
qed

lemma AddBlock_log:
  assumes log: "channel_log env cfg s cs bs fs" and add: "BChannel_AddBlock env block s = (s', r)"
    and r: "\<And>e. r \<noteq> Inl (Wrap ''adding block to channel out'' e)"
  shows "\<exists>bs'. channel_log env cfg s' cs bs' fs"
proof -
  obtain c' where c': "Builder_AddBlock env block (bc_builder s) = (c', r)" "s' = s\<lparr>bc_builder := c'\<rparr>"
    using add by (auto simp: BChannel_AddBlock_def split: prod.splits)
  have bl: "builder_log env (bc_builder s) bs fs" using log by (simp add: channel_log_def)
  have "\<exists>bs'. builder_log env c' bs' fs \<and> bd_frames c' = bd_frames (bc_builder s) \<and> bd_cfg c' = bd_cfg (bc_builder s)"
  proof (cases r)
    case (Inl e)
    then show ?thesis using AddBlock_refused [OF bl c'(1) [unfolded Inl]] r by blast
  next
    case (Inr info)
    then show ?thesis using AddBlock_ok [OF bl c'(1) [unfolded Inr]] by blast
  qed
  then show ?thesis
    using log by (auto simp: channel_log_def c'(2) intro: accounted_same [of _ s])
qed

lemma channel_run_log:
  assumes "channel_run env cfg s cs" and size: "23 < MaxFrameSize cfg" "MaxFrameSize cfg < 2 ^ 63"
    and fits: "zlib_bounded (be_zlib env)"
  shows "\<exists>bs fs. channel_log env cfg s cs bs fs"
  using assms(1)
proof induction
  case (New rnd s)
  then obtain cb where "newChannelBuilder env rnd cfg = Inr cb"
    "s = \<lparr>bc_cfg = cfg, bc_builder = cb, pendingTransactions = [], confirmedTransactions = []\<rparr>"
    by (auto simp: newChannel_def rbind_Inr)
  with builder_log_New [OF this(1)] have "channel_log env cfg s [] [] []"
    by (auto simp: channel_log_def intro!: frames_accountedI [of _ "[]" "[]" _ "[]"])
  then show ?case by blast
next
  case (AddBlock s cs block s' r)
  then show ?case using AddBlock_log by blast
next
  case (RegisterL1Block s cs n)
  then show ?case unfolding BChannel_RegisterL1Block_def using channel_log_builder [OF _ same_channel_ops(2)] by blast
next
  case (Close s cs)
  then show ?case unfolding BChannel_Close_def using channel_log_builder [OF _ same_channel_ops(3)] by blast
next
  case (OutputFrames s cs s')
  then show ?case using OutputFrames_log [OF _ _ fits size] by blast
next
  case (NextTxData s cs s' td)
  then show ?case using NextTxData_log by blast
next
  case (TxFailed s cs i s' u)
  then show ?case using TxFailed_log by blast
next
  case (TxConfirmed s cs i b s' fin blocks)
  then show ?case using TxConfirmed_log by blast
qed

section \<open>Reading a channel back\<close>

text \<open>What the derivation relies on: the zlib reader undoes the writer (as long as the input does not exceed the limit of
  the RLP stream, whose state is \<open>'s\<close> with the bytes \<open>rem\<close> left), the stream splits off one encoded string
  after the other, and the decoder undoes the encoder on batches with hashes of 32 bytes.\<close>

definition reader_law ::
  "'z batcher_env \<Rightarrow> (bytes \<Rightarrow> 's result) \<Rightarrow> ('s \<Rightarrow> 's \<times> bytes result) \<Rightarrow> (bytes \<Rightarrow> batch_data result) \<Rightarrow>
   ('s \<Rightarrow> bytes) \<Rightarrow> bool" where
  "reader_law env newReader streamBytes rlpDecode rem \<longleftrightarrow>
     (\<forall>z plain out. writer_log (be_zlib env) z plain out True \<and> length plain \<le> MaxRLPBytesPerChannel \<longrightarrow>
        (\<exists>s. newReader out = Inr s \<and> rem s = plain)) \<and>
     (\<forall>s v rest. rem s = be_rlpString env v @ rest \<longrightarrow> (\<exists>s'. streamBytes s = (s', Inr v) \<and> rem s' = rest)) \<and>
     (\<forall>b. length (b_ParentHash b) = 32 \<and> length (EpochHash b) = 32 \<longrightarrow> rlpDecode (be_rlpEncode env b) = Inr b)"

fun read_batches :: "('s \<Rightarrow> 's \<times> batch_data result) \<Rightarrow> nat \<Rightarrow> 's \<Rightarrow> batch_data list result" where
  "read_batches decode 0 s = Inr []"
| "read_batches decode (Suc n) s =
     (case decode s of
        (s', Inl e) \<Rightarrow> Inl e
      | (s', Inr b) \<Rightarrow> rbind (read_batches decode n s') (\<lambda>bs. Inr (b # bs)))"

lemma read_batches_ok:
  assumes law: "reader_law env newReader streamBytes rlpDecode rem"
    and "list_all (\<lambda>b. length (b_ParentHash b) = 32 \<and> length (EpochHash b) = 32) bs"
    and "rem s = concat (map (encode_batch env) bs)"
  shows "read_batches (Batch_DecodeRLP streamBytes rlpDecode) (length bs) s = Inr bs"
  using assms(2,3)
proof (induction bs arbitrary: s)
  case Nil
  then show ?case by simp
next
  case (Cons b bs)
  let ?v = "encodeTyped (be_rlpEncode env) b"
  have "encode_batch env b = be_rlpString env ?v" by (simp add: encode_batch_def Batch_EncodeRLP_def)
  with Cons.prems(2) have "rem s = be_rlpString env ?v @ concat (map (encode_batch env) bs)" by simp
  then obtain s' where "streamBytes s = (s', Inr ?v)" "rem s' = concat (map (encode_batch env) bs)"
    using law unfolding reader_law_def by blast
  moreover have "rlpDecode (be_rlpEncode env b) = Inr b"
    using law Cons.prems(1) unfolding reader_law_def by auto
  ultimately show ?case
    using Cons by (simp add: Batch_DecodeRLP_def encodeTyped_def decodeTyped_def)
qed

lemma BlockToBatch_hashes:
  assumes "4 \<le> length (keccak (ascii L1InfoFuncSignature))" and "length (blk_ParentHash block) = 32"
    and "BlockToBatch keccak block = Inr (b, info)"
  shows "length (b_ParentHash b) = 32 \<and> length (EpochHash b) = 32"
proof -
  have b: "L1Info_UnmarshalBinary keccak (l2tx_Data (hd (blk_Transactions block))) = Inr info \<and>
      b_ParentHash b = blk_ParentHash block \<and> EpochHash b = info_BlockHash info"
    using assms(3)
    by (cases "blk_Transactions block"; cases "L1Info_UnmarshalBinary keccak (l2tx_Data (hd (blk_Transactions block)))")
      (auto simp: BlockToBatch_def L1InfoDepositTxData_def rbind_Inr split: if_splits)
  then have "l1_info_ok info" using L1Info_Unmarshal_iff [of keccak, OF assms(1)] by blast
  then show ?thesis using b assms(2) by (simp add: l1_info_ok_def)
qed

lemma ParseFrames_single: "frame_ok f \<Longrightarrow> ParseFrames (TxData_Bytes (tx_of f)) = Inr [f]"
  using parse_frames_loop_complete [of "[f]" "[]"] by (simp add: ParseFrames_def TxData_Bytes_def frame_bytes_def)

lemma list_in_image: "set ds \<subseteq> f ` S \<Longrightarrow> \<exists>gs. ds = map f gs \<and> set gs \<subseteq> S"
proof (induction ds)
  case (Cons d ds)
  then obtain g gs where "d = f g" "g \<in> S" "ds = map f gs" "set gs \<subseteq> S" by auto
  then show ?case by (intro exI [of _ "g # gs"]) simp
qed simp

text \<open>Transactions in any order and any number of times, but each of them at least once, carry all frames.\<close>

lemma frames_of_txs:
  assumes "set ds = set (map tx_of ks)" and "distinct (map tx_id_of ks)"
  obtains gs where "ds = map tx_of gs" "set gs = set ks"
proof -
  have "set ds \<subseteq> tx_of ` set ks" using assms(1) by simp
  from list_in_image [OF this] obtain gs where gs: "ds = map tx_of gs" "set gs \<subseteq> set ks" by blast
  have img: "tx_of ` set gs = tx_of ` set ks" using assms(1) gs(1) by simp
  have sub: "f \<in> set gs" if f: "f \<in> set ks" for f
  proof -
    have "tx_of f \<in> tx_of ` set gs" unfolding img using f by (rule imageI)
    then obtain g where g: "tx_of f = tx_of g" "g \<in> set gs" by (rule imageE)
    have "tx_id_of g = tx_id_of f" by (simp only: tx_id_of_def g(1))
    moreover have "g \<in> set ks" "inj_on tx_id_of (set ks)" using assms(2) g(2) gs(2) by (auto simp: distinct_map)
    ultimately have "g = f" using f by (meson inj_onD)
    then show ?thesis using g(2) by simp
  qed
  have "set gs = set ks" using gs(2) sub by blast
  with gs(1) show thesis by (rule that)
qed

section \<open>Properties\<close>

text \<open>C2: what the batcher submits, the derivation reads. Take a channel after any sequence of operations (blocks added,
  timeouts, frames created, transactions sent, failed and confirmed), with a frame size of 24 to 1000023 bytes. When
  the channel is closed and counts as fully submitted, then the confirmed transactions, put on L1 in any order and any
  number of times, parse into one frame each, these frames make up a channel that is ready, and reading it gives
  back exactly the batches of the blocks that were added, in their order.\<close>

theorem submitted_channel_derivable:
  assumes "channel_run env cfg s cs" and "23 < MaxFrameSize cfg" and "MaxFrameSize cfg \<le> 1000023"
    and "isFullySubmitted s" and "co_closed (bd_co (bc_builder s))" and "bd_numFrames (bc_builder s) \<le> 65536"
    and "length (BChannel_ID s) = ChannelIDLength"
    and "list_all (\<lambda>block. length (blk_ParentHash block) = 32) (bd_blocks (bc_builder s))"
    and "4 \<le> length (be_keccak env (ascii L1InfoFuncSignature))"
    and "reader_law env newReader streamBytes rlpDecode rem" and "zlib_bounded (be_zlib env)" and "set ds = set cs"
  shows "\<exists>gs out st bs. list_all2 (\<lambda>d f. ParseFrames (TxData_Bytes d) = Inr [f]) ds gs \<and>
     IsReady (foldl (add_or_ignore b) (NewChannel (BChannel_ID s) b0) gs) \<and>
     Reader (foldl (add_or_ignore b) (NewChannel (BChannel_ID s) b0) gs) = Inr out \<and>
     BatchReader newReader out origin = Inr (st, origin) \<and>
     read_batches (Batch_DecodeRLP streamBytes rlpDecode) (length bs) st = Inr bs \<and>
     list_all2 (block_batch env) (bd_blocks (bc_builder s)) bs"
proof -
  have size: "MaxFrameSize cfg < 2 ^ 63" using assms(3) by (simp add: word_le_nat_alt word_less_nat_alt)
  obtain bs fs where log: "channel_log env cfg s cs bs fs" using channel_run_log [OF assms(1,2) size assms(11)] by blast
  let ?c = "bc_builder s"
  have bl: "builder_log env ?c bs fs" and cfg: "bd_cfg ?c = cfg" using log by (auto simp: channel_log_def)
  have small: "length fs \<le> 65536" using bl assms(6) by (simp add: builder_log_def)
  have chain: "frame_chain (BChannel_ID s) fs True"
    using builder_log_chain [OF bl] assms(5) by (simp add: BChannel_ID_def)
  have "fs \<noteq> []" using bl assms(5) by (simp add: builder_log_def)
  then have complete: "complete_channel (BChannel_ID s) fs" by (rule frame_chain_complete [OF chain _ small])
  from log small assms(4) obtain ks where ks: "cs = map tx_of ks" "mset ks = mset fs"
    by (auto simp: channel_log_def frames_accounted_def isFullySubmitted_def BChannel_PendingFrames_def
        Builder_PendingFrames_def)
  have "set ds = set (map tx_of ks)" using assms(12) ks(1) by simp
  moreover have "distinct (map tx_id_of ks)"
    using chain_distinct [OF chain small] ks(2) mset_eq_imp_distinct_iff [of "map tx_id_of ks" "map tx_id_of fs"] by simp
  ultimately obtain gs where gs: "ds = map tx_of gs" "set gs = set ks" by (rule frames_of_txs)
  have gf: "set gs = set fs" using gs(2) ks(2) mset_eq_setD by blast
  have room: "frame_room (MaxFrameSize cfg) \<le> 1000000"
    using assms(3) by (simp add: frame_room_def word_le_nat_alt)
  have ok: "frame_ok f" if "f \<in> set fs" for f
    using bl cfg room that chain_ids [OF chain that] assms(7) by (fastforce simp: frame_ok_def builder_log_def list_all_iff)
  have "list_all2 (\<lambda>d f. ParseFrames (TxData_Bytes d) = Inr [f]) ds gs"
    using ok gf nth_mem [of _ gs] by (auto simp: gs(1) list_all2_conv_all_nth intro!: ParseFrames_single)
  moreover note reassemble [OF complete gf, of b b0]
  moreover obtain st where st: "newReader (concat (map Data fs)) = Inr st" "rem st = concat (map (encode_batch env) bs)"
  proof -
    from bl assms(5) have v: "compressor_view (be_zlib env) (co_compress (bd_co ?c)) (concat (map (encode_batch env) bs))
        (concat (map Data fs)) [] True" "length (concat (map (encode_batch env) bs)) \<le> MaxRLPBytesPerChannel"
      by (auto simp: builder_log_def co_log_def)
    obtain z where "writer_log (be_zlib env) z (concat (map (encode_batch env) bs)) (concat (map Data fs)) True"
      using compressor_view_log [OF v(1)] by auto
    with v(2) assms(10) have "\<exists>st. newReader (concat (map Data fs)) = Inr st \<and> rem st = concat (map (encode_batch env) bs)"
      unfolding reader_law_def by blast
    with that show thesis by blast
  qed
  moreover have lb: "list_all2 (block_batch env) (bd_blocks ?c) bs" using bl by (simp add: builder_log_def)
  moreover have "list_all (\<lambda>b. length (b_ParentHash b) = 32 \<and> length (EpochHash b) = 32) bs"
    using lb assms(8) BlockToBatch_hashes [of "be_keccak env", OF assms(9)]
    by (fastforce simp: list_all2_conv_all_nth list_all_length block_batch_def)
  from read_batches_ok [OF assms(10) this st(2)]
  have "read_batches (Batch_DecodeRLP streamBytes rlpDecode) (length bs) st = Inr bs" .
  ultimately show ?thesis
    by (intro exI [of _ gs] exI [of _ "concat (map Data fs)"] exI [of _ st] exI [of _ bs]) (simp add: BatchReader_def)
qed

text \<open>A concrete codec for the witness: a byte of a string is written after a 1 and the string ends with a 0; lists of
  strings likewise.\<close>

fun ex_str :: "bytes \<Rightarrow> bytes" where
  "ex_str [] = [0]"
| "ex_str (x # xs) = 1 # x # ex_str xs"

fun ex_unstr :: "bytes \<Rightarrow> (bytes \<times> bytes) result" where
  "ex_unstr (m # x # r) = (if m = 0 then Inr ([], x # r) else rbind (ex_unstr r) (\<lambda>(v, rest). Inr (x # v, rest)))"
| "ex_unstr [m] = Inr ([], [])"
| "ex_unstr [] = Inl EOF"

lemma length_ex_str [simp]: "length (ex_str v) = Suc (2 * length v)"
  by (induction v) auto

lemma ex_unstr_str: "ex_unstr (ex_str v @ r) = Inr (v, r)"
  by (induction v; cases r) auto

fun ex_list :: "bytes list \<Rightarrow> bytes" where
  "ex_list [] = [0]"
| "ex_list (t # ts) = 1 # ex_str t @ ex_list ts"

fun ex_unlist :: "nat \<Rightarrow> bytes \<Rightarrow> bytes list result" where
  "ex_unlist 0 bs = Inl EOF"
| "ex_unlist (Suc n) [] = Inl EOF"
| "ex_unlist (Suc n) (m # r) =
     (if m = 0 then Inr [] else rbind (ex_unstr r) (\<lambda>(v, rest). rbind (ex_unlist n rest) (\<lambda>vs. Inr (v # vs))))"

lemma ex_unlist_list: "length (ex_list ts) \<le> n \<Longrightarrow> ex_unlist n (ex_list ts) = Inr ts"
proof (induction ts arbitrary: n)
  case Nil
  then show ?case by (cases n) auto
next
  case (Cons t ts)
  then show ?case by (cases n) (auto simp: ex_unstr_str)
qed

definition ex_rlpEncode :: "batch_data \<Rightarrow> bytes" where
  "ex_rlpEncode b = b_ParentHash b @ put_u64 (EpochNum b) @ EpochHash b @ put_u64 (Timestamp b) @ ex_list (Transactions b)"

definition ex_rlpDecode :: "bytes \<Rightarrow> batch_data result" where
  "ex_rlpDecode bs = rbind (ex_unlist (length bs) (drop 80 bs)) (\<lambda>txs.
     Inr \<lparr>b_ParentHash = take 32 bs, EpochNum = get_u64 (take 8 (drop 32 bs)), EpochHash = take 32 (drop 40 bs),
          Timestamp = get_u64 (take 8 (drop 72 bs)), Transactions = txs\<rparr>)"

definition ex_stream :: "bytes \<Rightarrow> bytes \<times> bytes result" where
  "ex_stream s = (case ex_unstr s of Inl e \<Rightarrow> (s, Inl e) | Inr (v, rest) \<Rightarrow> (rest, Inr v))"

definition ex_codec_env :: "unit batcher_env" where
  "ex_codec_env = ex_batcher_env\<lparr>be_rlpString := ex_str, be_rlpEncode := ex_rlpEncode\<rparr>"

lemma ex_reader_law: "reader_law ex_codec_env Inr ex_stream ex_rlpDecode (\<lambda>s. s)"
proof -
  have "ex_rlpDecode (ex_rlpEncode b) = Inr b" if "length (b_ParentHash b) = 32" "length (EpochHash b) = 32" for b
    using that ex_unlist_list [of "Transactions b" "length (ex_rlpEncode b)"]
    by (cases b) (simp add: ex_rlpDecode_def ex_rlpEncode_def)
  then show ?thesis
    by (auto simp: reader_law_def ex_codec_env_def ex_batcher_env_def ex_stream_def ex_unstr_str dest: ex_zlib_log)
qed

text \<open>A block with the L1 attributes and one transaction.\<close>

definition ex_info_bytes :: bytes where
  "ex_info_bytes = (case L1Info_MarshalBinary (\<lambda>_. replicate 32 9) ex_info of Inr d \<Rightarrow> d | Inl _ \<Rightarrow> [])"

definition ex_l2_block :: geth_block where
  "ex_l2_block = \<lparr>blk_Hash = replicate 32 2, blk_ParentHash = replicate 32 1, blk_Number = 60, blk_Time = 912,
     blk_Transactions = [\<lparr>l2tx_Type = DepositTxType, l2tx_Data = ex_info_bytes, tx_Marshal = Inr [126]\<rparr>,
       \<lparr>l2tx_Type = 2, l2tx_Data = [], tx_Marshal = Inr [2, 7]\<rparr>]\<rparr>"

definition ex_batch_of_block :: batch_data where
  "ex_batch_of_block = \<lparr>b_ParentHash = replicate 32 1, EpochNum = 100, EpochHash = replicate 32 1, Timestamp = 912,
     Transactions = [[2, 7]]\<rparr>"

lemma ex_BlockToBatch: "BlockToBatch (\<lambda>_. replicate 32 9) ex_l2_block = Inr (ex_batch_of_block, ex_info)"
proof -
  have "l1_info_ok ex_info" by (simp add: l1_info_ok_def ex_info_def)
  moreover have "L1Info_MarshalBinary (\<lambda>_. replicate 32 9) ex_info = Inr ex_info_bytes"
    by (simp add: ex_info_bytes_def L1Info_MarshalBinary_def WriteUint256_def ex_info_def)
  ultimately have "L1Info_UnmarshalBinary (\<lambda>_. replicate 32 9) ex_info_bytes = Inr ex_info"
    by (simp add: L1Info_Unmarshal_iff)
  then show ?thesis
    by (simp add: BlockToBatch_def ex_l2_block_def L1InfoDepositTxData_def ex_batch_of_block_def DepositTxType_def)
      (simp add: ex_info_def)
qed

text \<open>Building the channel: the block is added, the channel closed and cut into frames, the frame sent and confirmed.\<close>

definition ex_bchannel :: "bytes \<Rightarrow> frame_data list \<Rightarrow> bool \<Rightarrow> unit bchannel \<Rightarrow> bool" where
  "ex_bchannel buf frames fin s \<longleftrightarrow>
     co_id (bd_co (bc_builder s)) = replicate 16 1 \<and> co_frame (bd_co (bc_builder s)) = of_nat (length frames) \<and>
     co_closed (bd_co (bc_builder s)) = fin \<and> bd_numFrames (bc_builder s) = length frames \<and>
     (\<exists>t. co_compress (bd_co (bc_builder s)) = ShadowCompressor t \<and> sh_buf t = buf) \<and>
     bd_frames (bc_builder s) = frames \<and> bd_cfg (bc_builder s) = ex_channel_config 1000 \<and>
     bc_cfg s = ex_channel_config 1000 \<and> bd_blocks (bc_builder s) = [ex_l2_block] \<and> pendingTransactions s = []"

lemma ex_encoded_length: "length (encode_batch ex_codec_env ex_batch_of_block) < 200"
  by (simp add: encode_batch_def Batch_EncodeRLP_def encodeTyped_def ex_codec_env_def ex_rlpEncode_def ex_batch_of_block_def)

lemma ex_added:
  "\<exists>s. channel_run ex_codec_env (ex_channel_config 1000) s [] \<and>
     ex_bchannel (encode_batch ex_codec_env ex_batch_of_block) [] False s"
proof -
  let ?d = "encode_batch ex_codec_env ex_batch_of_block"
  note len = ex_encoded_length
  then have small: "\<not> (1000 :: u64) < of_nat (length ?d)" by (simp add: word_less_nat_alt unat_of_nat)
  obtain s0 where new: "newChannel ex_codec_env (Inr (replicate 16 1)) (ex_channel_config 1000) = Inr s0"
    and s0: "s0 = \<lparr>bc_cfg = ex_channel_config 1000, bc_builder = \<lparr>bd_cfg = ex_channel_config 1000, bd_timeout = 0,
        bd_timeoutReason = None, bd_fullErr = None, bd_co = \<lparr>co_id = replicate 16 1, co_frame = 0, co_rlpLength = 0,
          co_compress = ShadowCompressor \<lparr>sh_config = CompressorConfig (ex_channel_config 1000), sh_buf = [],
            sh_compress = (), shadowBuf = [], shadowCompress = (), sh_fullErr = None\<rparr>, co_closed = False\<rparr>,
        bd_blocks = [], bd_frames = [], bd_numFrames = 0, bd_outputBytes = 0\<rparr>,
      pendingTransactions = [], confirmedTransactions = []\<rparr>"
    by (simp add: newChannel_def newChannelBuilder_def NewCompressor_def Kinds_def NewShadowCompressor_def
        NewChannelOut_def ex_codec_env_def ex_batcher_env_def ex_zlib_def RatioKind_def ShadowKind_def ex_channel_config_def)
  have env: "be_keccak ex_codec_env = (\<lambda>_. replicate 32 9)" "be_zlib ex_codec_env = ex_zlib"
    by (simp_all add: ex_codec_env_def ex_batcher_env_def)
  have "ChannelOut_AddBatch (methods ex_codec_env) (encode_batch ex_codec_env) ex_batch_of_block (bd_co (bc_builder s0)) =
      ((bd_co (bc_builder s0))\<lparr>co_rlpLength := length ?d,
         co_compress := ShadowCompressor \<lparr>sh_config = CompressorConfig (ex_channel_config 1000), sh_buf = ?d,
            sh_compress = (), shadowBuf = ?d, shadowCompress = (), sh_fullErr = None\<rparr>\<rparr>, Inr (of_nat (length ?d)))"
    using len small
    by (simp add: ChannelOut_AddBatch_def s0 MaxRLPBytesPerChannel_def compressor_methods_def Shadow_Write_def env ex_zlib_def
        Shadow_put_def Let_def ex_channel_config_def)
  then obtain s1 where s1: "BChannel_AddBlock ex_codec_env ex_l2_block s0 = (s1, Inr ex_info)" "ex_bchannel ?d [] False s1"
    by (simp add: BChannel_AddBlock_def Builder_AddBlock_def env ex_BlockToBatch s0 ex_bchannel_def block_added_simps)
  have "channel_run ex_codec_env (ex_channel_config 1000) s1 []"
    using channel_run.AddBlock [OF channel_run.New [OF new] s1(1)] by simp
  with s1(2) show ?thesis by blast
qed

lemma ex_submitted:
  "\<exists>s d. channel_run ex_codec_env (ex_channel_config 1000) s [d] \<and> isFullySubmitted s \<and>
     ex_bchannel [] [] True (s\<lparr>bc_builder := (bc_builder s)\<lparr>bd_numFrames := 0, bd_co := (bd_co (bc_builder s))\<lparr>co_frame := 0\<rparr>\<rparr>\<rparr>) \<and>
     bd_numFrames (bc_builder s) = 1"
proof -
  let ?cfg = "ex_channel_config 1000" and ?env = ex_codec_env
  let ?buf = "encode_batch ex_codec_env ex_batch_of_block"
  from ex_added obtain s1 where r1: "channel_run ?env ?cfg s1 []" and s1: "ex_bchannel ?buf [] False s1" by blast
  have len: "of_nat (length ?buf) < (977 :: u64)" "unat (of_nat (length ?buf) :: u64) = length ?buf" "length ?buf < 2 ^ 64"
    using ex_encoded_length by (simp_all add: word_less_nat_alt unat_of_nat)
  have env: "be_zlib ?env = ex_zlib" by (simp add: ex_codec_env_def ex_batcher_env_def)
  let ?s2 = "BChannel_Close s1"
  have r2: "channel_run ?env ?cfg ?s2 []" by (rule channel_run.Close [OF r1])
  obtain t where t: "co_compress (bd_co (bc_builder s1)) = ShadowCompressor t" "sh_buf t = ?buf"
    using s1 by (auto simp: ex_bchannel_def)
  let ?f = "\<lparr>ID = replicate 16 1, FrameNumber = 0, Data = ?buf, IsLast = True\<rparr>"
  let ?c2 = "bc_builder ?s2"
  have c2: "same_channel (bc_builder s1) ?c2" "Builder_IsFull ?c2"
    using same_channel_ops(3) [of "bc_builder s1"] by (simp_all add: BChannel_Close_def Builder_Close_def Builder_IsFull_def)
  let ?co = "(bd_co ?c2)\<lparr>co_closed := True, co_compress := ShadowCompressor t\<rparr>"
  have close: "ChannelOut_Close (methods ?env) (bd_co ?c2) = (?co, Inr ())"
    using s1 t c2 by (simp add: same_channel_def ex_bchannel_def ChannelOut_Close_def compressor_methods_def
        Shadow_Close_def env ex_zlib_def)
  let ?c3 = "?c2\<lparr>bd_co := ?co\<lparr>co_compress := ShadowCompressor (t\<lparr>sh_buf := []\<rparr>), co_frame := 1\<rparr>,
      bd_frames := [frame_bytes ?f], bd_numFrames := 1, bd_outputBytes := bd_outputBytes ?c2 + length (MarshalBinary ?f)\<rparr>"
  have size: "MaxFrameSize ?cfg = 1000" by (simp add: ex_channel_config_def)
  have frame: "outputFrame ?env (?c2\<lparr>bd_co := ?co\<rparr>) = (?c3, Some EOF)"
    using s1 t len c2(1)
    by (simp add: outputFrame_def OutputFrame_def FrameV0OverHeadSize_def size ex_bchannel_def same_channel_def
        compressor_methods_def Shadow_Len_def Shadow_Read_def buffer_ReadFull_def frame_bytes_def Let_def env)
  let ?s3 = "?s2\<lparr>bc_builder := ?c3\<rparr>"
  obtain s3 where out: "BChannel_OutputFrames ?env ?s2 = Some (s3, None)" and s3: "ex_bchannel [] [frame_bytes ?f] True s3"
    and full: "BChannel_IsFull s3"
  proof (rule that [of ?s3])
    show "BChannel_OutputFrames ?env ?s2 = Some (?s3, None)"
      using c2(2) by (simp add: BChannel_OutputFrames_def Builder_OutputFrames_def closeAndOutputAllFrames_def close
          outputAllFrames.simps frame)
    show "BChannel_IsFull ?s3" using c2(2) by (simp add: BChannel_IsFull_def Builder_IsFull_def)
    show "ex_bchannel [] [frame_bytes ?f] True ?s3"
      using s1 c2(1) by (simp add: ex_bchannel_def same_channel_def BChannel_Close_def)
  qed
  have r3: "channel_run ?env ?cfg s3 []" by (rule channel_run.OutputFrames [OF r2 out])
  obtain s4 where next_tx: "NextTxData s3 = (s4, Inr (tx_of ?f))"
    and s4: "s4 = s3\<lparr>bc_builder := (bc_builder s3)\<lparr>bd_frames := []\<rparr>, pendingTransactions := [(tx_id_of ?f, tx_of ?f)]\<rparr>"
    using s3 by (simp add: NextTxData_def NextFrame_def ex_bchannel_def Let_def)
  have r4: "channel_run ?env ?cfg s4 []" by (rule channel_run.NextTxData [OF r3 next_tx])
  obtain s5 fin blocks where conf: "BChannel_TxConfirmed (tx_id_of ?f) \<lparr>Hash = [], Number = 7\<rparr> s4 = (s5, fin, blocks)"
    by (metis prod.exhaust)
  have s5: "s5 = s4\<lparr>pendingTransactions := [], confirmedTransactions :=
      AList.update (tx_id_of ?f) \<lparr>Hash = [], Number = 7\<rparr> (confirmedTransactions s4),
      bc_builder := FramePublished 7 (bc_builder s4)\<rparr>"
    using conf s4 by (simp add: BChannel_TxConfirmed_def Let_def split: if_splits)
  have "channel_run ?env ?cfg s5 [tx_of ?f]" using channel_run.TxConfirmed [OF r4 conf] by (simp add: s4)
  moreover have "isFullySubmitted s5"
    using full s3 by (simp add: isFullySubmitted_def s5 s4 BChannel_IsFull_def Builder_IsFull_def FramePublished_def
        BChannel_PendingFrames_def Builder_PendingFrames_def)
  ultimately show ?thesis
    using s3 by (intro exI [of _ s5] exI [of _ "tx_of ?f"]) (auto simp: s5 s4 ex_bchannel_def FramePublished_def)
qed

theorem submitted_channel_derivable_witness:
  "\<exists>(s :: unit bchannel) d gs out st bs. isFullySubmitted s \<and> bd_blocks (bc_builder s) = [ex_l2_block] \<and>
     list_all2 (\<lambda>d f. ParseFrames (TxData_Bytes d) = Inr [f]) [d, d] gs \<and>
     Reader (foldl (add_or_ignore zero_l1_ref) (NewChannel (BChannel_ID s) zero_l1_ref) gs) = Inr out \<and>
     BatchReader Inr out zero_l1_ref = Inr (st, zero_l1_ref) \<and>
     read_batches (Batch_DecodeRLP ex_stream ex_rlpDecode) (length bs) st = Inr bs \<and>
     list_all2 (block_batch ex_codec_env) [ex_l2_block] bs"
proof -
  from ex_submitted obtain s d where run: "channel_run ex_codec_env (ex_channel_config 1000) s [d]"
    and full: "isFullySubmitted s" and s: "co_closed (bd_co (bc_builder s))" "bd_numFrames (bc_builder s) \<le> 65536"
      "length (BChannel_ID s) = ChannelIDLength" "bd_blocks (bc_builder s) = [ex_l2_block]"
    by (auto simp: ex_bchannel_def BChannel_ID_def Builder_ID_def ChannelIDLength_def)
  have size: "23 < MaxFrameSize (ex_channel_config 1000)" "MaxFrameSize (ex_channel_config 1000) \<le> 1000023"
    by (simp_all add: ex_channel_config_def)
  have zl: "zlib_bounded (be_zlib ex_codec_env)" by (simp add: ex_codec_env_def ex_batcher_env_def ex_zlib_bounded)
  have "list_all (\<lambda>block. length (blk_ParentHash block) = 32) (bd_blocks (bc_builder s))"
    "4 \<le> length (be_keccak ex_codec_env (ascii L1InfoFuncSignature))"
    by (simp_all add: s(4) ex_l2_block_def ex_codec_env_def ex_batcher_env_def)
  from submitted_channel_derivable [OF run size full s(1,2,3) this ex_reader_law zl, of "[d, d]" zero_l1_ref zero_l1_ref
      zero_l1_ref]
  obtain gs out st bs where "list_all2 (\<lambda>d f. ParseFrames (TxData_Bytes d) = Inr [f]) [d, d] gs"
    "Reader (foldl (add_or_ignore zero_l1_ref) (NewChannel (BChannel_ID s) zero_l1_ref) gs) = Inr out"
    "BatchReader Inr out zero_l1_ref = Inr (st, zero_l1_ref)"
    "read_batches (Batch_DecodeRLP ex_stream ex_rlpDecode) (length bs) st = Inr bs"
    "list_all2 (block_batch ex_codec_env) [ex_l2_block] bs"
    unfolding s(4) by (metis set_simps(2) insert_absorb2 set_simps(1))
  with full s(4) show ?thesis by blast
qed

end
