(* ===== verification/Channel_Manager.thy ===== *)
theory Channel_Manager
  imports Batcher_Channel
begin

text \<open>
  The channel manager of the batcher, \<open>op-batcher/batcher/channel_manager.go\<close>: it turns a queue of L2 blocks into
  channels and hands out their frames as transactions. Channels are shared by pointers: the same channel can be the
  current one, stand in the queue and be the target of several transactions. So the channels live in a store, a list
  that only grows, and a pointer is an index into it.
\<close>

section \<open>State\<close>

definition ErrReorg :: error where
  "ErrReorg = Errorf ''block does not extend existing chain''"

type_synonym channel_ptr = nat

record 'z channel_manager =
  mg_cfg :: channel_config
  mg_blocks :: "geth_block list"
  mg_tip :: hash
  mg_store :: "'z bchannel list"
  currentChannel :: "channel_ptr option"
  mg_channelQueue :: "channel_ptr list"
  txChannels :: "(tx_id, channel_ptr) gomap"
  mg_closed :: bool

definition chan :: "'z channel_manager \<Rightarrow> channel_ptr \<Rightarrow> 'z bchannel" where
  "chan s p = mg_store s ! p"

definition set_chan :: "channel_ptr \<Rightarrow> 'z bchannel \<Rightarrow> 'z channel_manager \<Rightarrow> 'z channel_manager" where
  "set_chan p c s = s\<lparr>mg_store := (mg_store s)[p := c]\<rparr>"

definition NewChannelManager :: "channel_config \<Rightarrow> 'z channel_manager" where
  "NewChannelManager cfg =
     \<lparr>mg_cfg = cfg, mg_blocks = [], mg_tip = zero_hash, mg_store = [], currentChannel = None, mg_channelQueue = [],
      txChannels = [], mg_closed = False\<rparr>"

definition Manager_Clear :: "'z channel_manager \<Rightarrow> 'z channel_manager" where
  "Manager_Clear s =
     s\<lparr>mg_blocks := [], mg_tip := zero_hash, mg_closed := False, currentChannel := None, mg_channelQueue := [],
       txChannels := []\<rparr>"

section \<open>Transactions\<close>

text \<open>The queue loses the first occurrence of the channel.\<close>

definition removePendingChannel :: "channel_ptr \<Rightarrow> 'z channel_manager \<Rightarrow> 'z channel_manager" where
  "removePendingChannel p s =
     (let s1 = (if currentChannel s = Some p then s\<lparr>currentChannel := None\<rparr> else s)
      in if p \<in> set (mg_channelQueue s1) then s1\<lparr>mg_channelQueue := remove1 p (mg_channelQueue s1)\<rparr> else s1)"

definition Manager_TxFailed :: "tx_id \<Rightarrow> 'z channel_manager \<Rightarrow> 'z channel_manager \<times> unit result" where
  "Manager_TxFailed i s =
     (case map_of (txChannels s) i of
        None \<Rightarrow> (s, Inr ())
      | Some p \<Rightarrow>
          (case BChannel_TxFailed i (chan s p) of
             (c, Inl panic) \<Rightarrow> (set_chan p c (s\<lparr>txChannels := AList.delete i (txChannels s)\<rparr>), Inl panic)
           | (c, Inr _) \<Rightarrow>
               let s1 = set_chan p c (s\<lparr>txChannels := AList.delete i (txChannels s)\<rparr>)
               in (if mg_closed s1 \<and> NoneSubmitted c then removePendingChannel p s1 else s1, Inr ())))"

definition Manager_TxConfirmed :: "tx_id \<Rightarrow> block_id \<Rightarrow> 'z channel_manager \<Rightarrow> 'z channel_manager" where
  "Manager_TxConfirmed i inclusionBlock s =
     (case map_of (txChannels s) i of
        None \<Rightarrow> s
      | Some p \<Rightarrow>
          (case BChannel_TxConfirmed i inclusionBlock (chan s p) of
             (c, finished, blocks) \<Rightarrow>
               let s1 = set_chan p c (s\<lparr>txChannels := AList.delete i (txChannels s)\<rparr>);
                   s2 = s1\<lparr>mg_blocks := blocks @ mg_blocks s1\<rparr>
               in if finished then removePendingChannel p s2 else s2))"

definition Manager_nextTxData :: "channel_ptr option \<Rightarrow> 'z channel_manager \<Rightarrow> 'z channel_manager \<times> tx_data result" where
  "Manager_nextTxData channel s =
     (case channel of
        None \<Rightarrow> (s, Inl EOF)
      | Some p \<Rightarrow>
          if \<not> BChannel_HasFrame (chan s p) then (s, Inl EOF)
          else (case NextTxData (chan s p) of
                  (c, Inl panic) \<Rightarrow> (set_chan p c s, Inl panic)
                | (c, Inr tx) \<Rightarrow>
                    let s1 = set_chan p c s
                    in (s1\<lparr>txChannels := AList.update (TxData_ID tx) p (txChannels s1)\<rparr>, Inr tx)))"

section \<open>Filling channels\<close>

definition ensureChannelWithSpace ::
  "'z batcher_env \<Rightarrow> channel_id result \<Rightarrow> 'z channel_manager \<Rightarrow> 'z channel_manager \<times> unit result" where
  "ensureChannelWithSpace env rnd s =
     (if (case currentChannel s of None \<Rightarrow> False | Some p \<Rightarrow> \<not> BChannel_IsFull (chan s p)) then (s, Inr ())
      else case newChannel env rnd (mg_cfg s) of
             Inl err \<Rightarrow> (s, Inl (Wrap ''creating new channel'' err))
           | Inr pc \<Rightarrow>
               (s\<lparr>mg_store := mg_store s @ [pc], currentChannel := Some (length (mg_store s)),
                  mg_channelQueue := mg_channelQueue s @ [length (mg_store s)]\<rparr>, Inr ()))"

text \<open>\<open>errors.As\<close> for the type \<open>ChannelFullError\<close>.\<close>

fun errors_As_ChannelFull :: "error \<Rightarrow> bool" where
  "errors_As_ChannelFull (ChannelFullError e) = True"
| "errors_As_ChannelFull (Wrap m e) = errors_As_ChannelFull e"
| "errors_As_ChannelFull (Leveled l (Some e)) = errors_As_ChannelFull e"
| "errors_As_ChannelFull (InputError c e) = errors_As_ChannelFull e"
| "errors_As_ChannelFull (Multierror es) = list_ex errors_As_ChannelFull es"
| "errors_As_ChannelFull e = False"

text \<open>The loop over the blocks, on the current channel: the number of blocks added and the error that ended it.\<close>

fun add_blocks ::
  "'z batcher_env \<Rightarrow> geth_block list \<Rightarrow> 'z bchannel \<Rightarrow> nat \<Rightarrow> 'z bchannel \<times> nat \<times> error option" where
  "add_blocks env [] c blocksAdded = (c, blocksAdded, None)"
| "add_blocks env (block # rest) c blocksAdded =
     (case BChannel_AddBlock env block c of
        (c', Inl err) \<Rightarrow>
          if errors_As_ChannelFull err then (c', blocksAdded, None)
          else (c', blocksAdded, Some (Wrap ''adding block to channel builder'' err))
      | (c', Inr _) \<Rightarrow>
          if BChannel_IsFull c' then (c', Suc blocksAdded, None) else add_blocks env rest c' (Suc blocksAdded))"

text \<open>When the loop ends with an error, the blocks stay in the queue, those that were added included.\<close>

definition processBlocks :: "'z batcher_env \<Rightarrow> 'z channel_manager \<Rightarrow> 'z channel_manager \<times> unit result" where
  "processBlocks env s =
     (case currentChannel s of
        None \<Rightarrow> (s, Inl (Panic ''nil pointer dereference''))
      | Some p \<Rightarrow>
          (case add_blocks env (mg_blocks s) (chan s p) 0 of
             (c, _, Some err) \<Rightarrow> (set_chan p c s, Inl err)
           | (c, blocksAdded, None) \<Rightarrow> ((set_chan p c s)\<lparr>mg_blocks := drop blocksAdded (mg_blocks s)\<rparr>, Inr ())))"

definition registerL1Block :: "block_id \<Rightarrow> 'z channel_manager \<Rightarrow> 'z channel_manager \<times> unit result" where
  "registerL1Block l1Head s =
     (case currentChannel s of
        None \<Rightarrow> (s, Inl (Panic ''nil pointer dereference''))
      | Some p \<Rightarrow> (set_chan p (BChannel_RegisterL1Block (Number l1Head) (chan s p)) s, Inr ()))"

definition outputFrames :: "'z batcher_env \<Rightarrow> 'z channel_manager \<Rightarrow> ('z channel_manager \<times> unit result) option" where
  "outputFrames env s =
     (case currentChannel s of
        None \<Rightarrow> Some (s, Inl (Panic ''nil pointer dereference''))
      | Some p \<Rightarrow>
          map_option (\<lambda>(c, err). (set_chan p c s,
              case err of Some e \<Rightarrow> Inl (Wrap ''creating frames with channel builder'' e) | None \<Rightarrow> Inr ()))
            (BChannel_OutputFrames env (chan s p)))"

text \<open>\<open>TxData\<close> after it found no pending frame: fill the current channel and take its first frame.\<close>

definition fill_channel ::
  "'z batcher_env \<Rightarrow> block_id \<Rightarrow> channel_id result \<Rightarrow> 'z channel_manager \<Rightarrow>
   ('z channel_manager \<times> tx_data result) option" where
  "fill_channel env l1Head rnd s =
     (case ensureChannelWithSpace env rnd s of
        (s1, Inl err) \<Rightarrow> Some (s1, Inl err)
      | (s1, Inr _) \<Rightarrow>
          (case processBlocks env s1 of
             (s2, Inl err) \<Rightarrow> Some (s2, Inl err)
           | (s2, Inr _) \<Rightarrow>
               (case registerL1Block l1Head s2 of
                  (s3, Inl err) \<Rightarrow> Some (s3, Inl err)
                | (s3, Inr _) \<Rightarrow>
                    (case outputFrames env s3 of
                       None \<Rightarrow> None
                     | Some (s4, Inl err) \<Rightarrow> Some (s4, Inl err)
                     | Some (s4, Inr _) \<Rightarrow> Some (Manager_nextTxData (currentChannel s4) s4)))))"

definition TxData ::
  "'z batcher_env \<Rightarrow> block_id \<Rightarrow> channel_id result \<Rightarrow> 'z channel_manager \<Rightarrow>
   ('z channel_manager \<times> tx_data result) option" where
  "TxData env l1Head rnd s =
     (let firstWithFrame = List.find (\<lambda>p. BChannel_HasFrame (chan s p)) (mg_channelQueue s)
      in if firstWithFrame \<noteq> None \<or> mg_closed s then Some (Manager_nextTxData firstWithFrame s)
         else if mg_blocks s = [] then Some (s, Inl EOF)
         else fill_channel env l1Head rnd s)"

section \<open>Blocks, closing\<close>

definition AddL2Block :: "geth_block \<Rightarrow> 'z channel_manager \<Rightarrow> 'z channel_manager \<times> unit result" where
  "AddL2Block block s =
     (if mg_tip s \<noteq> zero_hash \<and> mg_tip s \<noteq> blk_ParentHash block then (s, Inl ErrReorg)
      else (s\<lparr>mg_blocks := mg_blocks s @ [block], mg_tip := blk_Hash block\<rparr>, Inr ()))"

definition l2BlockRefFromBlockAndL1Info :: "geth_block \<Rightarrow> l1_block_info \<Rightarrow> l2_block_ref" where
  "l2BlockRefFromBlockAndL1Info block l1info =
     \<lparr>l2_Hash = blk_Hash block, l2_Number = blk_Number block, l2_ParentHash = blk_ParentHash block,
      l2_Time = blk_Time block, L1Origin = \<lparr>Hash = info_BlockHash l1info, Number = info_Number l1info\<rparr>,
      SequenceNumber = info_SequenceNumber l1info\<rparr>"

text \<open>The loop \<open>for _, ch := range s.channelQueue\<close> of \<open>Close\<close> runs over the array that the queue had at its start, and
  \<open>removePendingChannel\<close> moves the elements of that very array: the array is the new queue followed by what was at
  its end before. \<open>arr\<close> is that array.\<close>

definition close_visit :: "channel_ptr list \<times> 'z channel_manager \<Rightarrow> nat \<Rightarrow> channel_ptr list \<times> 'z channel_manager" where
  "close_visit = (\<lambda>(arr, s) k.
     if NoneSubmitted (chan s (arr ! k))
     then let s' = removePendingChannel (arr ! k) s
          in (mg_channelQueue s' @ drop (length (mg_channelQueue s')) arr, s')
     else (arr, s))"

definition close_range :: "'z channel_manager \<Rightarrow> 'z channel_manager" where
  "close_range s = snd (foldl close_visit (mg_channelQueue s, s) [0..<length (mg_channelQueue s)])"

definition Manager_Close :: "'z batcher_env \<Rightarrow> 'z channel_manager \<Rightarrow> ('z channel_manager \<times> unit result) option" where
  "Manager_Close env s =
     (if mg_closed s then Some (s, Inr ())
      else let s1 = close_range (s\<lparr>mg_closed := True\<rparr>)
           in case currentChannel s1 of
                None \<Rightarrow> Some (s1, Inr ())
              | Some p \<Rightarrow> outputFrames env (set_chan p (BChannel_Close (chan s1 p)) s1))"

section \<open>What the operations do to a channel\<close>

definition few_frames :: "'z bchannel \<Rightarrow> bool" where
  "few_frames c = (bd_numFrames (bc_builder c) \<le> 65535)"

abbreviation blocks_of :: "'z bchannel \<Rightarrow> geth_block list" where
  "blocks_of c \<equiv> bd_blocks (bc_builder c)"

abbreviation out_closed :: "'z bchannel \<Rightarrow> bool" where
  "out_closed c \<equiv> co_closed (bd_co (bc_builder c))"

text \<open>A channel of the store: it came about by the operations of \<open>channel.go\<close>, and between calls of the manager it is
  cut into frames as soon as it is full.\<close>

definition chan_ok :: "'z batcher_env \<Rightarrow> channel_config \<Rightarrow> 'z bchannel \<Rightarrow> bool" where
  "chan_ok env cfg c \<longleftrightarrow> (\<exists>cs. channel_run env cfg c cs) \<and> few_frames c \<and> (BChannel_IsFull c \<longrightarrow> out_closed c)"

definition batcher_ok :: "'z batcher_env \<Rightarrow> channel_config \<Rightarrow> bool" where
  "batcher_ok env cfg \<longleftrightarrow> 23 < MaxFrameSize cfg \<and> MaxFrameSize cfg < 2 ^ 63 \<and> zlib_bounded (be_zlib env)"

lemma NextTxData_ok:
  assumes "chan_ok env cfg c" and "NextTxData c = (c', Inr td)"
  shows "chan_ok env cfg c' \<and> blocks_of c' = blocks_of c \<and>
     map_of (pendingTransactions c') = (map_of (pendingTransactions c))(TxData_ID td \<mapsto> td)"
proof -
  obtain cs where "channel_run env cfg c cs" using assms(1) by (auto simp: chan_ok_def)
  then have run: "channel_run env cfg c' cs" using assms(2) by (rule channel_run.NextTxData)
  from assms(2) have "bd_co (bc_builder c') = bd_co (bc_builder c)" "bd_numFrames (bc_builder c') = bd_numFrames (bc_builder c)"
    "bd_fullErr (bc_builder c') = bd_fullErr (bc_builder c)" "blocks_of c' = blocks_of c"
    "pendingTransactions c' = AList.update (TxData_ID td) td (pendingTransactions c)"
    by (auto simp: NextTxData_def NextFrame_def Let_def split: list.splits)
  with assms(1) run show ?thesis
    by (auto simp: chan_ok_def few_frames_def BChannel_IsFull_def Builder_IsFull_def update_conv)
qed

lemma TxFailed_ok:
  assumes "chan_ok env cfg c" and "BChannel_TxFailed i c = (c', Inr u)"
  shows "chan_ok env cfg c' \<and> blocks_of c' = blocks_of c \<and>
     map_of (pendingTransactions c') = (map_of (pendingTransactions c))(i := None)"
proof -
  obtain cs where "channel_run env cfg c cs" using assms(1) by (auto simp: chan_ok_def)
  then have run: "channel_run env cfg c' cs" using assms(2) by (rule channel_run.TxFailed)
  from assms(2) have "bd_co (bc_builder c') = bd_co (bc_builder c)" "bd_numFrames (bc_builder c') = bd_numFrames (bc_builder c)"
    "bd_fullErr (bc_builder c') = bd_fullErr (bc_builder c)" "blocks_of c' = blocks_of c"
    "map_of (pendingTransactions c') = (map_of (pendingTransactions c))(i := None)"
    by (auto simp: BChannel_TxFailed_def PushFrame_def delete_conv' fun_eq_iff split: option.splits if_splits)
  with assms(1) run show ?thesis
    by (auto simp: chan_ok_def few_frames_def BChannel_IsFull_def Builder_IsFull_def)
qed

text \<open>A frame that failed belongs to the channel that sent it, so that pushing it back does not panic.\<close>

lemma TxFailed_no_panic:
  assumes "chan_ok env cfg c" and "batcher_ok env cfg"
  shows "\<exists>c'. BChannel_TxFailed i c = (c', Inr ())"
proof (cases "map_of (pendingTransactions c) i")
  case None
  then show ?thesis by (simp add: BChannel_TxFailed_def)
next
  case (Some td)
  obtain cs bs fs where log: "channel_log env cfg c cs bs fs"
    using assms channel_run_log unfolding chan_ok_def batcher_ok_def by blast
  then have bl: "builder_log env (bc_builder c) bs fs" by (simp add: channel_log_def)
  then have small: "length fs \<le> 65536" using assms(1) by (simp add: builder_log_def chan_ok_def few_frames_def)
  from log small obtain qs ps ks where "pendingTransactions c = map (\<lambda>f. (tx_id_of f, tx_of f)) ps"
    and m: "mset qs + mset ps + mset ks = mset fs"
    by (auto simp: channel_log_def frames_accounted_def)
  with Some obtain f where f: "f \<in> set ps" "td = tx_of f" by (auto elim: lookup_pending)
  have "f \<in> set fs" using accounted_distinct [OF m builder_log_chain [OF bl] small] f(1) by auto
  then have "chID (fr_id (td_frame td)) = Builder_ID (bc_builder c)"
    using chain_ids [OF builder_log_chain [OF bl]] f(2) by simp
  then show ?thesis using Some by (simp add: BChannel_TxFailed_def PushFrame_def)
qed

lemma TxConfirmed_ok:
  assumes "chan_ok env cfg c" and "BChannel_TxConfirmed i b c = (c', finished, blocks)"
  shows "chan_ok env cfg c' \<and> blocks_of c' = blocks_of c \<and>
     map_of (pendingTransactions c') = (map_of (pendingTransactions c))(i := None) \<and>
     (finished \<longrightarrow> blocks = blocks_of c' \<or> isFullySubmitted c' \<and> out_closed c')"
proof -
  obtain cs where "channel_run env cfg c cs" using assms(1) by (auto simp: chan_ok_def)
  from channel_run.TxConfirmed [OF this assms(2)] have run: "\<exists>cs'. channel_run env cfg c' cs'" by blast
  from assms(2) have "bd_co (bc_builder c') = bd_co (bc_builder c)" "bd_numFrames (bc_builder c') = bd_numFrames (bc_builder c)"
    "bd_fullErr (bc_builder c') = bd_fullErr (bc_builder c)" "blocks_of c' = blocks_of c"
    "map_of (pendingTransactions c') = (map_of (pendingTransactions c))(i := None)"
    and fin: "finished \<longrightarrow> blocks = blocks_of c' \<or> isFullySubmitted c'"
    by (auto simp: BChannel_TxConfirmed_def Let_def FramePublished_def delete_conv' fun_eq_iff split: option.splits if_splits)
  with assms(1) run show ?thesis
    by (auto simp: chan_ok_def few_frames_def BChannel_IsFull_def Builder_IsFull_def isFullySubmitted_def)
qed

text \<open>Adding a block: the blocks grow by it or the channel only becomes full.\<close>

lemma AddBatch_error:
  assumes "ChannelOut_AddBatch (compressor_methods zl) encode b co = (co', Inl e)"
    and "\<not> (errors_Is e ErrTooManyRLPBytes \<or> errors_Is e CompressorFullErr)"
  shows "\<not> errors_As_ChannelFull e"
  using assms comp.Write_err [of zl "encode b" "co_compress co"]
  by (fastforce simp: ChannelOut_AddBatch_def Let_def rbind_def CompressorFullErr_def ErrTooManyRLPBytes_def
      split: if_splits prod.splits sum.splits)

lemma AddBlock_closed:
  "BChannel_AddBlock env block c = (c', r) \<Longrightarrow>
   out_closed c' = out_closed c \<and> pendingTransactions c' = pendingTransactions c \<and>
   blocks_of c' = (case r of Inl _ \<Rightarrow> blocks_of c | Inr _ \<Rightarrow> blocks_of c @ [block])"
  by (auto simp: BChannel_AddBlock_def Builder_AddBlock_def ChannelOut_AddBatch_def Let_def block_added_simps
      split: option.splits sum.splits prod.splits if_splits)

lemma AddBlock_out_error:
  assumes "BChannel_AddBlock env block c = (c', Inl (Wrap ''adding block to channel out'' e))"
    and "bd_fullErr (bc_builder c) = None"
  obtains batch co where "ChannelOut_AddBatch (methods env) (encode_batch env) batch (bd_co (bc_builder c)) = (co, Inl e)"
    and "\<not> (errors_Is e ErrTooManyRLPBytes \<or> errors_Is e CompressorFullErr)"
  using assms
  by (cases "BlockToBatch (be_keccak env) block")
    (auto simp: BChannel_AddBlock_def Builder_AddBlock_def Let_def split: sum.splits prod.splits if_splits)

lemma AddBlock_tolerated:
  assumes "BChannel_AddBlock env block c = (c', Inl e)" and "errors_As_ChannelFull e"
    and "bd_fullErr (bc_builder c) = None"
  shows "e \<noteq> Wrap ''adding block to channel out'' e'"
proof
  assume "e = Wrap ''adding block to channel out'' e'"
  with assms have "errors_As_ChannelFull e'" "BChannel_AddBlock env block c = (c', Inl (Wrap ''adding block to channel out'' e'))"
    by simp_all
  moreover from AddBlock_out_error [OF this(2) assms(3)] obtain batch co where
    add: "ChannelOut_AddBatch (methods env) (encode_batch env) batch (bd_co (bc_builder c)) = (co, Inl e')"
    and "\<not> (errors_Is e' ErrTooManyRLPBytes \<or> errors_Is e' CompressorFullErr)"
    by blast
  ultimately show False using AddBatch_error by blast
qed

lemma add_blocks_ok:
  assumes "add_blocks env bs c n = (c', m, None)" and "channel_run env cfg c cs"
  shows "channel_run env cfg c' cs \<and> out_closed c' = out_closed c \<and> pendingTransactions c' = pendingTransactions c \<and>
     n \<le> m \<and> blocks_of c' = blocks_of c @ take (m - n) bs"
  using assms
proof (induction bs arbitrary: c n)
  case Nil
  then show ?case by simp
next
  case (Cons block bs)
  obtain c1 r where add: "BChannel_AddBlock env block c = (c1, r)" by (metis prod.exhaust)
  note facts = AddBlock_closed [OF add]
  show ?case
  proof (cases r)
    case (Inl e)
    with Cons.prems(1) add have e: "errors_As_ChannelFull e" "c' = c1" "m = n" by (auto split: if_splits)
    have "channel_run env cfg c1 cs"
    proof (cases "bd_fullErr (bc_builder c)")
      case None
      show ?thesis
        by (rule channel_run.AddBlock [OF Cons.prems(2) add])
          (use AddBlock_tolerated [OF add [unfolded Inl] e(1) None] Inl in simp)
    next
      case (Some err)
      then have "c1 = c" using add by (simp add: BChannel_AddBlock_def Builder_AddBlock_def)
      then show ?thesis using Cons.prems(2) by simp
    qed
    then show ?thesis using facts Inl e by simp
  next
    case (Inr info)
    have run: "channel_run env cfg c1 cs" using channel_run.AddBlock [OF Cons.prems(2) add] Inr by blast
    show ?thesis
    proof (cases "BChannel_IsFull c1")
      case True
      then show ?thesis using Cons.prems(1) add Inr run facts by auto
    next
      case False
      then have "add_blocks env bs c1 (Suc n) = (c', m, None)" using Cons.prems(1) add Inr by simp
      from Cons.IH [OF this run] facts Inr show ?thesis
        by (auto simp: take_Cons' simp flip: Suc_diff_Suc)
    qed
  qed
qed

lemma OutputFrames_ok:
  assumes run: "channel_run env cfg c cs" and out: "BChannel_OutputFrames env c = Some (c', None)"
    and ok: "batcher_ok env cfg" and few: "few_frames c'"
  shows "chan_ok env cfg c' \<and> blocks_of c' = blocks_of c \<and> pendingTransactions c' = pendingTransactions c"
proof -
  let ?b = "bc_builder c"
  from out obtain b' where b': "Builder_OutputFrames env ?b = Some (b', None)" "c' = c\<lparr>bc_builder := b'\<rparr>"
    by (auto simp: BChannel_OutputFrames_def)
  obtain bs fs where "channel_log env cfg c cs bs fs"
    using channel_run_log [OF run] ok unfolding batcher_ok_def by blast
  then have bl: "builder_log env ?b bs fs" and cfg: "bd_cfg ?b = cfg" by (auto simp: channel_log_def)
  have "\<not> co_closed (bd_co ?b)" "Builder_IsFull ?b \<longrightarrow> snd (ChannelOut_Close (methods env) (bd_co ?b)) = Inr ()"
    using OutputFrames_succeeded [OF b'(1)] bl by (auto simp: builder_log_def)
  from OutputFrames_ends [OF bl _ _ _ this] ok cfg b'(1) few have "bd_blocks b' = bd_blocks ?b"
    "co_closed (bd_co b') = Builder_IsFull ?b" "Builder_IsFull b' = Builder_IsFull ?b"
    by (auto simp: batcher_ok_def few_frames_def b'(2))
  then show ?thesis
    using channel_run.OutputFrames [OF run out] few b'(2) by (auto simp: chan_ok_def BChannel_IsFull_def)
qed

section \<open>Runs of the manager\<close>

text \<open>\<open>manager_run env cfg s added\<close>: \<open>s\<close> is a state that the manager reaches from its creation, and \<open>added\<close> are the
  blocks that were added since it was last cleared. Calls of \<open>TxData\<close> return data or EOF, and no channel has more
  than 65535 frames.\<close>

inductive manager_run ::
  "'z batcher_env \<Rightarrow> channel_config \<Rightarrow> 'z channel_manager \<Rightarrow> geth_block list \<Rightarrow> bool" for env cfg where
  New: "manager_run env cfg (NewChannelManager cfg) []"
| Clear: "manager_run env cfg s added \<Longrightarrow> manager_run env cfg (Manager_Clear s) []"
| AddL2Block: "manager_run env cfg s added \<Longrightarrow> AddL2Block block s = (s', Inr u) \<Longrightarrow>
    manager_run env cfg s' (added @ [block])"
| AddL2Block_reorg: "manager_run env cfg s added \<Longrightarrow> AddL2Block block s = (s', Inl err) \<Longrightarrow> manager_run env cfg s' added"
| TxData: "manager_run env cfg s added \<Longrightarrow> TxData env l1Head rnd s = Some (s', r) \<Longrightarrow>
    (\<And>e. r = Inl e \<Longrightarrow> e = EOF) \<Longrightarrow> list_all few_frames (mg_store s') \<Longrightarrow> manager_run env cfg s' added"
| TxFailed: "manager_run env cfg s added \<Longrightarrow> Manager_TxFailed i s = (s', r) \<Longrightarrow> manager_run env cfg s' added"
| TxConfirmed: "manager_run env cfg s added \<Longrightarrow> manager_run env cfg (Manager_TxConfirmed i b s) added"

definition submitted :: "'z bchannel \<Rightarrow> bool" where
  "submitted c \<longleftrightarrow> isFullySubmitted c \<and> out_closed c"

text \<open>Where a block can be: in the queue of blocks, in a channel of the queue, or in a channel that is submitted.\<close>

definition holds_block :: "'z channel_manager \<Rightarrow> geth_block \<Rightarrow> channel_ptr \<Rightarrow> bool" where
  "holds_block s block p \<longleftrightarrow>
     p < length (mg_store s) \<and> block \<in> set (blocks_of (chan s p)) \<and> (p \<in> set (mg_channelQueue s) \<or> submitted (chan s p))"

definition kept :: "'z channel_manager \<Rightarrow> geth_block \<Rightarrow> bool" where
  "kept s block \<longleftrightarrow> block \<in> set (mg_blocks s) \<or> (\<exists>p. holds_block s block p)"

definition manager_ok :: "'z batcher_env \<Rightarrow> channel_config \<Rightarrow> 'z channel_manager \<Rightarrow> bool" where
  "manager_ok env cfg s \<longleftrightarrow>
     mg_cfg s = cfg \<and> \<not> mg_closed s \<and> distinct (mg_channelQueue s) \<and>
     set (mg_channelQueue s) \<subseteq> {..<length (mg_store s)} \<and>
     (\<forall>p. currentChannel s = Some p \<longrightarrow> p \<in> set (mg_channelQueue s)) \<and>
     (\<forall>i p. map_of (txChannels s) i = Some p \<longrightarrow> p < length (mg_store s)) \<and>
     list_all (chan_ok env cfg) (mg_store s)"

lemma manager_okD:
  "manager_ok env cfg s \<Longrightarrow> p < length (mg_store s) \<Longrightarrow> chan_ok env cfg (chan s p)"
  by (simp add: manager_ok_def chan_def list_all_length)

lemma chan_set_chan [simp]:
  "p < length (mg_store s) \<Longrightarrow> chan (set_chan p c s) q = (if q = p then c else chan s q)"
  by (auto simp: chan_def set_chan_def)

lemma set_chan_simps [simp]:
  "mg_cfg (set_chan p c s) = mg_cfg s" "mg_blocks (set_chan p c s) = mg_blocks s"
  "mg_tip (set_chan p c s) = mg_tip s"
  "length (mg_store (set_chan p c s)) = length (mg_store s)" "currentChannel (set_chan p c s) = currentChannel s"
  "mg_channelQueue (set_chan p c s) = mg_channelQueue s" "txChannels (set_chan p c s) = txChannels s"
  "mg_closed (set_chan p c s) = mg_closed s"
  by (simp_all add: set_chan_def)

lemma chan_update_simps [simp]:
  "chan (s\<lparr>txChannels := t\<rparr>) q = chan s q" "chan (s\<lparr>mg_blocks := bs\<rparr>) q = chan s q"
  "chan (s\<lparr>mg_channelQueue := qs\<rparr>) q = chan s q" "chan (s\<lparr>currentChannel := cp\<rparr>) q = chan s q"
  by (simp_all add: chan_def)

lemma set_chan_ok:
  "manager_ok env cfg s \<Longrightarrow> p < length (mg_store s) \<Longrightarrow> chan_ok env cfg c \<Longrightarrow> manager_ok env cfg (set_chan p c s)"
  by (auto simp: manager_ok_def list_all_length set_chan_def nth_list_update)

text \<open>A step on one channel keeps every block, when the channel keeps its blocks and stays submitted.\<close>

lemma set_chan_kept:
  assumes "kept s block" and "p < length (mg_store s)" and "set (blocks_of (chan s p)) \<subseteq> set (blocks_of c)"
    and "p \<in> set (mg_channelQueue s) \<or> (submitted (chan s p) \<longrightarrow> submitted c)"
  shows "kept (set_chan p c s) block"
  using assms unfolding kept_def holds_block_def by (auto split: if_splits)

lemma removePendingChannel_simps [simp]:
  "mg_cfg (removePendingChannel p s) = mg_cfg s" "mg_blocks (removePendingChannel p s) = mg_blocks s"
  "mg_store (removePendingChannel p s) = mg_store s" "txChannels (removePendingChannel p s) = txChannels s"
  "mg_closed (removePendingChannel p s) = mg_closed s" "mg_channelQueue (removePendingChannel p s) = remove1 p (mg_channelQueue s)"
  "chan (removePendingChannel p s) q = chan s q"
  "currentChannel (removePendingChannel p s) = (if currentChannel s = Some p then None else currentChannel s)"
  by (simp_all add: removePendingChannel_def Let_def chan_def remove1_idem)

lemma removePendingChannel_ok: "manager_ok env cfg s \<Longrightarrow> manager_ok env cfg (removePendingChannel p s)"
  by (auto simp: manager_ok_def dest: notin_set_remove1)

lemma removePendingChannel_kept:
  assumes "kept s block" and "distinct (mg_channelQueue s)" and "set (blocks_of (chan s p)) \<subseteq> set (mg_blocks s) \<or> submitted (chan s p)"
  shows "kept (removePendingChannel p s) block"
  using assms unfolding kept_def holds_block_def by (auto simp: set_remove1_eq)

lemma prepend_kept: "kept s block \<Longrightarrow> kept (s\<lparr>mg_blocks := bs @ mg_blocks s\<rparr>) block"
  by (auto simp: kept_def holds_block_def)

lemma forget_tx_ok: "manager_ok env cfg s \<Longrightarrow> manager_ok env cfg (s\<lparr>txChannels := AList.delete i (txChannels s)\<rparr>)"
  by (auto simp: manager_ok_def delete_conv' split: if_splits)

lemma forget_tx_kept [simp]: "kept (s\<lparr>txChannels := t\<rparr>) block = kept s block"
  by (simp add: kept_def holds_block_def)

lemma submitted_done:
  assumes "submitted c"
  shows "BChannel_TxFailed i c = (c, Inr ())" "BChannel_TxConfirmed i b c = (c, False, [])"
  using assms
  by (auto simp: submitted_def isFullySubmitted_def BChannel_TxFailed_def BChannel_TxConfirmed_def)

lemma Manager_TxFailed_ok:
  assumes ok: "manager_ok env cfg s" and env: "batcher_ok env cfg" and step: "Manager_TxFailed i s = (s', r)"
  shows "r = Inr () \<and> manager_ok env cfg s' \<and> (kept s block \<longrightarrow> kept s' block)"
proof (cases "map_of (txChannels s) i")
  case None
  with step ok show ?thesis by (simp add: Manager_TxFailed_def)
next
  case (Some p)
  have p: "p < length (mg_store s)" using ok Some by (auto simp: manager_ok_def)
  note cok = manager_okD [OF ok p]
  from TxFailed_no_panic [OF cok env] obtain c where c: "BChannel_TxFailed i (chan s p) = (c, Inr ())" by blast
  let ?s1 = "set_chan p c (s\<lparr>txChannels := AList.delete i (txChannels s)\<rparr>)"
  have r: "r = Inr ()" "s' = ?s1" using step ok by (auto simp: Manager_TxFailed_def Some c Let_def manager_ok_def)
  have "manager_ok env cfg ?s1"
    using set_chan_ok [OF forget_tx_ok [OF ok]] p TxFailed_ok [OF cok c] by simp
  moreover have "submitted (chan s p) \<longrightarrow> submitted c" using submitted_done(1) [of "chan s p" i] c by auto
  then have "kept s block \<longrightarrow> kept ?s1 block"
    using TxFailed_ok [OF cok c] p by (intro impI set_chan_kept) simp_all
  ultimately show ?thesis using r by simp
qed

lemma Manager_TxConfirmed_ok:
  assumes ok: "manager_ok env cfg s"
  shows "manager_ok env cfg (Manager_TxConfirmed i b s) \<and> (kept s block \<longrightarrow> kept (Manager_TxConfirmed i b s) block)"
proof (cases "map_of (txChannels s) i")
  case None
  with ok show ?thesis by (simp add: Manager_TxConfirmed_def)
next
  case (Some p)
  have p: "p < length (mg_store s)" using ok Some by (auto simp: manager_ok_def)
  note cok = manager_okD [OF ok p]
  obtain c finished blocks where c: "BChannel_TxConfirmed i b (chan s p) = (c, finished, blocks)" by (metis prod.exhaust)
  note facts = TxConfirmed_ok [OF cok c]
  let ?s1 = "set_chan p c (s\<lparr>txChannels := AList.delete i (txChannels s)\<rparr>)"
  let ?s2 = "?s1\<lparr>mg_blocks := blocks @ mg_blocks ?s1\<rparr>"
  have res: "Manager_TxConfirmed i b s = (if finished then removePendingChannel p ?s2 else ?s2)"
    by (simp add: Manager_TxConfirmed_def Some c Let_def)
  have "manager_ok env cfg ?s1" using set_chan_ok [OF forget_tx_ok [OF ok]] p facts by simp
  then have ok2: "manager_ok env cfg ?s2" by (simp add: manager_ok_def)
  have "submitted (chan s p) \<longrightarrow> submitted c" using submitted_done(2) [of "chan s p" i b] c by auto
  then have "kept s block \<longrightarrow> kept ?s1 block" using facts p by (intro impI set_chan_kept) simp_all
  then have k2: "kept s block \<longrightarrow> kept ?s2 block" by (blast intro: prepend_kept)
  have "set (blocks_of (chan ?s2 p)) \<subseteq> set (mg_blocks ?s2) \<or> submitted (chan ?s2 p)" if finished
    using facts that p by (auto simp: submitted_def)
  moreover have "distinct (mg_channelQueue ?s2)" using ok2 by (simp add: manager_ok_def)
  ultimately have "kept s block \<longrightarrow> kept (removePendingChannel p ?s2) block" if finished
    using k2 that by (blast intro: removePendingChannel_kept)
  then show ?thesis
    using ok2 k2 removePendingChannel_ok [OF ok2, of p] unfolding res by (cases finished) simp_all
qed

lemma nextTxData_ok:
  assumes ok: "manager_ok env cfg s" and p: "\<And>q. channel = Some q \<Longrightarrow> q \<in> set (mg_channelQueue s)"
    and step: "Manager_nextTxData channel s = (s', r)" and r: "\<And>e. r = Inl e \<Longrightarrow> e = EOF"
  shows "manager_ok env cfg s' \<and> (kept s block \<longrightarrow> kept s' block)"
proof (cases "r = Inl EOF")
  case True
  then have "s' = s" using step by (auto simp: Manager_nextTxData_def NextTxData_def NextFrame_def Let_def
        split: option.splits if_splits prod.splits sum.splits list.splits)
  then show ?thesis using ok by simp
next
  case False
  then obtain td where td: "r = Inr td" using r by (cases r) auto
  with step obtain q c where q: "channel = Some q" "NextTxData (chan s q) = (c, Inr td)"
    "s' = (set_chan q c s)\<lparr>txChannels := AList.update (TxData_ID td) q (txChannels s)\<rparr>"
    by (auto simp: Manager_nextTxData_def Let_def split: option.splits if_splits prod.splits sum.splits)
  have inq: "q \<in> set (mg_channelQueue s)" using p q(1) by simp
  then have len: "q < length (mg_store s)" using ok by (auto simp: manager_ok_def)
  note facts = NextTxData_ok [OF manager_okD [OF ok len] q(2)]
  have "manager_ok env cfg (set_chan q c s)" using set_chan_ok [OF ok len] facts by simp
  then have "manager_ok env cfg s'" using len by (auto simp: q(3) manager_ok_def update_conv split: if_splits)
  moreover have "kept s block \<longrightarrow> kept s' block"
    using inq len facts by (auto simp: q(3) intro!: set_chan_kept)
  ultimately show ?thesis by simp
qed

lemma new_channel_ok:
  "newChannel env rnd cfg = Inr c \<Longrightarrow> few_frames c \<and> \<not> BChannel_IsFull c"
  by (auto simp: newChannel_def newChannelBuilder_def rbind_def on_error_def few_frames_def BChannel_IsFull_def
      Builder_IsFull_def split: sum.splits)

lemma new_channel_kept:
  assumes "kept s block"
  shows "kept (s\<lparr>mg_store := mg_store s @ [c], currentChannel := cp, mg_channelQueue := mg_channelQueue s @ qs\<rparr>) block"
proof (cases "block \<in> set (mg_blocks s)")
  case False
  with assms obtain p where "holds_block s block p" by (auto simp: kept_def)
  then have "holds_block (s\<lparr>mg_store := mg_store s @ [c], currentChannel := cp, mg_channelQueue := mg_channelQueue s @ qs\<rparr>) block p"
    by (auto simp: holds_block_def chan_def nth_append)
  then show ?thesis by (auto simp: kept_def)
qed (simp add: kept_def)

lemma ensure_ok:
  assumes ok: "manager_ok env cfg s" and env: "batcher_ok env cfg" and step: "ensureChannelWithSpace env rnd s = (s1, Inr u)"
  obtains p cs where "currentChannel s1 = Some p" and "p < length (mg_store s1)" and "p \<in> set (mg_channelQueue s1)"
    and "channel_run env cfg (chan s1 p) cs" and "manager_ok env cfg s1" and "mg_blocks s1 = mg_blocks s"
    and "kept s block \<longrightarrow> kept s1 block"
proof (cases "case currentChannel s of None \<Rightarrow> False | Some p \<Rightarrow> \<not> BChannel_IsFull (chan s p)")
  case True
  then obtain p where p: "currentChannel s = Some p" by (auto split: option.splits)
  have "s1 = s" using step True by (simp add: ensureChannelWithSpace_def)
  then have "p \<in> set (mg_channelQueue s)" "p < length (mg_store s)" using ok p by (auto simp: manager_ok_def)
  moreover from manager_okD [OF ok this(2)] obtain cs where "channel_run env cfg (chan s p) cs"
    by (auto simp: chan_ok_def)
  ultimately show thesis by (intro that [unfolded \<open>s1 = s\<close>, OF p _ _ _ ok]) simp_all
next
  case False
  let ?n = "length (mg_store s)"
  from step False obtain c where c: "newChannel env rnd cfg = Inr c" "s1 = s\<lparr>mg_store := mg_store s @ [c],
      currentChannel := Some ?n, mg_channelQueue := mg_channelQueue s @ [?n]\<rparr>"
    using ok by (auto simp: ensureChannelWithSpace_def manager_ok_def split: if_splits sum.splits)
  have run: "channel_run env cfg c []" by (rule channel_run.New [OF c(1)])
  have "chan_ok env cfg c" using run new_channel_ok [OF c(1)] by (auto simp: chan_ok_def)
  then have ok1: "manager_ok env cfg s1"
    using ok by (auto simp: manager_ok_def c(2) less_Suc_eq)
  have kept: "kept s block \<longrightarrow> kept s1 block" unfolding c(2) by (blast intro: new_channel_kept)
  show thesis
    by (rule that [of ?n]) (use run ok1 kept in \<open>simp_all add: c(2) chan_def nth_append\<close>)
qed

text \<open>Processing blocks moves a prefix of the queue into the current channel.\<close>

lemma fill_blocks:
  assumes run: "channel_run env cfg (chan s1 p) cs" and p: "currentChannel s1 = Some p" "p < length (mg_store s1)"
    and step: "processBlocks env s1 = (s2, Inr u)" and reg: "registerL1Block l1Head s2 = (s3, Inr v)"
    and out: "outputFrames env s3 = Some (s4, Inr w)"
  obtains n c c' where "channel_run env cfg c cs" and "BChannel_OutputFrames env c = Some (c', None)"
    and "blocks_of c = blocks_of (chan s1 p) @ take n (mg_blocks s1)"
    and "s4 = (set_chan p c' s1)\<lparr>mg_blocks := drop n (mg_blocks s1)\<rparr>"
proof -
  from step p obtain c2 n where c2: "add_blocks env (mg_blocks s1) (chan s1 p) 0 = (c2, n, None)"
    "s2 = (set_chan p c2 s1)\<lparr>mg_blocks := drop n (mg_blocks s1)\<rparr>"
    by (auto simp: processBlocks_def split: option.splits prod.splits)
  note facts = add_blocks_ok [OF c2(1) run]
  let ?c3 = "BChannel_RegisterL1Block (Number l1Head) c2"
  have s3: "s3 = (set_chan p ?c3 s1)\<lparr>mg_blocks := drop n (mg_blocks s1)\<rparr>"
    using reg p by (auto simp: registerL1Block_def c2(2) set_chan_def chan_def)
  from out p s3 obtain c' where c': "BChannel_OutputFrames env ?c3 = Some (c', None)"
    "s4 = (set_chan p c' s1)\<lparr>mg_blocks := drop n (mg_blocks s1)\<rparr>"
    by (auto simp: outputFrames_def set_chan_def chan_def split: option.splits)
  show thesis
  proof (rule that)
    show "channel_run env cfg ?c3 cs" using facts by (blast intro: channel_run.RegisterL1Block)
    show "blocks_of ?c3 = blocks_of (chan s1 p) @ take n (mg_blocks s1)"
      using facts by (simp add: BChannel_RegisterL1Block_def Builder_RegisterL1Block_def updateDurationTimeout_def
          updateTimeout_def checkTimeout_def setFullErr_def Let_def)
  qed (fact c')+
qed

lemma ensure_error: "ensureChannelWithSpace env rnd s = (s', Inl e) \<Longrightarrow> e \<noteq> EOF"
  by (auto simp: ensureChannelWithSpace_def split: if_splits sum.splits option.splits)

lemma add_blocks_error: "add_blocks env bs c n = (c', m, Some e) \<Longrightarrow> e \<noteq> EOF"
  by (induction env bs c n rule: add_blocks.induct) (auto split: prod.splits sum.splits if_splits)

lemma processBlocks_error: "processBlocks env s = (s', Inl e) \<Longrightarrow> e \<noteq> EOF"
  by (auto simp: processBlocks_def dest: add_blocks_error split: option.splits prod.splits)

lemma registerL1Block_error: "registerL1Block l1Head s = (s', Inl e) \<Longrightarrow> e \<noteq> EOF"
  by (auto simp: registerL1Block_def split: option.splits)

lemma outputFrames_error: "outputFrames env s = Some (s', Inl e) \<Longrightarrow> e \<noteq> EOF"
  by (auto simp: outputFrames_def split: option.splits)

lemma fill_channel_cases:
  assumes "fill_channel env l1Head rnd s = Some (s', r)" and "\<And>e. r = Inl e \<Longrightarrow> e = EOF"
  obtains s1 u s2 v s3 w s4 x where "ensureChannelWithSpace env rnd s = (s1, Inr u)"
    and "processBlocks env s1 = (s2, Inr v)" and "registerL1Block l1Head s2 = (s3, Inr w)"
    and "outputFrames env s3 = Some (s4, Inr x)" and "Manager_nextTxData (currentChannel s4) s4 = (s', r)"
proof -
  obtain s1 r1 where e: "ensureChannelWithSpace env rnd s = (s1, r1)" by (metis prod.exhaust)
  obtain s2 r2 where b: "processBlocks env s1 = (s2, r2)" by (metis prod.exhaust)
  obtain s3 r3 where l: "registerL1Block l1Head s2 = (s3, r3)" by (metis prod.exhaust)
  note ends = ensure_error processBlocks_error registerL1Block_error outputFrames_error
  have "\<exists>u v w. r1 = Inr u \<and> r2 = Inr v \<and> r3 = Inr w"
    using assms e b l by (auto simp: fill_channel_def dest: ends split: sum.splits)
  then obtain u v w where r: "r1 = Inr u" "r2 = Inr v" "r3 = Inr w" by blast
  from assms obtain s4 x where "outputFrames env s3 = Some (s4, Inr x)" "Manager_nextTxData (currentChannel s4) s4 = (s', r)"
    by (auto simp: fill_channel_def e b l r dest: ends split: option.splits sum.splits prod.splits)
  then show thesis using e b l r by (blast intro: that)
qed

lemma nextTxData_few:
  assumes "Manager_nextTxData channel s = (s', r)" and "list_all few_frames (mg_store s')" and "p < length (mg_store s)"
  shows "few_frames (chan s p)"
proof -
  have "length (mg_store s') = length (mg_store s) \<and> few_frames (chan s' p) = few_frames (chan s p)"
    using assms(1,3)
    by (cases "channel = Some p") (auto simp: Manager_nextTxData_def NextTxData_def NextFrame_def few_frames_def chan_def
        set_chan_def Let_def nth_list_update split: option.splits if_splits prod.splits sum.splits list.splits)
  then show ?thesis using assms(2,3) by (simp add: list_all_length chan_def)
qed

lemma moved_kept:
  assumes "kept s block" and "p < length (mg_store s)" and "p \<in> set (mg_channelQueue s)"
    and "s' = (set_chan p c s)\<lparr>mg_blocks := bs\<rparr>" and "set (mg_blocks s) \<subseteq> set (blocks_of c) \<union> set bs"
    and "set (blocks_of (chan s p)) \<subseteq> set (blocks_of c)"
  shows "kept s' block"
  using assms unfolding kept_def holds_block_def by (auto split: if_splits)

lemma fill_channel_ok:
  assumes ok: "manager_ok env cfg s" and env: "batcher_ok env cfg"
    and step: "fill_channel env l1Head rnd s = Some (s', r)" and r: "\<And>e. r = Inl e \<Longrightarrow> e = EOF"
    and few: "list_all few_frames (mg_store s')"
  shows "manager_ok env cfg s' \<and> (kept s block \<longrightarrow> kept s' block)"
proof -
  from step r obtain s1 u s2 v s3 w s4 x where ensure: "ensureChannelWithSpace env rnd s = (s1, Inr u)"
    and steps: "processBlocks env s1 = (s2, Inr v)" "registerL1Block l1Head s2 = (s3, Inr w)"
      "outputFrames env s3 = Some (s4, Inr x)"
    and tx: "Manager_nextTxData (currentChannel s4) s4 = (s', r)"
    by (rule fill_channel_cases)
  from ensure_ok [OF ok env ensure, of block] obtain p cs where p: "currentChannel s1 = Some p" "p < length (mg_store s1)"
    "p \<in> set (mg_channelQueue s1)" and run: "channel_run env cfg (chan s1 p) cs"
    and s1: "manager_ok env cfg s1" "mg_blocks s1 = mg_blocks s" "kept s block \<longrightarrow> kept s1 block" by metis
  from fill_blocks [OF run p(1,2) steps] obtain n c c' where c: "channel_run env cfg c cs"
    "BChannel_OutputFrames env c = Some (c', None)" "blocks_of c = blocks_of (chan s1 p) @ take n (mg_blocks s1)"
    and s4: "s4 = (set_chan p c' s1)\<lparr>mg_blocks := drop n (mg_blocks s1)\<rparr>" by metis
  have cur: "currentChannel s4 = Some p" "p < length (mg_store s4)" "chan s4 p = c'" using p s4 by simp_all
  have "few_frames c'" using nextTxData_few [OF tx few cur(2)] cur(3) by simp
  note facts = OutputFrames_ok [OF c(1,2) env this]
  have "manager_ok env cfg (set_chan p c' s1)" using set_chan_ok [OF s1(1) p(2)] facts by blast
  then have ok4: "manager_ok env cfg s4" by (simp add: s4 manager_ok_def)
  have "set (mg_blocks s1) = set (take n (mg_blocks s1)) \<union> set (drop n (mg_blocks s1))"
    by (metis append_take_drop_id set_append)
  then have "kept s1 block \<longrightarrow> kept s4 block"
    using facts c(3) p by (intro impI moved_kept [OF _ p(2,3) s4]) auto
  moreover have "manager_ok env cfg s' \<and> (kept s4 block \<longrightarrow> kept s' block)"
    using cur p(3) s4 by (intro nextTxData_ok [OF ok4 _ tx r]) auto
  ultimately show ?thesis using s1(3) by blast
qed

lemma find_queue: "List.find P xs = Some x \<Longrightarrow> x \<in> set xs"
  by (auto simp: find_Some_iff)

lemma TxData_ok:
  assumes ok: "manager_ok env cfg s" and env: "batcher_ok env cfg"
    and step: "TxData env l1Head rnd s = Some (s', r)" and r: "\<And>e. r = Inl e \<Longrightarrow> e = EOF"
    and few: "list_all few_frames (mg_store s')"
  shows "manager_ok env cfg s' \<and> (kept s block \<longrightarrow> kept s' block)"
proof (cases "fill_channel env l1Head rnd s = Some (s', r)")
  case True
  then show ?thesis using fill_channel_ok [OF ok env _ r few] by blast
next
  case False
  let ?ch = "List.find (\<lambda>p. BChannel_HasFrame (chan s p)) (mg_channelQueue s)"
  from step False consider "Manager_nextTxData ?ch s = (s', r)" | "s' = s"
    by (auto simp: TxData_def Let_def split: if_splits)
  then show ?thesis
  proof cases
    case 1
    show ?thesis by (rule nextTxData_ok [OF ok _ 1 r]) (simp_all add: find_queue)
  next
    case 2
    then show ?thesis using ok by simp
  qed
qed

lemma manager_run_ok:
  assumes "manager_run env cfg s added" and "batcher_ok env cfg"
  shows "manager_ok env cfg s \<and> (\<forall>block\<in>set added. kept s block)"
  using assms(1)
proof induction
  case New
  then show ?case by (simp add: manager_ok_def NewChannelManager_def)
next
  case (Clear s added)
  then show ?case by (auto simp: manager_ok_def Manager_Clear_def)
next
  case (AddL2Block s added block s' u)
  then show ?case
    by (fastforce simp: AddL2Block_def manager_ok_def kept_def holds_block_def chan_def split: if_splits)
next
  case (AddL2Block_reorg s added block s' err)
  then show ?case by (auto simp: AddL2Block_def split: if_splits)
next
  case (TxData s added l1Head rnd s' r)
  then show ?case using TxData_ok [OF _ assms(2) TxData.hyps(2,3,4)] by blast
next
  case (TxFailed s added i s' r)
  then show ?case using Manager_TxFailed_ok [OF _ assms(2) TxFailed.hyps(2)] by blast
next
  case (TxConfirmed s added i b)
  then show ?case using Manager_TxConfirmed_ok by blast
qed

section \<open>Closing\<close>

text \<open>The loop of \<open>Close\<close> removes the first channel, which moves the second one to the place that was visited already.\<close>

definition skipped :: "channel_ptr \<Rightarrow> channel_ptr list \<times> 'z channel_manager \<Rightarrow> bool" where
  "skipped p = (\<lambda>(arr, s). \<exists>q t. arr = p # q @ t \<and> mg_channelQueue s = p # q \<and> p \<notin> set (q @ t))"

lemma close_visit_skipped:
  assumes "skipped p (arr, s)" and "0 < k" and "k < length arr"
  shows "skipped p (close_visit (arr, s) k) \<and> length (fst (close_visit (arr, s) k)) = length arr"
proof (cases "NoneSubmitted (chan s (arr ! k))")
  case False
  then show ?thesis using assms(1) by (simp add: close_visit_def)
next
  case True
  from assms(1) obtain q t where arr: "arr = p # q @ t" "mg_channelQueue s = p # q" "p \<notin> set (q @ t)"
    by (auto simp: skipped_def)
  let ?x = "arr ! k"
  have x: "?x \<in> set (q @ t)" "?x \<noteq> p"
    using assms(2,3) arr(3) nth_mem [of "k - 1" "q @ t"] by (auto simp: arr(1) nth_Cons' simp del: set_append)
  let ?q = "remove1 ?x q"
  have res: "close_visit (arr, s) k = (p # ?q @ drop (length ?q) (q @ t), removePendingChannel ?x s)"
    using True x(2) by (simp add: close_visit_def Let_def arr)
  have "p \<notin> set (?q @ drop (length ?q) (q @ t))"
    using arr(3) by (auto dest: notin_set_remove1 in_set_dropD simp: set_drop_subset)
  moreover have "length ?q \<le> length q" by (simp add: length_remove1)
  ultimately show ?thesis
    unfolding res using x(2) arr by (auto simp: skipped_def intro!: exI [of _ ?q])
qed

lemma close_visits_skipped:
  "skipped p (arr, s) \<Longrightarrow> \<forall>k\<in>set ks. 0 < k \<and> k < length arr \<Longrightarrow> skipped p (foldl close_visit (arr, s) ks)"
proof (induction ks arbitrary: arr s)
  case Nil
  then show ?case by simp
next
  case (Cons k ks)
  obtain arr' s' where v: "close_visit (arr, s) k = (arr', s')" by fastforce
  from close_visit_skipped [OF Cons.prems(1), of k] Cons.prems(2) v
  have "skipped p (arr', s')" "length arr' = length arr" by auto
  then show ?case using Cons.IH [of arr' s'] Cons.prems(2) v by simp
qed

lemma close_range_skips:
  assumes "mg_channelQueue s = a # b # c # rest" and "distinct (mg_channelQueue s)" and "NoneSubmitted (chan s a)"
  shows "b \<in> set (mg_channelQueue (close_range s))"
proof -
  let ?arr = "b # (c # rest) @ [last (c # rest)]"
  have upt: "[0..<length (mg_channelQueue s)] = 0 # [1..<length ?arr]"
    using assms(1) by (simp add: upt_conv_Cons del: upt_Suc)
  have "drop (length rest) (c # rest) = [last (c # rest)]"
    by (induction rest arbitrary: c) (auto simp: drop_Cons')
  then have first: "close_visit (mg_channelQueue s, s) 0 = (?arr, removePendingChannel a s)"
    using assms by (simp add: close_visit_def Let_def)
  have "b \<noteq> last (c # rest)" using assms(1,2) last_in_set [of "c # rest"] by auto
  then have "skipped b (?arr, removePendingChannel a s)"
    using assms(1,2) by (auto simp: skipped_def intro!: exI [of _ "c # rest"])
  then have "skipped b (foldl close_visit (?arr, removePendingChannel a s) [1..<length ?arr])"
    by (rule close_visits_skipped) auto
  then show ?thesis
    unfolding close_range_def upt foldl_Cons first by (auto simp: skipped_def split: prod.splits)
qed

lemma close_range_closed: "mg_closed (close_range s) = mg_closed s"
proof -
  have "mg_closed (snd (foldl close_visit (arr, s) ks)) = mg_closed s" for arr ks
    by (induction ks arbitrary: arr s) (auto simp: close_visit_def Let_def)
  then show ?thesis by (simp add: close_range_def)
qed

lemma close_range_current: "currentChannel s = None \<Longrightarrow> currentChannel (close_range s) = None"
proof -
  have "currentChannel s = None \<Longrightarrow> currentChannel (snd (foldl close_visit (arr, s) ks)) = None" for arr ks
    by (induction ks arbitrary: arr s) (auto simp: close_visit_def Let_def)
  then show "currentChannel s = None \<Longrightarrow> currentChannel (close_range s) = None" by (simp add: close_range_def)
qed

lemma outputFrames_queue:
  "outputFrames env s = Some (s', r) \<Longrightarrow> mg_channelQueue s' = mg_channelQueue s \<and> mg_closed s' = mg_closed s"
  by (cases "currentChannel s") (fastforce simp: outputFrames_def)+

section \<open>Properties\<close>

text \<open>C22: no block is lost. In every state the manager reaches by adding blocks, handing out transactions and hearing of
  their failure or confirmation (until it is closed), with a frame size of at least 24 bytes and at most 65535 frames
  in a channel: each block that was added since the manager was last cleared waits in the queue of blocks, or is in a
  channel of the queue, or is in a channel that is closed and fully submitted, whose transactions the derivation can
  read. No transaction that failed makes the manager panic.\<close>

theorem no_block_lost:
  assumes "manager_run env cfg s added" and "23 < MaxFrameSize cfg" and "MaxFrameSize cfg < 2 ^ 63"
    and "zlib_bounded (be_zlib env)" and "block \<in> set added"
  shows "(block \<in> set (mg_blocks s) \<or>
      (\<exists>p<length (mg_store s). block \<in> set (bd_blocks (bc_builder (chan s p))) \<and>
         (p \<in> set (mg_channelQueue s) \<or>
          isFullySubmitted (chan s p) \<and> co_closed (bd_co (bc_builder (chan s p))) \<and>
          (\<exists>cs. channel_run env cfg (chan s p) cs)))) \<and>
     snd (Manager_TxFailed i s) = Inr ()"
proof -
  have env: "batcher_ok env cfg" using assms by (simp add: batcher_ok_def)
  have ok: "manager_ok env cfg s" "kept s block" using manager_run_ok [OF assms(1) env] assms(5) by auto
  have "\<exists>cs. channel_run env cfg (chan s p) cs" if "p < length (mg_store s)" for p
    using manager_okD [OF ok(1) that] by (simp add: chan_ok_def)
  moreover have "snd (Manager_TxFailed i s) = Inr ()"
    using Manager_TxFailed_ok [OF ok(1) env, of i] by (metis prod.collapse)
  ultimately show ?thesis using ok(2) unfolding kept_def holds_block_def submitted_def by blast
qed

definition ex_manager :: "unit channel_manager" where
  "ex_manager = fst (AddL2Block ex_l2_block (NewChannelManager (ex_channel_config 1000)))"

lemma ex_manager_run: "manager_run ex_codec_env (ex_channel_config 1000) ex_manager [ex_l2_block]"
proof -
  have "AddL2Block ex_l2_block (NewChannelManager (ex_channel_config 1000)) = (ex_manager, Inr ())"
    by (simp add: ex_manager_def AddL2Block_def NewChannelManager_def)
  from manager_run.AddL2Block [OF manager_run.New this] show ?thesis by simp
qed

theorem no_block_lost_witness:
  "ex_l2_block \<in> set (mg_blocks ex_manager) \<and>
   snd (Manager_TxFailed \<lparr>chID = [], frameNumber = 0\<rparr> ex_manager) = Inr ()"
proof -
  have "mg_store ex_manager = []" by (simp add: ex_manager_def AddL2Block_def NewChannelManager_def)
  moreover have "23 < MaxFrameSize (ex_channel_config 1000)" "MaxFrameSize (ex_channel_config 1000) < 2 ^ 63"
    "zlib_bounded (be_zlib ex_codec_env)"
    by (simp_all add: ex_channel_config_def ex_codec_env_def ex_batcher_env_def ex_zlib_bounded)
  ultimately show ?thesis
    using no_block_lost [OF ex_manager_run, of ex_l2_block "\<lparr>chID = [], frameNumber = 0\<rparr>"] by simp
qed

text \<open>closing skips a channel. When three or more channels wait and the first one has no submitted transaction,
  \<open>Close\<close> removes it while it iterates over the queue. This moves the second channel to the place that was already
  visited, so that the second channel stays in the queue, although it has no submitted transaction either.\<close>

theorem Close_skips_channel:
  assumes "\<not> mg_closed s" and "mg_channelQueue s = a # b # c # rest" and "distinct (mg_channelQueue s)"
    and "NoneSubmitted (chan s a)" and "NoneSubmitted (chan s b)" and "Manager_Close env s = Some (s', r)"
  shows "mg_closed s' \<and> b \<in> set (mg_channelQueue s')"
proof -
  let ?s = "s\<lparr>mg_closed := True\<rparr>"
  have "NoneSubmitted (chan ?s a)" using assms(4) by (simp add: chan_def)
  then have "b \<in> set (mg_channelQueue (close_range ?s))" using assms(2,3) by (intro close_range_skips) simp_all
  moreover have "mg_closed (close_range ?s)" by (simp add: close_range_closed)
  moreover have "mg_channelQueue s' = mg_channelQueue (close_range ?s) \<and> mg_closed s' = mg_closed (close_range ?s)"
    using assms(1,6) outputFrames_queue by (fastforce simp: Manager_Close_def Let_def split: option.splits)
  ultimately show ?thesis by simp
qed

text \<open>Three new channels, none of them current.\<close>

definition ex_queue :: "unit channel_manager" where
  "ex_queue = (NewChannelManager (ex_channel_config 1000))\<lparr>
     mg_store := replicate 3 (projr (newChannel ex_codec_env (Inr (replicate 16 7)) (ex_channel_config 1000))),
     mg_channelQueue := [0, 1, 2]\<rparr>"

theorem Close_skips_channel_witness:
  "NoneSubmitted (chan ex_queue 1) \<and> (\<exists>s' r. Manager_Close ex_codec_env ex_queue = Some (s', r) \<and>
     mg_closed s' \<and> 1 \<in> set (mg_channelQueue s'))"
proof -
  have q: "mg_channelQueue ex_queue = [0, 1, 2]" "\<not> mg_closed ex_queue" by (simp_all add: ex_queue_def NewChannelManager_def)
  have n: "NoneSubmitted (chan ex_queue p)" if "p < 3" for p
    using that by (simp add: ex_queue_def chan_def nth_Cons' numeral_3_eq_3 NoneSubmitted_def newChannel_def newChannelBuilder_def
        NewCompressor_def Kinds_def NewShadowCompressor_def NewChannelOut_def ex_codec_env_def ex_batcher_env_def ex_zlib_def
        RatioKind_def ShadowKind_def ex_channel_config_def)
  have "currentChannel (close_range (ex_queue\<lparr>mg_closed := True\<rparr>)) = None" by (rule close_range_current) (simp add: ex_queue_def NewChannelManager_def)
  then obtain s' r where "Manager_Close ex_codec_env ex_queue = Some (s', r)"
    using q(2) by (simp add: Manager_Close_def Let_def)
  moreover from Close_skips_channel [OF q(2,1) _ n n this] q have "mg_closed s' \<and> 1 \<in> set (mg_channelQueue s')" by simp
  ultimately show ?thesis using n [of 1] by auto
qed

end
