(* ===== verification/Cannon_Page.thy ===== *)
theory Cannon_Page
  imports Prelude
begin

text \<open>
  Pages of the memory of the fault proof machine, \<open>cannon/mipsevm/page.go\<close>: 4 KiB of data with a cache of the inner
  nodes of its Merkle tree. The tree of a page has 128 leaves of 32 bytes; its nodes are numbered by generalized
  indices, 1 for the root and \<open>2 * g\<close> and \<open>2 * g + 1\<close> for the children of \<open>g\<close>. Keccak is code of another module: the
  argument \<open>keccak\<close>. The theory shows that the cache, filled by \<open>MerkleRoot\<close> and cleared by \<open>Invalidate\<close>, always
  agrees with the hashes of the data.
\<close>

section \<open>The model\<close>

definition PageAddrSize :: nat where "PageAddrSize = 12"
definition PageSize :: nat where "PageSize = 2 ^ PageAddrSize"

definition HashPair :: "(bytes \<Rightarrow> hash) \<Rightarrow> hash \<Rightarrow> hash \<Rightarrow> hash" where
  "HashPair keccak left right = keccak (left @ right)"

record cached_page =
  pg_Data :: bytes
  pg_Cache :: "hash list"
  pg_Ok :: "bool list"

text \<open>\<open>&CachedPage{Data: new(Page)}\<close>.\<close>

definition zero_page :: cached_page where
  "zero_page = \<lparr>pg_Data = replicate PageSize 0, pg_Cache = replicate (PageSize div 32) (replicate 32 0),
     pg_Ok = replicate (PageSize div 32) False\<rparr>"

text \<open>The loop \<open>for k > 0 { p.Ok[k] = false; k >>= 1 }\<close>.\<close>

fun clear_path :: "nat \<Rightarrow> bool list \<Rightarrow> bool list" where
  "clear_path k oks = (if k = 0 then oks else clear_path (k div 2) (oks[k := False]))"

declare clear_path.simps [simp del]

definition Page_Invalidate :: "u32 \<Rightarrow> cached_page \<Rightarrow> cached_page result" where
  "Page_Invalidate pageAddr p =
     (if unat pageAddr \<ge> PageSize then Inl (Panic ''invalid page addr'')
      else Inr (p\<lparr>pg_Ok := clear_path ((PageSize + unat pageAddr) div 2 ^ (5 + 1)) (pg_Ok p)\<rparr>))"

definition InvalidateFull :: "cached_page \<Rightarrow> cached_page" where
  "InvalidateFull p = p\<lparr>pg_Ok := replicate (PageSize div 32) False\<rparr>"

definition byte_range :: "nat \<Rightarrow> nat \<Rightarrow> 'a list \<Rightarrow> 'a list" where
  "byte_range i n xs = take n (drop i xs)"

text \<open>The two loops of \<open>MerkleRoot\<close>: the bottom layer, then the other layers upwards.\<close>

definition hash_bottom :: "(bytes \<Rightarrow> hash) \<Rightarrow> nat \<Rightarrow> cached_page \<Rightarrow> cached_page" where
  "hash_bottom keccak i p =
     (let j = PageSize div 32 div 2 + i div 64
      in if pg_Ok p ! j then p
         else p\<lparr>pg_Cache := (pg_Cache p)[j := keccak (byte_range i 64 (pg_Data p))], pg_Ok := (pg_Ok p)[j := True]\<rparr>)"

definition hash_layer :: "(bytes \<Rightarrow> hash) \<Rightarrow> nat \<Rightarrow> cached_page \<Rightarrow> cached_page" where
  "hash_layer keccak i p =
     (let j = i div 2
      in if pg_Ok p ! j then p
         else p\<lparr>pg_Cache := (pg_Cache p)[j := HashPair keccak (pg_Cache p ! i) (pg_Cache p ! (i + 1))],
                pg_Ok := (pg_Ok p)[j := True]\<rparr>)"

definition Page_MerkleRoot :: "(bytes \<Rightarrow> hash) \<Rightarrow> cached_page \<Rightarrow> cached_page \<times> hash" where
  "Page_MerkleRoot keccak p =
     (let p1 = fold (hash_bottom keccak) (map (\<lambda>k. 64 * k) [0..<PageSize div 64]) p;
          p2 = fold (hash_layer keccak) (map (\<lambda>k. 2 * k) (rev [1..<PageSize div 64])) p1
      in (p2, pg_Cache p2 ! 1))"

definition Page_MerkleizeSubtree :: "(bytes \<Rightarrow> hash) \<Rightarrow> nat \<Rightarrow> cached_page \<Rightarrow> cached_page \<times> hash result" where
  "Page_MerkleizeSubtree keccak gindex p =
     (let p' = fst (Page_MerkleRoot keccak p)
      in if gindex \<ge> PageSize div 32
         then if gindex \<ge> PageSize div 32 * 2 then (p', Inl (Panic ''gindex too deep''))
              else (p', Inr (byte_range (gindex mod (PageSize div 32) * 32) 32 (pg_Data p')))
         else (p', Inr (pg_Cache p' ! gindex)))"

section \<open>Merkle trees, by recursion\<close>

text \<open>The root of the tree with \<open>2 ^ n\<close> leaves from number \<open>i * 2 ^ n\<close> on.\<close>

fun merkle :: "(bytes \<Rightarrow> hash) \<Rightarrow> (nat \<Rightarrow> hash) \<Rightarrow> nat \<Rightarrow> nat \<Rightarrow> hash" where
  "merkle keccak leaf 0 i = leaf i"
| "merkle keccak leaf (Suc n) i = HashPair keccak (merkle keccak leaf n (2 * i)) (merkle keccak leaf n (2 * i + 1))"

lemma merkle_cong:
  "(\<And>j. j div 2 ^ n = i \<Longrightarrow> leaf j = leaf' j) \<Longrightarrow> merkle keccak leaf n i = merkle keccak leaf' n i"
proof (induction n arbitrary: i)
  case 0
  then show ?case by simp
next
  case (Suc n)
  have "leaf j = leaf' j" if "j div 2 ^ n = 2 * i \<or> j div 2 ^ n = 2 * i + 1" for j
    using Suc.prems [of j] that by (auto simp: div_mult2_eq power_Suc2 simp del: power_Suc)
  then show ?case using Suc.IH [of "2 * i"] Suc.IH [of "2 * i + 1"] by simp
qed

text \<open>A subtree as leaf: trees can be cut at any level.\<close>

lemma merkle_split: "merkle keccak leaf (m + n) i = merkle keccak (merkle keccak leaf n) m i"
  by (induction m arbitrary: i) simp_all

section \<open>Generalized indices\<close>

text \<open>Node \<open>i\<close> at depth \<open>d\<close> has the index \<open>2 ^ d + i\<close>. Its ancestors are the indices that \<open>k >>= 1\<close> visits.\<close>

lemma gindex_div: "i < 2 ^ d \<Longrightarrow> j \<le> d \<Longrightarrow> (2 ^ d + i) div 2 ^ j = 2 ^ (d - j) + i div 2 ^ j" for i :: nat
  by (metis add.commute div_mult_self2 le_add_diff_inverse power_add power_not_zero zero_neq_numeral)

lemma gindex_unique:
  assumes "i < 2 ^ d" and "i' < 2 ^ d'" and "2 ^ d + i = 2 ^ d' + (i' :: nat)"
  shows "d = d' \<and> i = i'"
proof -
  have "\<not> d < d'"
  proof
    assume "d < d'"
    then have "(2 :: nat) ^ Suc d \<le> 2 ^ d'" by (intro power_increasing) auto
    then show False using assms by simp
  qed
  moreover have "\<not> d' < d"
  proof
    assume "d' < d"
    then have "(2 :: nat) ^ Suc d' \<le> 2 ^ d" by (intro power_increasing) auto
    then show False using assms by simp
  qed
  ultimately show ?thesis using assms(3) by simp
qed

lemma gindex_cases:
  assumes "0 < (g :: nat)"
  obtains d i where "g = 2 ^ d + i" and "i < 2 ^ d"
proof -
  have "\<exists>d i. g = 2 ^ d + i \<and> i < 2 ^ d" using assms
  proof (induction g rule: less_induct)
    case (less g)
    show ?case
    proof (cases "g = 1")
      case True
      then show ?thesis by (intro exI [of _ 0]) simp
    next
      case False
      then obtain d i where "g div 2 = 2 ^ d + i" "i < 2 ^ d" using less.IH [of "g div 2"] less.prems by auto
      then have "g = 2 ^ Suc d + (2 * i + g mod 2) \<and> 2 * i + g mod 2 < 2 ^ Suc d"
        using mult_div_mod_eq [of 2 g] mod_less_divisor [of 2 g] by simp
      then show ?thesis by blast
    qed
  qed
  then show thesis using that by blast
qed

text \<open>\<open>ancestor g k\<close>: \<open>g\<close> is \<open>k\<close> or above it.\<close>

definition ancestor :: "nat \<Rightarrow> nat \<Rightarrow> bool" where
  "ancestor g k \<longleftrightarrow> 0 < g \<and> (\<exists>j. g = k div 2 ^ j)"

lemma ancestor_step: "ancestor g k \<longleftrightarrow> 0 < g \<and> (g = k \<or> ancestor g (k div 2))"
proof -
  have "(\<exists>j. g = k div 2 ^ j) \<longleftrightarrow> g = k \<or> (\<exists>j. g = k div 2 div 2 ^ j)"
    by (metis div_by_1 div_mult2_eq power.simps(1) power_Suc not0_implies_Suc)
  then show ?thesis by (auto simp: ancestor_def)
qed

lemma ancestor_0 [simp]: "\<not> ancestor g 0"
  by (auto simp: ancestor_def)

lemma ancestor_gindex:
  assumes "i < 2 ^ d" and "j < 2 ^ e" and "d \<le> e"
  shows "ancestor (2 ^ d + i) (2 ^ e + j) \<longleftrightarrow> j div 2 ^ (e - d) = i"
proof
  assume "j div 2 ^ (e - d) = i"
  then have "2 ^ d + i = (2 ^ e + j) div 2 ^ (e - d)" using gindex_div [OF assms(2), of "e - d"] assms(3) by simp
  then show "ancestor (2 ^ d + i) (2 ^ e + j)" unfolding ancestor_def by (metis add_gr_0 zero_less_numeral zero_less_power)
next
  assume "ancestor (2 ^ d + i) (2 ^ e + j)"
  then obtain n where n: "2 ^ d + i = (2 ^ e + j) div 2 ^ n" by (auto simp: ancestor_def)
  have "n \<le> e"
  proof (rule ccontr)
    assume "\<not> n \<le> e"
    then have "(2 :: nat) ^ Suc e \<le> 2 ^ n" by (intro power_increasing) auto
    then have "(2 ^ e + j) div 2 ^ n = 0" using assms(2) by simp
    with n show False by simp
  qed
  then have eq: "2 ^ d + i = 2 ^ (e - n) + j div 2 ^ n" using n gindex_div [OF assms(2)] by simp
  have "j div 2 ^ n < 2 ^ (e - n)"
    using assms(2) \<open>n \<le> e\<close> by (simp add: div_less_iff_less_mult flip: power_add)
  from gindex_unique [OF assms(1) this eq] have "d = e - n" "i = j div 2 ^ n" by auto
  with \<open>n \<le> e\<close> show "j div 2 ^ (e - d) = i" by simp
qed

section \<open>The cache agrees with the data\<close>

definition page_leaf :: "bytes \<Rightarrow> nat \<Rightarrow> hash" where
  "page_leaf dat i = byte_range (32 * i) 32 dat"

definition page_ok :: "(bytes \<Rightarrow> hash) \<Rightarrow> cached_page \<Rightarrow> bool" where
  "page_ok keccak p \<longleftrightarrow>
     length (pg_Data p) = 4096 \<and> length (pg_Cache p) = 128 \<and> length (pg_Ok p) = 128 \<and>
     (\<forall>d i. d < 7 \<and> i < 2 ^ d \<and> pg_Ok p ! (2 ^ d + i) \<longrightarrow>
        pg_Cache p ! (2 ^ d + i) = merkle keccak (page_leaf (pg_Data p)) (7 - d) i)"

lemma page_okD:
  "page_ok keccak p \<Longrightarrow> d < 7 \<Longrightarrow> i < 2 ^ d \<Longrightarrow> pg_Ok p ! (2 ^ d + i) \<Longrightarrow>
   pg_Cache p ! (2 ^ d + i) = merkle keccak (page_leaf (pg_Data p)) (7 - d) i"
  by (simp add: page_ok_def)

lemma update_True [simp]: "xs ! i \<Longrightarrow> xs[i := True] = xs"
  by (metis (full_types) list_update_id)

lemma page_sizes [simp]: "PageSize = 4096" "PageAddrSize = 12"
  by (simp_all add: PageSize_def PageAddrSize_def)

lemma gindex_bound: "i < 2 ^ d \<Longrightarrow> d < e \<Longrightarrow> 2 ^ d + i < (2 :: nat) ^ e"
  using power_increasing [of "Suc d" e "2 :: nat"] by simp

lemma zero_page_ok [simp]: "page_ok keccak zero_page"
  using gindex_bound [of _ _ 7] by (auto simp: page_ok_def zero_page_def)

lemma InvalidateFull_ok:
  assumes "page_ok keccak p" and "length dat = 4096"
  shows "page_ok keccak ((InvalidateFull p)\<lparr>pg_Data := dat\<rparr>)"
  using assms gindex_bound [of _ _ 7] by (auto simp: page_ok_def InvalidateFull_def)

lemma length_clear_path [simp]: "length (clear_path k oks) = length oks"
  by (induction k oks rule: clear_path.induct) (subst clear_path.simps, simp)

lemma nth_clear_path:
  "g < length oks \<Longrightarrow> 0 < g \<Longrightarrow> clear_path k oks ! g \<longleftrightarrow> oks ! g \<and> \<not> ancestor g k"
proof (induction k oks rule: clear_path.induct)
  case (1 k oks)
  then show ?case
    using clear_path.simps [of k oks] ancestor_step [of g k] by (cases "k = 0"; cases "g = k") simp_all
qed

text \<open>A write to the leaf that holds the address leaves every node valid whose flag is still set.\<close>

lemma Page_Invalidate_ok:
  assumes p: "page_ok keccak p" and a: "unat a < 4096" and dat: "length dat = 4096"
    and same: "\<And>i. i \<noteq> unat a div 32 \<Longrightarrow> page_leaf dat i = page_leaf (pg_Data p) i"
  obtains p' where "Page_Invalidate a p = Inr p'" and "page_ok keccak (p'\<lparr>pg_Data := dat\<rparr>)" and "\<not> pg_Ok p' ! 1"
    and "pg_Data p' = pg_Data p"
proof -
  let ?k = "(4096 + unat a) div 64"
  have k: "?k = 2 ^ 6 + unat a div 64" "unat a div 64 < 2 ^ 6" using a by auto
  let ?p = "p\<lparr>pg_Ok := clear_path ?k (pg_Ok p)\<rparr>"
  have "merkle keccak (page_leaf dat) (7 - d) i = pg_Cache p ! (2 ^ d + i)"
    if d: "d < 7" "i < 2 ^ d" "clear_path ?k (pg_Ok p) ! (2 ^ d + i)" for d i
  proof -
    have valid: "pg_Ok p ! (2 ^ d + i)" and "\<not> ancestor (2 ^ d + i) ?k"
      using d p gindex_bound [OF d(2,1)] by (auto simp: nth_clear_path page_ok_def)
    then have "unat a div 64 div 2 ^ (6 - d) \<noteq> i"
      unfolding k(1) using ancestor_gindex [OF d(2) k(2)] d(1) by simp
    then have "unat a div 32 div 2 ^ (7 - d) \<noteq> i"
    proof -
      have "7 - d = Suc (6 - d)" using d(1) by simp
      then show ?thesis using \<open>unat a div 64 div 2 ^ (6 - d) \<noteq> i\<close> by (simp add: mult.assoc flip: div_mult2_eq)
    qed
    then have "merkle keccak (page_leaf dat) (7 - d) i = merkle keccak (page_leaf (pg_Data p)) (7 - d) i"
      by (intro merkle_cong same) auto
    then show ?thesis using valid d(1,2) p by (simp add: page_ok_def)
  qed
  then have "page_ok keccak (?p\<lparr>pg_Data := dat\<rparr>)" using p dat by (simp add: page_ok_def)
  moreover have "\<not> pg_Ok ?p ! 1"
    using p ancestor_gindex [of 0 0 "unat a div 64" 6] k a by (simp add: nth_clear_path page_ok_def)
  ultimately show thesis using a by (intro that [of ?p]) (simp_all add: Page_Invalidate_def)
qed

text \<open>Filling the cache.\<close>

lemma byte_range_append: "byte_range i (m + n) xs = byte_range i m xs @ byte_range (i + m) n xs"
  by (simp add: byte_range_def take_add add.commute)

definition filled :: "nat \<Rightarrow> cached_page \<Rightarrow> bool" where
  "filled n p \<longleftrightarrow> (\<forall>g. n \<le> g \<and> g < 128 \<longrightarrow> pg_Ok p ! g)"

lemma set_node_ok:
  assumes "page_ok keccak p" and "d < 7" and "i < 2 ^ d"
    and "h = merkle keccak (page_leaf (pg_Data p)) (7 - d) i"
  shows "page_ok keccak (p\<lparr>pg_Cache := (pg_Cache p)[2 ^ d + i := h], pg_Ok := (pg_Ok p)[2 ^ d + i := True]\<rparr>)"
  using assms gindex_bound [OF assms(3,2)] gindex_unique [OF assms(3)]
  by (auto simp: page_ok_def nth_list_update split: if_splits)

lemma hash_bottom_ok:
  assumes "page_ok keccak p" and "k < 64"
  shows "page_ok keccak (hash_bottom keccak (64 * k) p) \<and> pg_Data (hash_bottom keccak (64 * k) p) = pg_Data p \<and>
     pg_Ok (hash_bottom keccak (64 * k) p) = (pg_Ok p)[64 + k := True]"
proof -
  have "keccak (byte_range (64 * k) 64 (pg_Data p)) = merkle keccak (page_leaf (pg_Data p)) (7 - 6) k"
    using byte_range_append [of "64 * k" 32 32 "pg_Data p"] by (simp add: HashPair_def page_leaf_def algebra_simps)
  from set_node_ok [OF assms(1) _ _ this] assms show ?thesis
    by (auto simp: hash_bottom_def Let_def page_ok_def)
qed

lemma fold_bottom:
  "page_ok keccak p \<Longrightarrow> n \<le> 64 \<Longrightarrow>
   let p' = fold (hash_bottom keccak) (map (\<lambda>k. 64 * k) [0..<n]) p
   in page_ok keccak p' \<and> pg_Data p' = pg_Data p \<and> (\<forall>k<n. pg_Ok p' ! (64 + k))"
proof (induction n)
  case 0
  then show ?case by simp
next
  case (Suc n)
  let ?p = "fold (hash_bottom keccak) (map (\<lambda>k. 64 * k) [0..<n]) p"
  have "page_ok keccak ?p" "pg_Data ?p = pg_Data p" "\<forall>k<n. pg_Ok ?p ! (64 + k)" using Suc by (simp_all add: Let_def)
  moreover note hash_bottom_ok [OF this(1), of n] Suc.prems(2)
  moreover have "length (pg_Ok ?p) = 128" using \<open>page_ok keccak ?p\<close> by (simp add: page_ok_def)
  ultimately show ?case by (auto simp: Let_def less_Suc_eq nth_list_update)
qed

lemma hash_layer_ok:
  assumes p: "page_ok keccak p" and k: "0 < k" "k < 64" and ok: "pg_Ok p ! (2 * k)" "pg_Ok p ! (2 * k + 1)"
  shows "page_ok keccak (hash_layer keccak (2 * k) p) \<and> pg_Data (hash_layer keccak (2 * k) p) = pg_Data p \<and>
     pg_Ok (hash_layer keccak (2 * k) p) = (pg_Ok p)[k := True]"
proof -
  obtain d i where g: "k = 2 ^ d + i" "i < 2 ^ d" using gindex_cases [OF k(1)] by blast
  have d: "d < 6"
  proof (rule ccontr)
    assume "\<not> d < 6"
    then have "(2 :: nat) ^ 6 \<le> 2 ^ d" by (intro power_increasing) auto
    then show False using g k(2) by simp
  qed
  have children: "2 * k = 2 ^ Suc d + 2 * i" "2 * k + 1 = 2 ^ Suc d + (2 * i + 1)" by (simp_all add: g(1))
  have lt: "2 * i < 2 ^ Suc d" "2 * i + 1 < 2 ^ Suc d" using g(2) by simp_all
  have "pg_Cache p ! (2 * k) = merkle keccak (page_leaf (pg_Data p)) (7 - Suc d) (2 * i)"
    using page_okD [OF p _ lt(1)] ok(1) d unfolding children by simp
  moreover have "pg_Cache p ! (2 * k + 1) = merkle keccak (page_leaf (pg_Data p)) (7 - Suc d) (2 * i + 1)"
    using page_okD [OF p _ lt(2)] ok(2) d unfolding children by simp
  moreover have "7 - d = Suc (7 - Suc d)" using d by simp
  ultimately have "HashPair keccak (pg_Cache p ! (2 * k)) (pg_Cache p ! (2 * k + 1)) =
      merkle keccak (page_leaf (pg_Data p)) (7 - d) i"
    by simp
  from set_node_ok [OF p _ g(2) this] d p k(2) show ?thesis
    by (auto simp: hash_layer_def Let_def page_ok_def simp flip: g(1))
qed

lemma fold_layers:
  "page_ok keccak p \<Longrightarrow> n \<le> 64 \<Longrightarrow> 0 < n \<Longrightarrow> filled n p \<Longrightarrow>
   let p' = fold (hash_layer keccak) (map (\<lambda>k. 2 * k) (rev [1..<n])) p
   in page_ok keccak p' \<and> pg_Data p' = pg_Data p \<and> filled 1 p'"
proof (induction n arbitrary: p)
  case 0
  then show ?case by simp
next
  case (Suc n)
  show ?case
  proof (cases "n = 0")
    case True
    then show ?thesis using Suc.prems by (simp add: Let_def)
  next
    case False
    let ?p = "hash_layer keccak (2 * n) p"
    have layer: "page_ok keccak ?p" "pg_Data ?p = pg_Data p" "pg_Ok ?p = (pg_Ok p)[n := True]"
      using hash_layer_ok [OF Suc.prems(1), of n] Suc.prems False by (simp_all add: filled_def)
    moreover have "filled n ?p"
      using Suc.prems layer(3) by (auto simp: filled_def page_ok_def nth_list_update)
    moreover have "rev [1..<Suc n] = n # rev [1..<n]" using False by simp
    ultimately show ?thesis using Suc.IH [of ?p] Suc.prems False by simp
  qed
qed

lemma Page_MerkleRoot_ok:
  assumes "page_ok keccak p"
  shows "page_ok keccak (fst (Page_MerkleRoot keccak p)) \<and> pg_Data (fst (Page_MerkleRoot keccak p)) = pg_Data p \<and>
     filled 1 (fst (Page_MerkleRoot keccak p))"
proof -
  let ?p1 = "fold (hash_bottom keccak) (map (\<lambda>k. 64 * k) [0..<64]) p"
  have p1: "page_ok keccak ?p1" "pg_Data ?p1 = pg_Data p" and ok: "\<And>k. k < 64 \<Longrightarrow> pg_Ok ?p1 ! (64 + k)"
    using fold_bottom [OF assms, of 64] by (auto simp: Let_def)
  have "filled 64 ?p1" unfolding filled_def using ok by (metis le_add_diff_inverse less_diff_conv2 numeral_Bit0)
  then show ?thesis using fold_layers [OF p1(1), of 64] p1(2) by (simp add: Page_MerkleRoot_def Let_def)
qed

text \<open>\<open>MerkleizeSubtree\<close> is the recursive hash of the data below the node.\<close>

lemma Page_MerkleizeSubtree_ok:
  assumes p: "page_ok keccak p" and i: "i < 2 ^ d" and d: "d \<le> 7"
  obtains p' where "Page_MerkleizeSubtree keccak (2 ^ d + i) p = (p', Inr (merkle keccak (page_leaf (pg_Data p)) (7 - d) i))"
    and "page_ok keccak p'" and "pg_Data p' = pg_Data p" and "pg_Ok p' ! 1"
proof -
  let ?p = "fst (Page_MerkleRoot keccak p)"
  note facts = Page_MerkleRoot_ok [OF p]
  have "Page_MerkleizeSubtree keccak (2 ^ d + i) p = (?p, Inr (merkle keccak (page_leaf (pg_Data p)) (7 - d) i))"
  proof (cases "d = 7")
    case True
    then show ?thesis
      using i facts by (simp add: Page_MerkleizeSubtree_def Let_def page_leaf_def mult.commute)
  next
    case False
    then have "d < 7" using d by simp
    then show ?thesis
      using facts gindex_bound [OF i, of 7] i by (simp add: Page_MerkleizeSubtree_def Let_def page_ok_def filled_def)
  qed
  then show thesis using facts by (intro that [of ?p]) (simp_all add: filled_def)
qed

end
