(* ===== verification/Cannon_Memory.thy ===== *)
theory Cannon_Memory
  imports Cannon_Page
begin

text \<open>
  The memory of the fault proof machine, \<open>cannon/mipsevm/memory.go\<close>: 4 GiB of words in pages that are allocated when
  they are first written, with a Merkle root over the whole address space. Pages are shared by pointers (the map of
  the pages and a cache of the last two pages), so they live in a store and a pointer is an index into it. The
  hashes of the inner nodes above the pages are kept in the map \<open>nodes\<close>: a node that is missing is the root of
  zeroes, a node that is nil has to be hashed again. Generalized indices are natural numbers: the code only ever
  shifts them to the left when they have at most 20 bits. The theory shows that the caches never lie: the root is
  the one that a plain recursion over the content computes, and Merkle proofs lead from the word to the root.
\<close>

unbundle bit_operations_syntax

section \<open>The model\<close>

definition PageKeySize :: nat where "PageKeySize = 32 - PageAddrSize"

definition PageAddrMask :: u32 where "PageAddrMask = 0xFFF"

fun zeroHashes :: "(bytes \<Rightarrow> hash) \<Rightarrow> nat \<Rightarrow> hash" where
  "zeroHashes keccak 0 = replicate 32 0"
| "zeroHashes keccak (Suc n) = HashPair keccak (zeroHashes keccak n) (zeroHashes keccak n)"

type_synonym page_ptr = nat

record memory =
  mm_nodes :: "nat \<rightharpoonup> hash option"
  mm_pages :: "(u32 \<times> page_ptr) list"
  lastPageKeys :: "u32 \<times> u32"
  lastPage :: "page_ptr option \<times> page_ptr option"
  mm_store :: "cached_page list"

definition NewMemory :: memory where
  "NewMemory = \<lparr>mm_nodes = Map.empty, mm_pages = [], lastPageKeys = (NOT 0, NOT 0), lastPage = (None, None), mm_store = []\<rparr>"

definition PageCount :: "memory \<Rightarrow> nat" where
  "PageCount m = length (mm_pages m)"

definition set_page :: "page_ptr \<Rightarrow> cached_page \<Rightarrow> memory \<Rightarrow> memory" where
  "set_page p pg m = m\<lparr>mm_store := (mm_store m)[p := pg]\<rparr>"

text \<open>The page that has the key, and whether there is one.\<close>

definition pageLookup :: "u32 \<Rightarrow> memory \<Rightarrow> memory \<times> page_ptr option \<times> bool" where
  "pageLookup pageIndex m =
     (if pageIndex = fst (lastPageKeys m) then (m, fst (lastPage m), True)
      else if pageIndex = snd (lastPageKeys m) then (m, snd (lastPage m), True)
      else case map_of (mm_pages m) pageIndex of
             None \<Rightarrow> (m, None, False)
           | Some p \<Rightarrow> (m\<lparr>lastPageKeys := (pageIndex, fst (lastPageKeys m)), lastPage := (Some p, fst (lastPage m))\<rparr>, Some p, True))"

text \<open>The loops \<open>for k > 0 { m.nodes[k] = nil; k >>= 1 }\<close>.\<close>

fun clear_nodes :: "nat \<Rightarrow> (nat \<rightharpoonup> hash option) \<Rightarrow> (nat \<rightharpoonup> hash option)" where
  "clear_nodes k nodes = (if k = 0 then nodes else clear_nodes (k div 2) (nodes(k \<mapsto> None)))"

declare clear_nodes.simps [simp del]

definition nil_panic :: error where "nil_panic = Panic ''nil pointer dereference''"
definition unaligned :: error where "unaligned = Panic ''unaligned memory access''"

definition Memory_Invalidate :: "u32 \<Rightarrow> memory \<Rightarrow> memory \<times> unit result" where
  "Memory_Invalidate addr m =
     (if addr AND 3 \<noteq> 0 then (m, Inl unaligned)
      else case pageLookup (drop_bit PageAddrSize addr) m of
             (m1, _, False) \<Rightarrow> (m1, Inr ())
           | (m1, None, True) \<Rightarrow> (m1, Inl nil_panic)
           | (m1, Some p, True) \<Rightarrow>
               let prevValid = pg_Ok (mm_store m1 ! p) ! 1
               in case Page_Invalidate (addr AND PageAddrMask) (mm_store m1 ! p) of
                    Inl e \<Rightarrow> (m1, Inl e)
                  | Inr pg \<Rightarrow>
                      let m2 = set_page p pg m1
                      in if \<not> prevValid then (m2, Inr ())
                         else (m2\<lparr>mm_nodes := clear_nodes (drop_bit PageAddrSize (2 ^ 32 OR unat addr)) (mm_nodes m2)\<rparr>,
                               Inr ()))"

fun bits_Len64 :: "nat \<Rightarrow> nat" where
  "bits_Len64 x = (if x = 0 then 0 else Suc (bits_Len64 (x div 2)))"

declare bits_Len64.simps [simp del]

text \<open>A node in a page. The second check of the code, \<open>l > PageKeySize+1\<close>, can not be true after it.\<close>

definition page_subtree :: "(bytes \<Rightarrow> hash) \<Rightarrow> nat \<Rightarrow> memory \<Rightarrow> memory \<times> hash result" where
  "page_subtree keccak gindex m =
     (let l = bits_Len64 gindex;
          depthIntoPage = l - 1 - PageKeySize;
          pageIndex = (gindex div 2 ^ depthIntoPage) mod 2 ^ PageKeySize
      in case map_of (mm_pages m) (of_nat pageIndex) of
           None \<Rightarrow> (m, Inr (zeroHashes keccak (28 - l)))
         | Some p \<Rightarrow>
             (case Page_MerkleizeSubtree keccak (2 ^ depthIntoPage + gindex mod 2 ^ depthIntoPage) (mm_store m ! p) of
                (pg, r) \<Rightarrow> (set_page p pg m, r)))"

partial_function (option) MerkleizeSubtree ::
  "(bytes \<Rightarrow> hash) \<Rightarrow> nat \<Rightarrow> memory \<Rightarrow> (memory \<times> hash result) option" where
  "MerkleizeSubtree keccak gindex m =
     (if bits_Len64 gindex > 28 then Some (m, Inl (Panic ''gindex too deep''))
      else if bits_Len64 gindex > PageKeySize then Some (page_subtree keccak gindex m)
      else case mm_nodes m gindex of
             None \<Rightarrow> Some (m, Inr (zeroHashes keccak (28 - bits_Len64 gindex)))
           | Some (Some h) \<Rightarrow> Some (m, Inr h)
           | Some None \<Rightarrow>
               Option.bind (MerkleizeSubtree keccak (2 * gindex) m) (\<lambda>(m1, r1).
                 case r1 of Inl e \<Rightarrow> Some (m1, Inl e)
                 | Inr left \<Rightarrow>
                     Option.bind (MerkleizeSubtree keccak (2 * gindex + 1) m1) (\<lambda>(m2, r2).
                       case r2 of Inl e \<Rightarrow> Some (m2, Inl e)
                       | Inr right \<Rightarrow>
                           Some (m2\<lparr>mm_nodes := (mm_nodes m2)(gindex \<mapsto> Some (HashPair keccak left right))\<rparr>,
                                 Inr (HashPair keccak left right)))))"

definition MerkleRoot :: "(bytes \<Rightarrow> hash) \<Rightarrow> memory \<Rightarrow> (memory \<times> hash result) option" where
  "MerkleRoot keccak m = MerkleizeSubtree keccak 1 m"

function traverseBranch ::
  "(bytes \<Rightarrow> hash) \<Rightarrow> nat \<Rightarrow> u32 \<Rightarrow> nat \<Rightarrow> memory \<Rightarrow> (memory \<times> hash list result) option" where
  "traverseBranch keccak parent addr depth m =
     (if depth = 32 - 5 then
        map_option (\<lambda>(m1, r). (m1, rbind r (\<lambda>h. Inr [h]))) (MerkleizeSubtree keccak parent m)
      else if depth > 32 - 5 then Some (m, Inl (Panic ''traversed too deep''))
      else let right = (addr AND push_bit (31 - depth) 1 \<noteq> 0);
               self = (if right then 2 * parent + 1 else 2 * parent);
               sibling = (if right then 2 * parent else 2 * parent + 1)
           in Option.bind (traverseBranch keccak self addr (depth + 1) m) (\<lambda>(m1, r1).
                case r1 of Inl e \<Rightarrow> Some (m1, Inl e)
                | Inr proof \<Rightarrow>
                    map_option (\<lambda>(m2, r2). (m2, rbind r2 (\<lambda>siblingNode. Inr (proof @ [siblingNode]))))
                      (MerkleizeSubtree keccak sibling m1)))"
  by pat_completeness auto
termination by (relation "measure (\<lambda>(_, _, _, depth, _). 28 - depth)") auto

declare traverseBranch.simps [simp del]

definition MerkleProof :: "(bytes \<Rightarrow> hash) \<Rightarrow> u32 \<Rightarrow> memory \<Rightarrow> (memory \<times> bytes result) option" where
  "MerkleProof keccak addr m =
     map_option (\<lambda>(m1, r). (m1, rbind r (\<lambda>proof. Inr (concat proof)))) (traverseBranch keccak 1 addr 0 m)"

definition AllocPage :: "u32 \<Rightarrow> memory \<Rightarrow> memory \<times> page_ptr" where
  "AllocPage pageIndex m =
     (m\<lparr>mm_store := mm_store m @ [zero_page], mm_pages := AList.update pageIndex (length (mm_store m)) (mm_pages m),
        mm_nodes := clear_nodes (2 ^ PageKeySize OR unat pageIndex) (mm_nodes m)\<rparr>, length (mm_store m))"

text \<open>\<open>copy(p.Data[i:], bs)\<close> of bytes that fit.\<close>

definition put_at :: "nat \<Rightarrow> bytes \<Rightarrow> bytes \<Rightarrow> bytes" where
  "put_at i bs dat = take i dat @ bs @ drop (i + length bs) dat"

definition write_page :: "page_ptr \<Rightarrow> u32 \<Rightarrow> bytes \<Rightarrow> memory \<Rightarrow> memory" where
  "write_page p pageAddr bs m =
     set_page p ((mm_store m ! p)\<lparr>pg_Data := put_at (unat pageAddr) bs (pg_Data (mm_store m ! p))\<rparr>) m"

definition SetMemory :: "u32 \<Rightarrow> u32 \<Rightarrow> memory \<Rightarrow> memory \<times> unit result" where
  "SetMemory addr v m =
     (if addr AND 3 \<noteq> 0 then (m, Inl unaligned)
      else case pageLookup (drop_bit PageAddrSize addr) m of
             (m1, _, False) \<Rightarrow>
               (case AllocPage (drop_bit PageAddrSize addr) m1 of
                  (m2, p) \<Rightarrow> (write_page p (addr AND PageAddrMask) (put_u32 v) m2, Inr ()))
           | (m1, po, True) \<Rightarrow>
               (case Memory_Invalidate addr m1 of
                  (m2, Inl e) \<Rightarrow> (m2, Inl e)
                | (m2, Inr _) \<Rightarrow>
                    (case po of None \<Rightarrow> (m2, Inl nil_panic)
                     | Some p \<Rightarrow> (write_page p (addr AND PageAddrMask) (put_u32 v) m2, Inr ()))))"

definition GetMemory :: "u32 \<Rightarrow> memory \<Rightarrow> memory \<times> u32 result" where
  "GetMemory addr m =
     (if addr AND 3 \<noteq> 0 then (m, Inl unaligned)
      else case pageLookup (drop_bit PageAddrSize addr) m of
             (m1, _, False) \<Rightarrow> (m1, Inr 0)
           | (m1, None, True) \<Rightarrow> (m1, Inl nil_panic)
           | (m1, Some p, True) \<Rightarrow>
               (m1, Inr (get_u32 (byte_range (unat (addr AND PageAddrMask)) 4 (pg_Data (mm_store m1 ! p))))))"

text \<open>The JSON form of a memory is the list of its pages, sorted by their indices; the text itself is left out.\<close>

definition Memory_MarshalJSON :: "memory \<Rightarrow> (u32 \<times> bytes) list" where
  "Memory_MarshalJSON m = sort_key fst (map (\<lambda>(k, p). (k, pg_Data (mm_store m ! p))) (mm_pages m))"

fun load_pages :: "(u32 \<times> bytes) list \<Rightarrow> memory \<Rightarrow> memory \<times> unit result" where
  "load_pages [] m = (m, Inr ())"
| "load_pages ((k, dat) # rest) m =
     (if map_of (mm_pages m) k \<noteq> None then (m, Inl (Errorf ''cannot load duplicate page''))
      else case AllocPage k m of
             (m1, p) \<Rightarrow> load_pages rest (set_page p ((mm_store m1 ! p)\<lparr>pg_Data := dat\<rparr>) m1))"

definition Memory_UnmarshalJSON :: "(u32 \<times> bytes) list \<Rightarrow> memory \<Rightarrow> memory \<times> unit result" where
  "Memory_UnmarshalJSON pages m =
     load_pages pages (m\<lparr>mm_nodes := Map.empty, mm_pages := [], lastPageKeys := (NOT 0, NOT 0), lastPage := (None, None)\<rparr>)"

text \<open>A reader answers a request for at most \<open>n\<close> bytes with bytes and an error. The loop ends with the first error.\<close>

type_synonym 'r go_reader = "'r \<Rightarrow> nat \<Rightarrow> 'r \<times> bytes \<times> error option"

definition range_page :: "u32 \<Rightarrow> memory \<Rightarrow> memory \<times> page_ptr option" where
  "range_page pageIndex m =
     (case pageLookup pageIndex m of
        (m1, po, True) \<Rightarrow> (m1, po)
      | (m1, _, False) \<Rightarrow> (case AllocPage pageIndex m1 of (m2, p) \<Rightarrow> (m2, Some p)))"

partial_function (option) SetMemoryRange ::
  "'r go_reader \<Rightarrow> u32 \<Rightarrow> 'r \<Rightarrow> memory \<Rightarrow> (memory \<times> unit result) option" where
  "SetMemoryRange rd addr r m =
     (case range_page (drop_bit PageAddrSize addr) m of
        (m1, None) \<Rightarrow> Some (m1, Inl nil_panic)
      | (m1, Some p) \<Rightarrow>
          let m2 = set_page p (InvalidateFull (mm_store m1 ! p)) m1;
              pageAddr = addr AND PageAddrMask
          in case rd r (PageSize - unat pageAddr) of
               (r', bs, err) \<Rightarrow>
                 let m3 = write_page p pageAddr bs m2
                 in case err of
                      Some e \<Rightarrow> Some (m3, if e = EOF then Inr () else Inl e)
                    | None \<Rightarrow> SetMemoryRange rd (addr + of_nat (length bs)) r' m3)"

record mem_reader =
  rd_addr :: u32
  rd_count :: u32

text \<open>One \<open>Read\<close> into a buffer of \<open>n\<close> bytes. The expression \<open>p.Data[start:end]\<close> panics when \<open>end\<close> is less than
  \<open>start\<close>; the length \<open>end-start\<close> of the zeroes wraps around.\<close>

definition memReader_Read :: "nat \<Rightarrow> mem_reader \<Rightarrow> memory \<Rightarrow> mem_reader \<times> memory \<times> bytes result" where
  "memReader_Read n r m =
     (if rd_count r = 0 then (r, m, Inl EOF)
      else
        let endAddr = rd_addr r + rd_count r;
            pageIndex = drop_bit PageAddrSize (rd_addr r);
            start = rd_addr r AND PageAddrMask;
            end' = (if pageIndex = drop_bit PageAddrSize endAddr then endAddr AND PageAddrMask else of_nat PageSize);
            advance = (\<lambda>bs. r\<lparr>rd_addr := rd_addr r + of_nat (length bs), rd_count := rd_count r - of_nat (length bs)\<rparr>)
        in case pageLookup pageIndex m of
             (m1, None, True) \<Rightarrow> (r, m1, Inl nil_panic)
           | (m1, Some p, True) \<Rightarrow>
               if end' < start then (r, m1, Inl (Panic ''slice bounds out of range''))
               else let bs = take n (byte_range (unat start) (unat (end' - start)) (pg_Data (mm_store m1 ! p)))
                    in (advance bs, m1, Inr bs)
           | (m1, _, False) \<Rightarrow>
               let bs = take n (replicate (unat (end' - start)) 0) in (advance bs, m1, Inr bs))"

definition ReadMemoryRange :: "u32 \<Rightarrow> u32 \<Rightarrow> mem_reader" where
  "ReadMemoryRange addr count = \<lparr>rd_addr = addr, rd_count = count\<rparr>"

text \<open>\<open>io.ReadAll\<close> and \<open>io.Copy\<close> into a writer that takes everything: \<open>space acc\<close> is the free space of the buffer after
  the bytes \<open>acc\<close> were read.\<close>

partial_function (option) ReadAll ::
  "(bytes \<Rightarrow> nat) \<Rightarrow> bytes \<Rightarrow> mem_reader \<Rightarrow> memory \<Rightarrow> (memory \<times> bytes result) option" where
  "ReadAll space acc r m =
     (case memReader_Read (space acc) r m of
        (r', m', Inl e) \<Rightarrow> Some (m', if e = EOF then Inr acc else Inl e)
      | (r', m', Inr bs) \<Rightarrow> ReadAll space (acc @ bs) r' m')"

section \<open>Content and invariant\<close>

definition page_at :: "memory \<Rightarrow> nat \<Rightarrow> bytes" where
  "page_at m k = (case map_of (mm_pages m) (of_nat k) of None \<Rightarrow> replicate 4096 0 | Some p \<Rightarrow> pg_Data (mm_store m ! p))"

definition mem_leaf :: "memory \<Rightarrow> nat \<Rightarrow> hash" where
  "mem_leaf m i = page_leaf (page_at m (i div 128)) (i mod 128)"

text \<open>\<open>below d i k\<close>: page \<open>k\<close> is below node \<open>i\<close> at depth \<open>d\<close>.\<close>

definition below :: "nat \<Rightarrow> nat \<Rightarrow> u32 \<Rightarrow> bool" where
  "below d i k \<longleftrightarrow> unat k div 2 ^ (20 - d) = i"

definition node_ok :: "(bytes \<Rightarrow> hash) \<Rightarrow> memory \<Rightarrow> nat \<Rightarrow> nat \<Rightarrow> bool" where
  "node_ok keccak m d i \<longleftrightarrow>
     (case mm_nodes m (2 ^ d + i) of
        None \<Rightarrow> \<forall>k. below d i k \<longrightarrow> map_of (mm_pages m) k = None
      | Some None \<Rightarrow> True
      | Some (Some h) \<Rightarrow>
          h = merkle keccak (mem_leaf m) (27 - d) i \<and>
          (\<forall>k p. below d i k \<and> map_of (mm_pages m) k = Some p \<longrightarrow> pg_Ok (mm_store m ! p) ! 1))"

definition cache_ok :: "memory \<Rightarrow> u32 \<Rightarrow> page_ptr option \<Rightarrow> bool" where
  "cache_ok m k po \<longleftrightarrow> k = NOT 0 \<or> po = map_of (mm_pages m) k \<and> po \<noteq> None"

definition pages_ok :: "memory \<Rightarrow> bool" where
  "pages_ok m \<longleftrightarrow>
     (\<forall>k p. map_of (mm_pages m) k = Some p \<longrightarrow> p < length (mm_store m) \<and> unat k < 2 ^ 20) \<and>
     (\<forall>k k' p. map_of (mm_pages m) k = Some p \<and> map_of (mm_pages m) k' = Some p \<longrightarrow> k = k')"

definition memory_ok :: "(bytes \<Rightarrow> hash) \<Rightarrow> memory \<Rightarrow> bool" where
  "memory_ok keccak m \<longleftrightarrow>
     list_all (page_ok keccak) (mm_store m) \<and> pages_ok m \<and>
     cache_ok m (fst (lastPageKeys m)) (fst (lastPage m)) \<and> cache_ok m (snd (lastPageKeys m)) (snd (lastPage m)) \<and>
     (\<forall>d i. d < 20 \<and> i < 2 ^ d \<longrightarrow> node_ok keccak m d i)"

lemma page_at_nodes [simp]: "page_at (m\<lparr>mm_nodes := nodes\<rparr>) j = page_at m j"
  by (simp add: page_at_def cong: option.case_cong)

lemma page_at_eq: "mm_pages m' = mm_pages m \<Longrightarrow> mm_store m' = mm_store m \<Longrightarrow> page_at m' = page_at m"
  by (auto simp: page_at_def fun_eq_iff split: option.splits)

lemma mem_leaf_eq: "mm_pages m' = mm_pages m \<Longrightarrow> mm_store m' = mm_store m \<Longrightarrow> mem_leaf m' = mem_leaf m"
  by (auto simp: mem_leaf_def page_at_def fun_eq_iff split: option.splits)

lemma node_ok_eq:
  assumes "mm_pages m' = mm_pages m" and "mm_store m' = mm_store m" and "mm_nodes m' = mm_nodes m"
  shows "node_ok keccak m' d i = node_ok keccak m d i"
  unfolding node_ok_def assms mem_leaf_eq [OF assms(1,2)] ..

lemma memory_okD:
  assumes "memory_ok keccak m" and "map_of (mm_pages m) k = Some p"
  shows "p < length (mm_store m)" "page_ok keccak (mm_store m ! p)" "unat k < 2 ^ 20"
  using assms by (auto simp: memory_ok_def pages_ok_def list_all_length)

lemma NewMemory_ok [simp]: "memory_ok keccak NewMemory"
  by (simp add: memory_ok_def NewMemory_def pages_ok_def cache_ok_def node_ok_def)

text \<open>\<open>refreshes m m'\<close>: only caches changed between \<open>m\<close> and \<open>m'\<close>, and pages that were hashed are still hashed.\<close>

definition refreshes :: "memory \<Rightarrow> memory \<Rightarrow> bool" where
  "refreshes m m' \<longleftrightarrow>
     mm_pages m' = mm_pages m \<and> length (mm_store m') = length (mm_store m) \<and>
     (\<forall>p<length (mm_store m). pg_Data (mm_store m' ! p) = pg_Data (mm_store m ! p) \<and>
        (pg_Ok (mm_store m ! p) ! 1 \<longrightarrow> pg_Ok (mm_store m' ! p) ! 1))"

lemma refreshes_refl [simp]: "refreshes m m"
  by (simp add: refreshes_def)

lemma refreshes_trans [trans]: "refreshes m m' \<Longrightarrow> refreshes m' m'' \<Longrightarrow> refreshes m m''"
  by (auto simp: refreshes_def)

lemma refreshes_page_at: "refreshes m m' \<Longrightarrow> pages_ok m \<Longrightarrow> page_at m' = page_at m"
  by (fastforce simp: refreshes_def page_at_def pages_ok_def fun_eq_iff split: option.splits)

lemma refreshes_leaf: "refreshes m m' \<Longrightarrow> memory_ok keccak m \<Longrightarrow> mem_leaf m' = mem_leaf m"
  by (simp add: mem_leaf_def fun_eq_iff refreshes_page_at memory_ok_def)

section \<open>The last pages\<close>

text \<open>The cache of the last two pages is transparent.\<close>

lemma key_not_max: "unat (k :: u32) < 2 ^ 20 \<Longrightarrow> k \<noteq> NOT 0"
  by (auto simp: unsigned_minus_1_eq_mask mask_eq_exp_minus_1)

definition lookup_ok :: "memory \<Rightarrow> bool" where
  "lookup_ok m \<longleftrightarrow> cache_ok m (fst (lastPageKeys m)) (fst (lastPage m)) \<and> cache_ok m (snd (lastPageKeys m)) (snd (lastPage m))"

lemma pageLookup_eq:
  assumes ok: "lookup_ok m" and k: "unat k < 2 ^ 20"
  obtains ks ps where "pageLookup k m = (m\<lparr>lastPageKeys := ks, lastPage := ps\<rparr>, map_of (mm_pages m) k, map_of (mm_pages m) k \<noteq> None)"
    and "lookup_ok (m\<lparr>lastPageKeys := ks, lastPage := ps\<rparr>)"
proof -
  have same: "m\<lparr>lastPageKeys := lastPageKeys m, lastPage := lastPage m\<rparr> = m" by simp
  consider (hit0) "k = fst (lastPageKeys m)" | (hit1) "k \<noteq> fst (lastPageKeys m)" "k = snd (lastPageKeys m)"
    | (none) "k \<noteq> fst (lastPageKeys m)" "k \<noteq> snd (lastPageKeys m)" "map_of (mm_pages m) k = None"
    | (some) p where "k \<noteq> fst (lastPageKeys m)" "k \<noteq> snd (lastPageKeys m)" "map_of (mm_pages m) k = Some p" by fastforce
  then show thesis
  proof cases
    case hit0
    with ok key_not_max [OF k] obtain p where "fst (lastPage m) = Some p" "map_of (mm_pages m) k = Some p"
      unfolding lookup_ok_def cache_ok_def by (metis option.exhaust)
    with hit0 ok show thesis by (intro that [of "lastPage m" "lastPageKeys m"]) (simp_all add: pageLookup_def)
  next
    case hit1
    with ok key_not_max [OF k] obtain p where "snd (lastPage m) = Some p" "map_of (mm_pages m) k = Some p"
      unfolding lookup_ok_def cache_ok_def by (metis option.exhaust)
    with hit1 ok show thesis by (intro that [of "lastPage m" "lastPageKeys m"]) (simp_all add: pageLookup_def)
  next
    case none
    with ok show thesis by (intro that [of "lastPage m" "lastPageKeys m"]) (simp_all add: pageLookup_def)
  next
    case (some p)
    with ok show thesis
      by (intro that [of "(Some p, fst (lastPage m))" "(k, fst (lastPageKeys m))"])
        (simp_all add: pageLookup_def lookup_ok_def cache_ok_def)
  qed
qed

lemma pageLookup_ok:
  assumes ok: "memory_ok keccak m" and k: "unat k < 2 ^ 20"
  obtains m' where "pageLookup k m = (m', map_of (mm_pages m) k, map_of (mm_pages m) k \<noteq> None)"
    and "memory_ok keccak m'" and "mm_pages m' = mm_pages m" and "mm_store m' = mm_store m" and "mm_nodes m' = mm_nodes m"
proof -
  have "lookup_ok m" using ok by (simp add: memory_ok_def lookup_ok_def)
  from pageLookup_eq [OF this k] obtain ks ps where
    look: "pageLookup k m = (m\<lparr>lastPageKeys := ks, lastPage := ps\<rparr>, map_of (mm_pages m) k, map_of (mm_pages m) k \<noteq> None)"
    and ok1: "lookup_ok (m\<lparr>lastPageKeys := ks, lastPage := ps\<rparr>)" by blast
  let ?m = "m\<lparr>lastPageKeys := ks, lastPage := ps\<rparr>"
  have "node_ok keccak ?m d i = node_ok keccak m d i" for d i by (rule node_ok_eq) simp_all
  moreover have "pages_ok ?m = pages_ok m" by (simp add: pages_ok_def)
  ultimately have "memory_ok keccak ?m" using ok ok1 by (simp add: memory_ok_def lookup_ok_def)
  with look show thesis by (rule that) simp_all
qed

section \<open>The Merkle tree above the pages\<close>

lemma bits_Len64_gindex [simp]: "i < 2 ^ d \<Longrightarrow> bits_Len64 (2 ^ d + i) = Suc d"
proof (induction d arbitrary: i)
  case 0
  then show ?case by (simp add: bits_Len64.simps [of "Suc 0"] bits_Len64.simps [of 0])
next
  case (Suc d)
  have "(2 ^ Suc d + i) div 2 = 2 ^ d + i div 2" by simp
  moreover have "i div 2 < 2 ^ d" using Suc.prems by simp
  ultimately show ?case using Suc.IH [of "i div 2"] bits_Len64.simps [of "2 ^ Suc d + i"] by simp
qed

lemma merkle_zero:
  assumes "\<And>j. j div 2 ^ n = i \<Longrightarrow> leaf j = replicate 32 0"
  shows "merkle keccak leaf n i = zeroHashes keccak n"
proof -
  have "merkle keccak (\<lambda>_. replicate 32 0) n i = zeroHashes keccak n"
    by (induction n arbitrary: i) simp_all
  then show ?thesis using merkle_cong [of n i leaf "\<lambda>_. replicate 32 0" keccak] assms by simp
qed

lemma zero_leaf: "j < 128 \<Longrightarrow> page_leaf (replicate 4096 0) j = replicate 32 0"
  by (simp add: page_leaf_def byte_range_def min_def)

lemma merkle_mod:
  "n \<le> N \<Longrightarrow> merkle keccak (\<lambda>j. f (j mod 2 ^ N)) n i = merkle keccak f n (i mod 2 ^ (N - n))"
proof (induction n arbitrary: i)
  case 0
  then show ?case by simp
next
  case (Suc n)
  have e: "(2 :: nat) ^ (N - n) = 2 * 2 ^ (N - Suc n)" using Suc.prems by (simp add: Suc_diff_Suc flip: power_Suc)
  have "(2 * i) mod 2 ^ (N - n) = 2 * (i mod 2 ^ (N - Suc n))" "(2 * i + 1) mod 2 ^ (N - n) = 2 * (i mod 2 ^ (N - Suc n)) + 1"
    unfolding e using mod_mult_mult1 [of 2 i] mod_mult2_eq [of "2 * i + 1" 2] by auto
  then show ?case using Suc by simp
qed

text \<open>A node in or at the root of page \<open>k\<close> hashes only leaves of that page.\<close>

lemma merkle_page:
  assumes d: "20 \<le> d" "d \<le> 27"
  shows "merkle keccak (mem_leaf m) (27 - d) i =
     merkle keccak (page_leaf (page_at m (i div 2 ^ (d - 20)))) (27 - d) (i mod 2 ^ (d - 20))"
proof -
  let ?k = "i div 2 ^ (d - 20)"
  have "merkle keccak (mem_leaf m) (27 - d) i = merkle keccak (\<lambda>j. page_leaf (page_at m ?k) (j mod 2 ^ 7)) (27 - d) i"
  proof (rule merkle_cong)
    fix j assume j: "j div 2 ^ (27 - d) = i"
    have "j div 128 = j div (2 ^ (27 - d) * 2 ^ (d - 20))" using d by (simp flip: power_add)
    also have "\<dots> = ?k" by (simp add: div_mult2_eq j)
    finally show "mem_leaf m j = page_leaf (page_at m ?k) (j mod 2 ^ 7)" by (simp add: mem_leaf_def)
  qed
  also have "\<dots> = merkle keccak (page_leaf (page_at m ?k)) (27 - d) (i mod 2 ^ (7 - (27 - d)))"
    by (rule merkle_mod) (use d in simp)
  finally show ?thesis using d by simp
qed

lemma set_page_simps [simp]:
  "mm_pages (set_page p pg m) = mm_pages m" "length (mm_store (set_page p pg m)) = length (mm_store m)"
  "mm_nodes (set_page p pg m) = mm_nodes m" "lastPageKeys (set_page p pg m) = lastPageKeys m"
  "lastPage (set_page p pg m) = lastPage m"
  "p < length (mm_store m) \<Longrightarrow> mm_store (set_page p pg m) ! q = (if q = p then pg else mm_store m ! q)"
  by (auto simp: set_page_def)

lemma refresh_page:
  assumes ok: "memory_ok keccak m" and p: "p < length (mm_store m)" and pg: "page_ok keccak pg" "pg_Data pg = pg_Data (mm_store m ! p)"
    and mono: "pg_Ok (mm_store m ! p) ! 1 \<longrightarrow> pg_Ok pg ! 1"
  shows "memory_ok keccak (set_page p pg m) \<and> refreshes m (set_page p pg m)"
proof -
  have r: "refreshes m (set_page p pg m)" using p pg mono by (simp add: refreshes_def)
  note leaf = refreshes_leaf [OF r ok]
  have "node_ok keccak (set_page p pg m) d i" if "node_ok keccak m d i" for d i
    using that r p mono by (auto simp: node_ok_def leaf split: option.splits)
  moreover have "list_all (page_ok keccak) (mm_store (set_page p pg m))"
    using ok p pg(1) by (simp add: memory_ok_def list_all_length)
  ultimately show ?thesis using ok r by (simp add: memory_ok_def pages_ok_def cache_ok_def)
qed

text \<open>The result of \<open>MerkleizeSubtree\<close> at node \<open>i\<close> of depth \<open>d\<close>.\<close>

definition subtree_hashed :: "(bytes \<Rightarrow> hash) \<Rightarrow> memory \<Rightarrow> nat \<Rightarrow> nat \<Rightarrow> (memory \<times> hash result) option \<Rightarrow> bool" where
  "subtree_hashed keccak m d i res \<longleftrightarrow>
     (\<exists>m'. res = Some (m', Inr (merkle keccak (mem_leaf m) (27 - d) i)) \<and> memory_ok keccak m' \<and> refreshes m m' \<and>
       (\<forall>k p. d \<le> 20 \<and> below d i k \<and> map_of (mm_pages m) k = Some p \<longrightarrow> pg_Ok (mm_store m' ! p) ! 1))"

lemma page_subtree_eq:
  assumes i: "i < 2 ^ d" and d: "20 \<le> d"
  shows "page_subtree keccak (2 ^ d + i) m =
     (case map_of (mm_pages m) (of_nat (i div 2 ^ (d - 20))) of
        None \<Rightarrow> (m, Inr (zeroHashes keccak (27 - d)))
      | Some p \<Rightarrow>
          (case Page_MerkleizeSubtree keccak (2 ^ (d - 20) + i mod 2 ^ (d - 20)) (mm_store m ! p) of
             (pg, r) \<Rightarrow> (set_page p pg m, r)))"
proof -
  let ?e = "d - 20" and ?k = "i div 2 ^ (d - 20)"
  have "?k < 2 ^ 20" using i d by (metis le_add_diff_inverse2 less_mult_imp_div_less mult.commute power_add)
  then have k: "(2 ^ d + i) div 2 ^ ?e mod 2 ^ 20 = ?k" using gindex_div [OF i, of ?e] d by simp
  have "(2 :: nat) ^ d = 2 ^ 20 * 2 ^ ?e" using d by (metis le_add_diff_inverse power_add)
  then have g: "(2 ^ d + i) mod 2 ^ ?e = i mod 2 ^ ?e" by (simp only: mod_mult_self3)
  have l: "Suc d - 1 - PageKeySize = ?e" "28 - Suc d = 27 - d" "PageKeySize = 20" by (simp_all add: PageKeySize_def)
  show ?thesis unfolding page_subtree_def Let_def bits_Len64_gindex [OF i] l(1,2) unfolding l(3) k g ..
qed

lemma page_subtree_ok:
  assumes ok: "memory_ok keccak m" and i: "i < 2 ^ d" and d: "20 \<le> d" "d \<le> 27"
  shows "subtree_hashed keccak m d i (Some (page_subtree keccak (2 ^ d + i) m))"
proof -
  let ?e = "d - 20" and ?k = "i div 2 ^ (d - 20)"
  have key: "d \<le> 20 \<Longrightarrow> below d i k' \<Longrightarrow> k' = of_nat ?k" for k' :: u32 using d(1) by (auto simp: below_def)
  note eq = page_subtree_eq [OF i d(1), of keccak m]
  show ?thesis
  proof (cases "map_of (mm_pages m) (of_nat ?k)")
    case None
    have "merkle keccak (mem_leaf m) (27 - d) i = zeroHashes keccak (27 - d)"
      unfolding merkle_page [OF d]
    proof (rule merkle_zero)
      fix j assume "j div 2 ^ (27 - d) = i mod 2 ^ ?e"
      then have "j div 2 ^ (27 - d) < 2 ^ ?e" by simp
      moreover have "(2 :: nat) ^ ?e * 2 ^ (27 - d) = 2 ^ 7" using d by (simp flip: power_add)
      ultimately have "j < 2 ^ 7" by (simp add: div_less_iff_less_mult)
      then show "page_leaf (page_at m ?k) j = replicate 32 0" by (simp add: page_at_def None zero_leaf)
    qed
    with None ok key show ?thesis unfolding eq by (auto simp: subtree_hashed_def)
  next
    case (Some p)
    note p = memory_okD [OF ok Some]
    have lt: "i mod 2 ^ ?e < 2 ^ ?e" by simp
    have e7: "?e \<le> 7" using d by simp
    from Page_MerkleizeSubtree_ok [OF p(2) lt e7] obtain pg where
      pg: "Page_MerkleizeSubtree keccak (2 ^ ?e + i mod 2 ^ ?e) (mm_store m ! p) =
        (pg, Inr (merkle keccak (page_leaf (pg_Data (mm_store m ! p))) (7 - ?e) (i mod 2 ^ ?e)))"
      "page_ok keccak pg" "pg_Data pg = pg_Data (mm_store m ! p)" "pg_Ok pg ! 1" by blast
    have "7 - ?e = 27 - d" using d by simp
    then have res: "page_subtree keccak (2 ^ d + i) m = (set_page p pg m, Inr (merkle keccak (mem_leaf m) (27 - d) i))"
      unfolding merkle_page [OF d] eq by (simp add: Some pg page_at_def)
    have "pg_Ok (mm_store (set_page p pg m) ! q) ! 1"
      if "d \<le> 20" "below d i k" "map_of (mm_pages m) k = Some q" for k q
      using key [OF that(1,2)] that(3) Some pg(4) p(1) by simp
    then show ?thesis
      using refresh_page [OF ok p(1) pg(2,3)] pg(4) by (auto simp: subtree_hashed_def res)
  qed
qed

lemma below_child:
  assumes "d < 20"
  shows "below d i k \<longleftrightarrow> below (Suc d) (2 * i) k \<or> below (Suc d) (2 * i + 1) k"
proof -
  have "20 - d = Suc (20 - Suc d)" using assms by simp
  then have "unat k div 2 ^ (20 - d) = unat k div 2 ^ (20 - Suc d) div 2" by (simp only: power_Suc2 div_mult2_eq)
  moreover have "x div 2 = i \<longleftrightarrow> x = 2 * i \<or> x = 2 * i + 1" for x :: nat by presburger
  ultimately show ?thesis unfolding below_def by simp
qed

lemma set_node_hashed:
  assumes ok: "memory_ok keccak m" and i: "i < 2 ^ d" "d < 20"
    and pages: "\<And>k p. below d i k \<Longrightarrow> map_of (mm_pages m) k = Some p \<Longrightarrow> pg_Ok (mm_store m ! p) ! 1"
    and h: "h = merkle keccak (mem_leaf m) (27 - d) i"
  shows "memory_ok keccak (m\<lparr>mm_nodes := (mm_nodes m)(2 ^ d + i \<mapsto> Some h)\<rparr>)"
proof -
  let ?m = "m\<lparr>mm_nodes := (mm_nodes m)(2 ^ d + i \<mapsto> Some h)\<rparr>"
  have leaf: "mem_leaf ?m = mem_leaf m" by (rule mem_leaf_eq) simp_all
  have "node_ok keccak ?m d' i'" if "node_ok keccak m d' i'" "i' < 2 ^ d'" for d' i'
  proof (cases "2 ^ d + i = 2 ^ d' + i'")
    case True
    then have "d' = d" "i' = i" using gindex_unique [OF i(1) that(2)] by auto
    then show ?thesis unfolding node_ok_def leaf using h by (auto intro: pages [unfolded One_nat_def])
  next
    case False
    then show ?thesis using that(1) unfolding node_ok_def leaf by (simp split: option.splits)
  qed
  then show ?thesis using ok by (simp add: memory_ok_def pages_ok_def cache_ok_def)
qed

lemma leaf_page_below:
  assumes "j div 2 ^ (27 - d) = i" and "d < 20" and "i < 2 ^ d"
  shows "below d i (of_nat (j div 128)) \<and> unat (of_nat (j div 128) :: u32) = j div 128"
proof -
  have "j div 2 ^ (27 - d) < 2 ^ d" using assms by simp
  moreover have "(2 :: nat) ^ d * 2 ^ (27 - d) = 2 ^ 27" using assms(2) by (simp flip: power_add)
  ultimately have "j < 2 ^ 27" by (simp add: div_less_iff_less_mult)
  then have u: "unat (of_nat (j div 128) :: u32) = j div 128" by (simp add: unat_of_nat)
  have e: "27 - d = 7 + (20 - d)" using assms(2) by simp
  have "j div 128 div 2 ^ (20 - d) = j div (2 ^ 7 * 2 ^ (20 - d))" by (simp add: div_mult2_eq)
  also have "\<dots> = i" using assms(1) unfolding e power_add .
  finally show ?thesis using u by (simp add: below_def)
qed

lemma MerkleizeSubtree_ok:
  "memory_ok keccak m \<Longrightarrow> d \<le> 27 \<Longrightarrow> i < 2 ^ d \<Longrightarrow>
   subtree_hashed keccak m d i (MerkleizeSubtree keccak (2 ^ d + i) m)"
proof (induction "20 - d" arbitrary: d i m)
  case 0
  then show ?case
    using page_subtree_ok [of keccak m i d] by (subst MerkleizeSubtree.simps) (simp add: PageKeySize_def)
next
  case (Suc n)
  then have d: "d < 20" by simp
  note step = MerkleizeSubtree.simps [of keccak "2 ^ d + i" m]
  have ok: "node_ok keccak m d i" using Suc.prems d by (simp add: memory_ok_def)
  consider (zero) "mm_nodes m (2 ^ d + i) = None" | (cached) h where "mm_nodes m (2 ^ d + i) = Some (Some h)"
    | (invalid) "mm_nodes m (2 ^ d + i) = Some None" by (metis option.exhaust)
  then show ?case
  proof cases
    case zero
    have "merkle keccak (mem_leaf m) (27 - d) i = zeroHashes keccak (27 - d)"
    proof (rule merkle_zero)
      fix j assume j: "j div 2 ^ (27 - d) = i"
      from leaf_page_below [OF j d Suc.prems(3)] have "below d i (of_nat (j div 128))" ..
      then show "mem_leaf m j = replicate 32 0"
        using ok zero by (simp add: node_ok_def mem_leaf_def page_at_def zero_leaf)
    qed
    with zero ok Suc.prems show ?thesis unfolding step using d
      by (auto simp: subtree_hashed_def PageKeySize_def node_ok_def)
  next
    case cached
    with ok Suc.prems show ?thesis unfolding step using d
      by (auto simp: subtree_hashed_def PageKeySize_def node_ok_def)
  next
    case invalid
    have children: "2 * (2 ^ d + i) = 2 ^ Suc d + 2 * i" "2 * (2 ^ d + i) + 1 = 2 ^ Suc d + (2 * i + 1)" by simp_all
    have lt: "2 * i < 2 ^ Suc d" "2 * i + 1 < 2 ^ Suc d" using Suc.prems(3) by simp_all
    have n: "n = 20 - Suc d" and d27: "Suc d \<le> 27" using Suc.hyps(2) d by simp_all
    from Suc.hyps(1) [OF n Suc.prems(1) d27 lt(1)] obtain m1 where
      m1: "MerkleizeSubtree keccak (2 ^ Suc d + 2 * i) m = Some (m1, Inr (merkle keccak (mem_leaf m) (27 - Suc d) (2 * i)))"
      "memory_ok keccak m1" "refreshes m m1"
      "\<And>k p. below (Suc d) (2 * i) k \<Longrightarrow> map_of (mm_pages m) k = Some p \<Longrightarrow> pg_Ok (mm_store m1 ! p) ! 1"
      using d by (auto simp: subtree_hashed_def)
    have leaf1: "mem_leaf m1 = mem_leaf m" by (rule refreshes_leaf [OF m1(3) Suc.prems(1)])
    from Suc.hyps(1) [OF n m1(2) d27 lt(2)] obtain m2 where
      m2: "MerkleizeSubtree keccak (2 ^ Suc d + (2 * i + 1)) m1 =
        Some (m2, Inr (merkle keccak (mem_leaf m) (27 - Suc d) (2 * i + 1)))"
      "memory_ok keccak m2" "refreshes m1 m2"
      "\<And>k p. below (Suc d) (2 * i + 1) k \<Longrightarrow> map_of (mm_pages m1) k = Some p \<Longrightarrow> pg_Ok (mm_store m2 ! p) ! 1"
      using d by (auto simp: subtree_hashed_def leaf1)
    have leaf2: "mem_leaf m2 = mem_leaf m" using refreshes_leaf [OF m2(3) m1(2)] leaf1 by simp
    have r: "refreshes m m2" using m1(3) m2(3) by (rule refreshes_trans)
    have pages: "pg_Ok (mm_store m2 ! p) ! 1" if b: "below d i k" and p: "map_of (mm_pages m) k = Some p" for k p
      using b unfolding below_child [OF d]
    proof
      assume "below (Suc d) (2 * i) k"
      then show ?thesis
        using m1(4) p m2(3) m1(3) memory_okD(1) [OF Suc.prems(1) p] by (simp add: refreshes_def)
    next
      assume "below (Suc d) (2 * i + 1) k"
      then show ?thesis using m2(4) p m1(3) by (simp add: refreshes_def)
    qed
    let ?h = "merkle keccak (mem_leaf m) (27 - d) i"
    let ?m = "m2\<lparr>mm_nodes := (mm_nodes m2)(2 ^ d + i \<mapsto> Some ?h)\<rparr>"
    have "27 - d = Suc (27 - Suc d)" using d by simp
    then have "MerkleizeSubtree keccak (2 ^ d + i) m = Some (?m, Inr ?h)"
      unfolding step using d invalid m1(1) [folded children] m2(1) [folded children] Suc.prems(3)
      by (simp add: PageKeySize_def)
    moreover have "memory_ok keccak ?m"
      using pages r by (intro set_node_hashed [OF m2(2) Suc.prems(3) d]) (auto simp: refreshes_def leaf2)
    moreover have "refreshes m ?m" using r by (simp add: refreshes_def)
    ultimately show ?thesis using pages by (auto simp: subtree_hashed_def)
  qed
qed

section \<open>Addresses\<close>

lemma or_add: "n < 2 ^ d \<Longrightarrow> 2 ^ d OR n = 2 ^ d + n" for n :: nat
proof -
  assume "n < 2 ^ d"
  then have "\<not> bit n d" by (simp add: bit_iff_odd)
  then have "2 ^ d AND n = 0" by (intro bit_eqI) (auto simp: bit_simps)
  then show ?thesis by (simp add: disjunctive_add_eq_or)
qed

lemma page_key [simp]:
  fixes addr :: u32
  shows "unat (drop_bit 12 addr) = unat addr div 4096" "unat (addr AND 0xFFF) = unat addr mod 4096"
    "unat (addr AND 3) = unat addr mod 4"
proof -
  show "unat (drop_bit 12 addr) = unat addr div 4096" 
    by (simp only: unat_drop_bit_eq) (simp add: drop_bit_eq_div)
  have masks: "addr AND 0xFFF = take_bit 12 addr" "addr AND 3 = take_bit 2 addr"
    by (simp_all add: take_bit_eq_mask mask_eq_exp_minus_1)
  show "unat (addr AND 0xFFF) = unat addr mod 4096" "unat (addr AND 3) = unat addr mod 4"
    unfolding masks unsigned_take_bit_eq by (simp_all add: take_bit_eq_mod)
qed

lemma key_bound: "unat (addr :: u32) div 4096 < 2 ^ 20"
proof -
  have "unat addr < 2 ^ 32" using unsigned_less [of addr] by simp
  then show ?thesis by simp
qed

lemma clear_nodes_apply: "clear_nodes k nodes g = (if ancestor g k then Some None else nodes g)"
proof (induction k nodes rule: clear_nodes.induct)
  case (1 k nodes)
  show ?case
  proof (cases "k = 0")
    case True
    then show ?thesis by (simp add: clear_nodes.simps [of 0])
  next
    case False
    have "clear_nodes k nodes g = clear_nodes (k div 2) (nodes(k \<mapsto> None)) g"
      using False clear_nodes.simps [of k nodes] by simp
    also have "\<dots> = (if ancestor g (k div 2) then Some None else (nodes(k \<mapsto> None)) g)" by (rule 1 [OF False])
    also have "\<dots> = (if ancestor g k then Some None else nodes g)"
      using False ancestor_step [of g k] by (auto simp: ancestor_def [of g "k div 2"])
    finally show ?thesis .
  qed
qed

lemma clear_nodes_below:
  assumes "i < 2 ^ d" and "d \<le> 20" and "unat k < 2 ^ 20"
  shows "clear_nodes (2 ^ 20 + unat k) nodes (2 ^ d + i) = (if below d i k then Some None else nodes (2 ^ d + i))"
  using ancestor_gindex [OF assms(1,3,2)] by (simp add: clear_nodes_apply below_def)

section \<open>Writing\<close>

text \<open>A page changes and the nodes above it are to be hashed again.\<close>

lemma page_at_set_page:
  assumes "pages_ok m" and "map_of (mm_pages m) k = Some p"
  shows "page_at (set_page p pg m) j = (if of_nat j = k then pg_Data pg else page_at m j)"
  using assms by (auto simp: page_at_def pages_ok_def split: option.splits)

lemma write_ok:
  assumes ok: "memory_ok keccak m" and k: "map_of (mm_pages m) k = Some p" and pg: "page_ok keccak pg"
    and nodes: "\<And>d i. d < 20 \<Longrightarrow> i < 2 ^ d \<Longrightarrow>
      nodes (2 ^ d + i) = (if below d i k then Some None else mm_nodes m (2 ^ d + i))"
  shows "memory_ok keccak ((set_page p pg m)\<lparr>mm_nodes := nodes\<rparr>)"
proof -
  let ?m = "(set_page p pg m)\<lparr>mm_nodes := nodes\<rparr>"
  note p = memory_okD [OF ok k]
  have inj: "q \<noteq> p" if "map_of (mm_pages m) k' = Some q" "k' \<noteq> k" for k' q
    using that ok k by (auto simp: memory_ok_def pages_ok_def)
  have "node_ok keccak ?m d i" if d: "d < 20" "i < 2 ^ d" for d i
  proof (cases "below d i k")
    case True
    then show ?thesis using nodes [OF d] by (simp add: node_ok_def)
  next
    case False
    have "mem_leaf ?m j = mem_leaf m j" if "j div 2 ^ (27 - d) = i" for j
    proof -
      have "of_nat (j div 128) \<noteq> k" using leaf_page_below [OF that d] False by auto
      then have "page_at (set_page p pg m) (j div 128) = page_at m (j div 128)"
        using ok k by (simp add: page_at_set_page memory_ok_def)
      then show ?thesis by (simp add: mem_leaf_def)
    qed
    then have leaf: "merkle keccak (mem_leaf ?m) (27 - d) i = merkle keccak (mem_leaf m) (27 - d) i"
      by (rule merkle_cong)
    have "pg_Ok (mm_store ?m ! q) ! 1 = pg_Ok (mm_store m ! q) ! 1"
      if "below d i k'" "map_of (mm_pages m) k' = Some q" for k' q
      using inj [OF that(2)] that(1) False p(1) by auto
    moreover have "node_ok keccak m d i" using ok d by (simp add: memory_ok_def)
    ultimately show ?thesis
      using nodes [OF d] False unfolding node_ok_def leaf by (auto split: option.splits)
  qed
  moreover have "list_all (page_ok keccak) (mm_store ?m)" using ok p(1) pg by (simp add: memory_ok_def list_all_length)
  ultimately show ?thesis using ok by (simp add: memory_ok_def pages_ok_def cache_ok_def)
qed

lemma AllocPage_ok:
  assumes ok: "memory_ok keccak m" and k: "map_of (mm_pages m) k = None" "unat k < 2 ^ 20"
  obtains m' p where "AllocPage k m = (m', p)" and "memory_ok keccak m'" and "map_of (mm_pages m') k = Some p"
    and "mm_store m' ! p = zero_page" and "page_at m' = page_at m"
    and "\<And>d i. d < 20 \<Longrightarrow> i < 2 ^ d \<Longrightarrow> below d i k \<Longrightarrow> mm_nodes m' (2 ^ d + i) = Some None"
proof -
  let ?p = "length (mm_store m)" and ?m = "fst (AllocPage k m)"
  have m: "AllocPage k m = (?m, ?p)" by (simp add: AllocPage_def)
  have pages: "map_of (mm_pages ?m) = (map_of (mm_pages m))(k \<mapsto> ?p)" by (simp add: AllocPage_def update_conv')
  have store: "mm_store ?m = mm_store m @ [zero_page]" "lastPageKeys ?m = lastPageKeys m" "lastPage ?m = lastPage m"
    by (simp_all add: AllocPage_def)
  have nodes: "mm_nodes ?m (2 ^ d + i) = (if below d i k then Some None else mm_nodes m (2 ^ d + i))"
    if "d < 20" "i < 2 ^ d" for d i
    using clear_nodes_below [OF that(2) _ k(2)] that(1) or_add [OF k(2)] by (simp add: AllocPage_def PageKeySize_def)
  have old: "q < ?p" "q \<noteq> ?p" if "map_of (mm_pages m) k' = Some q" for k' q
    using memory_okD(1) [OF ok that] by simp_all
  have at: "page_at ?m = page_at m"
    using k(1) old by (auto simp: page_at_def pages store nth_append zero_page_def fun_eq_iff split: option.splits)
  then have leaf: "mem_leaf ?m = mem_leaf m" by (simp add: mem_leaf_def fun_eq_iff)
  have "node_ok keccak ?m d i" if d: "d < 20" "i < 2 ^ d" for d i
  proof (cases "below d i k")
    case True
    then show ?thesis using nodes [OF d] by (simp add: node_ok_def)
  next
    case False
    moreover have "node_ok keccak m d i" using ok d by (simp add: memory_ok_def)
    ultimately show ?thesis
      using nodes [OF d] old unfolding node_ok_def leaf pages store by (auto simp: nth_append split: option.splits if_splits)
  qed
  moreover have "pages_ok ?m"
    using ok old k(2) by (auto simp: memory_ok_def pages_ok_def pages store less_Suc_eq split: if_splits)
  moreover have "cache_ok ?m k' po" if "cache_ok m k' po" for k' po using that k(1) by (auto simp: cache_ok_def pages)
  ultimately have "memory_ok keccak ?m" using ok by (simp add: memory_ok_def store)
  then show thesis using m nodes at by (intro that [of ?m ?p]) (simp_all add: pages store nth_append)
qed

lemma length_put_at [simp]: "i + length bs \<le> length dat \<Longrightarrow> length (put_at i bs dat) = length dat"
  by (simp add: put_at_def)

lemma byte_range_put_at [simp]: "i + length bs \<le> length dat \<Longrightarrow> byte_range i (length bs) (put_at i bs dat) = bs"
  by (simp add: put_at_def byte_range_def)

lemma byte_range_put_at_other:
  assumes "x + n \<le> i \<or> i + length bs \<le> x" and "i + length bs \<le> length dat"
  shows "byte_range x n (put_at i bs dat) = byte_range x n dat"
  using assms by (auto simp: put_at_def byte_range_def drop_take min_def)

lemma word_fits: "a mod 4 = 0 \<Longrightarrow> a < 4096 \<Longrightarrow> a + 4 \<le> 4096" for a :: nat
  by (auto elim!: dvdE simp: mod_eq_0_iff_dvd)

lemma mod_page: "a mod 4 = 0 \<Longrightarrow> a mod 4096 mod 4 = 0" for a :: nat
  by (simp add: mod_mod_cancel)

text \<open>The word at an aligned address.\<close>

definition mem_word :: "memory \<Rightarrow> u32 \<Rightarrow> u32" where
  "mem_word m addr = get_u32 (byte_range (unat addr mod 4096) 4 (page_at m (unat addr div 4096)))"

abbreviation aligned :: "u32 \<Rightarrow> bool" where
  "aligned addr \<equiv> addr AND 3 = 0"

lemma aligned_mod: "aligned addr \<longleftrightarrow> unat addr mod 4 = 0"
  by (metis page_key(3) unat_eq_zero)

lemma page_at_length: "memory_ok keccak m \<Longrightarrow> length (page_at m k) = 4096"
  using memory_okD(2) by (fastforce simp: page_at_def page_ok_def split: option.splits)

lemma page_of_addr: "of_nat (unat addr div 4096) = drop_bit 12 (addr :: u32)"
  by (metis page_key(1) of_nat_unat ucast_id)

lemma page_at_key: "map_of (mm_pages m) (drop_bit 12 addr) = Some p \<Longrightarrow> page_at m (unat addr div 4096) = pg_Data (mm_store m ! p)"
  by (simp add: page_at_def page_of_addr)

lemma refreshes_eq: "mm_pages m' = mm_pages m \<Longrightarrow> mm_store m' = mm_store m \<Longrightarrow> refreshes m m'"
  by (simp add: refreshes_def)

lemma GetMemory_ok:
  assumes ok: "memory_ok keccak m" and al: "aligned addr"
  obtains m' where "GetMemory addr m = (m', Inr (mem_word m addr))" and "memory_ok keccak m'" and "refreshes m m'"
proof -
  have k: "unat (drop_bit 12 addr) < 2 ^ 20" using key_bound [of addr] by simp
  from pageLookup_ok [OF ok k] obtain m' where
    m': "pageLookup (drop_bit 12 addr) m = (m', map_of (mm_pages m) (drop_bit 12 addr), map_of (mm_pages m) (drop_bit 12 addr) \<noteq> None)"
      "memory_ok keccak m'" "mm_pages m' = mm_pages m" "mm_store m' = mm_store m" by blast
  have "GetMemory addr m = (m', Inr (mem_word m addr))"
  proof (cases "map_of (mm_pages m) (drop_bit 12 addr)")
    case None
    have "byte_range (unat addr mod 4096) 4 (replicate 4096 0) = replicate 4 (0 :: byte)"
    proof -
      have "unat addr mod 4 = 0" using al by (simp add: aligned_mod)
      then have "unat addr mod 4096 + 4 \<le> 4096" by (intro word_fits mod_page) simp_all
      then show ?thesis by (simp add: byte_range_def min_def)
    qed
    with None al m'(1) show ?thesis
      by (simp add: GetMemory_def mem_word_def page_at_def page_of_addr get_u32_def)
  next
    case (Some p)
    with al m'(1,4) show ?thesis
      by (simp add: GetMemory_def mem_word_def page_at_key PageAddrMask_def)
  qed
  with m' show thesis by (intro that [of m'] refreshes_eq) auto
qed

lemma leaf_of_word:
  assumes "a mod 4 = 0" and "a < 4096" and "length bs = 4" and "length dat = 4096" and "i \<noteq> a div 32"
  shows "page_leaf (put_at a bs dat) i = page_leaf dat i"
proof -
  obtain k where k: "a = 4 * k" using assms(1) by (auto simp: mod_eq_0_iff_dvd elim: dvdE)
  have "i < k div 8 \<or> k div 8 < i" using assms(5) k by auto
  then have "32 * i + 32 \<le> a \<or> a + 4 \<le> 32 * i" unfolding k by linarith
  moreover have "a + length bs \<le> length dat" using word_fits [OF assms(1,2)] assms(3,4) by simp
  ultimately show ?thesis unfolding page_leaf_def using assms(3) by (intro byte_range_put_at_other) auto
qed

text \<open>What a write does to the pages.\<close>

definition writes :: "u32 \<Rightarrow> u32 \<Rightarrow> memory \<Rightarrow> memory \<Rightarrow> bool" where
  "writes addr v m m' \<longleftrightarrow>
     (\<forall>j. page_at m' j =
        (if of_nat j = drop_bit 12 addr then put_at (unat addr mod 4096) (put_u32 v) (page_at m j) else page_at m j))"

lemma Memory_Invalidate_ok:
  assumes ok: "memory_ok keccak m" and al: "aligned addr" and k: "map_of (mm_pages m) (drop_bit 12 addr) = Some p"
    and dat: "length dat = 4096"
    and same: "\<And>i. i \<noteq> unat addr mod 4096 div 32 \<Longrightarrow> page_leaf dat i = page_leaf (pg_Data (mm_store m ! p)) i"
  obtains m' where "Memory_Invalidate addr m = (m', Inr ())" and "p < length (mm_store m')"
    and "memory_ok keccak (set_page p ((mm_store m' ! p)\<lparr>pg_Data := dat\<rparr>) m')"
    and "mm_pages m' = mm_pages m" and "length (mm_store m') = length (mm_store m)"
    and "\<And>q. q < length (mm_store m) \<Longrightarrow> pg_Data (mm_store m' ! q) = pg_Data (mm_store m ! q)"
proof -
  let ?k = "drop_bit 12 addr" and ?a = "addr AND 0xFFF"
  have kb: "unat ?k < 2 ^ 20" using key_bound [of addr] by simp
  from pageLookup_ok [OF ok kb] k obtain m1 where
    m1: "pageLookup ?k m = (m1, Some p, True)" "memory_ok keccak m1" "mm_pages m1 = mm_pages m"
      "mm_store m1 = mm_store m" "mm_nodes m1 = mm_nodes m" by auto
  note p = memory_okD [OF ok k]
  have a: "unat ?a < 4096" by simp
  from Page_Invalidate_ok [OF p(2) a dat] same obtain pg where
    pg: "Page_Invalidate ?a (mm_store m ! p) = Inr pg" "page_ok keccak (pg\<lparr>pg_Data := dat\<rparr>)"
      "pg_Data pg = pg_Data (mm_store m ! p)" by auto
  let ?valid = "pg_Ok (mm_store m ! p) ! 1"
  let ?nodes = "if ?valid then clear_nodes (2 ^ 20 + unat ?k) (mm_nodes m) else mm_nodes m"
  let ?m = "(set_page p pg m1)\<lparr>mm_nodes := ?nodes\<rparr>"
  have gindex: "drop_bit 12 (2 ^ 32 OR unat addr) = 2 ^ 20 + unat ?k"
  proof -
    have "unat addr < 2 ^ 32" using unsigned_less [of addr] by simp
    from or_add [OF this] show ?thesis unfolding page_key(1) by (simp add: drop_bit_eq_div)
  qed
  have res: "Memory_Invalidate addr m = (?m, Inr ())"
    using al m1(1,4,5) pg(1) gindex by (simp add: Memory_Invalidate_def PageAddrMask_def Let_def set_page_def)
  have nodes: "?nodes (2 ^ d + i) = (if below d i ?k then Some None else mm_nodes m1 (2 ^ d + i))"
    if d: "d < 20" "i < 2 ^ d" for d i
  proof (cases ?valid)
    case True
    then show ?thesis using clear_nodes_below [OF d(2) _ kb] d(1) m1(5) by simp
  next
    case False
    have "node_ok keccak m d i" using ok d by (simp add: memory_ok_def)
    with False k show ?thesis by (auto simp: node_ok_def m1(5) split: option.splits)
  qed
  have "set_page p (pg\<lparr>pg_Data := dat\<rparr>) ?m = (set_page p (pg\<lparr>pg_Data := dat\<rparr>) m1)\<lparr>mm_nodes := ?nodes\<rparr>"
    by (simp add: set_page_def)
  moreover have "memory_ok keccak \<dots>" using k m1(3) by (intro write_ok [OF m1(2) _ pg(2) nodes]) auto
  moreover have "mm_store ?m ! p = pg" using p(1) m1(4) by simp
  ultimately show thesis using res p(1) m1(3,4) pg(3) by (intro that [of ?m]) auto
qed

lemma SetMemory_ok:
  assumes ok: "memory_ok keccak m" and al: "aligned addr"
  obtains m' where "SetMemory addr v m = (m', Inr ())" and "memory_ok keccak m'" and "writes addr v m m'"
proof -
  let ?k = "drop_bit 12 addr" and ?a = "unat addr mod 4096"
  have k: "unat ?k < 2 ^ 20" using key_bound [of addr] by simp
  have a: "?a mod 4 = 0" "?a < 4096" using al by (auto simp: aligned_mod mod_page)
  obtain m1 where
    m1: "pageLookup ?k m = (m1, map_of (mm_pages m) ?k, map_of (mm_pages m) ?k \<noteq> None)"
      "memory_ok keccak m1" "mm_pages m1 = mm_pages m" "mm_store m1 = mm_store m"
    by (rule pageLookup_ok [OF ok k])
  have at1: "page_at m1 = page_at m" by (rule page_at_eq [OF m1(3,4)])
  show thesis
  proof (cases "map_of (mm_pages m) ?k")
    case None
    then have "map_of (mm_pages m1) ?k = None" by (simp add: m1(3))
    then obtain m2 p where m2: "AllocPage ?k m1 = (m2, p)" "memory_ok keccak m2" "map_of (mm_pages m2) ?k = Some p"
      "mm_store m2 ! p = zero_page" "page_at m2 = page_at m1"
      and nodes: "\<And>d i. d < 20 \<Longrightarrow> i < 2 ^ d \<Longrightarrow> below d i ?k \<Longrightarrow> mm_nodes m2 (2 ^ d + i) = Some None"
      by (rule AllocPage_ok [OF m1(2) _ k]) blast
    let ?pg = "zero_page\<lparr>pg_Data := put_at ?a (put_u32 v) (pg_Data zero_page)\<rparr>"
    have "page_ok keccak ?pg"
      using word_fits [OF a] InvalidateFull_ok [OF zero_page_ok, of "put_at ?a (put_u32 v) (pg_Data zero_page)" keccak]
      by (simp add: InvalidateFull_def zero_page_def)
    have "memory_ok keccak ((set_page p ?pg m2)\<lparr>mm_nodes := mm_nodes m2\<rparr>)"
      by (rule write_ok [OF m2(2,3) \<open>page_ok keccak ?pg\<close>]) (simp add: nodes)
    moreover have "(set_page p ?pg m2)\<lparr>mm_nodes := mm_nodes m2\<rparr> = set_page p ?pg m2" by (simp add: set_page_def)
    ultimately have "memory_ok keccak (set_page p ?pg m2)" by simp
    moreover have "SetMemory addr v m = (set_page p ?pg m2, Inr ())"
      using al None m1(1) m2(1,4) by (simp add: SetMemory_def PageAddrMask_def write_page_def)
    moreover have "page_at m2 j = pg_Data zero_page" if "of_nat j = ?k" for j
      using that m2(3,4) by (simp add: page_at_def)
    then have "writes addr v m (set_page p ?pg m2)"
      using m2(2,3) at1 m2(5) by (auto simp: writes_def page_at_set_page memory_ok_def)
    ultimately show thesis by (intro that)
  next
    case (Some p)
    then have k1: "map_of (mm_pages m1) ?k = Some p" by (simp add: m1(3))
    note p = memory_okD [OF m1(2) k1]
    let ?dat = "put_at ?a (put_u32 v) (pg_Data (mm_store m1 ! p))"
    have len: "length (pg_Data (mm_store m1 ! p)) = 4096" using p(2) by (simp add: page_ok_def)
    then have "length ?dat = 4096" using word_fits [OF a] by simp
    then obtain m2 where m2: "Memory_Invalidate addr m1 = (m2, Inr ())" "p < length (mm_store m2)"
      "memory_ok keccak (set_page p ((mm_store m2 ! p)\<lparr>pg_Data := ?dat\<rparr>) m2)" "mm_pages m2 = mm_pages m1"
      "length (mm_store m2) = length (mm_store m1)"
      and dat: "\<And>q. q < length (mm_store m1) \<Longrightarrow> pg_Data (mm_store m2 ! q) = pg_Data (mm_store m1 ! q)"
      by (rule Memory_Invalidate_ok [OF m1(2) al k1]) (use leaf_of_word [OF a _ len, of "put_u32 v"] in auto)
    let ?m = "set_page p ((mm_store m2 ! p)\<lparr>pg_Data := ?dat\<rparr>) m2"
    have res: "SetMemory addr v m = (?m, Inr ())"
      using al Some m1(1) m2(1,2) dat [OF p(1)] by (simp add: SetMemory_def PageAddrMask_def write_page_def)
    have pok: "pages_ok m2" using m1(2) m2(4,5) by (simp add: memory_ok_def pages_ok_def)
    have at2: "page_at m2 j = page_at m j" for j
      using dat memory_okD(1) [OF m1(2)] at1 m2(4) by (auto simp: page_at_def m1(3,4) split: option.splits)
    have "page_at m j = pg_Data (mm_store m1 ! p)" if "of_nat j = ?k" for j
      using that Some by (simp add: page_at_def m1(4))
    moreover have "map_of (mm_pages m2) ?k = Some p" using k1 m2(4) by simp
    ultimately have "writes addr v m ?m" by (simp add: writes_def page_at_set_page [OF pok] at2)
    with res m2(3) show thesis by (intro that)
  qed
qed

text \<open>Reading after writing.\<close>

lemma mem_word_refreshes: "refreshes m m' \<Longrightarrow> memory_ok keccak m \<Longrightarrow> mem_word m' addr = mem_word m addr"
  by (simp add: mem_word_def refreshes_page_at memory_ok_def)

lemma mem_word_writes:
  assumes ok: "memory_ok keccak m" and w: "writes addr v m m'" and al: "aligned addr" "aligned b"
  shows "mem_word m' b = (if b = addr then v else mem_word m b)"
proof -
  have mods: "unat addr mod 4 = 0" "unat b mod 4 = 0" using al by (simp_all add: aligned_mod)
  have fits: "unat addr mod 4096 + 4 \<le> 4096" using mods(1) by (intro word_fits mod_page) simp_all
  note len = page_at_length [OF ok]
  consider (same) "b = addr" | (page) "b \<noteq> addr" "unat b div 4096 = unat addr div 4096" | (other) "unat b div 4096 \<noteq> unat addr div 4096"
    by blast
  then show ?thesis
  proof cases
    case same
    have "byte_range (unat addr mod 4096) 4 (put_at (unat addr mod 4096) (put_u32 v) (page_at m (unat addr div 4096))) = put_u32 v"
      using byte_range_put_at [of "unat addr mod 4096" "put_u32 v"] fits len by simp
    then show ?thesis using same w by (simp add: mem_word_def writes_def page_of_addr)
  next
    case page
    then have "unat b mod 4096 \<noteq> unat addr mod 4096" by (metis mod_div_mult_eq word_unat_eq_iff)
    moreover have "unat b mod 4096 mod 4 = 0" "unat addr mod 4096 mod 4 = 0" using mods by (simp_all add: mod_page)
    ultimately have "unat b mod 4096 + 4 \<le> unat addr mod 4096 \<or> unat addr mod 4096 + 4 \<le> unat b mod 4096"
      by (auto elim!: dvdE simp: mod_eq_0_iff_dvd)
    then have "byte_range (unat b mod 4096) 4 (put_at (unat addr mod 4096) (put_u32 v) (page_at m (unat b div 4096))) =
        byte_range (unat b mod 4096) 4 (page_at m (unat b div 4096))"
      using fits len by (intro byte_range_put_at_other) auto
    then show ?thesis using page w by (simp add: mem_word_def writes_def page_of_addr)
  next
    case other
    then have "of_nat (unat b div 4096) \<noteq> drop_bit 12 addr" using page_of_addr [of b] by (metis page_key(1))
    then show ?thesis using other w by (auto simp: mem_word_def writes_def)
  qed
qed

section \<open>Merkle proofs\<close>

text \<open>The verifier of a proof: it climbs from a node to the root; bit \<open>5 + j\<close> of the address tells on which side the
  sibling of level \<open>j\<close> is.\<close>

fun climb :: "(bytes \<Rightarrow> hash) \<Rightarrow> u32 \<Rightarrow> nat \<Rightarrow> hash \<Rightarrow> hash list \<Rightarrow> hash" where
  "climb keccak addr j node [] = node"
| "climb keccak addr j node (sib # sibs) =
     climb keccak addr (Suc j) (if bit addr (5 + j) then HashPair keccak sib node else HashPair keccak node sib) sibs"

lemma climb_snoc:
  "climb keccak addr j node (sibs @ [sib]) =
     (let top = climb keccak addr j node sibs
      in if bit addr (5 + j + length sibs) then HashPair keccak sib top else HashPair keccak top sib)"
  by (induction sibs arbitrary: j node) (simp_all add: Let_def add.assoc)

text \<open>The path of an address: its node at depth \<open>d\<close>.\<close>

definition path_index :: "u32 \<Rightarrow> nat \<Rightarrow> nat" where
  "path_index addr d = unat addr div 2 ^ (32 - d)"

lemma path_index_less: "d \<le> 32 \<Longrightarrow> path_index addr d < 2 ^ d"
proof -
  assume "d \<le> 32"
  then have "(2 :: nat) ^ d * 2 ^ (32 - d) = 2 ^ 32" by (simp flip: power_add)
  moreover have "unat addr < 2 ^ 32" using unsigned_less [of addr] by simp
  ultimately show ?thesis by (simp add: path_index_def div_less_iff_less_mult)
qed

lemma path_index_Suc:
  assumes "d < 32"
  shows "path_index addr (Suc d) = 2 * path_index addr d + (if bit addr (31 - d) then 1 else 0)"
proof -
  have e: "32 - d = Suc (31 - d)" "32 - Suc d = 31 - d" using assms by simp_all
  let ?x = "unat addr div 2 ^ (31 - d)"
  have "bit addr (31 - d) \<longleftrightarrow> odd ?x"
    using assms by (metis bit_iff_odd bit_unsigned_iff possible_bit_nat)
  moreover have "unat addr div 2 ^ (32 - d) = ?x div 2" unfolding e power_Suc2 by (rule div_mult2_eq)
  ultimately show ?thesis unfolding path_index_def e(2) by (auto simp: odd_iff_mod_2_eq_one mult_div_mod_eq)
qed

lemma traverseBranch_ok:
  "memory_ok keccak m \<Longrightarrow> depth \<le> 27 \<Longrightarrow>
   \<exists>m' leaf sibs. traverseBranch keccak (2 ^ depth + path_index addr depth) addr depth m = Some (m', Inr (leaf # sibs)) \<and>
     memory_ok keccak m' \<and> refreshes m m' \<and> leaf = mem_leaf m (unat addr div 32) \<and> length sibs = 27 - depth \<and>
     climb keccak addr 0 leaf sibs = merkle keccak (mem_leaf m) (27 - depth) (path_index addr depth)"
proof (induction "27 - depth" arbitrary: depth m)
  case 0
  then have depth: "depth = 27" by simp
  from MerkleizeSubtree_ok [OF 0(2), of 27 "path_index addr 27"] path_index_less [of 27 addr]
  obtain m' where "MerkleizeSubtree keccak (2 ^ 27 + path_index addr 27) m = Some (m', Inr (mem_leaf m (path_index addr 27)))"
    "memory_ok keccak m'" "refreshes m m'" by (auto simp: subtree_hashed_def)
  then show ?case unfolding depth by (subst traverseBranch.simps) (simp add: path_index_def)
next
  case (Suc n)
  then have d: "depth < 27" by simp
  let ?right = "bit addr (31 - depth)" and ?i = "path_index addr depth"
  let ?g = "2 ^ depth + ?i" and ?j = "path_index addr (Suc depth)"
  let ?sib = "if ?right then 2 * ?i else 2 * ?i + 1"
  have i: "?j = (if ?right then 2 * ?i + 1 else 2 * ?i)" using path_index_Suc [of depth addr] d by simp
  have self: "(if ?right then 2 * ?g + 1 else 2 * ?g) = 2 ^ Suc depth + ?j" by (simp add: i)
  have sibling: "(if ?right then 2 * ?g else 2 * ?g + 1) = 2 ^ Suc depth + ?sib" by simp
  have sib: "?sib < 2 ^ Suc depth" using path_index_less [of depth addr] d by auto
  obtain m1 leaf sibs where
    m1: "traverseBranch keccak (2 ^ Suc depth + ?j) addr (Suc depth) m = Some (m1, Inr (leaf # sibs))"
      "memory_ok keccak m1" "refreshes m m1" and leaf: "leaf = mem_leaf m (unat addr div 32)" "length sibs = 27 - Suc depth"
      "climb keccak addr 0 leaf sibs = merkle keccak (mem_leaf m) (27 - Suc depth) ?j"
  proof -
    have "n = 27 - Suc depth" "Suc depth \<le> 27" using Suc.hyps(2) d by simp_all
    from Suc.hyps(1) [OF this(1) Suc.prems(1) this(2)] show ?thesis by (auto intro: that)
  qed
  from MerkleizeSubtree_ok [OF m1(2) _ sib] d refreshes_leaf [OF m1(3) Suc.prems(1)] obtain m2 where
    m2: "MerkleizeSubtree keccak (2 ^ Suc depth + ?sib) m1 = Some (m2, Inr (merkle keccak (mem_leaf m) (27 - Suc depth) ?sib))"
      "memory_ok keccak m2" "refreshes m1 m2" by (auto simp: subtree_hashed_def)
  let ?h = "merkle keccak (mem_leaf m) (27 - Suc depth) ?sib"
  have "traverseBranch keccak ?g addr depth m = Some (m2, Inr (leaf # sibs @ [?h]))"
  proof -
    have cond: "(addr AND push_bit (31 - depth) 1 \<noteq> 0) = ?right" by (simp add: bit_iff_and_push_bit_not_eq_0)
    show ?thesis
      unfolding traverseBranch.simps [of keccak ?g] cond Let_def self sibling
      using d m1(1) m2(1) by (simp del: power_Suc)
  qed
  moreover have "27 - depth = Suc (27 - Suc depth)" "5 + 0 + length sibs = 31 - depth" using d leaf(2) by simp_all
  then have "climb keccak addr 0 leaf (sibs @ [?h]) = merkle keccak (mem_leaf m) (27 - depth) ?i"
    using leaf(3) i unfolding climb_snoc Let_def by simp
  moreover have "refreshes m m2" using m1(3) m2(3) by (rule refreshes_trans)
  ultimately show ?case using m2(2) leaf(1,2) d by (intro exI [of _ m2] exI [of _ leaf] exI [of _ "sibs @ [?h]"]) simp
qed

end
