(* ===== verification/Cannon_Memory_Props.thy ===== *)
theory Cannon_Memory_Props
  imports Cannon_Memory
begin

text \<open>
  The memories that the machine can reach, and what holds for them: loading data and pages keeps the invariant as long
  as nothing is hashed, reading a range ends and returns the content, the Merkle root and the Merkle proofs are those
  of the content. Loading data after the root was computed breaks this.
\<close>

unbundle bit_operations_syntax

section \<open>Loading\<close>

text \<open>No node above the pages is hashed: the state of a memory that is being loaded.\<close>

definition unhashed :: "memory \<Rightarrow> bool" where
  "unhashed m \<longleftrightarrow> (\<forall>g h. mm_nodes m g \<noteq> Some (Some h))"

lemma unhashed_clear [simp]: "unhashed m \<Longrightarrow> \<forall>g h. clear_nodes k (mm_nodes m) g \<noteq> Some (Some h)"
  by (simp add: clear_nodes_apply unhashed_def)

lemma unhashed_below:
  assumes "memory_ok keccak m" and "unhashed m" and "map_of (mm_pages m) k = Some p" and "d < 20" and "i < 2 ^ d"
    and "below d i k"
  shows "mm_nodes m (2 ^ d + i) = Some None"
proof -
  have "node_ok keccak m d i" using assms by (simp add: memory_ok_def)
  then show ?thesis using assms by (auto simp: node_ok_def unhashed_def split: option.splits)
qed

lemma write_unhashed:
  assumes ok: "memory_ok keccak m" and u: "unhashed m" and k: "map_of (mm_pages m) k = Some p" and pg: "page_ok keccak pg"
  shows "memory_ok keccak (set_page p pg m) \<and> unhashed (set_page p pg m)"
proof -
  have "memory_ok keccak ((set_page p pg m)\<lparr>mm_nodes := mm_nodes m\<rparr>)"
    by (rule write_ok [OF ok k pg]) (simp add: unhashed_below [OF ok u k])
  moreover have "(set_page p pg m)\<lparr>mm_nodes := mm_nodes m\<rparr> = set_page p pg m" by (simp add: set_page_def)
  ultimately show ?thesis using u by (simp add: unhashed_def)
qed

lemma AllocPage_unhashed: "unhashed m \<Longrightarrow> unhashed (fst (AllocPage k m))"
  by (simp add: AllocPage_def unhashed_def clear_nodes_apply)

lemma range_page_ok:
  assumes ok: "memory_ok keccak m" and u: "unhashed m" and k: "unat k < 2 ^ 20"
  obtains m' p where "range_page k m = (m', Some p)" and "memory_ok keccak m'" and "unhashed m'"
    and "map_of (mm_pages m') k = Some p" and "page_at m' = page_at m"
proof -
  obtain m1 where m1: "pageLookup k m = (m1, map_of (mm_pages m) k, map_of (mm_pages m) k \<noteq> None)" "memory_ok keccak m1"
      "mm_pages m1 = mm_pages m" "mm_store m1 = mm_store m" "mm_nodes m1 = mm_nodes m"
    by (rule pageLookup_ok [OF ok k])
  have u1: "unhashed m1" using u by (simp add: unhashed_def m1(5))
  note at = page_at_eq [OF m1(3,4)]
  show thesis
  proof (cases "map_of (mm_pages m) k")
    case None
    then have "map_of (mm_pages m1) k = None" by (simp add: m1(3))
    then obtain m2 p where m2: "AllocPage k m1 = (m2, p)" "memory_ok keccak m2" "map_of (mm_pages m2) k = Some p"
      "page_at m2 = page_at m1"
      by (rule AllocPage_ok [OF m1(2) _ k]) blast
    with None m1(1) at AllocPage_unhashed [OF u1, of k] show thesis
      by (intro that [of m2 p]) (simp_all add: range_page_def)
  next
    case (Some p)
    with m1 u1 at show thesis by (intro that [of m1 p]) (simp_all add: range_page_def)
  qed
qed

text \<open>A reader of \<open>io\<close> returns at most as many bytes as it was asked for.\<close>

definition reader_bounded :: "'r go_reader \<Rightarrow> bool" where
  "reader_bounded rd \<longleftrightarrow> (\<forall>r n. length (fst (snd (rd r n))) \<le> n)"

lemma SetMemoryRange_ok:
  assumes rd: "reader_bounded rd" and "memory_ok keccak m" and "unhashed m" and "SetMemoryRange rd addr r m = Some (m', res)"
  shows "memory_ok keccak m' \<and> unhashed m'"
proof -
  let ?P = "\<lambda>rd addr r m y. reader_bounded rd \<and> memory_ok keccak m \<and> unhashed m \<longrightarrow> memory_ok keccak (fst y) \<and> unhashed (fst y)"
  have "?P rd addr r m (m', res)"
  proof (rule SetMemoryRange.raw_induct [where P = ?P, OF _ assms(4)], goal_cases)
    case (1 rec rd addr r m y)
    show ?case
    proof (rule impI, elim conjE)
      assume rd: "reader_bounded rd" and ok: "memory_ok keccak m" "unhashed m"
      have k: "unat (drop_bit 12 addr) < 2 ^ 20" using key_bound [of addr] by simp
      from range_page_ok [OF ok k] obtain m1 p where
        m1: "range_page (drop_bit 12 addr) m = (m1, Some p)" "memory_ok keccak m1" "unhashed m1"
          "map_of (mm_pages m1) (drop_bit 12 addr) = Some p" by blast
      note p = memory_okD [OF m1(2,4)]
      obtain r' bs err where read: "rd r (4096 - unat addr mod 4096) = (r', bs, err)" by (metis prod.exhaust)
      let ?pg = "InvalidateFull (mm_store m1 ! p)"
      let ?dat = "put_at (unat addr mod 4096) bs (pg_Data ?pg)"
      let ?m = "write_page p (addr AND PageAddrMask) bs (set_page p ?pg m1)"
      have m: "?m = set_page p (?pg\<lparr>pg_Data := ?dat\<rparr>) m1"
        using p(1) by (simp add: write_page_def set_page_def PageAddrMask_def)
      have "length bs \<le> 4096 - unat addr mod 4096" using rd read unfolding reader_bounded_def by (metis fst_conv snd_conv)
      then have "unat addr mod 4096 + length bs \<le> 4096" by (simp add: le_diff_conv2 add.commute less_imp_le)
      then have "length ?dat = 4096" using p(2) by (simp add: InvalidateFull_def page_ok_def)
      then have ok': "memory_ok keccak ?m \<and> unhashed ?m"
        unfolding m by (intro write_unhashed [OF m1(2,3,4)] InvalidateFull_ok [OF p(2)])
      show "memory_ok keccak (fst y) \<and> unhashed (fst y)"
      proof (cases err)
        case None
        with 1(2) have "rec rd (addr + of_nat (length bs)) r' ?m = Some y"
          by (simp add: m1(1) Let_def PageAddrMask_def read)
        from 1(1) [OF this] rd ok' show ?thesis by blast
      next
        case (Some e)
        with 1(2) have "fst y = ?m" by (auto simp: m1(1) Let_def PageAddrMask_def read)
        with ok' show ?thesis by simp
      qed
    qed
  qed
  with assms show ?thesis by simp
qed

lemma load_pages_ok:
  "memory_ok keccak m \<Longrightarrow> unhashed m \<Longrightarrow> list_all (\<lambda>(k, dat). unat k < 2 ^ 20 \<and> length dat = 4096) entries \<Longrightarrow>
   memory_ok keccak (fst (load_pages entries m)) \<and> unhashed (fst (load_pages entries m))"
proof (induction entries m rule: load_pages.induct)
  case (1 m)
  then show ?case by simp
next
  case (2 k dat rest m)
  show ?case
  proof (cases "map_of (mm_pages m) k")
    case (Some p)
    then show ?thesis using "2.prems" by simp
  next
    case None
    have k: "unat k < 2 ^ 20" using "2.prems" by simp
    obtain m1 p where m1: "AllocPage k m = (m1, p)" "memory_ok keccak m1" "map_of (mm_pages m1) k = Some p"
      "mm_store m1 ! p = zero_page"
      by (rule AllocPage_ok [OF "2.prems"(1) None k]) blast
    have u: "unhashed m1" using AllocPage_unhashed [OF "2.prems"(2), of k] m1(1) by simp
    have "page_ok keccak (zero_page\<lparr>pg_Data := dat\<rparr>)"
      using InvalidateFull_ok [OF zero_page_ok, of dat keccak] "2.prems"(3) by (simp add: InvalidateFull_def zero_page_def)
    from write_unhashed [OF m1(2) u m1(3) this] "2.IH" [OF _ m1(1) [symmetric]] None "2.prems"(3) show ?thesis
      by (simp add: m1(1,4))
  qed
qed

lemma Memory_UnmarshalJSON_ok:
  assumes "memory_ok keccak m" and "list_all (\<lambda>(k, dat). unat k < 2 ^ 20 \<and> length dat = 4096) entries"
  shows "memory_ok keccak (fst (Memory_UnmarshalJSON entries m)) \<and> unhashed (fst (Memory_UnmarshalJSON entries m))"
  unfolding Memory_UnmarshalJSON_def
  by (rule load_pages_ok [OF _ _ assms(2)])
    (use assms(1) in \<open>auto simp: memory_ok_def pages_ok_def cache_ok_def node_ok_def unhashed_def\<close>)

section \<open>Reading a range\<close>

lemma page_offset:
  fixes a j :: nat
  assumes "a mod 4096 + j < 4096"
  shows "(a + j) div 4096 = a div 4096" "(a + j) mod 4096 = a mod 4096 + j"
proof -
  have "a + j = 4096 * (a div 4096) + (a mod 4096 + j)" by simp
  then show "(a + j) div 4096 = a div 4096" "(a + j) mod 4096 = a mod 4096 + j"
    using assms by (metis add.right_neutral div_less div_mult_self4 zero_neq_numeral, metis mod_less mod_mult_self4)
qed

lemma mask12: "addr AND 0xFFF = take_bit 12 addr" for addr :: u32
  by (simp add: take_bit_eq_mask mask_eq_exp_minus_1)

text \<open>How much \<open>Read\<close> takes from the current page: the rest of the range or the rest of the page.\<close>

definition chunk :: "u32 \<Rightarrow> u32 \<Rightarrow> nat" where
  "chunk addr count =
     (if drop_bit 12 addr = drop_bit 12 (addr + count) then unat count else 4096 - unat addr mod 4096)"

lemma chunk_word:
  "unat ((if drop_bit 12 addr = drop_bit 12 (addr + count) then (addr + count) AND 0xFFF else 4096) - (addr AND 0xFFF)) =
   chunk addr count"
proof (cases "drop_bit 12 addr = drop_bit 12 (addr + count)")
  case True
  have "take_bit 12 (addr + count) - take_bit 12 addr = count"
    using bits_ident [of 12 addr] bits_ident [of 12 "addr + count"] True
    by (metis add_diff_cancel_left add_diff_cancel_left')
  then show ?thesis using True by (simp add: chunk_def mask12)
next
  case False
  have "unat (4096 - (addr AND 0xFFF)) = 4096 - unat (addr AND 0xFFF)"
    by (subst unat_sub) (simp_all add: word_le_nat_alt del: page_key(2), simp)
  then show ?thesis using False by (simp add: chunk_def)
qed

lemma chunk_bounds:
  assumes "count \<noteq> 0"
  shows "0 < chunk addr count" "chunk addr count \<le> unat count"
proof -
  let ?a = "unat addr" and ?c = "unat count"
  have c: "0 < ?c" using assms by (simp add: unat_gt_0)
  show "0 < chunk addr count" using c by (simp add: chunk_def)
  show "chunk addr count \<le> ?c"
  proof (cases "drop_bit 12 addr = drop_bit 12 (addr + count)")
    case False
    then have ne: "?a div 4096 \<noteq> unat (addr + count) div 4096" by (metis page_key(1) page_of_addr)
    have "4096 - ?a mod 4096 \<le> ?c"
    proof (rule ccontr)
      assume "\<not> 4096 - ?a mod 4096 \<le> ?c"
      then have lt: "?a mod 4096 + ?c < 4096" by simp
      have "?a < 2 ^ 32" using unsigned_less [of addr] by simp
      then have "?a div 4096 < 1048576" by simp
      moreover have eq: "?a + ?c = 4096 * (?a div 4096) + (?a mod 4096 + ?c)" by simp
      ultimately have "?a + ?c < 4294967296" using lt by linarith
      then have sum1: "?a + ?c < 2 ^ 32" by simp
      have sum2: "(?a + ?c) div 4096 = ?a div 4096" using page_offset(1) [OF lt] .
      have "unat (addr + count) = ?a + ?c" using sum1 by (simp add: unat_add_lem [THEN iffD1])
      with ne sum2 show False by simp
    qed
    then show ?thesis using False by (simp add: chunk_def)
  qed (simp add: chunk_def)
qed

text \<open>The range wraps around within one page.\<close>

definition wraps_in_page :: "u32 \<Rightarrow> u32 \<Rightarrow> bool" where
  "wraps_in_page addr count \<longleftrightarrow> drop_bit 12 addr = drop_bit 12 (addr + count) \<and> unat (addr + count) < unat addr"

lemma same_page:
  fixes addr b :: u32
  assumes "drop_bit 12 addr = drop_bit 12 b"
  shows "unat addr div 4096 = unat b div 4096" "unat b mod 4096 < unat addr mod 4096 \<longleftrightarrow> unat b < unat addr"
proof -
  show eq: "unat addr div 4096 = unat b div 4096" using assms by (metis page_key(1))
  then show "unat b mod 4096 < unat addr mod 4096 \<longleftrightarrow> unat b < unat addr"
    using mult_div_mod_eq [of 4096 "unat addr"] mult_div_mod_eq [of 4096 "unat b"] by linarith
qed

lemma range_fits:
  assumes "\<not> wraps_in_page addr count"
  shows "unat addr mod 4096 + chunk addr count \<le> 4096"
proof (cases "drop_bit 12 addr = drop_bit 12 (addr + count)")
  case True
  let ?e = "unat (addr + count)"
  have le: "unat addr \<le> ?e" using assms True by (simp add: wraps_in_page_def)
  have "count = (addr + count) - addr" by simp
  then have c: "unat count = ?e - unat addr" using le by (metis unat_sub word_le_nat_alt)
  have "?e = 4096 * (unat addr div 4096) + ?e mod 4096" using same_page(1) [OF True] by simp
  moreover have "unat addr = 4096 * (unat addr div 4096) + unat addr mod 4096" by simp
  moreover have "?e mod 4096 < 4096" by simp
  ultimately have "unat addr mod 4096 + (?e - unat addr) \<le> 4096" using le by linarith
  then show ?thesis using True c by (simp add: chunk_def)
qed (simp add: chunk_def)

lemma wraps_only_beyond: "unat addr + unat count < 2 ^ 32 \<Longrightarrow> \<not> wraps_in_page addr count"
  by (simp add: wraps_in_page_def unat_add_lem [THEN iffD1])

definition advance :: "mem_reader \<Rightarrow> nat \<Rightarrow> mem_reader" where
  "advance r n = r\<lparr>rd_addr := rd_addr r + of_nat n, rd_count := rd_count r - of_nat n\<rparr>"

text \<open>One read: a panic, or bytes of the page.\<close>

lemma Read_ok:
  assumes ok: "memory_ok keccak m" and c: "rd_count r \<noteq> 0" and n: "0 < n"
  obtains (panics) m' where "memReader_Read n r m = (r, m', Inl (Panic ''slice bounds out of range''))"
      and "memory_ok keccak m'" and "refreshes m m'" and "wraps_in_page (rd_addr r) (rd_count r)"
    | (reads) m' bs where "memReader_Read n r m = (advance r (length bs), m', Inr bs)"
      and "memory_ok keccak m'" and "refreshes m m'" and "bs \<noteq> []" and "length bs \<le> unat (rd_count r)"
      and "length bs \<le> chunk (rd_addr r) (rd_count r)"
      and "\<not> wraps_in_page (rd_addr r) (rd_count r) \<Longrightarrow>
        bs = byte_range (unat (rd_addr r) mod 4096) (length bs) (page_at m (unat (rd_addr r) div 4096))"
proof -
  let ?a = "rd_addr r" and ?c = "rd_count r"
  let ?k = "drop_bit 12 ?a" and ?s = "unat ?a mod 4096" and ?L = "chunk ?a ?c"
  have k: "unat ?k < 2 ^ 20" using key_bound [of ?a] by simp
  obtain m1 where m1: "pageLookup ?k m = (m1, map_of (mm_pages m) ?k, map_of (mm_pages m) ?k \<noteq> None)" "memory_ok keccak m1"
      "mm_pages m1 = mm_pages m" "mm_store m1 = mm_store m"
    by (rule pageLookup_ok [OF ok k])
  have r1: "refreshes m m1" by (rule refreshes_eq [OF m1(3,4)])
  let ?stop = "if ?k = drop_bit 12 (?a + ?c) then (?a + ?c) AND 0xFFF else 4096 :: u32"
  have panic: "?stop < ?a AND 0xFFF \<longleftrightarrow> wraps_in_page ?a ?c"
    using same_page(2) [of ?a "?a + ?c"] mod_less_divisor [of 4096 "unat ?a"]
    by (auto simp: wraps_in_page_def word_less_nat_alt)
  note L = chunk_bounds [OF c, of ?a]
  show thesis
  proof (cases "map_of (mm_pages m) ?k")
    case None
    let ?bs = "take n (replicate ?L (0 :: byte))"
    have res: "memReader_Read n r m = (advance r (length ?bs), m1, Inr ?bs)"
      using c m1(1) None chunk_word [of ?a ?c]
      by (cases "?k = drop_bit 12 (?a + ?c)") (simp_all add: memReader_Read_def Let_def PageAddrMask_def advance_def)
    have eq: "?bs = byte_range ?s (length ?bs) (page_at m (unat ?a div 4096))" if "\<not> wraps_in_page ?a ?c"
      using range_fits [OF that] None by (auto simp: page_at_def page_of_addr byte_range_def min_def)
    show thesis by (rule reads [OF res m1(2) r1 _ _ _ eq]) (use L n in auto)
  next
    case (Some p)
    note p = memory_okD [OF ok Some]
    have len: "length (pg_Data (mm_store m ! p)) = 4096" using p(2) by (simp add: page_ok_def)
    show thesis
    proof (cases "wraps_in_page ?a ?c")
      case True
      have "memReader_Read n r m = (r, m1, Inl (Panic ''slice bounds out of range''))"
        using c m1(1) Some panic True
        by (cases "?k = drop_bit 12 (?a + ?c)") (simp_all add: memReader_Read_def Let_def PageAddrMask_def)
      then show thesis using m1(2) r1 True by (rule panics)
    next
      case False
      let ?bs = "take n (byte_range ?s ?L (pg_Data (mm_store m ! p)))"
      have l: "length ?bs = min n ?L" using range_fits [OF False] len by (simp add: byte_range_def)
      have res: "memReader_Read n r m = (advance r (length ?bs), m1, Inr ?bs)"
        using c m1(1,4) Some panic False chunk_word [of ?a ?c]
        by (cases "?k = drop_bit 12 (?a + ?c)") (simp_all add: memReader_Read_def Let_def PageAddrMask_def advance_def)
      have eq: "?bs = byte_range ?s (length ?bs) (page_at m (unat ?a div 4096))"
        unfolding l using Some by (simp add: page_at_key byte_range_def)
      have "?bs \<noteq> []" using l L(1) n by (metis length_greater_0_conv min_less_iff_conj)
      then show thesis by (rule reads [OF res m1(2) r1 _ _ _ eq]) (unfold l, use L in auto)
    qed
  qed
qed

definition mem_bytes :: "memory \<Rightarrow> nat \<Rightarrow> nat \<Rightarrow> bytes" where
  "mem_bytes m a n = map (\<lambda>j. page_at m (j div 4096) ! (j mod 4096)) [a..<a + n]"

lemma mem_bytes_page:
  assumes "memory_ok keccak m" and "a mod 4096 + n \<le> 4096"
  shows "byte_range (a mod 4096) n (page_at m (a div 4096)) = mem_bytes m a n"
proof (rule nth_equalityI)
  show "length (byte_range (a mod 4096) n (page_at m (a div 4096))) = length (mem_bytes m a n)"
    using assms by (simp add: byte_range_def mem_bytes_def page_at_length)
  fix j assume "j < length (byte_range (a mod 4096) n (page_at m (a div 4096)))"
  then have j: "j < n" by (simp add: byte_range_def)
  have "a mod 4096 + j < 4096" using j assms(2) by simp
  note page_offset [OF this]
  with j assms show "byte_range (a mod 4096) n (page_at m (a div 4096)) ! j = mem_bytes m a n ! j"
    by (simp add: byte_range_def mem_bytes_def page_at_length)
qed

lemma mem_bytes_append: "mem_bytes m a (i + j) = mem_bytes m a i @ mem_bytes m (a + i) j"
  unfolding mem_bytes_def map_append [symmetric] using upt_add_eq_append [of a "a + i" j] by (simp add: add.assoc)

text \<open>Reading a range ends, for every range and every buffer. When the range does not wrap around, the result is the content.\<close>

lemma ReadAll_ok:
  assumes "memory_ok keccak m" and "\<And>acc. 0 < space acc"
  shows "\<exists>m' res. ReadAll space acc r m = Some (m', res) \<and> memory_ok keccak m' \<and> refreshes m m' \<and>
     (unat (rd_addr r) + unat (rd_count r) < 2 ^ 32 \<longrightarrow> res = Inr (acc @ mem_bytes m (unat (rd_addr r)) (unat (rd_count r)))) \<and>
     (\<forall>e. res = Inl e \<longrightarrow> e = Panic ''slice bounds out of range'')"
  using assms(1)
proof (induction "unat (rd_count r)" arbitrary: acc r m rule: less_induct)
  case less
  show ?case
  proof (cases "rd_count r = 0")
    case True
    then show ?thesis using less.prems by (subst ReadAll.simps) (simp add: memReader_Read_def mem_bytes_def)
  next
    case False
    from Read_ok [OF less.prems False assms(2) [of acc]] show ?thesis
    proof cases
      case (1 m')
      then show ?thesis using wraps_only_beyond by (subst ReadAll.simps) auto
    next
      case (2 m' bs)
      note reads = this
      let ?r = "advance r (length bs)" and ?n = "length bs"
      have "unat (rd_count r) < 2 ^ 32" using unsigned_less [of "rd_count r"] by simp
      then have n: "unat (of_nat ?n :: u32) = ?n" using reads(5) by (simp add: unat_of_nat)
      have count: "unat (rd_count ?r) = unat (rd_count r) - ?n"
        using reads(5) n by (simp add: advance_def unat_sub word_le_nat_alt)
      have lt: "unat (rd_count ?r) < unat (rd_count r)" using reads(4,5) count by (cases bs) auto
      from less.hyps [OF lt reads(2), of "acc @ bs"] obtain m'' res where
        rest: "ReadAll space (acc @ bs) ?r m' = Some (m'', res)" "memory_ok keccak m''" "refreshes m' m''"
        and val: "unat (rd_addr ?r) + unat (rd_count ?r) < 2 ^ 32 \<Longrightarrow>
          res = Inr ((acc @ bs) @ mem_bytes m' (unat (rd_addr ?r)) (unat (rd_count ?r)))"
        and err: "\<forall>e. res = Inl e \<longrightarrow> e = Panic ''slice bounds out of range''" by blast
      have "res = Inr (acc @ mem_bytes m (unat (rd_addr r)) (unat (rd_count r)))"
        if nw: "unat (rd_addr r) + unat (rd_count r) < 2 ^ 32"
      proof -
        note inpage = wraps_only_beyond [OF nw]
        have addr: "unat (rd_addr ?r) = unat (rd_addr r) + ?n"
          using nw reads(5) n by (simp add: advance_def unat_add_lem [THEN iffD1])
        have "bs = byte_range (unat (rd_addr r) mod 4096) ?n (page_at m (unat (rd_addr r) div 4096))"
          by (rule reads(7) [OF inpage])
        also have "\<dots> = mem_bytes m (unat (rd_addr r)) ?n"
          using range_fits [OF inpage] reads(6) by (intro mem_bytes_page [OF less.prems]) simp
        finally have bs: "bs = mem_bytes m (unat (rd_addr r)) ?n" .
        have "mem_bytes m' = mem_bytes m"
          using refreshes_page_at [OF reads(3)] less.prems by (simp add: mem_bytes_def fun_eq_iff memory_ok_def)
        then show ?thesis
          using val nw reads(5) bs mem_bytes_append [of m "unat (rd_addr r)" ?n "unat (rd_count r) - ?n"]
          by (simp add: addr count)
      qed
      moreover have "ReadAll space acc r m = Some (m'', res)" using reads(1) rest(1) by (subst ReadAll.simps) simp
      ultimately show ?thesis using rest(2) refreshes_trans [OF reads(3) rest(3)] err by blast
    qed
  qed
qed

section \<open>Reachable memories\<close>

text \<open>The memories that the operations lead to. \<open>SetMemoryRange\<close> loads data from readers before anything is hashed; readers
  over data in memory have the remaining bytes as their state.\<close>

inductive memory_run :: "(bytes \<Rightarrow> hash) \<Rightarrow> memory \<Rightarrow> bool" for keccak where
  New: "memory_run keccak NewMemory"
| GetMemory: "memory_run keccak m \<Longrightarrow> GetMemory addr m = (m', Inr v) \<Longrightarrow> memory_run keccak m'"
| SetMemory: "memory_run keccak m \<Longrightarrow> SetMemory addr v m = (m', Inr u) \<Longrightarrow> memory_run keccak m'"
| MerkleRoot: "memory_run keccak m \<Longrightarrow> MerkleRoot keccak m = Some (m', r) \<Longrightarrow> memory_run keccak m'"
| MerkleProof: "memory_run keccak m \<Longrightarrow> MerkleProof keccak addr m = Some (m', r) \<Longrightarrow> memory_run keccak m'"
| SetMemoryRange: "memory_run keccak m \<Longrightarrow> unhashed m \<Longrightarrow> reader_bounded (rd :: bytes go_reader) \<Longrightarrow>
    SetMemoryRange rd addr r m = Some (m', res) \<Longrightarrow> memory_run keccak m'"
| UnmarshalJSON: "memory_run keccak m \<Longrightarrow> list_all (\<lambda>(k, dat). unat k < 2 ^ 20 \<and> length dat = 4096) entries \<Longrightarrow>
    Memory_UnmarshalJSON entries m = (m', res) \<Longrightarrow> memory_run keccak m'"
| ReadAll: "memory_run keccak m \<Longrightarrow> (\<And>acc. 0 < space acc) \<Longrightarrow> ReadAll space acc r m = Some (m', res) \<Longrightarrow> memory_run keccak m'"

lemma GetMemory_aligned: "GetMemory addr m = (m', Inr v) \<Longrightarrow> aligned addr"
  by (auto simp: GetMemory_def split: if_splits)

lemma SetMemory_aligned: "SetMemory addr v m = (m', Inr u) \<Longrightarrow> aligned addr"
  by (auto simp: SetMemory_def split: if_splits)

lemma MerkleRoot_ok:
  assumes "memory_ok keccak m"
  obtains m' where "MerkleRoot keccak m = Some (m', Inr (merkle keccak (mem_leaf m) 27 0))"
    and "memory_ok keccak m'" and "refreshes m m'"
  using MerkleizeSubtree_ok [OF assms, of 0 0] by (auto simp: MerkleRoot_def subtree_hashed_def intro: that)

lemma MerkleProof_ok:
  assumes "memory_ok keccak m"
  obtains m' leaf sibs where "MerkleProof keccak addr m = Some (m', Inr (concat (leaf # sibs)))"
    and "memory_ok keccak m'" and "refreshes m m'" and "leaf = mem_leaf m (unat addr div 32)" and "length sibs = 27"
    and "climb keccak addr 0 leaf sibs = merkle keccak (mem_leaf m) 27 0"
proof -
  have root: "path_index addr 0 = 0" using path_index_less [of 0 addr] by simp
  with traverseBranch_ok [OF assms, of 0 addr] show thesis by (auto simp: MerkleProof_def intro: that)
qed

lemma memory_run_ok: "memory_run keccak m \<Longrightarrow> memory_ok keccak m"
proof (induction rule: memory_run.induct)
  case (GetMemory m addr m' v)
  then show ?case using GetMemory_ok [OF _ GetMemory_aligned] by (metis fst_conv)
next
  case (SetMemory m addr v m' u)
  then show ?case using SetMemory_ok [OF _ SetMemory_aligned] by (metis fst_conv)
next
  case (MerkleRoot m m' r)
  then show ?case by (metis MerkleRoot_ok fst_conv option.inject)
next
  case (MerkleProof m addr m' r)
  then show ?case by (metis MerkleProof_ok fst_conv option.inject)
next
  case (SetMemoryRange m rd addr r m' res)
  then show ?case using SetMemoryRange_ok [OF SetMemoryRange.hyps(3) SetMemoryRange.IH SetMemoryRange.hyps(2,4)] by blast
next
  case (UnmarshalJSON m entries m' res)
  then show ?case using Memory_UnmarshalJSON_ok by (metis fst_conv)
next
  case (ReadAll m space acc r m' res)
  then show ?case using ReadAll_ok [OF ReadAll.IH, of space acc r] by auto
qed simp

text \<open>The leaves of the tree as the machine reads them: eight words.\<close>

definition word_leaf :: "memory \<Rightarrow> nat \<Rightarrow> hash" where
  "word_leaf m i = concat (map (\<lambda>w. put_u32 (projr (snd (GetMemory (of_nat (32 * i + 4 * w)) m)))) [0..<8])"

lemma byte_range_words: "byte_range a (4 * n) dat = concat (map (\<lambda>w. byte_range (a + 4 * w) 4 dat) [0..<n])"
proof (induction n)
  case 0
  then show ?case by (simp add: byte_range_def)
next
  case (Suc n)
  have "byte_range a (4 * Suc n) dat = byte_range a (4 * n) dat @ byte_range (a + 4 * n) 4 dat"
    using byte_range_append [of a "4 * n" 4 dat] by (simp add: add.commute)
  with Suc show ?case by simp
qed

lemma word_leaf_eq:
  assumes ok: "memory_ok keccak m" and i: "i < 2 ^ 27"
  shows "word_leaf m i = mem_leaf m i"
proof -
  have word: "put_u32 (projr (snd (GetMemory (of_nat (32 * i + 4 * w)) m))) =
      byte_range (32 * (i mod 128) + 4 * w) 4 (page_at m (i div 128))" if w: "w < 8" for w
  proof -
    let ?a = "32 * i + 4 * w"
    have u: "unat (of_nat ?a :: u32) = ?a" using i w by (simp only: unat_of_nat) simp
    have "?a mod 4 = 0" by simp
    then have al: "aligned (of_nat ?a)" unfolding aligned_mod u .
    have "?a = 4096 * (i div 128) + (32 * (i mod 128) + 4 * w)" using mult_div_mod_eq [of 128 i] by linarith
    moreover have "32 * (i mod 128) + 4 * w < 4096" using w mod_less_divisor [of 128 i] by linarith
    ultimately have dm: "?a div 4096 = i div 128" "?a mod 4096 = 32 * (i mod 128) + 4 * w"
      by (metis add.right_neutral div_less div_mult_self4 zero_neq_numeral, metis mod_less mod_mult_self4)
    have "32 * (i mod 128) + 4 * w + 4 \<le> 4096" using w mod_less_divisor [of 128 i] by linarith
    then have "length (byte_range (32 * (i mod 128) + 4 * w) 4 (page_at m (i div 128))) = 4"
      using page_at_length [OF ok] by (simp add: byte_range_def)
    then show ?thesis
      using GetMemory_ok [OF ok al] by (metis dm mem_word_def put_get_u32 snd_conv sum.sel(2) u)
  qed
  have "word_leaf m i = concat (map (\<lambda>w. byte_range (32 * (i mod 128) + 4 * w) 4 (page_at m (i div 128))) [0..<8])"
    unfolding word_leaf_def by (intro arg_cong [of _ _ concat] map_cong refl word) simp
  then show ?thesis
    using byte_range_words [of "32 * (i mod 128)" 8 "page_at m (i div 128)"] by (simp add: mem_leaf_def page_leaf_def)
qed

section \<open>Properties\<close>

lemma merkle_word_leaf: "memory_ok keccak m \<Longrightarrow> merkle keccak (word_leaf m) 27 0 = merkle keccak (mem_leaf m) 27 0"
  by (rule merkle_cong) (simp add: word_leaf_eq)

text \<open>C23: the cached Merkle root is the root of the content. For every memory that the operations of the machine lead to,
  \<open>MerkleRoot\<close> returns, and its result is the hash that a plain recursion over the \<open>2 ^ 27\<close> leaves computes, where a
  leaf is made of the eight words that \<open>GetMemory\<close> reads there. The caches of the pages and of the nodes above them,
  the lazy allocation of pages and the precomputed hashes of zeroes do not show.\<close>

theorem merkle_root_correct:
  assumes "memory_run keccak m"
  shows "\<exists>m'. MerkleRoot keccak m = Some (m', Inr (merkle keccak (word_leaf m) 27 0)) \<and> memory_run keccak m'"
proof -
  have ok: "memory_ok keccak m" by (rule memory_run_ok [OF assms])
  from MerkleRoot_ok [OF ok] obtain m' where "MerkleRoot keccak m = Some (m', Inr (merkle keccak (mem_leaf m) 27 0))" by blast
  with memory_run.MerkleRoot [OF assms this] show ?thesis by (simp add: merkle_word_leaf [OF ok])
qed

definition ex_keccak :: "bytes \<Rightarrow> hash" where
  "ex_keccak bs = be_bytes 32 (be_nat bs + 1)"

definition ex_memory :: memory where
  "ex_memory = fst (SetMemory 8 7 NewMemory)"

lemma ex_memory_run: "memory_run ex_keccak ex_memory"
proof -
  obtain m where m: "SetMemory 8 7 NewMemory = (m, Inr ())"
    by (rule SetMemory_ok [OF NewMemory_ok, of 8]) (simp_all add: aligned_mod)
  then show ?thesis using memory_run.SetMemory [OF memory_run.New m, of ex_keccak] by (simp add: ex_memory_def)
qed

theorem merkle_root_correct_witness:
  "\<exists>m'. MerkleRoot ex_keccak ex_memory = Some (m', Inr (merkle ex_keccak (word_leaf ex_memory) 27 0)) \<and>
     memory_run ex_keccak m'"
  using merkle_root_correct [OF ex_memory_run] by simp

text \<open>C25: Merkle proofs verify. For a reachable memory and an aligned address, \<open>MerkleProof\<close> returns a leaf and 27
  siblings; climbing from the leaf with the bits of the address gives the Merkle root of the memory, and the leaf
  holds the word at the address.\<close>

theorem merkle_proof_verifies:
  assumes "memory_run keccak m" and "addr AND 3 = 0"
  shows "\<exists>m1 m2 leaf sibs. MerkleProof keccak addr m = Some (m1, Inr (concat (leaf # sibs))) \<and> length sibs = 27 \<and>
     MerkleRoot keccak m1 = Some (m2, Inr (climb keccak addr 0 leaf sibs)) \<and>
     snd (GetMemory addr m) = Inr (get_u32 (take 4 (drop (unat addr mod 32) leaf)))"
proof -
  have ok: "memory_ok keccak m" by (rule memory_run_ok [OF assms(1)])
  from MerkleProof_ok [OF ok, of addr] obtain m1 leaf sibs where
    m1: "MerkleProof keccak addr m = Some (m1, Inr (concat (leaf # sibs)))" "memory_ok keccak m1" "refreshes m m1"
    and leaf: "leaf = mem_leaf m (unat addr div 32)" "length sibs = 27"
      "climb keccak addr 0 leaf sibs = merkle keccak (mem_leaf m) 27 0" by blast
  from MerkleRoot_ok [OF m1(2)] obtain m2 where "MerkleRoot keccak m1 = Some (m2, Inr (merkle keccak (mem_leaf m1) 27 0))" by blast
  then have root: "MerkleRoot keccak m1 = Some (m2, Inr (climb keccak addr 0 leaf sibs))"
    by (simp add: leaf(3) refreshes_leaf [OF m1(3) ok])
  let ?a = "unat addr"
  obtain q where q: "?a = 4 * q" using assms(2) by (auto simp: aligned_mod mod_eq_0_iff_dvd elim: dvdE)
  have div: "?a div 32 div 128 = ?a div 4096" by (simp flip: div_mult2_eq)
  have off: "?a mod 32 + 32 * (?a div 32 mod 128) = ?a mod 4096" using mod_mult2_eq [of ?a 32 128] by simp
  have "?a mod 32 = 4 * (q mod 8)" unfolding q using mod_mult_mult1 [of 4 q 8] by simp
  then have "?a mod 32 + 4 \<le> 32" using mod_less_divisor [of 8 q] by linarith
  then have "take 4 (drop (?a mod 32) leaf) = byte_range (?a mod 4096) 4 (page_at m (?a div 4096))"
    by (simp add: leaf(1) mem_leaf_def page_leaf_def byte_range_def div off drop_take add.commute min_def)
  then have "snd (GetMemory addr m) = Inr (get_u32 (take 4 (drop (?a mod 32) leaf)))"
    using GetMemory_ok [OF ok assms(2)] by (metis mem_word_def snd_conv)
  with m1(1) root leaf(2) show ?thesis by blast
qed

theorem merkle_proof_verifies_witness:
  "\<exists>m1 m2 leaf sibs. MerkleProof ex_keccak 8 ex_memory = Some (m1, Inr (concat (leaf # sibs))) \<and> length sibs = 27 \<and>
     MerkleRoot ex_keccak m1 = Some (m2, Inr (climb ex_keccak 8 0 leaf sibs)) \<and>
     snd (GetMemory 8 ex_memory) = Inr (get_u32 (take 4 (drop 8 leaf)))"
proof -
  have al: "(8 :: u32) AND 3 = 0" by (simp add: aligned_mod)
  from merkle_proof_verifies [OF ex_memory_run al] show ?thesis by simp
qed

text \<open>A reader that delivers one piece of data and then the end.\<close>

definition one_read :: "bytes go_reader" where
  "one_read r n = (if r = [] then (r, [], Some EOF) else ([], r, None))"

text \<open>One step of \<open>SetMemoryRange\<close> in a page that exists.\<close>

definition overwritten :: "u32 \<Rightarrow> bytes \<Rightarrow> memory \<Rightarrow> memory \<Rightarrow> bool" where
  "overwritten addr bs m m' \<longleftrightarrow>
     mm_pages m' = mm_pages m \<and> mm_nodes m' = mm_nodes m \<and> length (mm_store m') = length (mm_store m) \<and>
     page_at m' (unat addr div 4096) = put_at (unat addr mod 4096) bs (page_at m (unat addr div 4096))"

lemma range_step:
  assumes ok: "lookup_ok m" "pages_ok m" and k: "map_of (mm_pages m) (drop_bit 12 addr) = Some p"
  obtains m' where "lookup_ok m'" and "pages_ok m'"
    and "overwritten addr (fst (snd (rd r (4096 - unat addr mod 4096)))) m m'"
    and "SetMemoryRange rd addr r m =
      (case rd r (4096 - unat addr mod 4096) of
         (r', bs, Some e) \<Rightarrow> Some (m', if e = EOF then Inr () else Inl e)
       | (r', bs, None) \<Rightarrow> SetMemoryRange rd (addr + of_nat (length bs)) r' m')"
proof -
  obtain r' bs err where rd: "rd r (4096 - unat addr mod 4096) = (r', bs, err)" by (metis prod.exhaust)
  have kb: "unat (drop_bit 12 addr) < 2 ^ 20" using key_bound [of addr] by simp
  from pageLookup_eq [OF ok(1) kb] obtain ks ps where
    look': "pageLookup (drop_bit 12 addr) m = (m\<lparr>lastPageKeys := ks, lastPage := ps\<rparr>,
        map_of (mm_pages m) (drop_bit 12 addr), map_of (mm_pages m) (drop_bit 12 addr) \<noteq> None)"
    and ok1: "lookup_ok (m\<lparr>lastPageKeys := ks, lastPage := ps\<rparr>)" by blast
  then have look: "pageLookup (drop_bit 12 addr) m = (m\<lparr>lastPageKeys := ks, lastPage := ps\<rparr>, Some p, True)" using k by simp
  let ?m1 = "m\<lparr>lastPageKeys := ks, lastPage := ps\<rparr>"
  let ?pg = "InvalidateFull (mm_store m ! p)"
  let ?m = "set_page p (?pg\<lparr>pg_Data := put_at (unat addr mod 4096) bs (pg_Data ?pg)\<rparr>) ?m1"
  have p: "p < length (mm_store m)" using ok(2) k by (auto simp: pages_ok_def)
  have eq: "write_page p (addr AND PageAddrMask) bs (set_page p ?pg ?m1) = ?m"
    using p by (simp add: write_page_def set_page_def PageAddrMask_def)
  have "page_at ?m (unat addr div 4096) = put_at (unat addr mod 4096) bs (page_at m (unat addr div 4096))"
    using k p by (simp add: page_at_key InvalidateFull_def)
  then have "overwritten addr bs m ?m" by (simp add: overwritten_def)
  moreover have "lookup_ok ?m" "pages_ok ?m" using ok1 ok(2) by (simp_all add: lookup_ok_def cache_ok_def pages_ok_def)
  moreover have "SetMemoryRange rd addr r m = (case err of
      Some e \<Rightarrow> Some (?m, if e = EOF then Inr () else Inl e) | None \<Rightarrow> SetMemoryRange rd (addr + of_nat (length bs)) r' ?m)"
    using look eq
    by (subst SetMemoryRange.simps) (cases err; simp add: range_page_def Let_def rd PageAddrMask_def)
  ultimately show thesis by (intro that [of ?m]) (simp_all add: rd)
qed

lemma SetMemoryRange_one:
  assumes ok: "memory_ok keccak m" and k: "map_of (mm_pages m) (drop_bit 12 addr) = Some p"
    and bs: "bs \<noteq> []" "unat addr mod 4096 + length bs < 4096"
  obtains m' where "SetMemoryRange one_read addr bs m = Some (m', Inr ())" and "mm_nodes m' = mm_nodes m"
    and "page_at m' (unat addr div 4096) = put_at (unat addr mod 4096) bs (page_at m (unat addr div 4096))"
proof -
  let ?addr = "addr + of_nat (length bs)"
  from ok have "lookup_ok m" "pages_ok m" by (simp_all add: memory_ok_def lookup_ok_def)
  from range_step [OF this k, of one_read bs] bs(1) obtain m1 where
    m1: "lookup_ok m1" "pages_ok m1" "overwritten addr bs m m1"
      "SetMemoryRange one_read addr bs m = SetMemoryRange one_read ?addr [] m1" by (auto simp: one_read_def)
  have "length bs < 4096" using bs(2) by simp
  then have n: "unat (of_nat (length bs) :: u32) = length bs" by (simp add: unat_of_nat)
  have "unat addr < 2 ^ 32" using unsigned_less [of addr] by simp
  then have "unat addr div 4096 < 1048576" by simp
  then have "unat addr + length bs < 4294967296" using bs(2) mult_div_mod_eq [of 4096 "unat addr"] by linarith
  then have a: "unat ?addr = unat addr + length bs" using n by (simp add: unat_add_lem [THEN iffD1])
  note off = page_offset [OF bs(2)]
  have key: "drop_bit 12 ?addr = drop_bit 12 addr" by (metis a off(1) page_of_addr)
  have "map_of (mm_pages m1) (drop_bit 12 ?addr) = Some p" using k m1(3) by (simp add: overwritten_def key)
  from range_step [OF m1(1,2) this, of one_read "[]"] obtain m2 where
    m2: "overwritten ?addr [] m1 m2" "SetMemoryRange one_read ?addr [] m1 = Some (m2, Inr ())" by (auto simp: one_read_def)
  have "page_at m2 (unat addr div 4096) = page_at m1 (unat addr div 4096)"
    using m2(1) by (simp add: overwritten_def a off put_at_def)
  with m1(3,4) m2 show thesis by (intro that [of m2]) (simp_all add: overwritten_def)
qed

lemma root_cached:
  assumes ok: "memory_ok keccak m" and p: "map_of (mm_pages m) k = Some p" and root: "MerkleRoot keccak m = Some (m', r)"
  obtains h where "mm_nodes m' 1 = Some (Some h)" and "r = Inr h"
proof -
  have "node_ok keccak m 0 0" using ok by (simp add: memory_ok_def)
  moreover have "below 0 0 k" using memory_okD(3) [OF ok p] by (simp add: below_def)
  ultimately have "mm_nodes m 1 \<noteq> None" using p by (auto simp: node_ok_def split: option.splits)
  moreover have "bits_Len64 1 = 1" using bits_Len64_gindex [of 0 0] by simp
  moreover obtain m1 a where m1: "MerkleizeSubtree keccak 2 m = Some (m1, Inr a)" "memory_ok keccak m1"
    using MerkleizeSubtree_ok [OF ok, of 1 0] by (auto simp: subtree_hashed_def)
  moreover obtain m2 b where "MerkleizeSubtree keccak 3 m1 = Some (m2, Inr b)"
    using MerkleizeSubtree_ok [OF m1(2), of 1 1] by (auto simp: subtree_hashed_def)
  ultimately show thesis
    using root that unfolding MerkleRoot_def MerkleizeSubtree.simps [of keccak 1]
    by (auto simp: PageKeySize_def split: option.splits)
qed

text \<open>loading data after the root was computed leaves the old root. When the Merkle root of a memory has been
  computed and \<open>SetMemoryRange\<close> then overwrites bytes of a page that exists, the page is marked as changed but the
  nodes above it are not: \<open>MerkleRoot\<close> keeps returning the root of the old content.\<close>

theorem stale_root_after_range:
  assumes "memory_run keccak m" and "MerkleRoot keccak m = Some (m1, r)"
    and "map_of (mm_pages m1) (drop_bit 12 addr) = Some p" and "bs \<noteq> []" and "unat addr mod 4096 + length bs < 4096"
  shows "\<exists>m2. SetMemoryRange one_read addr bs m1 = Some (m2, Inr ()) \<and>
     page_at m2 (unat addr div 4096) = put_at (unat addr mod 4096) bs (page_at m1 (unat addr div 4096)) \<and>
     MerkleRoot keccak m2 = Some (m2, r)"
proof -
  have ok: "memory_ok keccak m" by (rule memory_run_ok [OF assms(1)])
  have ok1: "memory_ok keccak m1" by (rule memory_run_ok [OF memory_run.MerkleRoot [OF assms(1,2)]])
  have "mm_pages m1 = mm_pages m" using MerkleRoot_ok [OF ok] assms(2) by (metis fst_conv option.inject refreshes_def)
  then obtain h where h: "mm_nodes m1 1 = Some (Some h)" "r = Inr h" using root_cached [OF ok _ assms(2)] assms(3) by metis
  from SetMemoryRange_one [OF ok1 assms(3-5)] obtain m2 where
    m2: "SetMemoryRange one_read addr bs m1 = Some (m2, Inr ())" "mm_nodes m2 = mm_nodes m1"
      "page_at m2 (unat addr div 4096) = put_at (unat addr mod 4096) bs (page_at m1 (unat addr div 4096))" by blast
  have "bits_Len64 1 = 1" using bits_Len64_gindex [of 0 0] by simp
  then have "MerkleRoot keccak m2 = Some (m2, r)"
    using h m2(2) unfolding MerkleRoot_def MerkleizeSubtree.simps [of keccak 1] by (simp add: PageKeySize_def)
  with m2 show ?thesis by blast
qed

theorem stale_root_after_range_witness:
  "\<exists>m1 r m2. MerkleRoot ex_keccak ex_memory = Some (m1, r) \<and> SetMemoryRange one_read 8 [1, 2, 3] m1 = Some (m2, Inr ()) \<and>
     page_at m2 0 = put_at 8 [1, 2, 3] (page_at m1 0) \<and> MerkleRoot ex_keccak m2 = Some (m2, r)"
proof -
  have ok: "memory_ok ex_keccak ex_memory" by (rule memory_run_ok [OF ex_memory_run])
  from MerkleRoot_ok [OF ok] obtain m1 r where root: "MerkleRoot ex_keccak ex_memory = Some (m1, r)" and "refreshes ex_memory m1"
    by blast
  moreover have "map_of (mm_pages ex_memory) (drop_bit 12 8) = Some 0"
    by (simp add: ex_memory_def SetMemory_def aligned_mod NewMemory_def pageLookup_def AllocPage_def write_page_def)
  ultimately have "map_of (mm_pages m1) (drop_bit 12 8) = Some 0" by (simp add: refreshes_def)
  from stale_root_after_range [OF ex_memory_run root this, of "[1, 2, 3]"] root show ?thesis by auto
qed

end
