(* ===== verification/Cannon_Mips.thy ===== *)
theory Cannon_Mips
  imports Cannon_Memory_Props "HOL-Library.Signed_Division"
begin

text \<open>
  The fault proof machine, \<open>cannon/mipsevm/mips.go\<close>, \<open>state.go\<close>, \<open>instrumented.go\<close> and \<open>witness.go\<close>: a MIPS32 processor
  with the system calls that a Go program needs, and the witness of a step with Merkle proofs for the memory it reads.
  A run of the Go code changes the instrumented state and ends with a value or a panic; \<open>None\<close> would be a run that does
  not end. The pre-image oracle, Keccak, the sizes of the buffers of \<open>io\<close> and the four-byte selectors of the contracts
  are the parameters in \<open>mips_env\<close>.
\<close>

unbundle bit_operations_syntax

section \<open>State\<close>

record mips_state =
  st_Memory :: memory
  PreimageKey :: hash
  PreimageOffset :: u32
  PC :: u32
  NextPC :: u32
  LO :: u32
  HI :: u32
  Heap :: u32
  ExitCode :: u8
  Exited :: bool
  st_Step :: u64
  Registers :: "u32 list"
  LastHint :: bytes

record mips_env =
  me_keccak :: "bytes \<Rightarrow> hash"
  me_GetPreimage :: "hash \<Rightarrow> bytes"
  me_space :: "bytes \<Rightarrow> nat"

text \<open>What was written to the standard streams and the hints that were sent to the oracle are logged.\<close>

record instrumented_state =
  is_state :: mips_state
  stdOut :: bytes
  stdErr :: bytes
  lastMemAccess :: u32
  memProofEnabled :: bool
  memProof :: bytes
  lastPreimage :: bytes
  lastPreimageKey :: hash
  lastPreimageOffset :: u32
  is_hints :: "bytes list"

definition NewInstrumentedState :: "mips_state \<Rightarrow> instrumented_state" where
  "NewInstrumentedState s =
     \<lparr>is_state = s, stdOut = [], stdErr = [], lastMemAccess = 0, memProofEnabled = False, memProof = replicate (28 * 32) 0,
      lastPreimage = [], lastPreimageKey = replicate 32 0, lastPreimageOffset = 0, is_hints = []\<rparr>"

type_synonym 'a vm = "instrumented_state \<Rightarrow> (instrumented_state \<times> 'a result) option"

definition vreturn :: "'a \<Rightarrow> 'a vm" where
  "vreturn a m = Some (m, Inr a)"

definition vpanic :: "string \<Rightarrow> 'a vm" where
  "vpanic msg m = Some (m, Inl (Panic msg))"

definition vbind :: "'a vm \<Rightarrow> ('a \<Rightarrow> 'b vm) \<Rightarrow> 'b vm" where
  "vbind f g m =
     (case f m of None \<Rightarrow> None | Some (m', Inl e) \<Rightarrow> Some (m', Inl e) | Some (m', Inr a) \<Rightarrow> g a m')"

definition vget :: "(instrumented_state \<Rightarrow> 'a) \<Rightarrow> 'a vm" where
  "vget f m = Some (m, Inr (f m))"

definition vmodify :: "(instrumented_state \<Rightarrow> instrumented_state) \<Rightarrow> unit vm" where
  "vmodify f m = Some (f m, Inr ())"

definition smodify :: "(mips_state \<Rightarrow> mips_state) \<Rightarrow> unit vm" where
  "smodify f = vmodify (\<lambda>m. m\<lparr>is_state := f (is_state m)\<rparr>)"

definition set_mem :: "memory \<Rightarrow> instrumented_state \<Rightarrow> instrumented_state" where
  "set_mem mem m = m\<lparr>is_state := (is_state m)\<lparr>st_Memory := mem\<rparr>\<rparr>"

text \<open>The calls of the memory.\<close>

definition vGetMemory :: "u32 \<Rightarrow> u32 vm" where
  "vGetMemory addr m = (case GetMemory addr (st_Memory (is_state m)) of (mem, r) \<Rightarrow> Some (set_mem mem m, r))"

definition vSetMemory :: "u32 \<Rightarrow> u32 \<Rightarrow> unit vm" where
  "vSetMemory addr v m = (case SetMemory addr v (st_Memory (is_state m)) of (mem, r) \<Rightarrow> Some (set_mem mem m, r))"

definition vMerkleProof :: "mips_env \<Rightarrow> u32 \<Rightarrow> bytes vm" where
  "vMerkleProof env addr m =
     map_option (\<lambda>(mem, r). (set_mem mem m, r)) (MerkleProof (me_keccak env) addr (st_Memory (is_state m)))"

definition vMerkleRoot :: "mips_env \<Rightarrow> hash vm" where
  "vMerkleRoot env m =
     map_option (\<lambda>(mem, r). (set_mem mem m, r)) (MerkleRoot (me_keccak env) (st_Memory (is_state m)))"

definition vReadAll :: "mips_env \<Rightarrow> u32 \<Rightarrow> u32 \<Rightarrow> bytes vm" where
  "vReadAll env addr count m =
     map_option (\<lambda>(mem, r). (set_mem mem m, r))
       (ReadAll (me_space env) [] (ReadMemoryRange addr count) (st_Memory (is_state m)))"

definition set_reg :: "u32 \<Rightarrow> u32 \<Rightarrow> mips_state \<Rightarrow> mips_state" where
  "set_reg i v s = s\<lparr>Registers := (Registers s)[unat i := v]\<rparr>"

definition reg :: "u32 \<Rightarrow> u32 vm" where
  "reg i = vget (\<lambda>m. Registers (is_state m) ! unat i)"

definition advance_pc :: "mips_state \<Rightarrow> mips_state" where
  "advance_pc s = s\<lparr>PC := NextPC s, NextPC := NextPC s + 4\<rparr>"

section \<open>Pre-images and memory accesses\<close>

definition readPreimage :: "mips_env \<Rightarrow> hash \<Rightarrow> u32 \<Rightarrow> (bytes \<times> u32) vm" where
  "readPreimage env key offset =
     vbind (vmodify (\<lambda>m.
       let m1 = (if key \<noteq> lastPreimageKey m
                 then let dat = me_GetPreimage env key
                      in m\<lparr>lastPreimageKey := key, lastPreimage := put_u64 (of_nat (length dat)) @ dat\<rparr>
                 else m)
       in m1\<lparr>lastPreimageOffset := offset\<rparr>)) (\<lambda>_.
     vbind (vget lastPreimage) (\<lambda>preimage.
       if unat offset > length preimage then vpanic ''slice bounds out of range''
       else let part = take 32 (drop (unat offset) preimage)
            in vreturn (part @ replicate (32 - length part) 0, of_nat (length part))))"

definition trackMemAccess :: "mips_env \<Rightarrow> u32 \<Rightarrow> unit vm" where
  "trackMemAccess env effAddr =
     vbind (vget (\<lambda>m. memProofEnabled m \<and> lastMemAccess m \<noteq> effAddr)) (\<lambda>track.
       if \<not> track then vreturn ()
       else vbind (vget lastMemAccess) (\<lambda>old.
         if old \<noteq> NOT 0 then vpanic ''unexpected different mem access''
         else vbind (vmodify (\<lambda>m. m\<lparr>lastMemAccess := effAddr\<rparr>)) (\<lambda>_.
              vbind (vMerkleProof env effAddr) (\<lambda>proof. vmodify (\<lambda>m. m\<lparr>memProof := proof\<rparr>)))))"

section \<open>System calls\<close>

definition sysMmap :: u32 where "sysMmap = 4090"
definition sysBrk :: u32 where "sysBrk = 4045"
definition sysClone :: u32 where "sysClone = 4120"
definition sysExitGroup :: u32 where "sysExitGroup = 4246"
definition sysRead :: u32 where "sysRead = 4003"
definition sysWrite :: u32 where "sysWrite = 4004"
definition sysFcntl :: u32 where "sysFcntl = 4055"

definition fdStdin :: u32 where "fdStdin = 0"
definition fdStdout :: u32 where "fdStdout = 1"
definition fdStderr :: u32 where "fdStderr = 2"
definition fdHintRead :: u32 where "fdHintRead = 3"
definition fdHintWrite :: u32 where "fdHintWrite = 4"
definition fdPreimageRead :: u32 where "fdPreimageRead = 5"
definition fdPreimageWrite :: u32 where "fdPreimageWrite = 6"

definition MipsEBADF :: u32 where "MipsEBADF = 9"
definition MipsEINVAL :: u32 where "MipsEINVAL = 0x16"

lemmas syscall_numbers = sysMmap_def sysBrk_def sysClone_def sysExitGroup_def sysRead_def sysWrite_def sysFcntl_def

text \<open>The values \<open>v0\<close> and \<open>v1\<close> of a call.\<close>

definition sys_mmap :: "u32 \<Rightarrow> u32 \<Rightarrow> (u32 \<times> u32) vm" where
  "sys_mmap a0 a1 =
     (let sz = (if a1 AND PageAddrMask \<noteq> 0 then a1 + (of_nat PageSize - (a1 AND PageAddrMask)) else a1)
      in if a0 = 0
         then vbind (vget (\<lambda>m. Heap (is_state m))) (\<lambda>v0.
              vbind (smodify (\<lambda>s. s\<lparr>Heap := Heap s + sz\<rparr>)) (\<lambda>_. vreturn (v0, 0)))
         else vreturn (a0, 0))"

definition read_preimage_word :: "mips_env \<Rightarrow> u32 \<Rightarrow> u32 \<Rightarrow> (u32 \<times> u32) vm" where
  "read_preimage_word env a1 a2 =
     (let effAddr = a1 AND 0xFFFFFFFC in
      vbind (trackMemAccess env effAddr) (\<lambda>_.
      vbind (vGetMemory effAddr) (\<lambda>mem.
      vbind (vget (\<lambda>m. (PreimageKey (is_state m), PreimageOffset (is_state m)))) (\<lambda>(key, offset).
      vbind (readPreimage env key offset) (\<lambda>(dat, n).
        let alignment = a1 AND 3;
            space = 4 - alignment;
            n1 = (if space < n then space else n);
            datLen = (if a2 < n1 then a2 else n1);
            outMem = put_at (unat alignment) (take (unat datLen) dat) (put_u32 mem)
        in vbind (vSetMemory effAddr (get_u32 outMem)) (\<lambda>_.
           vbind (smodify (\<lambda>s. s\<lparr>PreimageOffset := PreimageOffset s + datLen\<rparr>)) (\<lambda>_. vreturn (datLen, 0))))))))"

definition write_preimage_key :: "mips_env \<Rightarrow> u32 \<Rightarrow> u32 \<Rightarrow> (u32 \<times> u32) vm" where
  "write_preimage_key env a1 a2 =
     (let effAddr = a1 AND 0xFFFFFFFC in
      vbind (trackMemAccess env effAddr) (\<lambda>_.
      vbind (vGetMemory effAddr) (\<lambda>mem.
        let alignment = a1 AND 3;
            space = 4 - alignment;
            n = (if space < a2 then space else a2)
        in vbind (smodify (\<lambda>s. s\<lparr>PreimageKey := drop (unat n) (PreimageKey s) @ take (unat n) (drop (unat alignment) (put_u32 mem)),
                                 PreimageOffset := 0\<rparr>)) (\<lambda>_. vreturn (n, 0)))))"

text \<open>The loop over the buffered hints. The slice \<open>LastHint[4+hintLen:]\<close> panics when the hint is longer than the buffer;
  the sum is a \<open>uint32\<close>.\<close>

function process_hints :: "bytes \<Rightarrow> bytes list \<Rightarrow> bytes \<times> bytes list \<times> bool" where
  "process_hints buf hints =
     (if length buf < 4 then (buf, hints, True)
      else let hintLen = get_u32 (take 4 buf);
               end' = unat (4 + hintLen)
           in if hintLen \<ge> of_nat (length (drop 4 buf))
              then if end' < 4 \<or> end' > length buf then (buf, hints, False)
                   else process_hints (drop end' buf) (hints @ [take (end' - 4) (drop 4 buf)])
              else (buf, hints, True))"
  by pat_completeness auto
termination by (relation "measure (\<lambda>(buf, _). length buf)") (auto simp: not_less)

declare process_hints.simps [simp del]

definition write_hint :: "mips_env \<Rightarrow> u32 \<Rightarrow> u32 \<Rightarrow> (u32 \<times> u32) vm" where
  "write_hint env a1 a2 =
     vbind (vReadAll env a1 a2) (\<lambda>hintData.
     vbind (vget (\<lambda>m. process_hints (LastHint (is_state m) @ hintData) (is_hints m))) (\<lambda>(buf, hints, fine).
     vbind (vmodify (\<lambda>m. m\<lparr>is_state := (is_state m)\<lparr>LastHint := buf\<rparr>, is_hints := hints\<rparr>)) (\<lambda>_.
       if fine then vreturn (a2, 0) else vpanic ''slice bounds out of range'')))"

definition sys_read :: "mips_env \<Rightarrow> u32 \<Rightarrow> u32 \<Rightarrow> u32 \<Rightarrow> (u32 \<times> u32) vm" where
  "sys_read env a0 a1 a2 =
     (if a0 = fdStdin then vreturn (0, 0)
      else if a0 = fdPreimageRead then read_preimage_word env a1 a2
      else if a0 = fdHintRead then vreturn (a2, 0)
      else vreturn (0xFFFFFFFF, MipsEBADF))"

definition sys_write :: "mips_env \<Rightarrow> u32 \<Rightarrow> u32 \<Rightarrow> u32 \<Rightarrow> (u32 \<times> u32) vm" where
  "sys_write env a0 a1 a2 =
     (if a0 = fdStdout then
        vbind (vReadAll env a1 a2) (\<lambda>dat. vbind (vmodify (\<lambda>m. m\<lparr>stdOut := stdOut m @ dat\<rparr>)) (\<lambda>_. vreturn (a2, 0)))
      else if a0 = fdStderr then
        vbind (vReadAll env a1 a2) (\<lambda>dat. vbind (vmodify (\<lambda>m. m\<lparr>stdErr := stdErr m @ dat\<rparr>)) (\<lambda>_. vreturn (a2, 0)))
      else if a0 = fdHintWrite then write_hint env a1 a2
      else if a0 = fdPreimageWrite then write_preimage_key env a1 a2
      else vreturn (0xFFFFFFFF, MipsEBADF))"

definition sys_fcntl :: "u32 \<Rightarrow> u32 \<Rightarrow> u32 \<times> u32" where
  "sys_fcntl a0 a1 =
     (if a1 = 3 then
        if a0 \<in> {fdStdin, fdPreimageRead, fdHintRead} then (0, 0)
        else if a0 \<in> {fdStdout, fdStderr, fdPreimageWrite, fdHintWrite} then (1, 0)
        else (0xFFFFFFFF, MipsEBADF)
      else (0xFFFFFFFF, MipsEINVAL))"

definition syscall_result :: "mips_env \<Rightarrow> u32 \<Rightarrow> u32 \<Rightarrow> u32 \<Rightarrow> u32 \<Rightarrow> (u32 \<times> u32) vm" where
  "syscall_result env syscallNum a0 a1 a2 =
     (if syscallNum = sysMmap then sys_mmap a0 a1
      else if syscallNum = sysBrk then vreturn (0x40000000, 0)
      else if syscallNum = sysClone then vreturn (1, 0)
      else if syscallNum = sysRead then sys_read env a0 a1 a2
      else if syscallNum = sysWrite then sys_write env a0 a1 a2
      else if syscallNum = sysFcntl then vreturn (sys_fcntl a0 a1)
      else vreturn (0, 0))"

definition handleSyscall :: "mips_env \<Rightarrow> unit vm" where
  "handleSyscall env =
     vbind (reg 2) (\<lambda>syscallNum. vbind (reg 4) (\<lambda>a0. vbind (reg 5) (\<lambda>a1. vbind (reg 6) (\<lambda>a2.
       if syscallNum = sysExitGroup then smodify (\<lambda>s. s\<lparr>Exited := True, ExitCode := ucast a0\<rparr>)
       else vbind (syscall_result env syscallNum a0 a1 a2) (\<lambda>(v0, v1).
            smodify (\<lambda>s. advance_pc (set_reg 7 v1 (set_reg 2 v0 s))))))))"

section \<open>Instructions\<close>

definition SE :: "u32 \<Rightarrow> u32 \<Rightarrow> u32" where
  "SE dat idx =
     (let isSigned = (drop_bit (unat (idx - 1)) dat \<noteq> 0);
          signed = push_bit (unat idx) (push_bit (unat (32 - idx)) 1 - 1);
          mask = push_bit (unat idx) 1 - 1
      in if isSigned then (dat AND mask) OR signed else dat AND mask)"

definition handleBranch :: "u32 \<Rightarrow> u32 \<Rightarrow> u32 \<Rightarrow> u32 \<Rightarrow> unit vm" where
  "handleBranch opcode insn rtReg rs =
     vbind (vget (\<lambda>m. NextPC (is_state m) \<noteq> PC (is_state m) + 4)) (\<lambda>delayed.
       if delayed then vpanic ''branch in delay slot''
       else vbind (reg rtReg) (\<lambda>rt.
         let rtv = drop_bit 16 insn AND 0x1F;
             shouldBranch =
               (if opcode = 4 \<or> opcode = 5 then rs = rt \<and> opcode = 4 \<or> rs \<noteq> rt \<and> opcode = 5
                else if opcode = 6 then sint rs \<le> 0
                else if opcode = 7 then sint rs > 0
                else if opcode = 1 then rtv = 0 \<and> sint rs < 0 \<or> rtv = 1 \<and> sint rs \<ge> 0
                else False)
         in smodify (\<lambda>s. s\<lparr>PC := NextPC s,
              NextPC := if shouldBranch then PC s + 4 + push_bit 2 (SE (insn AND 0xFFFF) 16) else NextPC s + 4\<rparr>)))"

definition handleHiLo :: "u32 \<Rightarrow> u32 \<Rightarrow> u32 \<Rightarrow> u32 \<Rightarrow> unit vm" where
  "handleHiLo fn rs rt storeReg =
     vbind (vget (\<lambda>m. if fn = 0x10 then HI (is_state m) else if fn = 0x12 then LO (is_state m) else 0)) (\<lambda>val.
     vbind (if fn = 0x11 then smodify (\<lambda>s. s\<lparr>HI := rs\<rparr>)
            else if fn = 0x13 then smodify (\<lambda>s. s\<lparr>LO := rs\<rparr>)
            else if fn = 0x18 then
              let acc = (of_int (sint rs * sint rt) :: u64) in smodify (\<lambda>s. s\<lparr>HI := ucast (drop_bit 32 acc), LO := ucast acc\<rparr>)
            else if fn = 0x19 then
              let acc = (ucast rs * ucast rt :: u64) in smodify (\<lambda>s. s\<lparr>HI := ucast (drop_bit 32 acc), LO := ucast acc\<rparr>)
            else if fn = 0x1a then
              if rt = 0 then vpanic ''integer divide by zero''
              else smodify (\<lambda>s. s\<lparr>HI := of_int (sint rs smod sint rt), LO := of_int (sint rs sdiv sint rt)\<rparr>)
            else if fn = 0x1b then
              if rt = 0 then vpanic ''integer divide by zero'' else smodify (\<lambda>s. s\<lparr>HI := rs mod rt, LO := rs div rt\<rparr>)
            else vreturn ()) (\<lambda>_.
     smodify (\<lambda>s. advance_pc (if storeReg \<noteq> 0 then set_reg storeReg val s else s))))"

definition handleJump :: "u32 \<Rightarrow> u32 \<Rightarrow> unit vm" where
  "handleJump linkReg dest =
     vbind (vget (\<lambda>m. NextPC (is_state m) \<noteq> PC (is_state m) + 4)) (\<lambda>delayed.
       if delayed then vpanic ''jump in delay slot''
       else smodify (\<lambda>s.
         let s1 = s\<lparr>PC := NextPC s, NextPC := dest\<rparr> in if linkReg \<noteq> 0 then set_reg linkReg (PC s + 8) s1 else s1))"

definition handleRd :: "u32 \<Rightarrow> u32 \<Rightarrow> bool \<Rightarrow> unit vm" where
  "handleRd storeReg val conditional =
     (if storeReg \<ge> 32 then vpanic ''invalid register''
      else smodify (\<lambda>s. advance_pc (if storeReg \<noteq> 0 \<and> conditional then set_reg storeReg val s else s)))"

text \<open>\<open>for ; rs&0x80000000 != 0; i++ { rs <<= 1 }\<close>.\<close>

lemma count_bits_decr:
  fixes w :: u32
  assumes "bit w 31"
  shows "card {i. bit (push_bit 1 w) i} < card {i. bit w i}"
proof -
  have "{i. bit (push_bit 1 w) i} = Suc ` ({i. bit w i} - {31})"
  proof (rule set_eqI)
    fix i
    have lt: "bit w j \<Longrightarrow> j < 32" for j using bit_imp_le_length [of w j] by simp
    have "bit (push_bit 1 w) i \<longleftrightarrow> 1 \<le> i \<and> i < 32 \<and> bit w (i - 1)"
      unfolding bit_push_bit_iff by (simp add: possible_bit_word)
    then show "i \<in> {i. bit (push_bit 1 w) i} \<longleftrightarrow> i \<in> Suc ` ({i. bit w i} - {31})"
      by (cases i) (auto simp: image_iff less_Suc_eq dest: lt)
  qed
  moreover have fin: "finite {i. bit w i}"
    by (rule finite_subset [of _ "{..<32}"]) (auto dest: bit_imp_le_length)
  moreover have "card ({i. bit w i} - {31}) < card {i. bit w i}" using assms by (intro card_Diff1_less [OF fin]) simp
  ultimately show ?thesis by (simp only: card_image [OF inj_Suc])
qed

function leading_ones :: "u32 \<Rightarrow> u32" where
  "leading_ones rs = (if rs AND 0x80000000 \<noteq> 0 then 1 + leading_ones (push_bit 1 rs) else 0)"
  by pat_completeness auto
termination
proof (relation "measure (\<lambda>rs. card {i. bit rs i})")
  fix rs :: u32 assume "rs AND 0x80000000 \<noteq> 0"
  then have "bit rs 31" using bit_iff_and_push_bit_not_eq_0 [of rs 31] by simp
  then show "(push_bit 1 rs, rs) \<in> measure (\<lambda>rs. card {i. bit rs i})" using count_bits_decr by simp
qed simp

declare leading_ones.simps [simp del]

definition execute :: "u32 \<Rightarrow> u32 \<Rightarrow> u32 \<Rightarrow> u32 \<Rightarrow> u32 result" where
  "execute insn rs rt mem =
     (let opcode = drop_bit 26 insn;
          fn = insn AND 0x3F;
          shamt = drop_bit 6 insn AND 0x1F;
          byteShift = unat (24 - (rs AND 3) * 8);
          halfShift = unat (16 - (rs AND 2) * 8);
          invalid = Inl (Panic ''invalid instruction'')
      in if opcode = 0 \<or> opcode \<ge> 8 \<and> opcode < 0xF then
           let fn = (if opcode = 8 then 0x20 else if opcode = 9 then 0x21 else if opcode = 0xA then 0x2A
                     else if opcode = 0xB then 0x2B else if opcode = 0xC then 0x24 else if opcode = 0xD then 0x25
                     else if opcode = 0xE then 0x26 else fn)
           in if fn = 0x00 then Inr (push_bit (unat shamt) rt)
              else if fn = 0x02 then Inr (drop_bit (unat shamt) rt)
              else if fn = 0x03 then Inr (SE (drop_bit (unat shamt) rt) (32 - shamt))
              else if fn = 0x04 then Inr (push_bit (unat (rs AND 0x1F)) rt)
              else if fn = 0x06 then Inr (drop_bit (unat (rs AND 0x1F)) rt)
              else if fn = 0x07 then Inr (SE (drop_bit (unat rs) rt) (32 - rs))
              else if fn \<in> {0x08, 0x09, 0x0a, 0x0b, 0x0c, 0x0f, 0x10, 0x11, 0x12, 0x13, 0x18, 0x19, 0x1a, 0x1b} then Inr rs
              else if fn = 0x20 \<or> fn = 0x21 then Inr (rs + rt)
              else if fn = 0x22 \<or> fn = 0x23 then Inr (rs - rt)
              else if fn = 0x24 then Inr (rs AND rt)
              else if fn = 0x25 then Inr (rs OR rt)
              else if fn = 0x26 then Inr (rs XOR rt)
              else if fn = 0x27 then Inr (NOT (rs OR rt))
              else if fn = 0x2a then Inr (if sint rs < sint rt then 1 else 0)
              else if fn = 0x2b then Inr (if rs < rt then 1 else 0)
              else invalid
         else if opcode = 0x1C then
           if fn = 0x2 then Inr (of_int (sint rs * sint rt))
           else if fn = 0x20 then Inr (leading_ones (NOT rs))
           else if fn = 0x21 then Inr (leading_ones rs)
           else invalid
         else if opcode = 0x0F then Inr (push_bit 16 rt)
         else if opcode = 0x20 then Inr (SE (drop_bit byteShift mem AND 0xFF) 8)
         else if opcode = 0x21 then Inr (SE (drop_bit halfShift mem AND 0xFFFF) 16)
         else if opcode = 0x22 then
           let val = push_bit (unat ((rs AND 3) * 8)) mem; mask = push_bit (unat ((rs AND 3) * 8)) 0xFFFFFFFF
           in Inr ((rt AND NOT mask) OR val)
         else if opcode = 0x23 then Inr mem
         else if opcode = 0x24 then Inr (drop_bit byteShift mem AND 0xFF)
         else if opcode = 0x25 then Inr (drop_bit halfShift mem AND 0xFFFF)
         else if opcode = 0x26 then
           let val = drop_bit byteShift mem; mask = drop_bit byteShift 0xFFFFFFFF in Inr ((rt AND NOT mask) OR val)
         else if opcode = 0x28 then
           let val = push_bit byteShift (rt AND 0xFF); mask = 0xFFFFFFFF XOR push_bit byteShift 0xFF in Inr ((mem AND mask) OR val)
         else if opcode = 0x29 then
           let val = push_bit halfShift (rt AND 0xFFFF); mask = 0xFFFFFFFF XOR push_bit halfShift 0xFFFF
           in Inr ((mem AND mask) OR val)
         else if opcode = 0x2a then
           let val = drop_bit (unat ((rs AND 3) * 8)) rt; mask = drop_bit (unat ((rs AND 3) * 8)) 0xFFFFFFFF
           in Inr ((mem AND NOT mask) OR val)
         else if opcode = 0x2b then Inr rt
         else if opcode = 0x2e then
           let val = push_bit byteShift rt; mask = push_bit byteShift 0xFFFFFFFF in Inr ((mem AND NOT mask) OR val)
         else if opcode = 0x30 then Inr mem
         else if opcode = 0x38 then Inr rt
         else invalid)"

definition vlift :: "'a result \<Rightarrow> 'a vm" where
  "vlift r m = Some (m, r)"

text \<open>The value of the second operand and the destination register of an instruction that is no jump.\<close>

definition operand_rt :: "u32 \<Rightarrow> u32 vm" where
  "operand_rt insn =
     (let opcode = drop_bit 26 insn; rtReg = drop_bit 16 insn AND 0x1F
      in if opcode = 0 \<or> opcode = 0x1c then reg rtReg
         else if opcode < 0x20 then
           vreturn (if opcode = 0xC \<or> opcode = 0xD \<or> opcode = 0xe then insn AND 0xFFFF else SE (insn AND 0xFFFF) 16)
         else if opcode \<ge> 0x28 \<or> opcode = 0x22 \<or> opcode = 0x26 then reg rtReg
         else vreturn 0)"

definition dest_reg :: "u32 \<Rightarrow> u32" where
  "dest_reg insn =
     (let opcode = drop_bit 26 insn
      in if opcode = 0 \<or> opcode = 0x1c then drop_bit 11 insn AND 0x1F else drop_bit 16 insn AND 0x1F)"

text \<open>The instructions of the opcode 0 that do not write back a computed value; \<open>None\<close> for the others.\<close>

definition special :: "mips_env \<Rightarrow> u32 \<Rightarrow> u32 \<Rightarrow> u32 \<Rightarrow> u32 \<Rightarrow> unit vm option" where
  "special env fn rdReg rs rt =
     (if fn \<ge> 8 \<and> fn < 0x1c then
        if fn = 8 \<or> fn = 9 then Some (handleJump (if fn = 9 then rdReg else 0) rs)
        else if fn = 0xa then Some (handleRd rdReg rs (rt = 0))
        else if fn = 0xb then Some (handleRd rdReg rs (rt \<noteq> 0))
        else if fn = 0xC then Some (handleSyscall env)
        else if fn \<ge> 0x10 \<and> fn < 0x1c then Some (handleHiLo fn rs rt rdReg)
        else None
      else None)"

definition write_back :: "mips_env \<Rightarrow> u32 \<Rightarrow> u32 \<Rightarrow> u32 \<Rightarrow> u32 \<Rightarrow> unit vm" where
  "write_back env insn rdReg storeAddr val =
     (let opcode = drop_bit 26 insn; rtReg = drop_bit 16 insn AND 0x1F in
      vbind (if opcode = 0x38 \<and> rtReg \<noteq> 0 then smodify (set_reg rtReg 1) else vreturn ()) (\<lambda>_.
      vbind (if storeAddr \<noteq> 0xFFFFFFFF
             then vbind (trackMemAccess env storeAddr) (\<lambda>_. vSetMemory storeAddr val) else vreturn ()) (\<lambda>_.
      handleRd rdReg val True)))"

definition exec_insn :: "mips_env \<Rightarrow> u32 \<Rightarrow> unit vm" where
  "exec_insn env insn =
     (let opcode = drop_bit 26 insn; rtReg = drop_bit 16 insn AND 0x1F; fn = insn AND 0x3F in
      vbind (reg (drop_bit 21 insn AND 0x1F)) (\<lambda>rs0.
      vbind (operand_rt insn) (\<lambda>rt.
        if opcode \<ge> 4 \<and> opcode < 8 \<or> opcode = 1 then handleBranch opcode insn rtReg rs0
        else
          let rs = (if opcode \<ge> 0x20 then rs0 + SE (insn AND 0xFFFF) 16 else rs0);
              addr = rs AND 0xFFFFFFFC;
              store = (opcode \<ge> 0x28 \<and> opcode \<noteq> 0x30);
              storeAddr = (if store then addr else 0xFFFFFFFF);
              rdReg = (if store then 0 else dest_reg insn)
          in vbind (if opcode \<ge> 0x20 then vbind (trackMemAccess env addr) (\<lambda>_. vGetMemory addr) else vreturn 0) (\<lambda>mem.
             vbind (vlift (execute insn rs rt mem)) (\<lambda>val.
               case (if opcode = 0 then special env fn rdReg rs rt else None) of
                 Some handler \<Rightarrow> handler
               | None \<Rightarrow> write_back env insn rdReg storeAddr val)))))"

definition mipsStep :: "mips_env \<Rightarrow> unit vm" where
  "mipsStep env =
     vbind (vget (\<lambda>m. Exited (is_state m))) (\<lambda>exited.
       if exited then vreturn ()
       else
         vbind (smodify (\<lambda>s. s\<lparr>st_Step := st_Step s + 1\<rparr>)) (\<lambda>_.
         vbind (vget (\<lambda>m. PC (is_state m))) (\<lambda>pc.
         vbind (vGetMemory pc) (\<lambda>insn.
           if drop_bit 26 insn = 2 \<or> drop_bit 26 insn = 3 then
             vbind (vget (\<lambda>m. NextPC (is_state m))) (\<lambda>nextPC.
               handleJump (if drop_bit 26 insn = 3 then 31 else 0)
                 ((nextPC AND 0xF0000000) OR push_bit 2 (insn AND 0x03FFFFFF)))
           else exec_insn env insn))))"

section \<open>Witnesses\<close>

definition EncodeWitness :: "mips_env \<Rightarrow> bytes vm" where
  "EncodeWitness env =
     vbind (vMerkleRoot env) (\<lambda>memRoot.
     vget (\<lambda>m. let s = is_state m in
       memRoot @ PreimageKey s @ put_u32 (PreimageOffset s) @ put_u32 (PC s) @ put_u32 (NextPC s) @ put_u32 (LO s) @
       put_u32 (HI s) @ put_u32 (Heap s) @ [ExitCode s] @ [if Exited s then 1 else 0] @ put_u64 (st_Step s) @
       concat (map put_u32 (Registers s))))"

record step_witness =
  wit_State :: bytes
  wit_MemProof :: bytes
  wit_PreimageKey :: hash
  wit_PreimageValue :: bytes
  wit_PreimageOffset :: u32

text \<open>\<open>Step\<close> returns no witness unless it is asked for a proof.\<close>

definition Mips_Step :: "mips_env \<Rightarrow> bool \<Rightarrow> step_witness option vm" where
  "Mips_Step env proof =
     vbind (vmodify (\<lambda>m. m\<lparr>memProofEnabled := proof, lastMemAccess := NOT 0, lastPreimageOffset := NOT 0\<rparr>)) (\<lambda>_.
     vbind (if proof then
              vbind (vget (\<lambda>m. PC (is_state m))) (\<lambda>pc.
              vbind (vMerkleProof env pc) (\<lambda>insnProof.
              vbind (EncodeWitness env) (\<lambda>w. vreturn (insnProof, w))))
            else vreturn ([], [])) (\<lambda>(insnProof, w).
     vbind (mipsStep env) (\<lambda>_.
     vget (\<lambda>m.
       if \<not> proof then None
       else let preimage = (lastPreimageOffset m \<noteq> NOT 0)
            in Some \<lparr>wit_State = w, wit_MemProof = insnProof @ memProof m,
                 wit_PreimageKey = if preimage then lastPreimageKey m else replicate 32 0,
                 wit_PreimageValue = if preimage then lastPreimage m else [],
                 wit_PreimageOffset = if preimage then lastPreimageOffset m else 0\<rparr>))))"

end
