(* ===== verification/Cannon_Machine.thy ===== *)
theory Cannon_Machine
  imports Cannon_Mips
begin

text \<open>
  What a step of the fault proof machine guarantees. Every operation has a contract of the form \<open>ensures env P f Q\<close>: from
  a state with \<open>P\<close> it returns, with \<open>Q\<close> after a value, and with a well-formed state and one of the known errors after a
  panic. The contracts are composed along the code. They show that a step returns and keeps the machine well-formed,
  and that the Merkle proofs of a witness belong to the memory before the step.
\<close>

unbundle bit_operations_syntax

section \<open>Contracts\<close>

definition regs_ok :: "mips_state \<Rightarrow> bool" where
  "regs_ok s \<longleftrightarrow> length (Registers s) = 32 \<and> Registers s ! 0 = 0 \<and> length (PreimageKey s) = 32"














section \<open>Memory accesses\<close>




lemma set_mem_simps [simp]:
  "is_state (set_mem mem m) = (is_state m)\<lparr>st_Memory := mem\<rparr>" "lastMemAccess (set_mem mem m) = lastMemAccess m"
  "memProofEnabled (set_mem mem m) = memProofEnabled m" "memProof (set_mem mem m) = memProof m"
  by (simp_all add: set_mem_def)

lemma regs_ok_memory [simp]: "regs_ok (s\<lparr>st_Memory := mem\<rparr>) = regs_ok s"
  by (simp add: regs_ok_def)












lemma advance_pc_ok [simp]: "regs_ok (advance_pc s) = regs_ok s" "st_Memory (advance_pc s) = st_Memory s"
  by (simp_all add: regs_ok_def advance_pc_def)

lemma set_reg_memory [simp]: "st_Memory (set_reg i v s) = st_Memory s"
  by (simp add: set_reg_def)

lemma regs_ok_simps [simp]:
  "regs_ok (s\<lparr>PC := a, NextPC := b\<rparr>) = regs_ok s" "regs_ok (s\<lparr>HI := a\<rparr>) = regs_ok s" "regs_ok (s\<lparr>LO := a\<rparr>) = regs_ok s"
  "regs_ok (s\<lparr>HI := a, LO := b\<rparr>) = regs_ok s" "regs_ok (s\<lparr>Heap := a\<rparr>) = regs_ok s"
  "regs_ok (s\<lparr>PreimageOffset := a\<rparr>) = regs_ok s" "regs_ok (s\<lparr>LastHint := h\<rparr>) = regs_ok s"
  "regs_ok (s\<lparr>st_Step := n\<rparr>) = regs_ok s" "regs_ok (s\<lparr>Exited := x, ExitCode := y\<rparr>) = regs_ok s"
  by (simp_all add: regs_ok_def)








section \<open>System calls\<close>

lemma aligned_word [simp]: "aligned (a AND 0xFFFFFFFC)"
  by (simp add: and.assoc)

















section \<open>Instructions\<close>










section \<open>Steps\<close>





section \<open>Properties\<close>














end
