(* ===== verification/Cannon_Execute.thy ===== *)
theory Cannon_Execute
  imports Cannon_Mips
begin

text \<open>
  The arithmetic of the machine, \<open>execute\<close> and \<open>SE\<close> of \<open>cannon/mipsevm/mips.go\<close>, against reference definitions: loads and
  stores of parts of a word against lists of bytes, sign extension and arithmetic shifts against signed integers, and
  the buffer of hints.
\<close>

unbundle bit_operations_syntax

section \<open>Sign extension\<close>

lemma SE_eq_signed_take_bit:
  assumes n: "0 < n" "n < 32" and dat: "take_bit n dat = dat"
  shows "SE dat (of_nat n) = signed_take_bit (n - 1) dat"
proof -
  have idx: "unat (of_nat n :: u32) = n" using n by (simp add: unat_of_nat)
  have one: "unat (of_nat n - 1 :: u32) = n - 1"
    using n by (subst unat_sub) (simp_all add: word_le_nat_alt idx)
  have rest: "unat (32 - of_nat n :: u32) = 32 - n"
    using n by (subst unat_sub) (simp_all add: word_le_nat_alt idx)
  have high: "\<not> bit dat j" if "n \<le> j" for j using dat that by (metis bit_take_bit_iff not_le)
  have bits: "bit (drop_bit (n - 1) dat) j \<longleftrightarrow> j = 0 \<and> bit dat (n - 1)" for j
  proof -
    have "j = 0" if "bit dat (n - 1 + j)"
    proof (rule ccontr)
      assume "j \<noteq> 0"
      then have "n \<le> n - 1 + j" using n(1) by linarith
      then show False using high that by blast
    qed
    then show ?thesis unfolding bit_drop_bit_eq comp_def by auto
  qed
  have signed: "(drop_bit (n - 1) dat \<noteq> 0) = bit dat (n - 1)"
    unfolding bit_eq_iff [of "drop_bit (n - 1) dat"] bits by auto
  have mask: "push_bit n 1 - 1 = (mask n :: u32)" by (simp add: mask_eq_exp_minus_1 push_bit_of_1)
  have "push_bit (32 - n) 1 - 1 = (mask (32 - n) :: u32)" by (simp add: mask_eq_exp_minus_1 push_bit_of_1)
  then have "SE dat (of_nat n) = (if bit dat (n - 1) then (dat AND mask n) OR push_bit n (mask (32 - n)) else dat AND mask n)"
    unfolding SE_def Let_def idx one rest signed mask by simp
  also have "\<dots> = signed_take_bit (n - 1) dat"
  proof (rule bit_eqI)
    fix j assume "possible_bit TYPE(u32) j"
    have edge: "j = n - Suc 0" if "n - Suc 0 \<le> j" "\<not> n \<le> j" using that by simp
    show "bit (if bit dat (n - 1) then (dat AND mask n) OR push_bit n (mask (32 - n)) else dat AND mask n) j =
        bit (signed_take_bit (n - 1) dat) j"
      using n high edge \<open>possible_bit TYPE(u32) j\<close>
      by (auto simp: bit_simps bit_signed_take_bit_iff min_def not_less possible_bit_word)
  qed
  finally show ?thesis .
qed

section \<open>Words and bytes\<close>

lemma put_u32_bytes: "put_u32 w = [ucast (drop_bit 24 w), ucast (drop_bit 16 w), ucast (drop_bit 8 w), ucast w]"
proof -
  have byte: "(of_nat (unat w div 2 ^ k) :: byte) = ucast (drop_bit k w)" for k
    by (metis drop_bit_eq_div of_nat_unat unat_drop_bit_eq)
  have "be_bytes 4 x = [of_nat (x div 2 ^ 24), of_nat (x div 2 ^ 16), of_nat (x div 2 ^ 8), of_nat (x div 2 ^ 0)]" for x
  proof -
    have four: "4 = Suc (Suc (Suc (Suc 0)))" by simp
    have "be_bytes 4 x = be_bytes (Suc (Suc (Suc (Suc 0)))) x" by (rule arg_cong [OF four])
    also have "\<dots> = [of_nat (x div 256 div 256 div 256), of_nat (x div 256 div 256), of_nat (x div 256), of_nat x]"
      by (simp only: be_bytes.simps append.simps)
    finally show ?thesis by (simp add: div_mult2_eq [symmetric])
  qed
  then have "put_u32 w = [of_nat (unat w div 2 ^ 24), of_nat (unat w div 2 ^ 16), of_nat (unat w div 2 ^ 8), of_nat (unat w div 2 ^ 0)]"
    unfolding put_u32_def by blast
  then show ?thesis unfolding byte by simp
qed

lemma get_u32_unique: "put_u32 w = bs \<Longrightarrow> w = get_u32 bs"
  by (metis get_put_u32)

text \<open>The parts of a word, by the bytes of the register (\<open>R\<close>) and of the memory (\<open>Mb\<close>); \<open>a\<close> is the position of the address
  in the word.\<close>

definition byte_ref :: "u32 \<Rightarrow> nat \<Rightarrow> bytes \<Rightarrow> bytes \<Rightarrow> bytes" where
  "byte_ref opcode a R Mb =
     (let h = a div 2 * 2 in
      if opcode = 0x22 then drop a Mb @ drop (4 - a) R
      else if opcode = 0x24 then [0, 0, 0, Mb ! a]
      else if opcode = 0x25 then [0, 0, Mb ! h, Mb ! (h + 1)]
      else if opcode = 0x26 then take (3 - a) R @ take (a + 1) Mb
      else if opcode = 0x28 then Mb[a := R ! 3]
      else if opcode = 0x29 then Mb[h := R ! 2, h + 1 := R ! 3]
      else if opcode = 0x2a then take a Mb @ take (4 - a) R
      else drop (3 - a) R @ drop (a + 1) Mb)"

lemma byte_bit: "bit (ucast (drop_bit n w) :: byte) j \<longleftrightarrow> j < 8 \<and> bit w (n + j)" for w :: u32
  by (auto simp: bit_simps possible_bit_word dest: bit_imp_le_length)

lemma offset_cases:
  fixes rs :: u32
  obtains "rs AND 3 = 0" "unat rs mod 4 = 0" "rs AND 2 = 0" | "rs AND 3 = 1" "unat rs mod 4 = 1" "rs AND 2 = 0"
    | "rs AND 3 = 2" "unat rs mod 4 = 2" "rs AND 2 = 2" | "rs AND 3 = 3" "unat rs mod 4 = 3" "rs AND 2 = 2"
proof -
  have and3: "rs AND 3 = of_nat (unat rs mod 4)" by (metis of_nat_unat page_key(3) ucast_id)
  have and2: "rs AND 2 = (rs AND 3) AND 2" by (simp add: and.assoc)
  have "unat rs mod 4 < 4" by simp
  then consider "unat rs mod 4 = 0" | "unat rs mod 4 = 1" | "unat rs mod 4 = 2" | "unat rs mod 4 = 3" by linarith
  then show thesis by cases (use that and3 and2 in simp_all)
qed

lemma byte_bit_0: "bit (ucast w :: byte) j \<longleftrightarrow> j < 8 \<and> bit w j" for w :: u32
  using byte_bit [of 0 w j] by simp

lemma bit_all: "bit (0xFFFFFFFF :: u32) n \<longleftrightarrow> n < 32" "bit (0xFFFF :: u32) n \<longleftrightarrow> n < 16" "bit (0xFF :: u32) n \<longleftrightarrow> n < 8"
proof -
  have "(0xFFFFFFFF :: u32) = mask 32" "(0xFFFF :: u32) = mask 16" "(0xFF :: u32) = mask 8" by (simp_all add: mask_eq_exp_minus_1)
  then show "bit (0xFFFFFFFF :: u32) n \<longleftrightarrow> n < 32" "bit (0xFFFF :: u32) n \<longleftrightarrow> n < 16" "bit (0xFF :: u32) n \<longleftrightarrow> n < 8"
    by (simp_all only: bit_mask_iff possible_bit_word) auto
qed

lemmas byte_bits = bit_and_iff bit_or_iff bit_xor_iff bit_not_iff bit_push_bit_iff bit_drop_bit_eq possible_bit_word
  bit_all comp_def

lemma bytes_eqI:
  fixes w :: u32
  assumes len: "length bs = 4" and bits: "\<And>k j. k < 4 \<Longrightarrow> j < 8 \<Longrightarrow> bit w (24 - 8 * k + j) = bit (bs ! k) j"
  shows "w = get_u32 bs"
proof (rule get_u32_unique)
  have byte: "(ucast (drop_bit (24 - 8 * k) w) :: byte) = bs ! k" if "k < 4" for k
    by (rule bit_eqI) (use that bits [of k] in \<open>auto simp: byte_bit possible_bit_word\<close>)
  have "bs = map ((!) bs) [0..<4]" using len by (metis map_nth)
  also have "\<dots> = [bs ! 0, bs ! 1, bs ! 2, bs ! 3]" by (simp add: upt_rec numeral_2_eq_2 numeral_3_eq_3)
  finally show "put_u32 w = bs"
    unfolding put_u32_bytes using byte [of 0] byte [of 1] byte [of 2] byte [of 3] by simp
qed

lemma shifts:
  fixes rs :: u32
  shows "unat ((rs AND 3) * 8) = 8 * (unat rs mod 4)" "unat (24 - (rs AND 3) * 8) = 24 - 8 * (unat rs mod 4)"
    "unat (16 - (rs AND 2) * 8) = 16 - 16 * (unat rs mod 4 div 2)"
  by (cases rs rule: offset_cases; simp; fail)+

lemma bit_high: "32 \<le> n \<Longrightarrow> bit w n \<longleftrightarrow> False" for w :: u32
  using bit_imp_le_length [of w n] by auto

lemma part_cases:
  assumes "(a :: nat) < 4" "a = 0 \<Longrightarrow> P" "a = 1 \<Longrightarrow> P" "a = 2 \<Longrightarrow> P" "a = 3 \<Longrightarrow> P"
  shows P
  using assms by linarith

lemma parts:
  fixes rt mem :: u32
  shows "a < 4 \<Longrightarrow> (rt AND NOT (push_bit (8 * a) 0xFFFFFFFF)) OR push_bit (8 * a) mem = get_u32 (byte_ref 0x22 a (put_u32 rt) (put_u32 mem))"
    and "a < 4 \<Longrightarrow> drop_bit (24 - 8 * a) mem AND 0xFF = get_u32 (byte_ref 0x24 a (put_u32 rt) (put_u32 mem))"
    and "a < 4 \<Longrightarrow> drop_bit (16 - 16 * (a div 2)) mem AND 0xFFFF = get_u32 (byte_ref 0x25 a (put_u32 rt) (put_u32 mem))"
    and "a < 4 \<Longrightarrow> (rt AND NOT (drop_bit (24 - 8 * a) 0xFFFFFFFF)) OR drop_bit (24 - 8 * a) mem =
      get_u32 (byte_ref 0x26 a (put_u32 rt) (put_u32 mem))"
    and "a < 4 \<Longrightarrow> (mem AND (0xFFFFFFFF XOR push_bit (24 - 8 * a) 0xFF)) OR push_bit (24 - 8 * a) (rt AND 0xFF) =
      get_u32 (byte_ref 0x28 a (put_u32 rt) (put_u32 mem))"
    and "a < 4 \<Longrightarrow> (mem AND (0xFFFFFFFF XOR push_bit (16 - 16 * (a div 2)) 0xFFFF)) OR push_bit (16 - 16 * (a div 2)) (rt AND 0xFFFF) =
      get_u32 (byte_ref 0x29 a (put_u32 rt) (put_u32 mem))"
    and "a < 4 \<Longrightarrow> (mem AND NOT (drop_bit (8 * a) 0xFFFFFFFF)) OR drop_bit (8 * a) rt =
      get_u32 (byte_ref 0x2a a (put_u32 rt) (put_u32 mem))"
    and "a < 4 \<Longrightarrow> (mem AND NOT (push_bit (24 - 8 * a) 0xFFFFFFFF)) OR push_bit (24 - 8 * a) rt =
      get_u32 (byte_ref 0x2e a (put_u32 rt) (put_u32 mem))"
  by -
    (rule bytes_eqI, (erule part_cases; simp add: byte_ref_def Let_def; fail), unfold byte_bits,
      (erule part_cases; erule part_cases; simp add: byte_ref_def put_u32_bytes byte_bit byte_bit_0 Let_def bit_drop_bit_eq bit_high; fail))+

text \<open>C27: The loads and stores of parts of a word (\<open>lwl\<close>, \<open>lbu\<close>, \<open>lhu\<close>, \<open>lwr\<close>, \<open>sb\<close>, \<open>sh\<close>, \<open>swl\<close>, \<open>swr\<close>), which \<open>execute\<close>
  computes with shifts and masks, agree with the byte-wise reference on the big-endian bytes of the register and the
  memory word, for every position of the address in the word; \<open>lb\<close> and \<open>lh\<close> are the sign extensions of \<open>lbu\<close> and \<open>lhu\<close>.\<close>

theorem byte_access_correct:
  assumes "drop_bit 26 insn = opcode"
  shows "(opcode \<in> {0x22, 0x24, 0x25, 0x26, 0x28, 0x29, 0x2a, 0x2e} \<longrightarrow>
      execute insn rs rt mem = Inr (get_u32 (byte_ref opcode (unat rs mod 4) (put_u32 rt) (put_u32 mem)))) \<and>
    (opcode = 0x20 \<longrightarrow>
      execute insn rs rt mem = Inr (signed_take_bit 7 (get_u32 (byte_ref 0x24 (unat rs mod 4) (put_u32 rt) (put_u32 mem))))) \<and>
    (opcode = 0x21 \<longrightarrow>
      execute insn rs rt mem = Inr (signed_take_bit 15 (get_u32 (byte_ref 0x25 (unat rs mod 4) (put_u32 rt) (put_u32 mem)))))"
proof (intro conjI impI)
  note ex = execute_def Let_def assms shifts
  have a: "unat rs mod 4 < 4" by simp
  show "opcode \<in> {0x22, 0x24, 0x25, 0x26, 0x28, 0x29, 0x2a, 0x2e} \<Longrightarrow>
      execute insn rs rt mem = Inr (get_u32 (byte_ref opcode (unat rs mod 4) (put_u32 rt) (put_u32 mem)))"
    unfolding ex by (elim insertE emptyE; simp add: parts [OF a, where rt = rt and mem = mem] del: push_bit_and)
  have low: "take_bit 8 (w AND 0xFF) = w AND 0xFF" "take_bit 16 (w AND 0xFFFF) = w AND 0xFFFF" for w :: u32
    by (rule bit_eqI, simp only: bit_take_bit_iff byte_bits, blast)+
  show "opcode = 0x20 \<Longrightarrow>
      execute insn rs rt mem = Inr (signed_take_bit 7 (get_u32 (byte_ref 0x24 (unat rs mod 4) (put_u32 rt) (put_u32 mem))))"
    using SE_eq_signed_take_bit [of 8, OF _ _ low(1)] unfolding ex parts(2) [OF a, symmetric] by simp
  show "opcode = 0x21 \<Longrightarrow>
      execute insn rs rt mem = Inr (signed_take_bit 15 (get_u32 (byte_ref 0x25 (unat rs mod 4) (put_u32 rt) (put_u32 mem))))"
    using SE_eq_signed_take_bit [of 16, OF _ _ low(2)] unfolding ex parts(3) [OF a, symmetric] by simp
qed

lemma byte_access_correct_witness:
  "drop_bit 26 0x88000000 = (0x22 :: u32) \<and> execute 0x88000000 1 0x11223344 0xAABBCCDD = Inr 0xBBCCDD44 \<and>
   drop_bit 26 0x80000000 = (0x20 :: u32) \<and> execute 0x80000000 3 0 0xAABBCCDD = Inr 0xFFFFFFDD"
proof -
  have lwl: "drop_bit 26 0x88000000 = (0x22 :: u32)" and lb: "drop_bit 26 0x80000000 = (0x20 :: u32)" by simp_all
  have bytes: "get_u32 (byte_ref 0x22 (unat (1 :: u32) mod 4) (put_u32 0x11223344) (put_u32 0xAABBCCDD)) = 0xBBCCDD44"
    "signed_take_bit 7 (get_u32 (byte_ref 0x24 (unat (3 :: u32) mod 4) (put_u32 0) (put_u32 0xAABBCCDD))) = (0xFFFFFFDD :: u32)"
    by (simp_all add: byte_ref_def put_u32_bytes get_u32_def be_nat_def)
  show ?thesis
    using byte_access_correct [OF lwl, of 1 "0x11223344" "0xAABBCCDD"] byte_access_correct [OF lb, of 3 0 "0xAABBCCDD"] lwl lb
    unfolding bytes by blast
qed

section \<open>Arithmetic shifts\<close>

lemma SE_drop_bit:
  assumes "k < 32"
  shows "SE (drop_bit k rt) (32 - of_nat k) = signed_drop_bit k rt"
proof (cases "k = 0")
  case True
  have "rt AND 0xFFFFFFFF = rt" by (rule bit_eqI) (simp only: bit_and_iff bit_all possible_bit_word, simp)
  then show ?thesis using True unfolding SE_def Let_def by (simp add: push_bit_eq_mult)
next
  case False
  have "take_bit (32 - k) (drop_bit k rt) = drop_bit k rt"
    by (rule bit_eqI) (auto simp: bit_simps dest: bit_imp_le_length)
  then have "SE (drop_bit k rt) (of_nat (32 - k)) = signed_take_bit (32 - k - 1) (drop_bit k rt)"
    using False assms by (intro SE_eq_signed_take_bit) simp_all
  also have "\<dots> = signed_drop_bit k rt"
  proof (rule bit_eqI)
    fix n assume "possible_bit TYPE(u32) n"
    moreover have "k + n = 31" if "31 - k \<le> n" "\<not> 32 - k \<le> n" using that assms by simp
    ultimately show "bit (signed_take_bit (32 - k - 1) (drop_bit k rt)) n = bit (signed_drop_bit k rt) n"
      using False assms by (auto simp: bit_simps bit_signed_take_bit_iff min_def possible_bit_word)
  qed
  finally show ?thesis using assms by (simp add: of_nat_diff)
qed

text \<open>The arithmetic shifts divide the signed value by a power of two, rounding down: \<open>sra\<close> for every shift amount of the
  instruction, and \<open>srav\<close> when the shift amount in the register is below 32. For a larger one \<open>srav\<close> gives 0: it does not
  reduce the amount to its five low bits, as \<open>sllv\<close> and \<open>srlv\<close> do.\<close>

theorem arithmetic_shifts:
  assumes "drop_bit 26 insn = 0"
  shows "(insn AND 0x3F = 3 \<longrightarrow>
      (\<exists>w. execute insn rs rt mem = Inr w \<and> sint w = sint rt div 2 ^ unat (drop_bit 6 insn AND 0x1F))) \<and>
    (insn AND 0x3F = 7 \<and> unat rs < 32 \<longrightarrow>
      (\<exists>w. execute insn rs rt mem = Inr w \<and> sint w = sint rt div 2 ^ unat rs)) \<and>
    (insn AND 0x3F = 7 \<and> 32 \<le> unat rs \<longrightarrow> execute insn rs rt mem = Inr 0)"
proof (intro conjI impI; (elim conjE)?)
  note ex = execute_def Let_def assms
  have sra: "SE (drop_bit (unat k) rt) (32 - k) = signed_drop_bit (unat k) rt" if "unat k < 32" for k
    using SE_drop_bit [OF that, of rt] by simp
  have "drop_bit 6 insn AND 0x1F \<le> 0x1F" by (rule word_and_le1)
  then have small: "unat (drop_bit 6 insn AND 0x1F) < 32" by (simp add: word_le_nat_alt)
  show "insn AND 0x3F = 3 \<Longrightarrow>
      \<exists>w. execute insn rs rt mem = Inr w \<and> sint w = sint rt div 2 ^ unat (drop_bit 6 insn AND 0x1F)"
    unfolding ex using sra [OF small] by (simp add: sint_signed_drop_bit_eq drop_bit_eq_div)
  show "\<exists>w. execute insn rs rt mem = Inr w \<and> sint w = sint rt div 2 ^ unat rs" if "insn AND 0x3F = 7" "unat rs < 32"
    unfolding ex using that sra by (simp add: sint_signed_drop_bit_eq drop_bit_eq_div)
  show "execute insn rs rt mem = Inr 0" if "insn AND 0x3F = 7" "32 \<le> unat rs"
  proof -
    have zero: "drop_bit (unat rs) rt = 0" using that(2) by (intro bit_eqI) (auto simp: bit_simps dest: bit_imp_le_length)
    show ?thesis unfolding ex using that by (simp add: zero SE_def)
  qed
qed

lemma arithmetic_shifts_witness:
  "(drop_bit 26 0x00000103 = (0 :: u32) \<and> (0x00000103 :: u32) AND 0x3F = 3 \<and>
    (\<exists>w. execute 0x00000103 0 (- 256) 0 = Inr w \<and> sint w = - 16)) \<and>
   (0x00000007 :: u32) AND 0x3F = 7 \<and> execute 0x00000007 36 (- 256) 0 = Inr 0"
proof -
  have sra: "drop_bit 26 0x00000103 = (0 :: u32)" "(0x00000103 :: u32) AND 0x3F = 3"
    "sint (- 256 :: u32) div 2 ^ unat (drop_bit 6 0x00000103 AND 0x1F :: u32) = - 16"
    and srav: "drop_bit 26 0x00000007 = (0 :: u32)" "(0x00000007 :: u32) AND 0x3F = 7" "32 \<le> unat (36 :: u32)"
    by code_simp+
  show ?thesis
    using arithmetic_shifts [OF sra(1), of 0 "- 256" 0] arithmetic_shifts [OF srav(1), of 36 "- 256" 0] sra srav by metis
qed

section \<open>Hints\<close>

text \<open>A buffer of hints is emptied only when it holds exactly one hint, which is then sent to the oracle. With more bytes
  than the first hint needs no hint is sent, and with fewer, when the hint was written in several pieces, the program
  panics: the test of the loop has its comparison the wrong way round.\<close>

theorem hint_buffer:
  assumes "4 \<le> length buf" "length buf < 2 ^ 32"
  shows "process_hints buf hints =
    (let n = unat (get_u32 (take 4 buf)); k = length buf - 4
     in if n = k then ([], hints @ [drop 4 buf], True) else if k < n then (buf, hints, False) else (buf, hints, True))"
proof -
  define n where "n = unat (get_u32 (take 4 buf))"
  define k where "k = length buf - 4"
  have n32: "n < 2 ^ 32" unfolding n_def using unsigned_less [of "get_u32 (take 4 buf)"] by simp
  have k: "length buf = k + 4" "k < 2 ^ 32" using assms by (simp_all add: k_def)
  have le: "get_u32 (take 4 buf) \<ge> of_nat (length (drop 4 buf)) \<longleftrightarrow> k \<le> n"
    using k by (simp add: word_le_nat_alt n_def unat_of_nat)
  have sum: "unat (4 + get_u32 (take 4 buf)) = (4 + n) mod 2 ^ 32"
    unfolding n_def unat_word_ariths by simp
  have empty: "process_hints [] hs = ([], hs, True)" for hs by (subst process_hints.simps) simp
  define e where "e = unat (4 + get_u32 (take 4 buf))"
  have step: "process_hints buf hints =
      (if k \<le> n then if e < 4 \<or> e > length buf then (buf, hints, False)
                     else process_hints (drop e buf) (hints @ [take (e - 4) (drop 4 buf)])
       else (buf, hints, True))"
    unfolding process_hints.simps [of buf hints] Let_def le e_def [symmetric] using assms(1) by simp
  consider "n < k" | "n = k" | "k < n" by linarith
  then have "process_hints buf hints =
    (if n = k then ([], hints @ [drop 4 buf], True) else if k < n then (buf, hints, False) else (buf, hints, True))"
  proof cases
    case 1
    then show ?thesis by (simp add: step)
  next
    case 2
    then have "e = length buf" using k assms unfolding e_def sum by simp
    then show ?thesis using 2 assms(1) by (simp add: step empty)
  next
    case 3
    have "e < 4 \<or> length buf < e" using 3 n32 k unfolding e_def sum by (cases "4 + n < 2 ^ 32") (auto simp: mod_if)
    then show ?thesis using 3 by (simp add: step)
  qed
  then show ?thesis unfolding n_def k_def Let_def .
qed

lemma hint_buffer_witness:
  "process_hints [0, 0, 0, 2, 7, 8] [] = ([], [[7, 8]], True) \<and>
   process_hints [0, 0, 0, 2, 7] [] = ([0, 0, 0, 2, 7], [], False) \<and>
   process_hints [0, 0, 0, 1, 7, 0, 0, 0, 1, 8] [] = ([0, 0, 0, 1, 7, 0, 0, 0, 1, 8], [], True)"
proof -
  have "get_u32 [0, 0, 0, 2] = 2" "get_u32 [0, 0, 0, 1] = 1" by code_simp+
  then show ?thesis
    using hint_buffer [of "[0, 0, 0, 2, 7, 8]" "[]"] hint_buffer [of "[0, 0, 0, 2, 7]" "[]"]
      hint_buffer [of "[0, 0, 0, 1, 7, 0, 0, 0, 1, 8]" "[]"] by simp
qed

end
