(* ===== verification/Game_Position.thy ===== *)
theory Game_Position
  imports Rollup
begin

text \<open>
  Positions in the tree of a dispute game, \<open>op-challenger/game/fault/types/position.go\<close>. An \<open>int\<close> of Go is a word of 64
  bits that is read as a signed number; a shift by a negative amount panics. The lemmas read positions as pairs of
  natural numbers: a position of depth \<open>d\<close> and index \<open>i\<close> in a game of depth \<open>m\<close> commits to the trace up to the index
  \<open>(i + 1) * 2 ^ (m - d) - 1\<close>.
\<close>

unbundle bit_operations_syntax

section \<open>Positions\<close>

type_synonym goint = "64 word"

record position =
  pos_depth :: goint
  pos_indexAtDepth :: goint

definition NewPosition :: "goint \<Rightarrow> goint \<Rightarrow> position" where
  "NewPosition depth indexAtDepth = \<lparr>pos_depth = depth, pos_indexAtDepth = indexAtDepth\<rparr>"

text \<open>The loop of \<open>MSBIndex\<close> counts the shifts until nothing is left.\<close>

function count_shifts :: "u64 \<Rightarrow> goint" where
  "count_shifts x = (if x = 0 then 0 else 1 + count_shifts (drop_bit 1 x))"
  by pat_completeness auto
termination
proof (relation "measure unat")
  fix x :: u64 assume "x \<noteq> 0"
  then have "0 < unat x" by (simp add: unat_gt_0)
  then show "(drop_bit 1 x, x) \<in> measure unat" by (simp only: unat_drop_bit_eq in_measure) (simp add: drop_bit_eq_div)
qed simp

declare count_shifts.simps [simp del]

definition MSBIndex :: "u64 \<Rightarrow> goint" where
  "MSBIndex x = (if x = 0 then 0 else count_shifts x - 1)"

definition NewPositionFromGIndex :: "u64 \<Rightarrow> position" where
  "NewPositionFromGIndex x =
     (let depth = MSBIndex x; indexAtDepth = NOT (push_bit (unat depth) 1) AND x in NewPosition depth indexAtDepth)"

definition IsRootPosition :: "position \<Rightarrow> bool" where
  "IsRootPosition p \<longleftrightarrow> pos_depth p = 0 \<and> pos_indexAtDepth p = 0"

definition go_shl :: "goint \<Rightarrow> goint \<Rightarrow> goint result" where
  "go_shl x n = (if sint n < 0 then Inl (Panic ''negative shift amount'') else Inr (push_bit (unat n) x))"

definition TraceIndex :: "goint \<Rightarrow> position \<Rightarrow> u64 result" where
  "TraceIndex maxDepth p =
     (let rd = maxDepth - pos_depth p
      in rbind (go_shl (pos_indexAtDepth p) rd) (\<lambda>shifted.
         rbind (go_shl 1 rd) (\<lambda>ones. Inr (shifted OR (ones - 1)))))"

definition boolToInt :: "bool \<Rightarrow> goint" where
  "boolToInt b = (if b then 1 else 0)"

definition pos_move :: "bool \<Rightarrow> position \<Rightarrow> position" where
  "pos_move right p =
     p\<lparr>pos_depth := pos_depth p + 1, pos_indexAtDepth := push_bit 1 (pos_indexAtDepth p) OR boolToInt right\<rparr>"

definition pos_parent :: "position \<Rightarrow> position" where
  "pos_parent p = p\<lparr>pos_depth := pos_depth p - 1, pos_indexAtDepth := signed_drop_bit 1 (pos_indexAtDepth p)\<rparr>"

definition Attack :: "position \<Rightarrow> position" where
  "Attack p = pos_move False (NewPosition (pos_depth p) (pos_indexAtDepth p))"

definition Defend :: "position \<Rightarrow> position" where
  "Defend p = pos_move False (pos_move True (pos_parent (NewPosition (pos_depth p) (pos_indexAtDepth p))))"

definition ToGIndex :: "position \<Rightarrow> u64 result" where
  "ToGIndex p = rbind (go_shl 1 (pos_depth p)) (\<lambda>b. Inr (b OR pos_indexAtDepth p))"

section \<open>Positions as numbers\<close>

definition pos_at :: "nat \<Rightarrow> nat \<Rightarrow> position" where
  "pos_at d i = NewPosition (of_nat d) (of_nat i)"

text \<open>The positions of the trees that the game is played on: the deepest game has depth 63, so that every index fits.\<close>

definition pos_ok :: "nat \<Rightarrow> position \<Rightarrow> bool" where
  "pos_ok m p \<longleftrightarrow> unat (pos_depth p) \<le> m \<and> unat (pos_indexAtDepth p) < 2 ^ unat (pos_depth p)"

lemma pos_at_simps [simp]: "d < 2 ^ 64 \<Longrightarrow> unat (pos_depth (pos_at d i)) = d" "i < 2 ^ 64 \<Longrightarrow> unat (pos_indexAtDepth (pos_at d i)) = i"
  by (simp_all add: pos_at_def NewPosition_def unat_of_nat)

lemma pos_at_self: "p = pos_at (unat (pos_depth p)) (unat (pos_indexAtDepth p))"
  by (simp add: pos_at_def NewPosition_def)

lemma pos_okE:
  assumes "pos_ok m p"
  obtains d i where "p = pos_at d i" "d \<le> m" "i < 2 ^ d"
  using assms pos_at_self [of p] unfolding pos_ok_def by blast

lemma pow_bound: "i < 2 ^ d \<Longrightarrow> d \<le> 63 \<Longrightarrow> i < (2 :: nat) ^ 63"
  by (meson less_le_trans one_le_numeral power_increasing)

lemma pos_ok_at: "m \<le> 63 \<Longrightarrow> pos_ok m (pos_at d i) \<longleftrightarrow> d \<le> m \<and> i < 2 ^ d" if "d < 2 ^ 64" "i < 2 ^ 64"
  using that by (simp add: pos_ok_def)

lemma go_shl_ok: "n < 64 \<Longrightarrow> go_shl x (of_nat n) = Inr (push_bit n x)"
  using sint_nonneg [of "of_nat n"] by (simp add: go_shl_def unat_of_nat)

lemma unat_or_disjoint:
  fixes a b :: "64 word"
  assumes "unat a = 2 ^ r * x" "unat b < 2 ^ r"
  shows "unat (a OR b) = unat a + unat b"
proof -
  have "push_bit r x AND take_bit r (unat b) = 0"
    by (rule bit_eqI) (auto simp: bit_simps)
  moreover have "take_bit r (unat b) = unat b" using assms(2) by (simp add: take_bit_nat_eq_self_iff)
  ultimately have "unat a AND unat b = 0" using assms(1) by (simp add: push_bit_eq_mult mult.commute)
  then show ?thesis unfolding unsigned_or_eq by (simp add: disjunctive_add_eq_or)
qed

lemma unat_push_bit: "unat (push_bit n w) = 2 ^ n * unat w" if "2 ^ n * unat w < 2 ^ 64" for w :: "64 word"
  using that by (simp only: unsigned_push_bit_eq) (simp add: take_bit_nat_eq_self_iff push_bit_eq_mult mult.commute)

text \<open>What a position commits to.\<close>

definition trace_of :: "nat \<Rightarrow> nat \<Rightarrow> nat \<Rightarrow> nat" where
  "trace_of m d i = (i + 1) * 2 ^ (m - d) - 1"

lemma trace_of_bound: "d \<le> m \<Longrightarrow> i < 2 ^ d \<Longrightarrow> trace_of m d i < 2 ^ m"
proof -
  assume "d \<le> m" "i < 2 ^ d"
  then have "(i + 1) * 2 ^ (m - d) \<le> 2 ^ d * 2 ^ (m - d)" by (intro mult_le_mono1) simp
  also have "\<dots> = (2 :: nat) ^ m" using \<open>d \<le> m\<close> by (simp flip: power_add)
  finally show ?thesis unfolding trace_of_def by (metis One_nat_def Suc_diff_1 Suc_le_lessD add_gr_0 zero_less_one
        mult_pos_pos zero_less_numeral zero_less_power)
qed

lemma TraceIndex_at:
  assumes "d \<le> m" "m \<le> 63" "i < 2 ^ d"
  shows "TraceIndex (of_nat m) (pos_at d i) = Inr (of_nat (trace_of m d i))"
proof -
  define r where "r = m - d"
  have r: "r < 64" using assms by (simp add: r_def)
  have rd: "of_nat m - of_nat d = (of_nat r :: goint)" using assms by (simp add: r_def of_nat_diff)
  have "i * 2 ^ r + 2 ^ r \<le> 2 ^ d * 2 ^ r" using assms(3) by (metis Suc_leI add.commute mult_Suc mult_le_mono1)
  also have "\<dots> = 2 ^ m" using assms(1) by (simp add: r_def flip: power_add)
  also have "\<dots> \<le> (2 :: nat) ^ 63" using assms(2) by (intro power_increasing) auto
  finally have fits: "i * 2 ^ r + 2 ^ r \<le> (2 :: nat) ^ 63" .
  have i: "unat (of_nat i :: goint) = i" using pow_bound [OF assms(3)] assms by (simp add: unat_of_nat)
  have shifted: "unat (push_bit r (of_nat i) :: goint) = 2 ^ r * i"
    using fits by (subst unat_push_bit) (simp_all add: i mult.commute)
  have one: "unat (push_bit r 1 :: goint) = 2 ^ r" using fits by (subst unat_push_bit) simp_all
  then have ones: "unat (push_bit r 1 - 1 :: goint) = 2 ^ r - 1" by (subst unat_sub) (simp_all add: word_le_nat_alt)
  have "unat (push_bit r (of_nat i) OR (push_bit r 1 - 1) :: goint) = trace_of m d i"
    using unat_or_disjoint [OF shifted, of "push_bit r 1 - 1"] unfolding shifted ones trace_of_def
    by (simp add: algebra_simps flip: r_def)
  then have "push_bit r (of_nat i) OR (push_bit r 1 - 1) = (of_nat (trace_of m d i) :: goint)" by (metis of_nat_unat ucast_id)
  then show ?thesis unfolding TraceIndex_def Let_def pos_at_def NewPosition_def using r by (simp add: rd go_shl_ok)
qed

lemma Attack_at: "Attack (pos_at d i) = pos_at (d + 1) (2 * i)"
  by (simp add: Attack_def pos_move_def pos_at_def NewPosition_def boolToInt_def push_bit_eq_mult mult.commute)

lemma half_index: "i < 2 ^ 63 \<Longrightarrow> signed_drop_bit 1 (of_nat i :: goint) = of_nat (i div 2)"
proof -
  assume "i < 2 ^ 63"
  then have "sint (of_nat i :: goint) = int i" "sint (of_nat (i div 2) :: goint) = int (i div 2)"
    using sint_nonneg [of "of_nat i"] sint_nonneg [of "of_nat (i div 2)"] by (simp_all add: unat_of_nat)
  then have "sint (signed_drop_bit 1 (of_nat i :: goint)) = sint (of_nat (i div 2) :: goint)"
    by (simp only: sint_signed_drop_bit_eq) (simp add: drop_bit_eq_div zdiv_int)
  then show ?thesis by (rule signed_word_eqI)
qed

lemma Defend_at: "0 < d \<Longrightarrow> i < 2 ^ 63 \<Longrightarrow> Defend (pos_at d i) = pos_at (d + 1) (4 * (i div 2) + 2)"
  unfolding Defend_def pos_at_def NewPosition_def pos_parent_def pos_move_def boolToInt_def
  by (simp add: half_index [unfolded One_nat_def] or_one_eq push_bit_eq_mult algebra_simps)

section \<open>Generalized indices\<close>

lemma count_shifts_eq: "2 ^ d \<le> unat x \<Longrightarrow> unat x < 2 ^ (d + 1) \<Longrightarrow> count_shifts x = of_nat (d + 1)"
proof (induction d arbitrary: x)
  case 0
  then have "x = 1" by (simp add: word_unat_eq_iff)
  then show ?case by (simp add: count_shifts.simps)
next
  case (Suc d)
  have half: "unat (drop_bit 1 x) = unat x div 2" by (simp only: unat_drop_bit_eq) (simp add: drop_bit_eq_div)
  have "count_shifts (drop_bit 1 x) = of_nat (d + 1)"
    using Suc.prems by (intro Suc.IH; unfold half) simp_all
  moreover have "x \<noteq> 0" using Suc.prems(1) by auto
  ultimately show ?case by (subst count_shifts.simps) simp
qed

definition gidx :: "nat \<Rightarrow> nat \<Rightarrow> u64" where
  "gidx d i = of_nat (2 ^ d + i)"

lemma gidx_parts:
  assumes "d < 64" "i < 2 ^ d"
  shows "unat (gidx d i) = 2 ^ d + i" "push_bit d 1 OR of_nat i = gidx d i" "gidx d i \<noteq> 0"
proof -
  have "2 ^ d + i < (2 :: nat) ^ (d + 1)" using assms(2) by simp
  also have "\<dots> \<le> 2 ^ 64" using assms(1) by (intro power_increasing) auto
  finally have fits: "2 ^ d + i < (2 :: nat) ^ 64" .
  then have small: "i < 2 ^ 64" "2 ^ d < (2 :: nat) ^ 64" by simp_all
  show x: "unat (gidx d i) = 2 ^ d + i" unfolding gidx_def using fits by (simp only: unat_of_nat) simp
  then show "gidx d i \<noteq> 0" by (metis add_is_0 power_not_zero unat_0 zero_neq_numeral)
  have i: "unat (of_nat i :: u64) = i" using small by (simp add: unat_of_nat)
  have top: "unat (push_bit d 1 :: u64) = 2 ^ d * 1" using small by (subst unat_push_bit) simp_all
  from unat_or_disjoint [OF this, of "of_nat i"] show "push_bit d 1 OR of_nat i = gidx d i"
    unfolding word_unat_eq_iff x i using assms(2) top by simp
qed

lemma ToGIndex_at: "d < 64 \<Longrightarrow> i < 2 ^ d \<Longrightarrow> ToGIndex (pos_at d i) = Inr (gidx d i)"
  using gidx_parts(2) [of d i] by (simp add: ToGIndex_def pos_at_def NewPosition_def go_shl_ok)

lemma FromGIndex_at:
  assumes "d < 64" "i < 2 ^ d"
  shows "NewPositionFromGIndex (gidx d i) = pos_at d i"
proof -
  note x = gidx_parts [OF assms]
  have "2 ^ d + i < 2 ^ (d + 1)" using assms(2) by simp
  then have "count_shifts (gidx d i) = of_nat (d + 1)" by (intro count_shifts_eq) (simp_all only: x(1) le_add1)
  then have depth: "MSBIndex (gidx d i) = of_nat d" using x(3) by (simp add: MSBIndex_def)
  have "\<not> bit i d" using assms(2) by (simp add: bit_iff_odd)
  then have "\<not> bit (of_nat i :: u64) d" by (simp add: bit_of_nat_iff)
  then have "NOT (push_bit d 1) AND (push_bit d 1 OR of_nat i) = (of_nat i :: u64)"
    by (intro bit_eqI) (auto simp: bit_simps)
  then have "NOT (push_bit d 1) AND gidx d i = (of_nat i :: u64)" unfolding x(2) .
  then show ?thesis unfolding NewPositionFromGIndex_def Let_def depth using assms(1)
    by (simp add: pos_at_def unat_of_nat)
qed

lemma gidx_cases:
  assumes "x \<noteq> (0 :: u64)"
  obtains d i where "d < 64" "i < 2 ^ d" "x = gidx d i"
proof -
  obtain d where d: "2 ^ d \<le> unat x" "unat x < 2 ^ (d + 1)"
    using ex_power_ivl1 [of 2 "unat x"] assms by (auto simp: unat_gt_0 Suc_le_eq)
  have "unat x < 2 ^ 64" using unsigned_less [of x] by simp
  then have "(2 :: nat) ^ d < 2 ^ 64" using d(1) by (rule order.strict_trans1 [rotated])
  then have "d < 64" by (simp only: power_strict_increasing_iff)
  moreover have "x = gidx d (unat x - 2 ^ d)" unfolding gidx_def using d(1) by (simp only: le_add_diff_inverse) simp
  ultimately show thesis using d by (intro that [of d "unat x - 2 ^ d"]) simp_all
qed

text \<open>A generalized index other than 0 is recovered from its position, and a position of a tree from its generalized
  index. The index 0, which no node has, is read as the root.\<close>

theorem gindex_roundtrip:
  "(x \<noteq> 0 \<longrightarrow> ToGIndex (NewPositionFromGIndex x) = Inr x) \<and>
   (pos_ok 63 p \<longrightarrow> (\<exists>y. ToGIndex p = Inr y \<and> y \<noteq> 0 \<and> NewPositionFromGIndex y = p)) \<and>
   NewPositionFromGIndex 0 = pos_at 0 0"
proof (intro conjI impI)
  assume "x \<noteq> 0"
  then show "ToGIndex (NewPositionFromGIndex x) = Inr x" by (rule gidx_cases) (simp add: ToGIndex_at FromGIndex_at)
next
  assume "pos_ok 63 p"
  then obtain d i where p: "p = pos_at d i" "d \<le> 63" "i < 2 ^ d" by (rule pos_okE)
  then have "d < 64" by simp
  then show "\<exists>y. ToGIndex p = Inr y \<and> y \<noteq> 0 \<and> NewPositionFromGIndex y = p"
    using p ToGIndex_at [of d i] FromGIndex_at [of d i] gidx_parts(3) [of d i] by simp
qed (simp add: NewPositionFromGIndex_def MSBIndex_def pos_at_def)

end
