(* ===== verification/Game_State.thy ===== *)
theory Game_State
  imports Game_Position "HOL-Library.Signed_Division" "HOL-Library.Multiset"
begin

text \<open>
  The claims of a dispute game, \<open>op-challenger/game/fault/types/types.go\<close> and \<open>game.go\<close>: the local copy of the tree of
  claims that the challenger builds from the contract. The map from claims to pointers is a map to records, since no
  record is reached by two pointers. The walk over the tree is a partial function; the theorem shows that it ends.
\<close>

section \<open>Types\<close>

definition ErrGameDepthReached :: error where "ErrGameDepthReached = Errorf ''game depth reached''"

type_synonym game_status = u8

definition GameStatusInProgress :: game_status where "GameStatusInProgress = 0"
definition GameStatusChallengerWon :: game_status where "GameStatusChallengerWon = 1"
definition GameStatusDefenderWon :: game_status where "GameStatusDefenderWon = 2"

definition GameStatusFromUint8 :: "u8 \<Rightarrow> game_status result" where
  "GameStatusFromUint8 i = (if i > 2 then Inl (Errorf ''invalid game status'') else Inr i)"

record preimage_oracle_data =
  IsLocal :: bool
  OracleKey :: bytes
  OracleData :: bytes
  OracleOffset :: u32

definition GetType :: "preimage_oracle_data \<Rightarrow> int result" where
  "GetType p = (case OracleKey p of [] \<Rightarrow> Inl (Panic ''index out of range'') | b # _ \<Rightarrow> Inr (uint b))"

definition GetIdent :: "preimage_oracle_data \<Rightarrow> int result" where
  "GetIdent p = (case OracleKey p of [] \<Rightarrow> Inl (Panic ''slice bounds out of range'') | _ # bs \<Rightarrow> Inr (int (be_nat bs)))"

definition GetPreimageWithoutSize :: "preimage_oracle_data \<Rightarrow> bytes result" where
  "GetPreimageWithoutSize p =
     (if length (OracleData p) < 8 then Inl (Panic ''slice bounds out of range'') else Inr (drop 8 (OracleData p)))"

definition NewPreimageOracleData :: "bytes \<Rightarrow> bytes \<Rightarrow> u32 \<Rightarrow> preimage_oracle_data" where
  "NewPreimageOracleData key dat offset =
     \<lparr>IsLocal = (key \<noteq> [] \<and> hd key = 1), OracleKey = key, OracleData = dat, OracleOffset = offset\<rparr>"

record step_call_data =
  sc_ClaimIndex :: u64
  sc_IsAttack :: bool
  sc_StateData :: bytes
  sc_Proof :: bytes

record claim_data =
  cd_Value :: hash
  cd_Position :: position

record claim =
  cl_Data :: claim_data
  cl_Countered :: bool
  cl_Clock :: u64
  cl_Parent :: claim_data
  cl_ContractIndex :: goint
  cl_ParentContractIndex :: goint

definition ValueBytes :: "claim_data \<Rightarrow> hash" where
  "ValueBytes c = take 32 (cd_Value c)"

abbreviation claim_pos :: "claim \<Rightarrow> position" where
  "claim_pos c \<equiv> cd_Position (cl_Data c)"

definition IsRoot :: "claim \<Rightarrow> bool" where
  "IsRoot c = IsRootPosition (claim_pos c)"

definition DefendsParent :: "claim \<Rightarrow> bool" where
  "DefendsParent c \<longleftrightarrow>
     signed_drop_bit 1 (pos_indexAtDepth (claim_pos c)) \<noteq> pos_indexAtDepth (cd_Position (cl_Parent c))"

section \<open>The state of a game\<close>

definition ErrClaimExists :: error where "ErrClaimExists = Errorf ''claim exists in game state''"
definition ErrClaimNotFound :: error where "ErrClaimNotFound = Errorf ''claim not found in game state''"

record extended_claim =
  ec_self :: claim
  ec_children :: "claim_data list"

record game_state =
  agreeWithProposedOutput :: bool
  gs_root :: claim_data
  gs_claims :: "(claim_data, extended_claim) gomap"
  gs_depth :: u64

definition NewGameState :: "bool \<Rightarrow> claim \<Rightarrow> u64 \<Rightarrow> game_state" where
  "NewGameState agree root depth =
     \<lparr>agreeWithProposedOutput = agree, gs_root = cl_Data root,
      gs_claims = [(cl_Data root, \<lparr>ec_self = root, ec_children = []\<rparr>)], gs_depth = depth\<rparr>"

definition AgreeWithClaimLevel :: "claim \<Rightarrow> game_state \<Rightarrow> bool" where
  "AgreeWithClaimLevel c g =
     (let isOddLevel = (sint (pos_depth (claim_pos c)) smod 2 = 1)
      in if agreeWithProposedOutput g then isOddLevel else \<not> isOddLevel)"

definition IsDuplicate :: "claim \<Rightarrow> game_state \<Rightarrow> bool" where
  "IsDuplicate c g \<longleftrightarrow> map_of (gs_claims g) (cl_Data c) \<noteq> None"

definition Game_Put :: "claim \<Rightarrow> game_state \<Rightarrow> game_state \<times> unit result" where
  "Game_Put c g =
     (if IsRoot c \<or> IsDuplicate c g then (g, Inl ErrClaimExists)
      else case map_of (gs_claims g) (cl_Parent c) of
             None \<Rightarrow> (g, Inl (Errorf ''no parent claim''))
           | Some parent \<Rightarrow>
               let claims = AList.update (cl_Parent c) (parent\<lparr>ec_children := ec_children parent @ [cl_Data c]\<rparr>) (gs_claims g)
               in (g\<lparr>gs_claims := AList.update (cl_Data c) \<lparr>ec_self = c, ec_children = []\<rparr> claims\<rparr>, Inr ()))"

fun PutAll :: "claim list \<Rightarrow> game_state \<Rightarrow> game_state \<times> unit result" where
  "PutAll [] g = (g, Inr ())"
| "PutAll (c # cs) g = (case Game_Put c g of (g', Inl e) \<Rightarrow> (g', Inl e) | (g', Inr _) \<Rightarrow> PutAll cs g')"

definition getParent :: "claim \<Rightarrow> game_state \<Rightarrow> claim result" where
  "getParent c g =
     (if IsRoot c then Inl ErrClaimNotFound
      else case map_of (gs_claims g) (cl_Parent c) of None \<Rightarrow> Inl ErrClaimNotFound | Some parent \<Rightarrow> Inr (ec_self parent))"

text \<open>The loop of \<open>Claims\<close>; a claim that is not in the map is a nil pointer.\<close>

partial_function (option) claims_loop :: "game_state \<Rightarrow> claim_data list \<Rightarrow> claim list \<Rightarrow> claim list result option" where
  "claims_loop g queue out =
     (case queue of
        [] \<Rightarrow> Some (Inr out)
      | item # rest \<Rightarrow>
          (case map_of (gs_claims g) item of
             None \<Rightarrow> Some (Inl (Panic ''nil pointer dereference''))
           | Some e \<Rightarrow> claims_loop g (rest @ ec_children e) (out @ [ec_self e])))"

definition Game_Claims :: "game_state \<Rightarrow> claim list result option" where
  "Game_Claims g = claims_loop g [gs_root g] []"

section \<open>The tree\<close>

definition kids :: "claim list \<Rightarrow> claim_data \<Rightarrow> claim_data list" where
  "kids cs k = map cl_Data (filter (\<lambda>c. cl_Parent c = k) cs)"

lemma kids_simps [simp]: "kids [] k = []" "kids (cs @ [c]) k = kids cs k @ (if cl_Parent c = k then [cl_Data c] else [])"
  by (simp_all add: kids_def)

text \<open>A list of claims in which every claim comes after its parent and none is there twice.\<close>

definition well_built :: "claim \<Rightarrow> claim list \<Rightarrow> bool" where
  "well_built root cs \<longleftrightarrow>
     (\<forall>pre c post. cs = pre @ c # post \<longrightarrow>
        cl_Parent c \<in> cl_Data ` set (root # pre) \<and> cl_Data c \<notin> cl_Data ` set (root # pre))"

lemma well_built_Nil [simp]: "well_built root []"
  by (simp add: well_built_def)

lemma well_built_snoc:
  "well_built root (cs @ [c]) \<longleftrightarrow> well_built root cs \<and>
     cl_Parent c \<in> cl_Data ` set (root # cs) \<and> cl_Data c \<notin> cl_Data ` set (root # cs)" (is "?l = ?r")
proof
  show ?l if ?r
    using that unfolding well_built_def by (auto simp: append_eq_append_conv2 append_eq_Cons_conv Cons_eq_append_conv)
  assume l: ?l
  have "well_built root cs"
    unfolding well_built_def
  proof (intro allI impI)
    fix pre d post assume "cs = pre @ d # post"
    then have "cs @ [c] = pre @ d # (post @ [c])" by simp
    with l show "cl_Parent d \<in> cl_Data ` set (root # pre) \<and> cl_Data d \<notin> cl_Data ` set (root # pre)"
      unfolding well_built_def by blast
  qed
  then show ?r using l unfolding well_built_def by blast
qed

lemma well_built_distinct: "well_built root cs \<Longrightarrow> distinct (map cl_Data (root # cs))"
  by (induction cs rule: rev_induct) (auto simp: well_built_snoc)

definition represents :: "game_state \<Rightarrow> claim \<Rightarrow> claim list \<Rightarrow> bool" where
  "represents g root cs \<longleftrightarrow>
     well_built root cs \<and> gs_root g = cl_Data root \<and>
     (\<forall>c\<in>set (root # cs). map_of (gs_claims g) (cl_Data c) = Some \<lparr>ec_self = c, ec_children = kids cs (cl_Data c)\<rparr>) \<and>
     (\<forall>k. k \<notin> cl_Data ` set (root # cs) \<longrightarrow> map_of (gs_claims g) k = None)"

lemma represents_New: "represents (NewGameState agree root depth) root []"
  by (simp add: represents_def NewGameState_def)

lemma kids_fresh: "well_built root cs \<Longrightarrow> k \<notin> cl_Data ` set (root # cs) \<Longrightarrow> kids cs k = []"
proof (induction cs rule: rev_induct)
  case (snoc c cs)
  then show ?case by (auto simp: well_built_snoc)
qed simp

lemma Put_represents:
  assumes rep: "represents g root cs" and put: "Game_Put c g = (g', Inr u)"
  shows "represents g' root (cs @ [c])"
proof -
  have fresh: "cl_Data c \<notin> cl_Data ` set (root # cs)"
    using put rep unfolding Game_Put_def IsDuplicate_def represents_def by (auto split: if_splits)
  obtain p where p: "map_of (gs_claims g) (cl_Parent c) = Some p"
    and g': "gs_claims g' = AList.update (cl_Data c) \<lparr>ec_self = c, ec_children = []\<rparr>
        (AList.update (cl_Parent c) (p\<lparr>ec_children := ec_children p @ [cl_Data c]\<rparr>) (gs_claims g))" "gs_root g' = gs_root g"
    using put unfolding Game_Put_def Let_def by (auto split: if_splits option.splits)
  have parent: "cl_Parent c \<in> cl_Data ` set (root # cs)" using p rep unfolding represents_def by (metis option.distinct(1))
  have wb: "well_built root (cs @ [c])" using rep fresh parent unfolding represents_def well_built_snoc by blast
  have old: "map_of (gs_claims g') (cl_Data d) = Some \<lparr>ec_self = d, ec_children = kids (cs @ [c]) (cl_Data d)\<rparr>"
    if d: "d \<in> set (root # cs)" for d
  proof -
    have "map_of (gs_claims g) (cl_Data d) = Some \<lparr>ec_self = d, ec_children = kids cs (cl_Data d)\<rparr>"
      using rep d unfolding represents_def by blast
    moreover have "cl_Data d \<noteq> cl_Data c" using fresh d by (metis imageI)
    ultimately show ?thesis using p unfolding g' by auto
  qed
  have "cl_Parent c \<noteq> cl_Data c" using parent fresh by metis
  then have new: "map_of (gs_claims g') (cl_Data c) = Some \<lparr>ec_self = c, ec_children = kids (cs @ [c]) (cl_Data c)\<rparr>"
    using kids_fresh [OF _ fresh] rep unfolding g' represents_def by simp
  have "map_of (gs_claims g') k = None" if "k \<notin> cl_Data ` set (root # cs @ [c])" for k
    using that rep parent unfolding g' represents_def by auto
  then show ?thesis using wb old new rep unfolding represents_def g' by auto
qed

lemma PutAll_represents:
  "PutAll cs' g = (g', Inr u) \<Longrightarrow> represents g root cs \<Longrightarrow> represents g' root (cs @ cs')"
proof (induction cs' arbitrary: g cs)
  case (Cons c cs')
  then obtain g1 where "Game_Put c g = (g1, Inr ())" "PutAll cs' g1 = (g', Inr u)"
    by (auto split: prod.splits sum.splits)
  with Cons.IH [of g1 "cs @ [c]"] Put_represents [OF Cons.prems(2)] show ?case by simp
qed simp

section \<open>The walk over the claims\<close>

lemma reach_all:
  "well_built root cs \<Longrightarrow> cl_Data root \<in> V \<Longrightarrow> (\<And>k. k \<in> V \<Longrightarrow> set (kids cs k) \<subseteq> V) \<Longrightarrow> cl_Data ` set (root # cs) \<subseteq> V"
proof (induction cs rule: rev_induct)
  case (snoc c cs)
  have sub: "cl_Data ` set (root # cs) \<subseteq> V"
    using snoc.prems by (intro snoc.IH) (auto simp: well_built_snoc)
  moreover have "cl_Parent c \<in> V" using snoc.prems(1) sub by (auto simp: well_built_snoc)
  then have "cl_Data c \<in> V" using snoc.prems(3) by fastforce
  ultimately show ?case by simp
qed simp

text \<open>The state of the walk: the claims that were visited, and the queue of claims whose parents were visited.\<close>

definition walking :: "claim \<Rightarrow> claim list \<Rightarrow> claim_data list \<Rightarrow> claim list \<Rightarrow> bool" where
  "walking root cs queue out \<longleftrightarrow>
     set out \<subseteq> set (root # cs) \<and> set queue \<subseteq> cl_Data ` set (root # cs) \<and> distinct (map cl_Data out @ queue) \<and>
     (\<forall>c\<in>set out. set (kids cs (cl_Data c)) \<subseteq> cl_Data ` set out \<union> set queue) \<and>
     (\<forall>c\<in>set cs. cl_Data c \<in> cl_Data ` set out \<union> set queue \<longrightarrow> cl_Parent c \<in> cl_Data ` set out) \<and>
     (out = [] \<and> queue = [cl_Data root] \<or> (\<exists>out'. out = root # out' \<and> well_built root out'))"

lemma walking_start: "well_built root cs \<Longrightarrow> walking root cs [cl_Data root] []"
  using well_built_distinct [of root cs] by (auto simp: walking_def image_iff)

lemma walking_step:
  assumes wb: "well_built root cs" and w: "walking root cs (cl_Data c # rest) out" and c: "c \<in> set (root # cs)"
  shows "walking root cs (rest @ kids cs (cl_Data c)) (out @ [c])"
proof -
  let ?K = "kids cs (cl_Data c)" and ?D = "cl_Data ` set out"
  note dist = well_built_distinct [OF wb]
  have out: "set out \<subseteq> set (root # cs)" and rest: "set rest \<subseteq> cl_Data ` set (root # cs)"
    and dq: "distinct (map cl_Data out)" "distinct rest" "cl_Data c \<notin> ?D" "cl_Data c \<notin> set rest" "?D \<inter> set rest = {}"
    and closed: "\<And>d. d \<in> set out \<Longrightarrow> set (kids cs (cl_Data d)) \<subseteq> ?D \<union> insert (cl_Data c) (set rest)"
    and parents: "\<And>d. d \<in> set cs \<Longrightarrow> cl_Data d \<in> ?D \<union> insert (cl_Data c) (set rest) \<Longrightarrow> cl_Parent d \<in> ?D"
    and shape: "out = [] \<and> cl_Data c = cl_Data root \<or> (\<exists>out'. out = root # out' \<and> well_built root out')"
    using w unfolding walking_def by auto
  have inj: "inj_on cl_Data (set (root # cs))" using dist unfolding distinct_map by blast
  have kid: "\<exists>d\<in>set cs. cl_Parent d = cl_Data c \<and> k = cl_Data d" if "k \<in> set ?K" for k using that by (auto simp: kids_def)
  have kids_parent: "cl_Parent d = cl_Data c" if d: "d \<in> set cs" and k: "cl_Data d \<in> set ?K" for d
  proof -
    obtain e where e: "e \<in> set cs" "cl_Parent e = cl_Data c" "cl_Data d = cl_Data e" using kid [OF k] by blast
    then have "d = e" using inj_onD [OF inj e(3)] d by simp
    then show ?thesis using e(2) by simp
  qed
  have new: "k \<notin> ?D \<union> insert (cl_Data c) (set rest)" if "k \<in> set ?K" for k
    using kid [OF that] parents dq(3) by metis
  have dk: "distinct ?K" using dist unfolding kids_def by (simp add: distinct_map) (blast intro: inj_on_subset)
  have "\<exists>out'. out @ [c] = root # out' \<and> well_built root out'"
    using shape
  proof (elim disjE conjE exE)
    assume "out = []" "cl_Data c = cl_Data root"
    then show ?thesis using inj_onD [OF inj _ c, of root] by simp
  next
    fix out' assume o: "out = root # out'" "well_built root out'"
    then have "c \<in> set cs" using c dq(3) by auto
    then have "cl_Parent c \<in> ?D" using parents by blast
    then show ?thesis using o dq(3) by (auto simp: well_built_snoc)
  qed
  moreover have "distinct (map cl_Data (out @ [c]) @ rest @ ?K)" using dq dk new by auto
  moreover have "\<forall>d\<in>set cs. cl_Data d \<in> cl_Data ` set (out @ [c]) \<union> set (rest @ ?K) \<longrightarrow> cl_Parent d \<in> cl_Data ` set (out @ [c])"
    using parents kids_parent by auto
  moreover have "\<forall>d\<in>set (out @ [c]). set (kids cs (cl_Data d)) \<subseteq> cl_Data ` set (out @ [c]) \<union> set (rest @ ?K)"
    using closed by fastforce
  moreover have "set (rest @ ?K) \<subseteq> cl_Data ` set (root # cs)" using rest by (auto simp: kids_def)
  moreover have "set (out @ [c]) \<subseteq> set (root # cs)" using out c by auto
  ultimately show ?thesis unfolding walking_def by blast
qed

lemma walking_done:
  assumes wb: "well_built root cs" and w: "walking root cs [] out"
  shows "\<exists>cs'. out = root # cs' \<and> well_built root cs' \<and> mset cs' = mset cs"
proof -
  obtain cs' where cs': "out = root # cs'" "well_built root cs'" using w unfolding walking_def by auto
  have "cl_Data ` set (root # cs) \<subseteq> cl_Data ` set out"
    using w cs' by (intro reach_all [OF wb]) (auto simp: walking_def)
  moreover have "inj_on cl_Data (set (root # cs))" "set out \<subseteq> set (root # cs)"
    using well_built_distinct [OF wb] w unfolding distinct_map walking_def by blast+
  ultimately have "set out = set (root # cs)" by (metis inj_on_image_eq_iff subset_antisym image_mono order_refl)
  moreover have "distinct out" "distinct (root # cs)"
    using well_built_distinct [OF wb] w unfolding walking_def distinct_append distinct_map by blast+
  ultimately have "mset out = mset (root # cs)" using set_eq_iff_mset_eq_distinct by blast
  then show ?thesis using cs' by auto
qed

lemma claims_loop_ok:
  assumes rep: "represents g root cs"
  shows "walking root cs queue out \<Longrightarrow>
    \<exists>cs'. claims_loop g queue out = Some (Inr (root # cs')) \<and> well_built root cs' \<and> mset cs' = mset cs"
proof (induction "Suc (length cs) - length out" arbitrary: queue out rule: less_induct)
  case less
  have wb: "well_built root cs" using rep unfolding represents_def by blast
  show ?case
  proof (cases queue)
    case Nil
    then show ?thesis using walking_done [OF wb] less.prems by (auto simp: claims_loop.simps)
  next
    case (Cons item rest)
    then obtain c where c: "c \<in> set (root # cs)" "item = cl_Data c" using less.prems unfolding walking_def by auto
    have w: "walking root cs (rest @ kids cs (cl_Data c)) (out @ [c])"
      using walking_step [OF wb _ c(1)] less.prems Cons c(2) by blast
    have "distinct (map cl_Data (out @ [c]))" "set (map cl_Data (out @ [c])) \<subseteq> cl_Data ` set (root # cs)"
      using w unfolding walking_def by auto
    then have "length (map cl_Data (out @ [c])) \<le> card (cl_Data ` set (root # cs))"
      by (metis card_mono distinct_card finite_imageI List.finite_set)
    also have "\<dots> \<le> Suc (length cs)" using card_image_le card_length by (metis List.finite_set le_trans length_Cons)
    finally have "Suc (length cs) - length (out @ [c]) < Suc (length cs) - length out" by simp
    moreover have "map_of (gs_claims g) item = Some \<lparr>ec_self = c, ec_children = kids cs (cl_Data c)\<rparr>"
      using rep c unfolding represents_def by blast
    ultimately show ?thesis using less.hyps [OF _ w] Cons by (simp add: claims_loop.simps [of g "item # rest"])
  qed
qed

lemma PutAll_snoc:
  "PutAll (cs @ [c]) g = (case PutAll cs g of (g', Inl e) \<Rightarrow> (g', Inl e) | (g', Inr _) \<Rightarrow> Game_Put c g')"
  by (induction cs arbitrary: g) (auto split: prod.splits sum.splits)

lemma PutAll_succeeds:
  "(\<exists>g. PutAll cs (NewGameState agree root depth) = (g, Inr ())) \<longleftrightarrow> well_built root cs \<and> (\<forall>c\<in>set cs. \<not> IsRoot c)"
proof (induction cs rule: rev_induct)
  case (snoc c cs)
  have "(\<exists>g. PutAll (cs @ [c]) (NewGameState agree root depth) = (g, Inr ())) \<longleftrightarrow>
      (\<exists>g. PutAll cs (NewGameState agree root depth) = (g, Inr ()) \<and> (\<exists>g'. Game_Put c g = (g', Inr ())))"
    by (auto simp: PutAll_snoc split: prod.splits sum.splits)
  moreover have "(\<exists>g'. Game_Put c g = (g', Inr ())) \<longleftrightarrow>
      \<not> IsRoot c \<and> cl_Parent c \<in> cl_Data ` set (root # cs) \<and> cl_Data c \<notin> cl_Data ` set (root # cs)"
    if "PutAll cs (NewGameState agree root depth) = (g, Inr ())" for g
  proof -
    have "represents g root cs" using PutAll_represents [OF that represents_New] by simp
    then have dom: "map_of (gs_claims g) k = None \<longleftrightarrow> k \<notin> cl_Data ` set (root # cs)" for k
      unfolding represents_def by (metis (no_types, lifting) imageE option.distinct(1))
    show ?thesis unfolding Game_Put_def IsDuplicate_def Let_def using dom [of "cl_Parent c"] dom [of "cl_Data c"]
      by (auto split: option.splits)
  qed
  ultimately show ?case using snoc.IH by (auto simp: well_built_snoc)
qed simp

lemma Claims_listed:
  assumes "PutAll cs (NewGameState agree root depth) = (g, Inr ())"
  shows "\<exists>cs'. Game_Claims g = Some (Inr (root # cs')) \<and> mset cs' = mset cs \<and> well_built root cs'"
proof -
  have rep: "represents g root cs" using PutAll_represents [OF _ represents_New, of cs agree root depth g] assms by simp
  then have "gs_root g = cl_Data root" "walking root cs [cl_Data root] []"
    unfolding represents_def using walking_start by blast+
  then show ?thesis using claims_loop_ok [OF rep, of "[cl_Data root]" "[]"] unfolding Game_Claims_def by auto
qed

text \<open>C32: Loading the claims of a game succeeds exactly when no claim but the first is at the root position, none is there twice
  and each comes after its parent. Then listing the claims of the local game ends without a nil pointer and returns every
  loaded claim exactly once, the root first and each claim after its parent.\<close>

theorem claims_complete:
  "((\<exists>g. PutAll cs (NewGameState agree root depth) = (g, Inr ())) \<longleftrightarrow> well_built root cs \<and> (\<forall>c\<in>set cs. \<not> IsRoot c)) \<and>
   (\<forall>g. PutAll cs (NewGameState agree root depth) = (g, Inr ()) \<longrightarrow>
     (\<exists>cs'. Game_Claims g = Some (Inr (root # cs')) \<and> mset cs' = mset cs \<and> well_built root cs'))"
  using PutAll_succeeds Claims_listed by (intro conjI allI impI) metis+

definition ex_claim :: "nat \<Rightarrow> nat \<Rightarrow> nat \<Rightarrow> nat \<Rightarrow> claim" where
  "ex_claim d i pd pi =
     \<lparr>cl_Data = \<lparr>cd_Value = replicate 32 (of_nat d), cd_Position = pos_at d i\<rparr>, cl_Countered = False, cl_Clock = 0,
      cl_Parent = \<lparr>cd_Value = replicate 32 (of_nat pd), cd_Position = pos_at pd pi\<rparr>, cl_ContractIndex = of_nat d,
      cl_ParentContractIndex = of_nat pd\<rparr>"

theorem claims_complete_witness:
  "\<exists>g cs'. PutAll [ex_claim 1 0 0 0, ex_claim 2 2 1 0] (NewGameState True (ex_claim 0 0 0 0) 4) = (g, Inr ()) \<and>
     Game_Claims g = Some (Inr (ex_claim 0 0 0 0 # cs')) \<and> mset cs' = {#ex_claim 1 0 0 0, ex_claim 2 2 1 0#}"
proof -
  have "well_built (ex_claim 0 0 0 0) ([ex_claim 1 0 0 0] @ [ex_claim 2 2 1 0])"
    unfolding well_built_snoc using well_built_snoc [of "ex_claim 0 0 0 0" "[]" "ex_claim 1 0 0 0"]
    by (simp add: ex_claim_def pos_at_def NewPosition_def)
  moreover have "\<forall>c\<in>set [ex_claim 1 0 0 0, ex_claim 2 2 1 0]. \<not> IsRoot c"
    by (simp add: ex_claim_def IsRoot_def IsRootPosition_def pos_at_def NewPosition_def)
  ultimately obtain g where g: "PutAll [ex_claim 1 0 0 0, ex_claim 2 2 1 0] (NewGameState True (ex_claim 0 0 0 0) 4) = (g, Inr ())"
    using claims_complete [of "[ex_claim 1 0 0 0, ex_claim 2 2 1 0]" True "ex_claim 0 0 0 0" 4] by (metis append_Cons append_Nil)
  then show ?thesis
    using claims_complete [of "[ex_claim 1 0 0 0, ex_claim 2 2 1 0]" True "ex_claim 0 0 0 0" 4]
    by (metis mset.simps)
qed

end
