(* ===== verification/Game_Solver.thy ===== *)
theory Game_Solver
  imports Game_State
begin

text \<open>
  The solver, \<open>op-challenger/game/fault/solver/solver.go\<close>, over the interface \<open>TraceProvider\<close> of \<open>types.go\<close>, and the
  rule of the contract for the last step of a game, \<open>FaultDisputeGame.step\<close>. What the code relies on in a trace
  provider is the locale \<open>honest_trace\<close>. The main theorem is about whole games: against every opponent, the steps
  that the solver takes are accepted by the contract.
\<close>

section \<open>Trace providers\<close>

record trace_provider =
  tp_Get :: "u64 \<Rightarrow> hash result"
  tp_GetStepData :: "u64 \<Rightarrow> (bytes \<times> bytes \<times> preimage_oracle_data option) result"
  tp_AbsolutePreState :: "bytes result"

text \<open>The contract of a provider for a game of depth \<open>m\<close>, as the comments on the interface state it: \<open>h i\<close> is the claim at
  the trace index \<open>i\<close>, the pre-state of step \<open>i\<close> is the pre-image of the claim at \<open>i - 1\<close>, or of the absolute pre-state,
  and running the step on it gives the claim at \<open>i\<close>.\<close>

locale honest_trace =
  fixes tp :: trace_provider and m :: nat and keccak :: "bytes \<Rightarrow> hash" and vm :: "bytes \<Rightarrow> bytes \<Rightarrow> hash option" and absolute :: hash
    and h :: "nat \<Rightarrow> hash"
  assumes depth: "0 < m" "m \<le> 63"
    and Get: "i < 2 ^ m \<Longrightarrow> tp_Get tp (of_nat i) = Inr (h i)"
    and GetStepData: "i < 2 ^ m \<Longrightarrow> \<exists>pre pf orc. tp_GetStepData tp (of_nat i) = Inr (pre, pf, orc) \<and>
      keccak pre = (if i = 0 then absolute else h (i - 1)) \<and> vm pre pf = Some (h i)"

section \<open>The solver\<close>

definition ErrStepNonLeafNode :: error where "ErrStepNonLeafNode = Errorf ''cannot step on non-leaf claims''"
definition ErrStepAgreedClaim :: error where "ErrStepAgreedClaim = Errorf ''cannot step on claims we agree with''"

record solver =
  sv_trace :: trace_provider
  sv_gameDepth :: goint

definition NewSolver :: "goint \<Rightarrow> trace_provider \<Rightarrow> solver" where
  "NewSolver gameDepth traceProvider = \<lparr>sv_trace = traceProvider, sv_gameDepth = gameDepth\<rparr>"

definition traceAtPosition :: "solver \<Rightarrow> position \<Rightarrow> hash result" where
  "traceAtPosition s p = rbind (TraceIndex (sv_gameDepth s) p) (tp_Get (sv_trace s))"

definition agreeWithClaim :: "solver \<Rightarrow> claim_data \<Rightarrow> bool result" where
  "agreeWithClaim s c = rbind (traceAtPosition s (cd_Position c)) (\<lambda>ourValue. Inr (ourValue = cd_Value c))"

definition response :: "claim \<Rightarrow> position \<Rightarrow> hash \<Rightarrow> claim" where
  "response c p v =
     \<lparr>cl_Data = \<lparr>cd_Value = v, cd_Position = p\<rparr>, cl_Countered = False, cl_Clock = 0, cl_Parent = cl_Data c,
      cl_ContractIndex = 0, cl_ParentContractIndex = cl_ContractIndex c\<rparr>"

definition solver_attack :: "solver \<Rightarrow> claim \<Rightarrow> claim option result" where
  "solver_attack s c =
     (let p = Attack (claim_pos c)
      in rbind (on_error (Wrap ''attack claim'') (traceAtPosition s p)) (\<lambda>v. Inr (Some (response c p v))))"

definition solver_defend :: "solver \<Rightarrow> claim \<Rightarrow> claim option result" where
  "solver_defend s c =
     (if IsRoot c then Inr None
      else let p = Defend (claim_pos c)
           in rbind (on_error (Wrap ''defend claim'') (traceAtPosition s p)) (\<lambda>v. Inr (Some (response c p v))))"

definition NextMove :: "solver \<Rightarrow> claim \<Rightarrow> bool \<Rightarrow> claim option result" where
  "NextMove s c agreeWithClaimLevel =
     (if agreeWithClaimLevel then Inr None
      else if pos_depth (claim_pos c) = sv_gameDepth s then Inl ErrGameDepthReached
      else rbind (agreeWithClaim s (cl_Data c)) (\<lambda>agree. if agree then solver_defend s c else solver_attack s c))"

record step_data =
  sd_LeafClaim :: claim
  sd_IsAttack :: bool
  sd_PreState :: bytes
  sd_ProofData :: bytes
  sd_OracleData :: "preimage_oracle_data option"

definition AttemptStep :: "solver \<Rightarrow> claim \<Rightarrow> bool \<Rightarrow> step_data result" where
  "AttemptStep s c agreeWithClaimLevel =
     (if pos_depth (claim_pos c) \<noteq> sv_gameDepth s then Inl ErrStepNonLeafNode
      else if agreeWithClaimLevel then Inl ErrStepAgreedClaim
      else rbind (agreeWithClaim s (cl_Data c)) (\<lambda>claimCorrect.
           rbind (TraceIndex (sv_gameDepth s) (claim_pos c)) (\<lambda>index.
           rbind (tp_GetStepData (sv_trace s) (if \<not> claimCorrect then index else index + 1)) (\<lambda>(preState, proofData, oracleData).
             Inr \<lparr>sd_LeafClaim = c, sd_IsAttack = \<not> claimCorrect, sd_PreState = preState, sd_ProofData = proofData,
                  sd_OracleData = oracleData\<rparr>))))"

section \<open>The last step on the contract\<close>

abbreviation cdepth :: "claim \<Rightarrow> nat" where
  "cdepth c \<equiv> unat (pos_depth (claim_pos c))"

abbreviation cindex :: "claim \<Rightarrow> nat" where
  "cindex c \<equiv> unat (pos_indexAtDepth (claim_pos c))"

definition ctrace :: "nat \<Rightarrow> claim \<Rightarrow> nat" where
  "ctrace m c = trace_of m (cdepth c) (cindex c)"

text \<open>\<open>step\<close> of the contract for a leaf with its ancestors up to the root. The claim that commits to a trace index is found on
  the way to the root; the step counters the leaf unless it shows what the leaf's side claims.\<close>

definition contract_step ::
  "nat \<Rightarrow> (bytes \<Rightarrow> hash) \<Rightarrow> (bytes \<Rightarrow> bytes \<Rightarrow> hash option) \<Rightarrow> hash \<Rightarrow> claim \<Rightarrow> claim list \<Rightarrow> bool \<Rightarrow> bytes \<Rightarrow> bytes \<Rightarrow> bool" where
  "contract_step m keccak vm absolute leaf ancestors isAttack stateData pf =
     (let ancestor = (\<lambda>k. find (\<lambda>a. ctrace m a = k) ancestors);
          pre = (if isAttack
                 then if cindex leaf = 0 then Some absolute else map_option (\<lambda>a. cd_Value (cl_Data a)) (ancestor (cindex leaf - 1))
                 else Some (cd_Value (cl_Data leaf)));
          post = (if isAttack then Some leaf else ancestor (cindex leaf + 1))
      in cdepth leaf = m \<and>
         (case (pre, post) of
            (Some preStateClaim, Some postState) \<Rightarrow>
              keccak stateData = preStateClaim \<and>
              (case vm stateData pf of
                 None \<Rightarrow> False
               | Some result \<Rightarrow> ((cdepth leaf - cdepth postState) mod 2 = 0) \<noteq> (result = cd_Value (cl_Data postState)))
          | _ \<Rightarrow> False))"

section \<open>Games\<close>

text \<open>A line of play, newest claim first: the solver answers every claim of a level it does not agree with, the opponent
  answers the solver's claims by any attack or defence with any value. The contract allows no defence of the root.\<close>

inductive play :: "solver \<Rightarrow> game_state \<Rightarrow> claim \<Rightarrow> claim list \<Rightarrow> bool" for s g root where
  start: "IsRoot root \<Longrightarrow> play s g root [root]"
| ours: "play s g root (c # cs) \<Longrightarrow> \<not> AgreeWithClaimLevel c g \<Longrightarrow> NextMove s c (AgreeWithClaimLevel c g) = Inr (Some c') \<Longrightarrow>
    play s g root (c' # c # cs)"
| theirs: "play s g root (c # cs) \<Longrightarrow> AgreeWithClaimLevel c g \<Longrightarrow> pos_depth (claim_pos c) \<noteq> sv_gameDepth s \<Longrightarrow>
    claim_pos c' = Attack (claim_pos c) \<or> \<not> IsRoot c \<and> claim_pos c' = Defend (claim_pos c) \<Longrightarrow>
    cl_Parent c' = cl_Data c \<Longrightarrow> play s g root (c' # c # cs)"

section \<open>The invariant of a line of play\<close>

lemma odd_power_unique:
  fixes a b :: nat
  assumes "odd a" "odd b" "a * 2 ^ p = b * 2 ^ q"
  shows "p = q \<and> a = b"
proof -
  have less: False if "odd a" "a * 2 ^ p = b * 2 ^ q" "p < q" for a b p q :: nat
  proof -
    have "(2 :: nat) ^ q = 2 ^ p * 2 ^ (q - p)" using that(3) by (simp flip: power_add)
    then have "a = b * 2 ^ (q - p)" using that(2) by simp
    then show False using that(1,3) by simp
  qed
  from less [OF assms(1) assms(3)] less [OF assms(2) assms(3) [symmetric]] have "p = q"
    by (metis linorder_neqE_nat)
  then show ?thesis using assms(3) by simp
qed

lemma trace_unique:
  assumes "even i" "even j" "d \<le> m" "e \<le> m" "trace_of m d i = trace_of m e j"
  shows "d = e \<and> i = j"
proof -
  have "(i + 1) * 2 ^ (m - d) = (j + 1) * 2 ^ (m - e)" using assms(5) unfolding trace_of_def
    by (metis Suc_diff_1 Suc_eq_plus1 add_gr_0 mult_pos_pos zero_less_Suc zero_less_numeral zero_less_power)
  then show ?thesis using odd_power_unique [of "i + 1" "j + 1" "m - d" "m - e"] assms by auto
qed

lemma agrees_iff: "cdepth c < 2 ^ 63 \<Longrightarrow> AgreeWithClaimLevel c g \<longleftrightarrow> (odd (cdepth c) \<longleftrightarrow> agreeWithProposedOutput g)"
proof -
  assume "cdepth c < 2 ^ 63"
  moreover have "int n smod 2 = 1 \<longleftrightarrow> odd n" for n
    by (cases "n = 0") (simp_all add: smod_int_alt_def, presburger)
  ultimately have "sint (pos_depth (claim_pos c)) smod 2 = 1 \<longleftrightarrow> odd (cdepth c)" by (simp only: sint_nonneg)
  then show ?thesis unfolding AgreeWithClaimLevel_def Let_def by auto
qed

abbreviation cvalue :: "claim \<Rightarrow> hash" where
  "cvalue c \<equiv> cd_Value (cl_Data c)"

text \<open>The newest claim has an even index, the claims on the two sides of the interval it bisects are on the line, the left one
  is right, and the right one is right exactly when it is of a level that the solver agrees with.\<close>

definition claim_ok :: "nat \<Rightarrow> claim \<Rightarrow> bool" where
  "claim_ok m c \<longleftrightarrow> even (cindex c) \<and> cindex c < 2 ^ cdepth c \<and> cdepth c \<le> m"

definition left_of :: "nat \<Rightarrow> claim \<Rightarrow> nat" where
  "left_of m c = cindex c * 2 ^ (m - cdepth c) - 1"

definition right_of :: "nat \<Rightarrow> claim \<Rightarrow> nat" where
  "right_of m c = (cindex c + 2) * 2 ^ (m - cdepth c) - 1"

definition bounds_ok :: "nat \<Rightarrow> (nat \<Rightarrow> hash) \<Rightarrow> game_state \<Rightarrow> claim \<Rightarrow> claim list \<Rightarrow> bool" where
  "bounds_ok m h g c cs \<longleftrightarrow>
     (cindex c = 0 \<or> (\<exists>a\<in>set cs. ctrace m a = left_of m c \<and> cvalue a = h (ctrace m a))) \<and>
     (cdepth c = 0 \<or> (\<exists>a\<in>set cs. ctrace m a = right_of m c \<and>
        (cvalue a = h (ctrace m a) \<longleftrightarrow> AgreeWithClaimLevel a g)))"

definition line_ok :: "nat \<Rightarrow> (nat \<Rightarrow> hash) \<Rightarrow> game_state \<Rightarrow> claim list \<Rightarrow> bool" where
  "line_ok m h g cs \<longleftrightarrow>
     (\<forall>a\<in>set cs. claim_ok m a) \<and> sorted_wrt (>) (map cdepth cs) \<and>
     (case cs of [] \<Rightarrow> False
      | c # path \<Rightarrow> bounds_ok m h g c path \<and> (AgreeWithClaimLevel c g \<longrightarrow> cvalue c = h (ctrace m c)))"

lemma claim_at:
  assumes "claim_ok m c" "m \<le> 63"
  shows "claim_pos c = pos_at (cdepth c) (cindex c)" "cindex c < 2 ^ 63"
  using assms pos_at_self [of "claim_pos c"] pow_bound [of "cindex c" "cdepth c"] unfolding claim_ok_def by auto

lemma moved_claim:
  assumes ok: "claim_ok m c" and m: "m \<le> 63" "cdepth c < m" and j: "j = 2 * cindex c \<or> j = 2 * cindex c + 2 \<and> 0 < cdepth c"
    and pos: "claim_pos c' = pos_at (cdepth c + 1) j"
  shows "cdepth c' = cdepth c + 1" "cindex c' = j" "claim_ok m c'"
proof -
  obtain k where k: "cindex c = 2 * k" using ok unfolding claim_ok_def by (blast elim: evenE)
  have "2 * k < 2 ^ cdepth c" using ok k unfolding claim_ok_def by simp
  moreover have "2 * k + 2 \<le> 2 ^ cdepth c" if "0 < cdepth c"
    using calculation that by (cases "cdepth c") auto
  ultimately have lt: "j < 2 ^ (cdepth c + 1)" using j k by auto
  then have "j < 2 ^ 64" using pow_bound [of j "cdepth c + 1"] m by simp
  then show d: "cdepth c' = cdepth c + 1" and i: "cindex c' = j" using pos m by simp_all
  show "claim_ok m c'" unfolding claim_ok_def d i using lt j m k by auto
qed

lemma attack_claim:
  assumes "claim_ok m c" "m \<le> 63" "cdepth c < m" "claim_pos c' = Attack (claim_pos c)"
  shows "cdepth c' = cdepth c + 1" "cindex c' = 2 * cindex c" "claim_ok m c'"
proof -
  have "claim_pos c' = pos_at (cdepth c + 1) (2 * cindex c)" using claim_at [OF assms(1,2)] Attack_at assms(4) by metis
  from moved_claim [OF assms(1-3) _ this] show "cdepth c' = cdepth c + 1" "cindex c' = 2 * cindex c" "claim_ok m c'" by blast+
qed

lemma defend_claim:
  assumes "claim_ok m c" "m \<le> 63" "cdepth c < m" "0 < cdepth c" "claim_pos c' = Defend (claim_pos c)"
  shows "cdepth c' = cdepth c + 1" "cindex c' = 2 * cindex c + 2" "claim_ok m c'"
proof -
  have "4 * (cindex c div 2) + 2 = 2 * cindex c + 2" using assms(1) unfolding claim_ok_def by auto
  then have "claim_pos c' = pos_at (cdepth c + 1) (2 * cindex c + 2)"
    using claim_at [OF assms(1,2)] Defend_at [OF assms(4)] assms(5) by metis
  from moved_claim [OF assms(1-3) _ this] assms(4)
  show "cdepth c' = cdepth c + 1" "cindex c' = 2 * cindex c + 2" "claim_ok m c'" by blast+
qed

lemma halves: "d < m \<Longrightarrow> (2 :: nat) ^ (m - d) = 2 * 2 ^ (m - (d + 1))"
  by (metis Suc_diff_Suc Suc_eq_plus1 power_Suc)

lemma line_extend:
  assumes line: "line_ok m h g (c # cs)" and new: "cdepth c' = cdepth c + 1" "claim_ok m c'" "bounds_ok m h g c' (c # cs)"
    and val: "AgreeWithClaimLevel c' g \<longrightarrow> cvalue c' = h (ctrace m c')"
  shows "line_ok m h g (c' # c # cs)"
  using assms unfolding line_ok_def by fastforce

lemma line_attack:
  assumes line: "line_ok m h g (c # cs)" and m: "m \<le> 63" "cdepth c < m" and pos: "claim_pos c' = Attack (claim_pos c)"
    and right: "cvalue c = h (ctrace m c) \<longleftrightarrow> AgreeWithClaimLevel c g"
    and val: "AgreeWithClaimLevel c' g \<longrightarrow> cvalue c' = h (ctrace m c')"
  shows "line_ok m h g (c' # c # cs)"
proof -
  have ok: "claim_ok m c" and b: "bounds_ok m h g c cs" using line unfolding line_ok_def by auto
  note c' = attack_claim [OF ok m pos]
  have sides: "left_of m c' = left_of m c" "right_of m c' = ctrace m c" "cindex c' = 0 \<longleftrightarrow> cindex c = 0"
    unfolding c' left_of_def right_of_def ctrace_def trace_of_def halves [OF m(2)] by (simp_all add: algebra_simps)
  have "bounds_ok m h g c' (c # cs)" using b right unfolding bounds_ok_def sides by auto
  then show ?thesis using line_extend [OF line c'(1,3) _ val] by blast
qed

lemma line_defend:
  assumes line: "line_ok m h g (c # cs)" and m: "m \<le> 63" "cdepth c < m" "0 < cdepth c"
    and pos: "claim_pos c' = Defend (claim_pos c)" and right: "cvalue c = h (ctrace m c)"
    and val: "AgreeWithClaimLevel c' g \<longrightarrow> cvalue c' = h (ctrace m c')"
  shows "line_ok m h g (c' # c # cs)"
proof -
  have ok: "claim_ok m c" and b: "bounds_ok m h g c cs" using line unfolding line_ok_def by auto
  note c' = defend_claim [OF ok m pos]
  have sides: "left_of m c' = ctrace m c" "right_of m c' = right_of m c"
    unfolding c' left_of_def right_of_def ctrace_def trace_of_def halves [OF m(2)] by (simp_all add: algebra_simps)
  have "bounds_ok m h g c' (c # cs)" using b right m(3) unfolding bounds_ok_def sides by auto
  then show ?thesis using line_extend [OF line c'(1,3) _ val] by blast
qed

section \<open>Honest play\<close>

lemma decreasing_distinct: "sorted_wrt (>) (xs :: nat list) \<Longrightarrow> distinct xs"
  by (induction xs) auto

lemma find_ancestor:
  assumes "\<forall>a\<in>set cs. claim_ok m a" "sorted_wrt (>) (map cdepth cs)" "a \<in> set cs"
  shows "find (\<lambda>b. ctrace m b = ctrace m a) cs = Some a"
proof -
  obtain b where b: "find (\<lambda>b. ctrace m b = ctrace m a) cs = Some b"
    using assms(3) by (cases "find (\<lambda>b. ctrace m b = ctrace m a) cs") (auto simp: find_None_iff)
  then have b': "b \<in> set cs" "ctrace m b = ctrace m a" by (auto simp: find_Some_iff)
  then have "cdepth b = cdepth a" using assms(1,3) trace_unique unfolding claim_ok_def ctrace_def by blast
  moreover have "inj_on cdepth (set cs)" using decreasing_distinct [OF assms(2)] by (simp add: distinct_map)
  ultimately show ?thesis using b b'(1) assms(3) by (metis inj_onD)
qed

context honest_trace
begin

abbreviation slv :: solver where
  "slv \<equiv> NewSolver (of_nat m) tp"

lemma traceAt: "claim_ok m c \<Longrightarrow> traceAtPosition slv (claim_pos c) = Inr (h (ctrace m c))"
proof -
  assume ok: "claim_ok m c"
  then have d: "cdepth c \<le> m" "cindex c < 2 ^ cdepth c" unfolding claim_ok_def by auto
  have "TraceIndex (of_nat m) (claim_pos c) = Inr (of_nat (ctrace m c))"
    using TraceIndex_at [OF d(1) depth(2) d(2)] claim_at(1) [OF ok depth(2)] unfolding ctrace_def by metis
  then show ?thesis using Get trace_of_bound [OF d] by (simp add: traceAtPosition_def NewSolver_def ctrace_def)
qed

lemma agree_claim: "claim_ok m c \<Longrightarrow> agreeWithClaim slv (cl_Data c) = Inr (h (ctrace m c) = cvalue c)"
  using traceAt by (simp add: agreeWithClaim_def)

lemma not_leaf:
  assumes "claim_ok m c" "pos_depth (claim_pos c) \<noteq> of_nat m"
  shows "cdepth c < m"
  using assms unfolding claim_ok_def by (metis order_le_imp_less_or_eq of_nat_unat ucast_id)

lemma not_root: "claim_ok m c \<Longrightarrow> \<not> IsRoot c \<Longrightarrow> 0 < cdepth c"
  unfolding IsRoot_def IsRootPosition_def claim_ok_def by (metis gr0I less_one power_0 unat_eq_zero)

lemma answer_ok:
  assumes line: "line_ok m h g (c # cs)" and other: "\<not> AgreeWithClaimLevel c g" and answer: "NextMove slv c False = Inr (Some c')"
  shows "line_ok m h g (c' # c # cs)"
proof -
  have ok: "claim_ok m c" using line unfolding line_ok_def by auto
  have "pos_depth (claim_pos c) \<noteq> of_nat m" using answer by (auto simp: NextMove_def NewSolver_def)
  then have lt: "cdepth c < m" by (rule not_leaf [OF ok])
  show ?thesis
  proof (cases "h (ctrace m c) = cvalue c")
    case True
    then have "solver_defend slv c = Inr (Some c')"
      using answer agree_claim [OF ok] by (simp add: NextMove_def split: if_splits)
    then have root: "\<not> IsRoot c" and pos: "claim_pos c' = Defend (claim_pos c)"
      and v: "traceAtPosition slv (claim_pos c') = Inr (cvalue c')"
      unfolding solver_defend_def Let_def by (auto simp: rbind_Inr response_def split: if_splits)
    note d = not_root [OF ok root]
    then show ?thesis
      using line_defend [OF line depth(2) lt d pos] True v traceAt defend_claim(3) [OF ok depth(2) lt d pos] by simp
  next
    case False
    then have "solver_attack slv c = Inr (Some c')"
      using answer agree_claim [OF ok] by (simp add: NextMove_def split: if_splits)
    then have pos: "claim_pos c' = Attack (claim_pos c)" and v: "traceAtPosition slv (claim_pos c') = Inr (cvalue c')"
      unfolding solver_attack_def Let_def by (auto simp: rbind_Inr response_def)
    have "cvalue c = h (ctrace m c) \<longleftrightarrow> AgreeWithClaimLevel c g" using False other by auto
    then show ?thesis
      using line_attack [OF line depth(2) lt pos] v traceAt attack_claim(3) [OF ok depth(2) lt pos] by simp
  qed
qed

lemma play_ok:
  assumes "play slv g root cs" and root: "AgreeWithClaimLevel root g \<longrightarrow> cvalue root = h (2 ^ m - 1)"
  shows "line_ok m h g cs"
  using assms(1)
proof (induction rule: play.induct)
  case start
  then have "cdepth root = 0" "cindex root = 0" by (simp_all add: IsRoot_def IsRootPosition_def)
  then show ?case using root by (simp add: line_ok_def claim_ok_def bounds_ok_def ctrace_def trace_of_def)
next
  case (ours c cs c')
  then show ?case using answer_ok by simp
next
  case (theirs c cs c')
  have ok: "claim_ok m c" and c: "cvalue c = h (ctrace m c)"
    using theirs.IH theirs.hyps(2) unfolding line_ok_def by auto
  have lt: "cdepth c < m" using not_leaf [OF ok] theirs.hyps(3) by (simp add: NewSolver_def)
  have level: "\<not> AgreeWithClaimLevel c' g" if "cdepth c' = cdepth c + 1"
    using theirs.hyps(2) lt depth(2) that agrees_iff [of c g] agrees_iff [of c' g] by auto
  from theirs.hyps(4) show ?case
  proof (elim disjE conjE)
    assume pos: "claim_pos c' = Attack (claim_pos c)"
    then show ?thesis
      using line_attack [OF theirs.IH depth(2) lt pos] c theirs.hyps(2) level attack_claim(1) [OF ok depth(2) lt pos] by blast
  next
    assume "\<not> IsRoot c" and pos: "claim_pos c' = Defend (claim_pos c)"
    then have d: "0 < cdepth c" using not_root [OF ok] by blast
    show ?thesis
      using line_defend [OF theirs.IH depth(2) lt d pos c] level defend_claim(1) [OF ok depth(2) lt d pos] by blast
  qed
qed

lemma step_data_at:
  assumes "claim_ok m c" "cdepth c = m"
  shows "ctrace m c = cindex c" "TraceIndex (of_nat m) (claim_pos c) = Inr (of_nat (cindex c))" "cindex c + 1 < 2 ^ m"
proof -
  show t: "ctrace m c = cindex c" using assms by (simp add: ctrace_def trace_of_def)
  have i: "cindex c < 2 ^ m" "even (cindex c)" using assms unfolding claim_ok_def by auto
  show "TraceIndex (of_nat m) (claim_pos c) = Inr (of_nat (cindex c))"
    using TraceIndex_at [of m m "cindex c"] depth i(1) claim_at(1) [OF assms(1) depth(2)] t assms(2) unfolding ctrace_def by simp
  have "even ((2 :: nat) ^ m)" using depth(1) by simp
  then show "cindex c + 1 < 2 ^ m" using i by (metis Suc_eq_plus1 Suc_lessI even_Suc)
qed

lemma step_wins:
  assumes line: "line_ok m h g (c # cs)" and leaf: "cdepth c = m" and other: "\<not> AgreeWithClaimLevel c g"
  shows "\<exists>sd. AttemptStep slv c False = Inr sd \<and>
    contract_step m keccak vm absolute c cs (sd_IsAttack sd) (sd_PreState sd) (sd_ProofData sd)"
proof -
  have ok: "claim_ok m c" and oks: "\<forall>a\<in>set cs. claim_ok m a" and sorted: "sorted_wrt (>) (map cdepth cs)"
    and b: "bounds_ok m h g c cs" and below: "\<And>a. a \<in> set cs \<Longrightarrow> cdepth a < cdepth c"
    using line unfolding line_ok_def by auto
  note at = step_data_at [OF ok leaf]
  have word: "pos_depth (claim_pos c) = of_nat m" using leaf by (metis of_nat_unat ucast_id)
  show ?thesis
  proof (cases "h (ctrace m c) = cvalue c")
    case False
    obtain pre pf orc where sd: "tp_GetStepData tp (of_nat (cindex c)) = Inr (pre, pf, orc)"
      "keccak pre = (if cindex c = 0 then absolute else h (cindex c - 1))" "vm pre pf = Some (h (cindex c))"
      using GetStepData [of "cindex c"] at(3) by auto
    have "AttemptStep slv c False = Inr \<lparr>sd_LeafClaim = c, sd_IsAttack = True, sd_PreState = pre, sd_ProofData = pf, sd_OracleData = orc\<rparr>"
      using agree_claim [OF ok] False sd(1) at(2) word by (simp add: AttemptStep_def NewSolver_def)
    moreover have "contract_step m keccak vm absolute c cs True pre pf"
    proof (cases "cindex c = 0")
      case True
      then show ?thesis using sd leaf False at(1) by (simp add: contract_step_def)
    next
      case nz: False
      then obtain a where a: "a \<in> set cs" "ctrace m a = left_of m c" "cvalue a = h (ctrace m a)"
        using b unfolding bounds_ok_def by auto
      have "left_of m c = cindex c - 1" using leaf by (simp add: left_of_def)
      then have "find (\<lambda>b. ctrace m b = cindex c - 1) cs = Some a" "cvalue a = h (cindex c - 1)"
        using find_ancestor [OF oks sorted a(1)] a by simp_all
      then show ?thesis using sd leaf False at(1) nz by (simp add: contract_step_def)
    qed
    ultimately show ?thesis by simp
  next
    case True
    obtain pre pf orc where sd: "tp_GetStepData tp (of_nat (cindex c + 1)) = Inr (pre, pf, orc)"
      "keccak pre = h (cindex c)" "vm pre pf = Some (h (cindex c + 1))"
      using GetStepData [OF at(3)] by auto
    have "AttemptStep slv c False = Inr \<lparr>sd_LeafClaim = c, sd_IsAttack = False, sd_PreState = pre, sd_ProofData = pf, sd_OracleData = orc\<rparr>"
      using agree_claim [OF ok] True sd(1) at(2) word by (simp add: AttemptStep_def NewSolver_def add.commute)
    moreover obtain a where a: "a \<in> set cs" "ctrace m a = right_of m c" "cvalue a = h (ctrace m a) \<longleftrightarrow> AgreeWithClaimLevel a g"
      using b depth(1) leaf unfolding bounds_ok_def by auto
    have "right_of m c = cindex c + 1" using leaf by (simp add: right_of_def)
    then have f: "find (\<lambda>b. ctrace m b = cindex c + 1) cs = Some a" and v: "cvalue a = h (cindex c + 1) \<longleftrightarrow> AgreeWithClaimLevel a g"
      using find_ancestor [OF oks sorted a(1)] a by simp_all
    have "(cdepth c - cdepth a) mod 2 = 0 \<longleftrightarrow> \<not> AgreeWithClaimLevel a g"
      using below [OF a(1)] other agrees_iff [of a g] agrees_iff [of c g] leaf depth(2) by (auto simp flip: even_iff_mod_2_eq_zero)
    then have "contract_step m keccak vm absolute c cs False pre pf"
      using f v sd True at(1) leaf by (auto simp: contract_step_def)
    ultimately show ?thesis by simp
  qed
qed

end

text \<open>C28: The solver wins. In every line of play from the root in which the opponent moves in any way, when the line reaches a
  leaf of the opponent, the solver has a step, and the contract accepts it: its pre-state is the claim on the line that
  the contract looks up, and its result counters the leaf. The trace is right at the root if the solver sides with the
  root.\<close>

theorem honest_step_wins:
  assumes "honest_trace tp m keccak vm absolute h"
    and "play (NewSolver (of_nat m) tp) g root (c # cs)" "AgreeWithClaimLevel root g \<longrightarrow> cvalue root = h (2 ^ m - 1)"
    and "cdepth c = m" "\<not> AgreeWithClaimLevel c g"
  shows "\<exists>sd. AttemptStep (NewSolver (of_nat m) tp) c (AgreeWithClaimLevel c g) = Inr sd \<and>
    contract_step m keccak vm absolute c cs (sd_IsAttack sd) (sd_PreState sd) (sd_ProofData sd)"
proof -
  have "line_ok m h g (c # cs)" using honest_trace.play_ok [OF assms(1-3)] .
  then show ?thesis using honest_trace.step_wins [OF assms(1) _ assms(4,5)] assms(5) by simp
qed

end
