(* ===== verification/Game_Agent.thy ===== *)
theory Game_Agent
  imports Game_Solver
begin

text \<open>
  The challenger's agent for one game: \<open>loader.go\<close>, \<open>agent.go\<close>, \<open>responder/responder.go\<close> and \<open>player.go\<close> under
  \<open>op-challenger/game/fault\<close>. The contract is a parameter that answers the calls of the generated binding, and so is what
  becomes of a transaction; the transactions and oracle updates that the agent sends are logged in order. ABI packing is left to
  the library: a transaction is the call with its arguments.
\<close>

section \<open>Loading a game\<close>

record fdg_claim =
  fd_ParentIndex :: u32
  fd_Countered :: bool
  fd_Claim :: hash
  fd_Position :: nat
  fd_Clock :: nat

record fdg_caller =
  fc_ClaimData :: "u64 \<Rightarrow> fdg_claim result"
  fc_Status :: "u8 result"
  fc_ClaimDataLen :: "nat result"
  fc_MAXGAMEDEPTH :: "nat result"
  fc_ABSOLUTEPRESTATE :: "hash result"

definition GetGameStatus :: "fdg_caller \<Rightarrow> game_status result" where
  "GetGameStatus l = fc_Status l"

definition GetClaimCount :: "fdg_caller \<Rightarrow> u64 result" where
  "GetClaimCount l = rbind (fc_ClaimDataLen l) (\<lambda>count. Inr (of_nat count))"

definition FetchGameDepth :: "fdg_caller \<Rightarrow> u64 result" where
  "FetchGameDepth l = rbind (fc_MAXGAMEDEPTH l) (\<lambda>gameDepth. Inr (of_nat gameDepth))"

definition no_claim :: claim_data where
  "no_claim = \<lparr>cd_Value = replicate 32 0, cd_Position = NewPosition 0 0\<rparr>"

definition fetched_data :: "fdg_claim \<Rightarrow> claim_data" where
  "fetched_data f = \<lparr>cd_Value = fd_Claim f, cd_Position = NewPositionFromGIndex (of_nat (fd_Position f))\<rparr>"

definition fetchClaim :: "fdg_caller \<Rightarrow> u64 \<Rightarrow> claim result" where
  "fetchClaim l arrIndex =
     rbind (fc_ClaimData l arrIndex) (\<lambda>f.
       let c = \<lparr>cl_Data = fetched_data f, cl_Countered = fd_Countered f, cl_Clock = of_nat (fd_Clock f), cl_Parent = no_claim,
                cl_ContractIndex = arrIndex, cl_ParentContractIndex = ucast (fd_ParentIndex f)\<rparr>
       in if \<not> IsRootPosition (claim_pos c)
          then rbind (fc_ClaimData l (ucast (fd_ParentIndex f))) (\<lambda>p. Inr (c\<lparr>cl_Parent := fetched_data p\<rparr>))
          else Inr c)"

fun fetch_all :: "fdg_caller \<Rightarrow> nat list \<Rightarrow> claim list result" where
  "fetch_all l [] = Inr []"
| "fetch_all l (i # is) = rbind (fetchClaim l (of_nat i)) (\<lambda>c. rbind (fetch_all l is) (\<lambda>cs. Inr (c # cs)))"

definition FetchClaims :: "fdg_caller \<Rightarrow> claim list result" where
  "FetchClaims l = rbind (fc_ClaimDataLen l) (\<lambda>claimCount. fetch_all l [0..<unat (of_nat claimCount :: u64)])"

definition FetchAbsolutePrestateHash :: "fdg_caller \<Rightarrow> hash result" where
  "FetchAbsolutePrestateHash l = fc_ABSOLUTEPRESTATE l"

definition ValidateAbsolutePrestate :: "(bytes \<Rightarrow> hash) \<Rightarrow> trace_provider \<Rightarrow> fdg_caller \<Rightarrow> unit result" where
  "ValidateAbsolutePrestate keccak trace l =
     rbind (on_error (Wrap ''failed to get the trace provider's absolute prestate'') (tp_AbsolutePreState trace)) (\<lambda>providerPrestate.
     rbind (on_error (Wrap ''failed to get the onchain absolute prestate'') (FetchAbsolutePrestateHash l)) (\<lambda>onchainPrestate.
       if keccak providerPrestate \<noteq> onchainPrestate
       then Inl (Errorf ''trace provider's absolute prestate does not match onchain absolute prestate'') else Inr ()))"

section \<open>Transactions\<close>

datatype fdg_call =
    Call_defend goint hash
  | Call_attack goint hash
  | Call_resolve
  | Call_step goint bool bytes bytes

definition BuildTx :: "claim \<Rightarrow> fdg_call" where
  "BuildTx resp =
     (if DefendsParent resp then Call_defend (cl_ParentContractIndex resp) (ValueBytes (cl_Data resp))
      else Call_attack (cl_ParentContractIndex resp) (ValueBytes (cl_Data resp)))"

definition buildStepTxData :: "step_call_data \<Rightarrow> fdg_call" where
  "buildStepTxData sc = Call_step (sc_ClaimIndex sc) (sc_IsAttack sc) (sc_StateData sc) (sc_Proof sc)"

datatype action =
    Send fdg_call
  | UpdateOracle preimage_oracle_data

section \<open>The agent\<close>

text \<open>What the chain answers; \<open>ae_do\<close> is the outcome of an action. The agent's state is the log of its actions.\<close>

record agent_env =
  ae_loader :: fdg_caller
  ae_CallResolve :: "u8 result"
  ae_do :: "action \<Rightarrow> unit result"

record agent =
  ag_solver :: solver
  ag_maxDepth :: goint
  ag_agree :: bool

definition NewAgent :: "goint \<Rightarrow> trace_provider \<Rightarrow> bool \<Rightarrow> agent" where
  "NewAgent maxDepth trace agree = \<lparr>ag_solver = NewSolver maxDepth trace, ag_maxDepth = maxDepth, ag_agree = agree\<rparr>"

type_synonym 'a acting = "action list \<Rightarrow> action list \<times> 'a result"

definition perform :: "agent_env \<Rightarrow> action \<Rightarrow> unit acting" where
  "perform env a log = (log @ [a], ae_do env a)"

definition CallResolve :: "agent_env \<Rightarrow> game_status result" where
  "CallResolve env = rbind (ae_CallResolve env) GameStatusFromUint8"

definition shouldResolve :: "agent \<Rightarrow> game_status \<Rightarrow> bool" where
  "shouldResolve a status \<longleftrightarrow> (if ag_agree a then GameStatusChallengerWon else GameStatusDefenderWon) = status"

definition tryResolve :: "agent_env \<Rightarrow> agent \<Rightarrow> action list \<Rightarrow> action list \<times> bool" where
  "tryResolve env a log =
     (case CallResolve env of
        Inl _ \<Rightarrow> (log, False)
      | Inr status \<Rightarrow>
          if status = GameStatusInProgress then (log, False)
          else if \<not> shouldResolve a status then (log, True)
          else (fst (perform env (Send Call_resolve) log), True))"

definition newGameFromContracts :: "agent_env \<Rightarrow> agent \<Rightarrow> game_state result" where
  "newGameFromContracts env a =
     rbind (on_error (Wrap ''failed to fetch claims'') (FetchClaims (ae_loader env))) (\<lambda>claims.
       case claims of
         [] \<Rightarrow> Inl (Errorf ''no claims'')
       | root # rest \<Rightarrow>
           (case PutAll rest (NewGameState (ag_agree a) root (ag_maxDepth a)) of
              (_, Inl e) \<Rightarrow> Inl (Wrap ''failed to load claims into the local state'' e)
            | (g, Inr _) \<Rightarrow> Inr g))"

text \<open>The fields of the log line of a move are computed before the test for duplicates.\<close>

definition agent_move :: "agent_env \<Rightarrow> agent \<Rightarrow> game_state \<Rightarrow> claim \<Rightarrow> unit acting" where
  "agent_move env a g c log =
     (case NextMove (ag_solver a) c (AgreeWithClaimLevel c g) of
        Inl e \<Rightarrow> (log, on_error (Wrap ''execute next move'') (Inl e))
      | Inr None \<Rightarrow> (log, Inr ())
      | Inr (Some mv) \<Rightarrow>
          (case rbind (TraceIndex (ag_maxDepth a) (claim_pos mv)) (\<lambda>_. TraceIndex (ag_maxDepth a) (claim_pos c)) of
             Inl e \<Rightarrow> (log, Inl e)
           | Inr _ \<Rightarrow> if IsDuplicate mv g then (log, Inr ()) else perform env (Send (BuildTx mv)) log))"

definition agent_step :: "agent_env \<Rightarrow> agent \<Rightarrow> game_state \<Rightarrow> claim \<Rightarrow> unit acting" where
  "agent_step env a g c log =
     (if pos_depth (claim_pos c) \<noteq> ag_maxDepth a then (log, Inr ())
      else if AgreeWithClaimLevel c g then (log, Inr ())
      else if cl_Countered c then (log, Inr ())
      else case AttemptStep (ag_solver a) c False of
             Inl e \<Rightarrow> (log, on_error (Wrap ''attempt step'') (Inl e))
           | Inr sd \<Rightarrow>
               let sc = \<lparr>sc_ClaimIndex = cl_ContractIndex (sd_LeafClaim sd), sc_IsAttack = sd_IsAttack sd,
                         sc_StateData = sd_PreState sd, sc_Proof = sd_ProofData sd\<rparr>
               in case sd_OracleData sd of
                    None \<Rightarrow> perform env (Send (buildStepTxData sc)) log
                  | Some dat \<Rightarrow>
                      (case perform env (UpdateOracle dat) log of
                         (log', Inl e) \<Rightarrow> (log', on_error (Wrap ''failed to load oracle data'') (Inl e))
                       | (log', Inr _) \<Rightarrow> perform env (Send (buildStepTxData sc)) log'))"

text \<open>The loops of \<open>Act\<close> log an error of a claim and go on; a panic ends them.\<close>

fun each_claim :: "(claim \<Rightarrow> unit acting) \<Rightarrow> claim list \<Rightarrow> unit acting" where
  "each_claim f [] log = (log, Inr ())"
| "each_claim f (c # cs) log =
     (case f c log of
        (log', Inl e) \<Rightarrow> if is_panic e then (log', Inl e) else each_claim f cs log'
      | (log', Inr _) \<Rightarrow> each_claim f cs log')"

definition Act :: "agent_env \<Rightarrow> agent \<Rightarrow> action list \<Rightarrow> (action list \<times> unit result) option" where
  "Act env a log =
     (case tryResolve env a log of
        (log', True) \<Rightarrow> Some (log', Inr ())
      | (log', False) \<Rightarrow>
          (case newGameFromContracts env a of
             Inl e \<Rightarrow> Some (log', on_error (Wrap ''create game from contracts'') (Inl e))
           | Inr g \<Rightarrow>
               (case Game_Claims g of
                  None \<Rightarrow> None
                | Some (Inl e) \<Rightarrow> Some (log', Inl e)
                | Some (Inr claims) \<Rightarrow>
                    (case each_claim (agent_move env a g) claims log' of
                       (log'', Inl e) \<Rightarrow> Some (log'', Inl e)
                     | (log'', Inr _) \<Rightarrow> Some (each_claim (agent_step env a g) claims log'')))))"

section \<open>The player\<close>

record game_player =
  gp_agent :: agent
  gp_completed :: bool

text \<open>The result of \<open>ProgressGame\<close> says whether the game is resolved; \<open>status\<close> is what the contract says after the agent acted.\<close>

definition ProgressGame :: "agent_env \<Rightarrow> game_status result \<Rightarrow> game_player \<Rightarrow> action list \<Rightarrow>
    (game_player \<times> action list \<times> bool result) option" where
  "ProgressGame env status gp log =
     (if gp_completed gp then Some (gp, log, Inr True)
      else case Act env (gp_agent gp) log of
             None \<Rightarrow> None
           | Some (log', r) \<Rightarrow>
               (case r of
                  Inl e \<Rightarrow> if is_panic e then Some (gp, log', Inl e)
                    else (case status of Inl _ \<Rightarrow> Some (gp, log', Inr False)
                          | Inr st \<Rightarrow> let ended = (st \<noteq> GameStatusInProgress) in Some (gp\<lparr>gp_completed := ended\<rparr>, log', Inr ended))
                | Inr _ \<Rightarrow>
                    (case status of Inl _ \<Rightarrow> Some (gp, log', Inr False)
                     | Inr st \<Rightarrow> let ended = (st \<noteq> GameStatusInProgress) in Some (gp\<lparr>gp_completed := ended\<rparr>, log', Inr ended))))"

section \<open>What the agent does\<close>

text \<open>The honest answer to a claim, and the call that makes it.\<close>

definition right :: "nat \<Rightarrow> (nat \<Rightarrow> hash) \<Rightarrow> claim \<Rightarrow> bool" where
  "right m h c \<longleftrightarrow> cvalue c = h (ctrace m c)"

definition honest_answer :: "nat \<Rightarrow> (nat \<Rightarrow> hash) \<Rightarrow> claim \<Rightarrow> claim_data" where
  "honest_answer m h c =
     (let p = (if right m h c then Defend (claim_pos c) else Attack (claim_pos c))
      in \<lparr>cd_Value = h (trace_of m (unat (pos_depth p)) (unat (pos_indexAtDepth p))), cd_Position = p\<rparr>)"

definition honest_call :: "nat \<Rightarrow> (nat \<Rightarrow> hash) \<Rightarrow> claim \<Rightarrow> fdg_call" where
  "honest_call m h c =
     (if right m h c then Call_defend else Call_attack) (cl_ContractIndex c) (take 32 (cd_Value (honest_answer m h c)))"

definition answer_claim :: "nat \<Rightarrow> (nat \<Rightarrow> hash) \<Rightarrow> claim \<Rightarrow> claim" where
  "answer_claim m h c = response c (cd_Position (honest_answer m h c)) (cd_Value (honest_answer m h c))"

lemma answer_claim_data [simp]: "cl_Data (answer_claim m h c) = honest_answer m h c"
  by (simp add: answer_claim_def response_def)

lemma answer_value: "cvalue (answer_claim m h c) = h (ctrace m (answer_claim m h c))"
  by (simp add: honest_answer_def ctrace_def Let_def)

lemma defends_attack:
  assumes "claim_ok m c" "m \<le> 63" "cdepth c < m"
  shows "\<not> DefendsParent (response c (Attack (claim_pos c)) v)"
proof -
  have c: "claim_pos c = pos_at (cdepth c) (cindex c)" "cindex c < 2 ^ 63" using claim_at [OF assms(1,2)] by simp_all
  have "2 * cindex c < 2 ^ 63" using attack_claim(2,3) [OF assms, of "response c (Attack (claim_pos c)) v"] claim_at(2) [OF _ assms(2)]
    by (metis claim.select_convs(1) claim_data.select_convs(2) response_def)
  then have "signed_drop_bit 1 (of_nat (2 * cindex c) :: goint) = of_nat (cindex c)" using half_index [of "2 * cindex c"] by simp
  then show ?thesis using Attack_at [of "cdepth c" "cindex c"] c
    by (simp add: DefendsParent_def response_def) (simp add: pos_at_def NewPosition_def)
qed

lemma defends_defend:
  assumes "claim_ok m c" "m \<le> 63" "cdepth c < m" "0 < cdepth c"
  shows "DefendsParent (response c (Defend (claim_pos c)) v)"
proof -
  let ?c' = "response c (Defend (claim_pos c)) v"
  have pos: "claim_pos ?c' = Defend (claim_pos c)" by (simp add: response_def)
  note c' = defend_claim [OF assms pos]
  have "cindex ?c' < 2 ^ 63" using claim_at(2) [OF c'(3) assms(2)] .
  then have "signed_drop_bit 1 (of_nat (2 * (cindex c + 1)) :: goint) = of_nat (cindex c + 1)"
    using half_index [of "2 * (cindex c + 1)"] unfolding c' by simp
  moreover have "pos_indexAtDepth (claim_pos ?c') = of_nat (2 * (cindex c + 1))" using c'(2)
    by (metis add_mult_distrib2 mult.right_neutral of_nat_unat ucast_id)
  moreover have "(of_nat (cindex c + 1) :: goint) \<noteq> of_nat (cindex c)" by simp
  ultimately show ?thesis unfolding DefendsParent_def
    by (metis claim.select_convs(4) of_nat_unat response_def ucast_id)
qed

context honest_trace
begin

lemma answer_claim_ok:
  assumes ok: "claim_ok m c" and lt: "cdepth c < m" and move: "\<not> (IsRoot c \<and> right m h c)"
  shows "claim_ok m (answer_claim m h c)" "BuildTx (answer_claim m h c) = honest_call m h c"
proof -
  have "claim_ok m (answer_claim m h c) \<and> DefendsParent (answer_claim m h c) = right m h c"
  proof (cases "right m h c")
    case True
    then have d: "0 < cdepth c" using move not_root [OF ok] by blast
    have pos: "cd_Position (honest_answer m h c) = Defend (claim_pos c)" using True by (simp add: honest_answer_def Let_def)
    then show ?thesis
      using True defend_claim(3) [OF ok depth(2) lt d] defends_defend [OF ok depth(2) lt d] by (simp add: answer_claim_def response_def)
  next
    case False
    have pos: "cd_Position (honest_answer m h c) = Attack (claim_pos c)" using False by (simp add: honest_answer_def Let_def)
    then show ?thesis
      using False attack_claim(3) [OF ok depth(2) lt] defends_attack [OF ok depth(2) lt] by (simp add: answer_claim_def response_def)
  qed
  then show "claim_ok m (answer_claim m h c)" "BuildTx (answer_claim m h c) = honest_call m h c"
    by (simp_all add: BuildTx_def honest_call_def ValueBytes_def) (simp_all add: answer_claim_def response_def)
qed

lemma NextMove_answer:
  assumes ok: "claim_ok m c" and lt: "cdepth c < m"
  shows "NextMove slv c False = Inr (if IsRoot c \<and> right m h c then None else Some (answer_claim m h c))"
proof -
  have "pos_depth (claim_pos c) \<noteq> of_nat m" using lt depth(2) by (auto simp: unat_of_nat)
  moreover have agree: "agreeWithClaim slv (cl_Data c) = Inr (right m h c)" using agree_claim [OF ok] by (auto simp: right_def)
  moreover have "traceAtPosition slv (cd_Position (honest_answer m h c)) = Inr (cd_Value (honest_answer m h c))"
    if "\<not> (IsRoot c \<and> right m h c)"
    using traceAt [OF answer_claim_ok(1) [OF ok lt that]] answer_value [of m h c] by simp
  ultimately show ?thesis
    by (auto simp: NextMove_def NewSolver_def solver_defend_def solver_attack_def answer_claim_def honest_answer_def Let_def)
qed

lemma AttemptStep_returns:
  assumes "claim_ok m c" "cdepth c = m"
  shows "\<exists>sd. AttemptStep slv c False = Inr sd"
proof -
  note at = step_data_at [OF assms]
  have word: "pos_depth (claim_pos c) = of_nat m" using assms(2) by (metis of_nat_unat ucast_id)
  have "\<exists>x. tp_GetStepData tp (if \<not> right m h c then of_nat (cindex c) else of_nat (cindex c) + 1) = Inr x"
    using GetStepData [of "cindex c"] GetStepData [OF at(3)] at(3) by (cases "right m h c") (auto simp: add.commute)
  moreover have "agreeWithClaim slv (cl_Data c) = Inr (right m h c)" using agree_claim [OF assms(1)] by (auto simp: right_def)
  ultimately show ?thesis using at(2) word by (auto simp: AttemptStep_def NewSolver_def)
qed

lemma trace_index: "claim_ok m c \<Longrightarrow> \<exists>w. TraceIndex (of_nat m) (claim_pos c) = Inr w"
  using TraceIndex_at [of "cdepth c" m "cindex c"] claim_at(1) [of m c] depth unfolding claim_ok_def by fastforce

end

text \<open>The actions of one round: the calls that answer claims, and the steps against leaves.\<close>

definition move_acts :: "nat \<Rightarrow> (nat \<Rightarrow> hash) \<Rightarrow> bool \<Rightarrow> claim set \<Rightarrow> claim \<Rightarrow> action list" where
  "move_acts m h agree claims c =
     (if (odd (cdepth c) \<longleftrightarrow> agree) \<or> cdepth c = m \<or> IsRoot c \<and> right m h c \<or> honest_answer m h c \<in> cl_Data ` claims then []
      else [Send (honest_call m h c)])"

definition step_call :: "step_data \<Rightarrow> fdg_call" where
  "step_call sd = Call_step (cl_ContractIndex (sd_LeafClaim sd)) (sd_IsAttack sd) (sd_PreState sd) (sd_ProofData sd)"

definition step_acts :: "agent_env \<Rightarrow> nat \<Rightarrow> solver \<Rightarrow> bool \<Rightarrow> claim \<Rightarrow> action list" where
  "step_acts env m s agree c =
     (if (odd (cdepth c) \<longleftrightarrow> agree) \<or> cdepth c \<noteq> m \<or> cl_Countered c then []
      else case AttemptStep s c False of
             Inl _ \<Rightarrow> []
           | Inr sd \<Rightarrow>
               (case sd_OracleData sd of
                  None \<Rightarrow> [Send (step_call sd)]
                | Some dat \<Rightarrow> UpdateOracle dat # (if ae_do env (UpdateOracle dat) = Inr () then [Send (step_call sd)] else [])))"

lemma each_claim_acts:
  assumes "\<And>c log. c \<in> set cs \<Longrightarrow> \<exists>r. f c log = (log @ acts c, r) \<and> (\<forall>e. r = Inl e \<longrightarrow> \<not> is_panic e)"
  shows "each_claim f cs log = (log @ concat (map acts cs), Inr ())"
  using assms
proof (induction cs arbitrary: log)
  case (Cons c cs)
  obtain r where "f c log = (log @ acts c, r)" "\<forall>e. r = Inl e \<longrightarrow> \<not> is_panic e" using Cons.prems [of c log] by auto
  then show ?case using Cons.IH Cons.prems by (cases r) auto
qed simp

lemma Put_agree: "Game_Put c g = (g', r) \<Longrightarrow> agreeWithProposedOutput g' = agreeWithProposedOutput g"
  by (auto simp: Game_Put_def Let_def split: if_splits option.splits)

lemma PutAll_agree: "PutAll cs g = (g', r) \<Longrightarrow> agreeWithProposedOutput g' = agreeWithProposedOutput g"
  by (induction cs arbitrary: g) (auto split: prod.splits sum.splits dest!: Put_agree)

lemma represents_duplicate: "represents g root cs \<Longrightarrow> IsDuplicate c g \<longleftrightarrow> cl_Data c \<in> cl_Data ` set (root # cs)"
  unfolding represents_def IsDuplicate_def by (metis (no_types, lifting) imageE option.distinct(1))

context honest_trace
begin

lemma agent_move_acts:
  assumes ok: "claim_ok m c" and rep: "represents g root rest" and agree: "agreeWithProposedOutput g = agree"
    and calm: "\<And>x e. ae_do env x = Inl e \<Longrightarrow> \<not> is_panic e"
  shows "\<exists>r. agent_move env (NewAgent (of_nat m) tp agree) g c log = (log @ move_acts m h agree (set (root # rest)) c, r) \<and>
    (\<forall>e. r = Inl e \<longrightarrow> \<not> is_panic e)"
proof -
  have le: "cdepth c \<le> m" and level: "AgreeWithClaimLevel c g \<longleftrightarrow> (odd (cdepth c) \<longleftrightarrow> agree)"
    using ok agrees_iff [of c g] depth(2) agree unfolding claim_ok_def by auto
  note defs = agent_move_def NewAgent_def move_acts_def level
  consider "odd (cdepth c) \<longleftrightarrow> agree" | "\<not> (odd (cdepth c) \<longleftrightarrow> agree)" "cdepth c = m"
    | "\<not> (odd (cdepth c) \<longleftrightarrow> agree)" "cdepth c < m" "IsRoot c \<and> right m h c"
    | "\<not> (odd (cdepth c) \<longleftrightarrow> agree)" "cdepth c < m" "\<not> (IsRoot c \<and> right m h c)"
    using le by linarith
  then show ?thesis
  proof cases
    case 1
    then show ?thesis by (simp add: defs NextMove_def)
  next
    case 2
    have "pos_depth (claim_pos c) = of_nat m" using 2(2) by (metis of_nat_unat ucast_id)
    then show ?thesis using 2 by (auto simp: defs NextMove_def NewSolver_def ErrGameDepthReached_def on_error_def)
  next
    case 3
    then show ?thesis using NextMove_answer [OF ok] by (auto simp: defs)
  next
    case 4
    note mv = answer_claim_ok [OF ok 4(2,3)]
    obtain w w' where w: "TraceIndex (of_nat m) (claim_pos (answer_claim m h c)) = Inr w" "TraceIndex (of_nat m) (claim_pos c) = Inr w'"
      using trace_index [OF mv(1)] trace_index [OF ok] by blast
    have "IsDuplicate (answer_claim m h c) g \<longleftrightarrow> honest_answer m h c \<in> cl_Data ` set (root # rest)"
      using represents_duplicate [OF rep] by simp
    then show ?thesis
      using 4 NextMove_answer [OF ok 4(2)] w calm mv(2) by (auto simp: defs perform_def simp del: answer_claim_data)
  qed
qed

lemma agent_step_acts:
  assumes ok: "claim_ok m c" and agree: "agreeWithProposedOutput g = agree"
    and calm: "\<And>x e. ae_do env x = Inl e \<Longrightarrow> \<not> is_panic e"
  shows "\<exists>r. agent_step env (NewAgent (of_nat m) tp agree) g c log = (log @ step_acts env m slv agree c, r) \<and>
    (\<forall>e. r = Inl e \<longrightarrow> \<not> is_panic e)"
proof -
  have level: "AgreeWithClaimLevel c g \<longleftrightarrow> (odd (cdepth c) \<longleftrightarrow> agree)"
    using ok agrees_iff [of c g] depth(2) agree unfolding claim_ok_def by auto
  have word: "pos_depth (claim_pos c) = of_nat m \<longleftrightarrow> cdepth c = m"
  proof
    assume "pos_depth (claim_pos c) = of_nat m"
    then show "cdepth c = m" using depth(2) by (simp add: unat_of_nat)
  qed (metis of_nat_unat ucast_id)
  note defs = agent_step_def NewAgent_def step_acts_def level word
  show ?thesis
  proof (cases "(odd (cdepth c) \<longleftrightarrow> agree) \<or> cdepth c \<noteq> m \<or> cl_Countered c")
    case True
    then show ?thesis by (auto simp: defs)
  next
    case False
    then obtain sd where sd: "AttemptStep slv c False = Inr sd" using AttemptStep_returns [OF ok] by blast
    note defs = defs Let_def perform_def step_call_def buildStepTxData_def on_error_def
    show ?thesis
    proof (cases "sd_OracleData sd")
      case None
      then show ?thesis using False sd calm by (auto simp: defs)
    next
      case (Some dat)
      then show ?thesis using False sd calm by (cases "ae_do env (UpdateOracle dat)") (auto simp: defs)
    qed
  qed
qed

end

text \<open>C29: A round of the agent on a game in progress, with an honest trace: the agent answers every claim of a level it does not
  agree with, unless the claim is a right root or a leaf or the honest answer is in the game, with one call that is an
  attack on a wrong claim and a defence of a right one; then it steps against every such leaf that is not countered. It sends
  nothing else, and an error in one claim does not keep it from the others.\<close>

theorem act_round:
  assumes honest: "honest_trace tp m keccak vm absolute h"
    and loaded: "FetchClaims (ae_loader env) = Inr (root # rest)" "well_built root rest" "\<forall>c\<in>set rest. \<not> IsRoot c"
    and ok: "\<forall>c\<in>set (root # rest). claim_ok m c"
    and chain: "ae_CallResolve env = Inr 0" "\<forall>x e. ae_do env x = Inl e \<longrightarrow> \<not> is_panic e"
  shows "\<exists>cs. mset cs = mset rest \<and>
    Act env (NewAgent (of_nat m) tp agree) log =
      Some (log @ concat (map (move_acts m h agree (set (root # rest))) (root # cs)) @
            concat (map (step_acts env m (NewSolver (of_nat m) tp) agree) (root # cs)), Inr ())"
proof -
  let ?a = "NewAgent (of_nat m) tp agree"
  obtain g where g: "PutAll rest (NewGameState agree root (of_nat m)) = (g, Inr ())"
    using loaded PutAll_succeeds [of rest agree root "of_nat m"] by blast
  obtain cs where cs: "Game_Claims g = Some (Inr (root # cs))" "mset cs = mset rest"
    using Claims_listed [OF g] by blast
  have rep: "represents g root rest" using PutAll_represents [OF g represents_New] by simp
  have agree: "agreeWithProposedOutput g = agree" using PutAll_agree [OF g] by (simp add: NewGameState_def)
  have okc: "claim_ok m c" if "c \<in> set (root # cs)" for c using ok that mset_eq_setD [OF cs(2)] by auto
  have calm: "\<not> is_panic e" if "ae_do env x = Inl e" for x e using chain(2) that by blast
  have moves: "each_claim (agent_move env ?a g) (root # cs) l =
      (l @ concat (map (move_acts m h agree (set (root # rest))) (root # cs)), Inr ())" for l
    by (rule each_claim_acts) (rule honest_trace.agent_move_acts [OF honest okc rep agree calm])
  have steps: "each_claim (agent_step env ?a g) (root # cs) l =
      (l @ concat (map (step_acts env m (NewSolver (of_nat m) tp) agree) (root # cs)), Inr ())" for l
    by (rule each_claim_acts) (rule honest_trace.agent_step_acts [OF honest okc agree calm])
  have "newGameFromContracts env ?a = Inr g" using loaded(1) g by (simp add: newGameFromContracts_def NewAgent_def)
  moreover have "tryResolve env ?a log = (log, False)"
    using chain(1) by (simp add: tryResolve_def CallResolve_def GameStatusFromUint8_def GameStatusInProgress_def)
  ultimately have "Act env ?a log = Some (log @ concat (map (move_acts m h agree (set (root # rest))) (root # cs)) @
      concat (map (step_acts env m (NewSolver (of_nat m) tp) agree) (root # cs)), Inr ())"
    unfolding Act_def using cs(1) moves steps by (simp del: each_claim.simps list.map concat.simps)
  then show ?thesis using cs(2) by blast
qed

end
