(* ===== verification/Game_Alphabet.thy ===== *)
theory Game_Alphabet
  imports Game_Agent
begin

text \<open>
  The trace provider of the alphabet game, \<open>op-challenger/game/fault/trace/alphabet/provider.go\<close>, and the virtual machine of
  that game on the contract side, \<open>AlphabetVM\<close>. A letter is the piece that \<open>strings.Split\<close> cuts off; the list of the pieces
  is the argument. With the letters from \<open>a\<close> on, the provider is an instance of \<open>honest_trace\<close>.
\<close>

section \<open>The provider\<close>

definition ErrIndexTooLarge :: error where "ErrIndexTooLarge = Errorf ''index is larger than the maximum index''"

record alphabet_provider =
  ap_state :: "bytes list"
  ap_maxLen :: u64

definition Alphabet_NewTraceProvider :: "bytes list \<Rightarrow> u64 \<Rightarrow> alphabet_provider" where
  "Alphabet_NewTraceProvider state depth = \<lparr>ap_state = state, ap_maxLen = push_bit (unat depth) 1\<rparr>"

definition Alphabet_AbsolutePreState :: bytes where
  "Alphabet_AbsolutePreState = replicate 31 0 @ [0x60]"

definition IndexToBytes :: "u64 \<Rightarrow> bytes" where
  "IndexToBytes i = be_bytes 32 (unat i)"

definition LetterToBytes :: "bytes \<Rightarrow> bytes result" where
  "LetterToBytes letter = (case letter of [] \<Rightarrow> Inl (Panic ''index out of range'') | b # _ \<Rightarrow> Inr (replicate 31 0 @ [b]))"

definition BuildAlphabetPreimage :: "u64 \<Rightarrow> bytes \<Rightarrow> bytes result" where
  "BuildAlphabetPreimage i letter = rbind (LetterToBytes letter) (\<lambda>l. Inr (IndexToBytes i @ l))"

function Alphabet_GetStepData :: "alphabet_provider \<Rightarrow> u64 \<Rightarrow> (bytes \<times> bytes \<times> preimage_oracle_data option) result" where
  "Alphabet_GetStepData ap i =
     (if i = 0 then Inr (Alphabet_AbsolutePreState, [], None)
      else let i = i - 1
           in if i \<ge> ap_maxLen ap then Inl ErrIndexTooLarge
              else if i \<ge> of_nat (length (ap_state ap)) then Alphabet_GetStepData ap (of_nat (length (ap_state ap)))
              else rbind (BuildAlphabetPreimage i (ap_state ap ! unat i)) (\<lambda>bs. Inr (bs, [], None)))"
  by pat_completeness auto
termination
proof (relation "measure (\<lambda>(_, i). unat i)")
  fix ap :: alphabet_provider and i x :: u64
  assume "i \<noteq> 0" "x = i - 1" "x \<ge> of_nat (length (ap_state ap))"
  then have "unat (of_nat (length (ap_state ap)) :: u64) < unat i"
    using measure_unat [of i] by (simp add: word_le_nat_alt)
  then show "((ap, of_nat (length (ap_state ap))), ap, i) \<in> measure (\<lambda>(_, i). unat i)" by simp
qed simp

declare Alphabet_GetStepData.simps [simp del]

definition Alphabet_Get :: "(bytes \<Rightarrow> hash) \<Rightarrow> alphabet_provider \<Rightarrow> u64 \<Rightarrow> hash result" where
  "Alphabet_Get keccak ap i = rbind (Alphabet_GetStepData ap (i + 1)) (\<lambda>(claimBytes, _, _). Inr (keccak claimBytes))"

definition alphabet_trace :: "(bytes \<Rightarrow> hash) \<Rightarrow> alphabet_provider \<Rightarrow> trace_provider" where
  "alphabet_trace keccak ap =
     \<lparr>tp_Get = Alphabet_Get keccak ap, tp_GetStepData = Alphabet_GetStepData ap, tp_AbsolutePreState = Inr Alphabet_AbsolutePreState\<rparr>"

section \<open>The machine of the game\<close>

text \<open>The second part of \<open>step\<close>: the decoder needs a word for each number, and \<open>claim + 1\<close> and \<open>traceIndex++\<close> revert when they overflow.\<close>

definition alphabet_vm :: "(bytes \<Rightarrow> hash) \<Rightarrow> hash \<Rightarrow> bytes \<Rightarrow> bytes \<Rightarrow> hash option" where
  "alphabet_vm keccak absolute stateData pf =
     (let initial = (keccak stateData = absolute);
          traceIndex = (if initial then 0 else be_nat (take 32 stateData) + 1);
          clm = be_nat (take 32 (if initial then stateData else drop 32 stateData))
      in if length stateData < (if initial then 32 else 64) then None
         else if traceIndex \<ge> 2 ^ 256 \<or> clm + 1 \<ge> 2 ^ 256 then None
         else Some (keccak (be_bytes 32 traceIndex @ be_bytes 32 (clm + 1))))"

definition letters :: "nat \<Rightarrow> bytes list" where
  "letters n = map (\<lambda>k. [of_nat (97 + k)]) [0..<n]"

definition letter_state :: "nat \<Rightarrow> bytes" where
  "letter_state i = be_bytes 32 i @ be_bytes 32 (97 + i)"

lemma be_bytes_small: "x < 256 \<Longrightarrow> be_bytes 32 x = replicate 31 0 @ [of_nat x]"
  using be_bytes.simps(2) [of 31 x] by (simp add: be_bytes_0)

lemma be_nat_32: "x < 256 ^ 32 \<Longrightarrow> be_nat (be_bytes 32 x) = x"
  by (simp add: be_nat_bytes)

lemma letter_at:
  assumes "i < 2 ^ m" "2 ^ m \<le> n" "n \<le> 159"
  shows "Alphabet_GetStepData (Alphabet_NewTraceProvider (letters n) (of_nat m)) (of_nat (i + 1)) = Inr (letter_state i, [], None)"
proof -
  have i: "i < 159" and "(2 :: nat) ^ m < 2 ^ 8" using assms by simp_all
  then have m: "m < 8" by (simp only: power_strict_increasing_iff)
  have words: "unat (of_nat i :: u64) = i" "unat (of_nat n :: u64) = n" "unat (of_nat m :: u64) = m"
    using i m assms(3) by (simp_all add: unat_of_nat)
  have "unat (push_bit m 1 :: u64) = 2 ^ m" using m assms by (subst unat_push_bit) simp_all
  then have "\<not> push_bit m 1 \<le> (of_nat i :: u64)" "\<not> of_nat n \<le> (of_nat i :: u64)"
    using assms by (simp_all add: word_le_nat_alt words)
  moreover have "(of_nat (i + 1) :: u64) \<noteq> 0" using i by (simp add: word_unat_eq_iff unat_of_nat del: of_nat_add of_nat_Suc)
  moreover have "letters n ! i = [of_nat (97 + i)]" using assms by (simp add: letters_def)
  ultimately show ?thesis
    using be_bytes_small [of "97 + i"] i
    by (subst Alphabet_GetStepData.simps)
      (simp add: Let_def Alphabet_NewTraceProvider_def words BuildAlphabetPreimage_def LetterToBytes_def IndexToBytes_def
        letter_state_def letters_def)
qed

text \<open>The provider keeps its contract for a game of at most 7 levels, when the hash does not confuse the absolute pre-state
  with another state of the trace.\<close>

lemma alphabet_honest:
  assumes m: "0 < m" "2 ^ m \<le> n" "n \<le> 159" and inj: "\<And>i. i < 2 ^ m \<Longrightarrow> keccak (letter_state i) \<noteq> keccak Alphabet_AbsolutePreState"
  shows "honest_trace (alphabet_trace keccak (Alphabet_NewTraceProvider (letters n) (of_nat m))) m keccak
    (alphabet_vm keccak (keccak Alphabet_AbsolutePreState)) (keccak Alphabet_AbsolutePreState) (\<lambda>i. keccak (letter_state i))"
proof
  have "(2 :: nat) ^ m < 2 ^ 63" using m by (simp add: le_less_trans)
  then show "m \<le> 63" by (simp only: power_strict_increasing_iff)
next
  fix i :: nat assume i: "i < 2 ^ m"
  show "tp_Get (alphabet_trace keccak (Alphabet_NewTraceProvider (letters n) (of_nat m))) (of_nat i) = Inr (keccak (letter_state i))"
    using letter_at [OF i m(2,3)] by (simp add: alphabet_trace_def Alphabet_Get_def add.commute)
  have small: "97 + i < 256 ^ 32" "i < 256 ^ 32" using i m by simp_all
  show "\<exists>pre pf orc. tp_GetStepData (alphabet_trace keccak (Alphabet_NewTraceProvider (letters n) (of_nat m))) (of_nat i) =
      Inr (pre, pf, orc) \<and>
      keccak pre = (if i = 0 then keccak Alphabet_AbsolutePreState else keccak (letter_state (i - 1))) \<and>
      alphabet_vm keccak (keccak Alphabet_AbsolutePreState) pre pf = Some (keccak (letter_state i))"
  proof (cases i)
    case 0
    have "be_nat Alphabet_AbsolutePreState = 96"
      using be_nat_32 [of 96] be_bytes_small [of 96] by (simp add: Alphabet_AbsolutePreState_def)
    then show ?thesis using 0
      by (simp add: alphabet_trace_def Alphabet_GetStepData.simps alphabet_vm_def letter_state_def)
        (simp add: Alphabet_AbsolutePreState_def)
  next
    case (Suc k)
    then have k: "k < 2 ^ m" using i by simp
    have "alphabet_vm keccak (keccak Alphabet_AbsolutePreState) (letter_state k) [] = Some (keccak (letter_state (Suc k)))"
      using inj [OF k] small Suc by (simp add: alphabet_vm_def letter_state_def be_nat_32)
    then show ?thesis using letter_at [OF k m(2,3)] Suc by (simp add: alphabet_trace_def)
  qed
qed (rule m)

section \<open>A game\<close>

definition plain_hash :: "bytes \<Rightarrow> hash" where
  "plain_hash bs = bs"

lemma plain_letters: "length w = 32 \<Longrightarrow> plain_hash (letter_state i) \<noteq> w"
  by (auto simp: plain_hash_def letter_state_def)

lemma plain_prestate: "plain_hash (letter_state i) \<noteq> plain_hash Alphabet_AbsolutePreState"
  by (rule plain_letters) (simp add: plain_hash_def Alphabet_AbsolutePreState_def)

interpretation alphabet: honest_trace "alphabet_trace plain_hash (Alphabet_NewTraceProvider (letters 4) (of_nat 2))" 2 plain_hash
  "alphabet_vm plain_hash (plain_hash Alphabet_AbsolutePreState)" "plain_hash Alphabet_AbsolutePreState"
  "\<lambda>i. plain_hash (letter_state i)"
  by (rule alphabet_honest) (simp_all add: plain_prestate)

definition ex_root :: claim where
  "ex_root = ex_claim 0 0 0 0"

definition ex_answer :: claim where
  "ex_answer = response ex_root (pos_at 1 0) (plain_hash (letter_state 1))"

definition ex_leaf :: claim where
  "ex_leaf = response ex_answer (pos_at 2 0) []"

definition ex_game :: game_state where
  "ex_game = NewGameState True ex_root 2"

lemma ex_positions [simp]:
  "claim_pos ex_root = pos_at 0 0" "claim_pos ex_answer = pos_at 1 0" "claim_pos ex_leaf = pos_at 2 0"
  by (simp_all add: ex_root_def ex_claim_def ex_answer_def ex_leaf_def response_def)

lemma ex_levels: "\<not> AgreeWithClaimLevel ex_root ex_game" "AgreeWithClaimLevel ex_answer ex_game" "\<not> AgreeWithClaimLevel ex_leaf ex_game"
  by (simp_all add: agrees_iff ex_game_def NewGameState_def)

lemma ex_NextMove: "NextMove alphabet.slv ex_root False = Inr (Some ex_answer)"
proof -
  have ok: "claim_ok 2 ex_root" "claim_ok 2 ex_answer" by (simp_all add: claim_ok_def)
  have "cvalue ex_root \<noteq> plain_hash (letter_state (ctrace 2 ex_root))"
    by (rule plain_letters [symmetric]) (simp add: ex_root_def ex_claim_def)
  then have "agreeWithClaim alphabet.slv (cl_Data ex_root) = Inr False"
    using alphabet.agree_claim [OF ok(1)] by auto
  moreover have "Attack (pos_at 0 0) = pos_at 1 0" using Attack_at [of 0 0] by simp
  moreover have "traceAtPosition alphabet.slv (pos_at 1 0) = Inr (plain_hash (letter_state 1))"
    using alphabet.traceAt [OF ok(2)] by (simp add: ctrace_def trace_of_def)
  moreover have "pos_depth (pos_at 0 0) \<noteq> sv_gameDepth alphabet.slv" by (simp add: pos_at_def NewPosition_def NewSolver_def)
  ultimately show ?thesis by (simp add: NextMove_def solver_attack_def ex_answer_def)
qed

lemma ex_play: "play alphabet.slv ex_game ex_root [ex_leaf, ex_answer, ex_root]"
proof -
  have "play alphabet.slv ex_game ex_root [ex_root]"
    by (rule play.start) (simp add: IsRoot_def IsRootPosition_def pos_at_def NewPosition_def)
  then have p: "play alphabet.slv ex_game ex_root [ex_answer, ex_root]"
    by (rule play.ours) (use ex_levels ex_NextMove in simp_all)
  have attack: "Attack (pos_at 1 0) = pos_at 2 0" using Attack_at [of 1 0] by (simp add: numeral_2_eq_2)
  have "pos_depth (pos_at 1 0) \<noteq> sv_gameDepth alphabet.slv" by (simp add: pos_at_def NewPosition_def NewSolver_def)
  then show ?thesis by (intro play.theirs [OF p ex_levels(2)]) (simp_all add: attack [unfolded One_nat_def] ex_leaf_def response_def)
qed

theorem honest_step_wins_witness:
  "play alphabet.slv ex_game ex_root [ex_leaf, ex_answer, ex_root] \<and>
   (\<exists>sd. AttemptStep alphabet.slv ex_leaf (AgreeWithClaimLevel ex_leaf ex_game) = Inr sd \<and>
     contract_step 2 plain_hash (alphabet_vm plain_hash (plain_hash Alphabet_AbsolutePreState)) (plain_hash Alphabet_AbsolutePreState)
       ex_leaf [ex_answer, ex_root] (sd_IsAttack sd) (sd_PreState sd) (sd_ProofData sd))"
  using honest_step_wins [OF alphabet.honest_trace_axioms ex_play] ex_play ex_levels by simp

section \<open>A round\<close>

definition ex_chain :: agent_env where
  "ex_chain =
     \<lparr>ae_loader = \<lparr>fc_ClaimData = (\<lambda>_. Inr \<lparr>fd_ParentIndex = 0, fd_Countered = False, fd_Claim = replicate 32 0, fd_Position = 1, fd_Clock = 0\<rparr>),
        fc_Status = Inr 0, fc_ClaimDataLen = Inr 1, fc_MAXGAMEDEPTH = Inr 2, fc_ABSOLUTEPRESTATE = Inr []\<rparr>,
      ae_CallResolve = Inr 0, ae_do = (\<lambda>_. Inr ())\<rparr>"

definition ex_fetched :: claim where
  "ex_fetched =
     \<lparr>cl_Data = \<lparr>cd_Value = replicate 32 0, cd_Position = pos_at 0 0\<rparr>, cl_Countered = False, cl_Clock = 0, cl_Parent = no_claim,
      cl_ContractIndex = 0, cl_ParentContractIndex = 0\<rparr>"

lemma ex_FetchClaims: "FetchClaims (ae_loader ex_chain) = Inr [ex_fetched]"
proof -
  have "NewPositionFromGIndex 1 = pos_at 0 0" using FromGIndex_at [of 0 0] by (simp add: gidx_def)
  then show ?thesis
    by (simp add: FetchClaims_def ex_chain_def fetchClaim_def ex_fetched_def fetched_data_def IsRootPosition_def Let_def
        pos_at_def NewPosition_def)
qed

theorem act_round_witness:
  "Act ex_chain (NewAgent (of_nat 2) (alphabet_trace plain_hash (Alphabet_NewTraceProvider (letters 4) (of_nat 2))) True) [] =
     Some ([Send (Call_attack 0 (take 32 (letter_state 1)))], Inr ())"
proof -
  let ?h = "\<lambda>i. plain_hash (letter_state i)"
  have "claim_ok 2 ex_fetched" by (simp add: ex_fetched_def claim_ok_def)
  then have round: "\<exists>cs. mset cs = mset [] \<and> Act ex_chain (NewAgent (of_nat 2)
      (alphabet_trace plain_hash (Alphabet_NewTraceProvider (letters 4) (of_nat 2))) True) [] =
      Some ([] @ concat (map (move_acts 2 ?h True (set [ex_fetched])) (ex_fetched # cs)) @
        concat (map (step_acts ex_chain 2 alphabet.slv True) (ex_fetched # cs)), Inr ())"
    by (intro act_round [OF alphabet.honest_trace_axioms ex_FetchClaims]) (simp_all add: ex_chain_def)
  have "\<not> right 2 ?h ex_fetched" using plain_letters [of "replicate 32 0"] by (simp add: right_def ex_fetched_def del: replicate.simps) metis
  moreover have "honest_answer 2 ?h ex_fetched = \<lparr>cd_Value = ?h 1, cd_Position = pos_at 1 0\<rparr>"
    using calculation Attack_at [of 0 0] by (simp add: honest_answer_def ex_fetched_def trace_of_def)
  ultimately have "move_acts 2 ?h True (set [ex_fetched]) ex_fetched = [Send (Call_attack 0 (take 32 (letter_state 1)))]"
    using plain_letters [of "replicate 32 0" 1] by (simp add: move_acts_def honest_call_def ex_fetched_def plain_hash_def)
  moreover have "step_acts ex_chain 2 alphabet.slv True ex_fetched = []" by (simp add: step_acts_def ex_fetched_def)
  ultimately show ?thesis using round by simp
qed

end
