(* ===== verification/Game_Scheduler.thy ===== *)
theory Game_Scheduler
  imports Game_Agent
begin

text \<open>
  The scheduling of games, \<open>op-challenger/game/scheduler/\<close>, \<open>disk.go\<close>, \<open>factory.go\<close> and \<open>monitor.go\<close>: a coordinator that owns
  the set of games, workers that progress one game each, and bounded queues between them. The goroutines are the steps of
  an inductive relation; a select with several ready cases is a choice of steps. Directories are named by the address of their
  game through the functions of \<open>common\<close>, which are parameters.
\<close>

section \<open>Disk\<close>

record dir_entry =
  de_name :: string
  de_isDir :: bool

definition gameDirPrefix :: string where
  "gameDirPrefix = ''game-''"

text \<open>\<open>Hex\<close> and \<open>HexToAddress\<close> of \<open>common.Address\<close>.\<close>

record hex_codec =
  hx_Hex :: "address \<Rightarrow> string"
  hx_HexToAddress :: "string \<Rightarrow> address"

definition DirForGame :: "hex_codec \<Rightarrow> address \<Rightarrow> string" where
  "DirForGame hx addr = gameDirPrefix @ hx_Hex hx addr"

definition HasPrefix :: "string \<Rightarrow> string \<Rightarrow> bool" where
  "HasPrefix s p \<longleftrightarrow> take (length p) s = p"

text \<open>Which entry \<open>RemoveAllExcept\<close> removes. That a removal fails is the file system's choice: the list of entries that stay
  although they should go is an argument.\<close>

definition removes :: "hex_codec \<Rightarrow> address list \<Rightarrow> dir_entry \<Rightarrow> bool" where
  "removes hx keep e \<longleftrightarrow>
     de_isDir e \<and> HasPrefix (de_name e) gameDirPrefix \<and>
     (let addr = hx_HexToAddress hx (drop (length gameDirPrefix) (de_name e))
      in addr \<noteq> replicate 20 0 \<and> addr \<notin> set keep)"

definition RemoveAllExcept :: "hex_codec \<Rightarrow> dir_entry set \<Rightarrow> address list \<Rightarrow> dir_entry list \<Rightarrow> dir_entry list" where
  "RemoveAllExcept hx stuck keep entries = filter (\<lambda>e. \<not> removes hx keep e \<or> e \<in> stuck) entries"

section \<open>The coordinator\<close>

definition errUnknownGame :: error where "errUnknownGame = Errorf ''unknown game''"

record 'p game_status_rec =
  gsr_player :: "'p option"
  gsr_inflight :: bool
  gsr_resolved :: bool

record 'p job =
  jb_addr :: address
  jb_player :: 'p
  jb_resolved :: bool

record 'p coordinator =
  co_states :: "(address, 'p game_status_rec) gomap"
  co_disk :: "dir_entry list"

definition newCoordinator :: "dir_entry list \<Rightarrow> 'p coordinator" where
  "newCoordinator disk = \<lparr>co_states = [], co_disk = disk\<rparr>"

definition createJob :: "(address \<Rightarrow> 'p result) \<Rightarrow> address \<Rightarrow> 'p coordinator \<Rightarrow> 'p coordinator \<times> 'p job option result" where
  "createJob createPlayer game c =
     (let state = (case map_of (co_states c) game of
                     Some s \<Rightarrow> s | None \<Rightarrow> \<lparr>gsr_player = None, gsr_inflight = False, gsr_resolved = False\<rparr>);
          store = (\<lambda>s. c\<lparr>co_states := AList.update game s (co_states c)\<rparr>)
      in if gsr_inflight state then (store state, Inr None)
         else case (case gsr_player state of Some p \<Rightarrow> Inr p | None \<Rightarrow> createPlayer game) of
                Inl e \<Rightarrow> (store state, on_error (Wrap ''failed to create game player'') (Inl e))
              | Inr p \<Rightarrow> (store (state\<lparr>gsr_player := Some p, gsr_inflight := True\<rparr>),
                          Inr (Some \<lparr>jb_addr = game, jb_player = p, jb_resolved = False\<rparr>)))"

fun create_jobs :: "(address \<Rightarrow> 'p result) \<Rightarrow> address list \<Rightarrow> 'p coordinator \<Rightarrow> 'p coordinator \<times> 'p job list \<times> error list" where
  "create_jobs mk [] c = (c, [], [])"
| "create_jobs mk (addr # games) c =
     (case createJob mk addr c of
        (c1, r) \<Rightarrow>
          (case create_jobs mk games c1 of
             (c2, jobs, errs) \<Rightarrow>
               (case r of Inl e \<Rightarrow> (c2, jobs, e # errs) | Inr None \<Rightarrow> (c2, jobs, errs) | Inr (Some j) \<Rightarrow> (c2, j # jobs, errs))))"

text \<open>The first two parts of \<open>schedule\<close>; the third one, the loop over \<open>enqueueJob\<close>, is a phase of the steps below.\<close>

definition drop_states :: "address list \<Rightarrow> 'p coordinator \<Rightarrow> 'p coordinator" where
  "drop_states games c = c\<lparr>co_states := filter (\<lambda>(addr, s). gsr_inflight s \<or> addr \<in> set games) (co_states c)\<rparr>"

definition schedule_jobs :: "(address \<Rightarrow> 'p result) \<Rightarrow> address list \<Rightarrow> 'p coordinator \<Rightarrow> 'p coordinator \<times> 'p job list \<times> error list" where
  "schedule_jobs mk games c = create_jobs mk games (drop_states games c)"

definition keep_games :: "'p coordinator \<Rightarrow> address list" where
  "keep_games c = map fst (filter (\<lambda>(addr, s). \<not> gsr_resolved s \<or> gsr_inflight s) (co_states c))"

definition deleteResolvedGameFiles :: "hex_codec \<Rightarrow> dir_entry set \<Rightarrow> 'p coordinator \<Rightarrow> 'p coordinator" where
  "deleteResolvedGameFiles hx stuck c = c\<lparr>co_disk := RemoveAllExcept hx stuck (keep_games c) (co_disk c)\<rparr>"

definition processResult :: "hex_codec \<Rightarrow> dir_entry set \<Rightarrow> 'p job \<Rightarrow> 'p coordinator \<Rightarrow> 'p coordinator \<times> unit result" where
  "processResult hx stuck j c =
     (case map_of (co_states c) (jb_addr j) of
        None \<Rightarrow> (c, Inl (Wrap ''received unexpected result'' errUnknownGame))
      | Some s \<Rightarrow>
          (deleteResolvedGameFiles hx stuck
             (c\<lparr>co_states := AList.update (jb_addr j) (s\<lparr>gsr_inflight := False, gsr_resolved := jb_resolved j\<rparr>) (co_states c)\<rparr>),
           Inr ()))"

section \<open>Goroutines\<close>

datatype 'p worker = Idle | Busy "'p job" | Sending "'p job"

record 'p scheduler =
  sch_coordinator :: "'p coordinator"
  sch_maxConcurrency :: nat
  sch_scheduleQueue :: "address list list"
  sch_jobs :: "'p job list"
  sch_jobQueue :: "'p job list"
  sch_workers :: "'p worker list"
  sch_resultQueue :: "'p job list"
  sch_stopped :: bool

definition NewScheduler :: "dir_entry list \<Rightarrow> nat \<Rightarrow> 'p scheduler" where
  "NewScheduler disk maxConcurrency =
     \<lparr>sch_coordinator = newCoordinator disk, sch_maxConcurrency = maxConcurrency, sch_scheduleQueue = [], sch_jobs = [],
      sch_jobQueue = [], sch_workers = replicate maxConcurrency Idle, sch_resultQueue = [], sch_stopped = False\<rparr>"

definition ErrBusy :: error where "ErrBusy = Errorf ''busy scheduling previous update''"

definition Schedule :: "address list \<Rightarrow> 'p scheduler \<Rightarrow> 'p scheduler \<times> unit result" where
  "Schedule games s =
     (if length (sch_scheduleQueue s) < 1 then (s\<lparr>sch_scheduleQueue := sch_scheduleQueue s @ [games]\<rparr>, Inr ())
      else (s, Inl ErrBusy))"

text \<open>The steps that need nothing from outside: the loop sends a job or takes a result, a worker takes a job, ends it with any
  outcome, or sends it back.\<close>

inductive sched_internal :: "hex_codec \<Rightarrow> 'p scheduler \<Rightarrow> 'p scheduler \<Rightarrow> bool" for hx where
  enqueue: "\<not> sch_stopped s \<Longrightarrow> sch_jobs s = j # js \<Longrightarrow> length (sch_jobQueue s) < 2 * sch_maxConcurrency s \<Longrightarrow>
    sched_internal hx s (s\<lparr>sch_jobs := js, sch_jobQueue := sch_jobQueue s @ [j]\<rparr>)"
| collect: "\<not> sch_stopped s \<Longrightarrow> sch_resultQueue s = j # js \<Longrightarrow>
    sched_internal hx s (s\<lparr>sch_resultQueue := js, sch_coordinator := fst (processResult hx stuck j (sch_coordinator s))\<rparr>)"
| take_job: "sch_workers s ! w = Idle \<Longrightarrow> w < length (sch_workers s) \<Longrightarrow> sch_jobQueue s = j # js \<Longrightarrow>
    sched_internal hx s (s\<lparr>sch_jobQueue := js, sch_workers := (sch_workers s)[w := Busy j]\<rparr>)"
| progressed: "sch_workers s ! w = Busy j \<Longrightarrow> w < length (sch_workers s) \<Longrightarrow>
    sched_internal hx s (s\<lparr>sch_workers := (sch_workers s)[w := Sending (j\<lparr>jb_resolved := b\<rparr>)]\<rparr>)"
| send_back: "sch_workers s ! w = Sending j \<Longrightarrow> w < length (sch_workers s) \<Longrightarrow>
    length (sch_resultQueue s) < 2 * sch_maxConcurrency s \<Longrightarrow>
    sched_internal hx s (s\<lparr>sch_workers := (sch_workers s)[w := Idle], sch_resultQueue := sch_resultQueue s @ [j]\<rparr>)"

text \<open>The other steps: an update of the games, the loop taking it up once the jobs of the one before are sent, and the end of the
  context, at which the loop gives up the jobs it did not send.\<close>

inductive sched_step :: "hex_codec \<Rightarrow> 'p scheduler \<Rightarrow> 'p scheduler \<Rightarrow> bool" for hx where
  internal: "sched_internal hx s s' \<Longrightarrow> sched_step hx s s'"
| scheduled: "sched_step hx s (fst (Schedule games s))"
| update: "\<not> sch_stopped s \<Longrightarrow> sch_jobs s = [] \<Longrightarrow> sch_scheduleQueue s = games # gs \<Longrightarrow>
    schedule_jobs mk games (sch_coordinator s) = (c, jobs, errs) \<Longrightarrow>
    sched_step hx s (s\<lparr>sch_scheduleQueue := gs, sch_coordinator := c, sch_jobs := jobs\<rparr>)"
| stop: "sched_step hx s (s\<lparr>sch_stopped := True, sch_jobs := []\<rparr>)"

inductive sched_run :: "hex_codec \<Rightarrow> dir_entry list \<Rightarrow> nat \<Rightarrow> 'p scheduler \<Rightarrow> bool" for hx disk n where
  init: "sched_run hx disk n (NewScheduler disk n)"
| step: "sched_run hx disk n s \<Longrightarrow> sched_step hx s s' \<Longrightarrow> sched_run hx disk n s'"

section \<open>Finding games\<close>

definition ErrMissingBlockNumber :: error where "ErrMissingBlockNumber = Errorf ''game loader missing block number''"

record fault_dispute_game =
  fg_GameType :: u8
  fg_Timestamp :: u64
  fg_Proxy :: address

record factory_caller =
  gf_GameCount :: "nat result"
  gf_GameAtIndex :: "nat \<Rightarrow> fault_dispute_game result"

text \<open>The loop from the newest game down; the first argument is the loop variable.\<close>

fun games_down :: "factory_caller \<Rightarrow> u64 \<Rightarrow> nat \<Rightarrow> fault_dispute_game list result" where
  "games_down f earliest 0 = Inr []"
| "games_down f earliest (Suc i) =
     rbind (on_error (Wrap ''failed to fetch game at index'') (gf_GameAtIndex f i)) (\<lambda>game.
       if fg_Timestamp game < earliest then Inr []
       else rbind (games_down f earliest i) (\<lambda>games. Inr (game # games)))"

definition FetchAllGamesAtBlock :: "factory_caller \<Rightarrow> u64 \<Rightarrow> nat option \<Rightarrow> fault_dispute_game list result" where
  "FetchAllGamesAtBlock f earliestTimestamp blockNumber =
     (if blockNumber = None then Inl ErrMissingBlockNumber
      else rbind (on_error (Wrap ''failed to fetch game count'') (gf_GameCount f)) (\<lambda>gameCount.
             games_down f earliestTimestamp (unat (of_nat gameCount :: u64))))"

text \<open>Times in nanoseconds; \<open>Unix\<close> rounds down.\<close>

record game_monitor =
  gm_gameWindow :: int
  gm_allowedGames :: "address list"

definition allowedGame :: "game_monitor \<Rightarrow> address \<Rightarrow> bool" where
  "allowedGame mo game \<longleftrightarrow> gm_allowedGames mo = [] \<or> game \<in> set (gm_allowedGames mo)"

definition minGameTimestamp :: "game_monitor \<Rightarrow> int \<Rightarrow> u64" where
  "minGameTimestamp mo now =
     (if gm_gameWindow mo = 0 then 0
      else if now div 10 ^ 9 > gm_gameWindow mo div 10 ^ 9 then of_int ((now - gm_gameWindow mo) div 10 ^ 9)
      else 0)"

definition monitor_progressGames :: "factory_caller \<Rightarrow> game_monitor \<Rightarrow> int \<Rightarrow> u64 \<Rightarrow> 'p scheduler \<Rightarrow> 'p scheduler \<times> unit result" where
  "monitor_progressGames f mo now blockNum s =
     (case FetchAllGamesAtBlock f (minGameTimestamp mo now) (Some (unat blockNum)) of
        Inl e \<Rightarrow> (s, on_error (Wrap ''failed to load games'') (Inl e))
      | Inr games \<Rightarrow>
          (case Schedule (map fg_Proxy (filter (\<lambda>game. allowedGame mo (fg_Proxy game)) games)) s of
             (s', Inl e) \<Rightarrow> if errors_Is e ErrBusy then (s', Inr ()) else (s', on_error (Wrap ''failed to schedule games'') (Inl e))
           | (s', Inr _) \<Rightarrow> (s', Inr ())))"

end
