(* ===== verification/Game_Scheduler_Props.thy ===== *)
theory Game_Scheduler_Props
  imports Game_Scheduler "HOL-Library.Multiset"
begin

text \<open>
  What the scheduling of games guarantees in every interleaving of the goroutines: no game is worked on twice at a time, the
  directory of a game that is worked on is not removed, and no job is stuck.
\<close>

section \<open>The jobs in the system\<close>

type_synonym 'p key = "address \<times> 'p"

definition key_of :: "'p job \<Rightarrow> 'p key" where
  "key_of j = (jb_addr j, jb_player j)"

fun worker_keys :: "'p worker \<Rightarrow> 'p key list" where
  "worker_keys Idle = []"
| "worker_keys (Busy j) = [key_of j]"
| "worker_keys (Sending j) = [key_of j]"

definition held_keys :: "'p worker list \<Rightarrow> 'p key multiset" where
  "held_keys ws = mset (concat (map worker_keys ws))"

definition keys :: "'p scheduler \<Rightarrow> 'p key multiset" where
  "keys s = image_mset key_of (mset (sch_jobs s) + mset (sch_jobQueue s) + mset (sch_resultQueue s)) + held_keys (sch_workers s)"

lemma key_of_resolved [simp]: "key_of (j\<lparr>jb_resolved := b\<rparr>) = key_of j"
  by (simp add: key_of_def)

lemma held_update: "w < length ws \<Longrightarrow> held_keys (ws[w := x]) + mset (worker_keys (ws ! w)) = held_keys ws + mset (worker_keys x)"
  by (induction ws arbitrary: w) (auto simp: held_keys_def nth_Cons split: nat.splits)

lemma held_replicate [simp]: "held_keys (replicate n Idle) = {#}"
  by (induction n) (simp_all add: held_keys_def)

text \<open>Every job is of another game, and the games of the jobs are those in flight; once the context ended, a game may stay in
  flight without a job.\<close>

definition jobs_ok :: "bool \<Rightarrow> 'p key multiset \<Rightarrow> (address, 'p game_status_rec) gomap \<Rightarrow> bool" where
  "jobs_ok stopped K st \<longleftrightarrow>
     (\<forall>a. count (image_mset fst K) a \<le> 1) \<and>
     (\<forall>(a, p)\<in>#K. \<exists>g. map_of st a = Some g \<and> gsr_inflight g \<and> gsr_player g = Some p) \<and>
     (\<not> stopped \<longrightarrow> (\<forall>a g. map_of st a = Some g \<longrightarrow> gsr_inflight g \<longrightarrow> a \<in># image_mset fst K))"

definition sched_ok :: "nat \<Rightarrow> 'p scheduler \<Rightarrow> bool" where
  "sched_ok n s \<longleftrightarrow>
     gomap_ok (co_states (sch_coordinator s)) \<and> jobs_ok (sch_stopped s) (keys s) (co_states (sch_coordinator s)) \<and>
     sch_maxConcurrency s = n \<and> length (sch_workers s) = n \<and> (sch_stopped s \<longrightarrow> sch_jobs s = [])"

lemma jobs_ok_known: "jobs_ok stopped K st \<Longrightarrow> a \<in># image_mset fst K \<Longrightarrow> \<exists>g. map_of st a = Some g \<and> gsr_inflight g"
  unfolding jobs_ok_def by fastforce

lemma jobs_okD:
  assumes "jobs_ok stopped K st"
  shows "count (image_mset fst K) a \<le> 1" "(a, p) \<in># K \<Longrightarrow> \<exists>g. map_of st a = Some g \<and> gsr_inflight g \<and> gsr_player g = Some p"
    "\<not> stopped \<Longrightarrow> map_of st a = Some g \<Longrightarrow> gsr_inflight g \<Longrightarrow> a \<in># image_mset fst K"
  using assms unfolding jobs_ok_def by fast+

lemma jobs_okI:
  assumes "\<And>a. count (image_mset fst K) a \<le> 1"
    and "\<And>a p. (a, p) \<in># K \<Longrightarrow> \<exists>g. map_of st a = Some g \<and> gsr_inflight g \<and> gsr_player g = Some p"
    and "\<And>a g. \<not> stopped \<Longrightarrow> map_of st a = Some g \<Longrightarrow> gsr_inflight g \<Longrightarrow> a \<in># image_mset fst K"
  shows "jobs_ok stopped K st"
  using assms unfolding jobs_ok_def by fast

lemma jobs_ok_subset:
  assumes "jobs_ok stopped K st" "K' \<subseteq># K"
  shows "jobs_ok True K' st"
proof (rule jobs_okI)
  show "count (image_mset fst K') a \<le> 1" for a
    using order_trans [OF mset_subset_eq_count [OF image_mset_subseteq_mono [OF assms(2)]] jobs_okD(1) [OF assms(1)]] .
  show "\<exists>g. map_of st a = Some g \<and> gsr_inflight g \<and> gsr_player g = Some p" if "(a, p) \<in># K'" for a p
    using jobs_okD(2) [OF assms(1) mset_subset_eqD [OF assms(2) that]] .
qed simp

text \<open>A state that is not in flight may change freely; a game enters with its job.\<close>

lemma jobs_ok_idle:
  assumes ok: "jobs_ok stopped K st" and idle: "\<forall>g. map_of st a = Some g \<longrightarrow> \<not> gsr_inflight g" and g': "\<not> gsr_inflight g'"
  shows "jobs_ok stopped K (AList.update a g' st)"
proof (rule jobs_okI)
  show "\<exists>g. map_of (AList.update a g' st) b = Some g \<and> gsr_inflight g \<and> gsr_player g = Some p" if "(b, p) \<in># K" for b p
    using jobs_okD(2) [OF ok that] idle by (cases "b = a") auto
  show "b \<in># image_mset fst K" if "\<not> stopped" "map_of (AList.update a g' st) b = Some g" "gsr_inflight g" for b g
    using jobs_okD(3) [OF ok that(1), of b g] that g' by (auto split: if_splits)
qed (rule jobs_okD(1) [OF ok])

lemma jobs_ok_add:
  assumes ok: "jobs_ok stopped K st" and idle: "\<forall>g. map_of st a = Some g \<longrightarrow> \<not> gsr_inflight g"
    and g': "gsr_inflight g'" "gsr_player g' = Some p"
  shows "jobs_ok stopped (add_mset (a, p) K) (AList.update a g' st)"
proof -
  have new: "a \<notin># image_mset fst K" using jobs_ok_known [OF ok] idle by blast
  then have zero: "count (image_mset fst K) a = 0" by (simp only: not_in_iff)
  have other: "b \<noteq> a" if "(b, q) \<in># K" for b q using new that by force
  show ?thesis
  proof (rule jobs_okI)
    show "count (image_mset fst (add_mset (a, p) K)) b \<le> 1" for b using jobs_okD(1) [OF ok, of b] zero by (cases "a = b") auto
    show "\<exists>g. map_of (AList.update a g' st) b = Some g \<and> gsr_inflight g \<and> gsr_player g = Some q"
      if "(b, q) \<in># add_mset (a, p) K" for b q
      using that jobs_okD(2) [OF ok, of b q] other [of b q] g' by auto
    show "b \<in># image_mset fst (add_mset (a, p) K)"
      if "\<not> stopped" "map_of (AList.update a g' st) b = Some g" "gsr_inflight g" for b g
      using jobs_okD(3) [OF ok that(1), of b g] that by (auto split: if_splits)
  qed
qed

lemma jobs_ok_remove:
  assumes ok: "jobs_ok stopped (add_mset (a, p) K) st" and g: "\<not> gsr_inflight g"
  shows "jobs_ok stopped K (AList.update a g st)"
proof -
  have zero: "count (image_mset fst K) a = 0" using jobs_okD(1) [OF ok, of a] by simp
  then have new: "a \<notin># image_mset fst K" by (simp only: not_in_iff)
  have other: "b \<noteq> a" if "(b, q) \<in># K" for b q using new that by force
  show ?thesis
  proof (rule jobs_okI)
    show "count (image_mset fst K) b \<le> 1" for b using jobs_okD(1) [OF ok, of b] by (simp split: if_splits)
    show "\<exists>g'. map_of (AList.update a g st) b = Some g' \<and> gsr_inflight g' \<and> gsr_player g' = Some q" if "(b, q) \<in># K" for b q
      using jobs_okD(2) [OF ok, of b q] that other [OF that] by simp
    show "b \<in># image_mset fst K" if "\<not> stopped" "map_of (AList.update a g st) b = Some g'" "gsr_inflight g'" for b g'
      using jobs_okD(3) [OF ok that(1), of b g'] that g by (auto split: if_splits)
  qed
qed

section \<open>Operations\<close>

lemma createJob_ok:
  assumes "createJob mk a c = (c', r)" "jobs_ok stopped K (co_states c)" "gomap_ok (co_states c)"
  shows "gomap_ok (co_states c') \<and> co_disk c' = co_disk c \<and>
    jobs_ok stopped (K + (case r of Inr (Some j) \<Rightarrow> {#key_of j#} | _ \<Rightarrow> {#})) (co_states c')"
proof -
  define g where "g = (case map_of (co_states c) a of
      Some s \<Rightarrow> s | None \<Rightarrow> \<lparr>gsr_player = None, gsr_inflight = False, gsr_resolved = False\<rparr>)"
  show ?thesis
  proof (cases "gsr_inflight g")
    case True
    then have "map_of (co_states c) a = Some g" unfolding g_def by (simp split: option.splits)
    then have "map_of (AList.update a g (co_states c)) = map_of (co_states c)" by (auto simp: fun_eq_iff)
    then show ?thesis using assms True unfolding createJob_def Let_def g_def [symmetric] jobs_ok_def by auto
  next
    case False
    then have idle: "\<forall>g. map_of (co_states c) a = Some g \<longrightarrow> \<not> gsr_inflight g" unfolding g_def by auto
    show ?thesis
    proof (cases "case gsr_player g of Some p \<Rightarrow> Inr p | None \<Rightarrow> mk a")
      case (Inl e)
      then show ?thesis using assms False jobs_ok_idle [OF assms(2) idle False]
        unfolding createJob_def Let_def g_def [symmetric] by (auto simp: on_error_def)
    next
      case (Inr p)
      then show ?thesis
        using assms False jobs_ok_add [OF assms(2) idle, of "g\<lparr>gsr_player := Some p, gsr_inflight := True\<rparr>" p]
        unfolding createJob_def Let_def g_def [symmetric] by (auto simp: key_of_def)
    qed
  qed
qed

lemma create_jobs_ok:
  "create_jobs mk games c = (c', jobs, errs) \<Longrightarrow> jobs_ok stopped K (co_states c) \<Longrightarrow> gomap_ok (co_states c) \<Longrightarrow>
   gomap_ok (co_states c') \<and> co_disk c' = co_disk c \<and> jobs_ok stopped (K + image_mset key_of (mset jobs)) (co_states c')"
proof (induction games arbitrary: c c' K jobs errs)
  case (Cons a games)
  obtain c1 r where c1: "createJob mk a c = (c1, r)" by fastforce
  obtain c2 js es where c2: "create_jobs mk games c1 = (c2, js, es)" by (metis prod_cases3)
  note one = createJob_ok [OF c1 Cons.prems(2,3)]
  then have "gomap_ok (co_states c2) \<and> co_disk c2 = co_disk c1 \<and>
      jobs_ok stopped (K + (case r of Inr (Some j) \<Rightarrow> {#key_of j#} | _ \<Rightarrow> {#}) + image_mset key_of (mset js)) (co_states c2)"
    using Cons.IH [OF c2] by blast
  moreover have "c' = c2" "mset jobs = (case r of Inr (Some j) \<Rightarrow> {#j#} | _ \<Rightarrow> {#}) + mset js"
    using Cons.prems(1) c1 c2 by (auto split: sum.splits option.splits)
  ultimately show ?case using one by (auto simp: add.assoc split: sum.splits option.splits)
qed simp

lemma drop_states_ok:
  assumes "jobs_ok stopped K (co_states c)" "gomap_ok (co_states c)"
  shows "gomap_ok (co_states (drop_states games c)) \<and> co_disk (drop_states games c) = co_disk c \<and>
    jobs_ok stopped K (co_states (drop_states games c))"
proof -
  have look: "map_of (filter (\<lambda>(a, g). P a g) st) a = (case map_of st a of Some g \<Rightarrow> if P a g then Some g else None | None \<Rightarrow> None)"
    if "gomap_ok st" for P and st :: "(address, 'a game_status_rec) gomap" and a
    using that by (induction st) (auto simp: gomap_ok_def map_of_eq_None_iff image_iff split: option.splits)
  show ?thesis
    using assms unfolding drop_states_def jobs_ok_def by (auto simp: look split: option.splits)
qed

lemma schedule_jobs_ok:
  "schedule_jobs mk games c = (c', jobs, errs) \<Longrightarrow> jobs_ok stopped K (co_states c) \<Longrightarrow> gomap_ok (co_states c) \<Longrightarrow>
   gomap_ok (co_states c') \<and> co_disk c' = co_disk c \<and> jobs_ok stopped (K + image_mset key_of (mset jobs)) (co_states c')"
  using create_jobs_ok drop_states_ok unfolding schedule_jobs_def by metis

lemma processResult_ok:
  assumes "jobs_ok stopped (add_mset (key_of j) K) (co_states c)" "gomap_ok (co_states c)"
  shows "gomap_ok (co_states (fst (processResult hx stuck j c))) \<and> jobs_ok stopped K (co_states (fst (processResult hx stuck j c)))"
proof -
  obtain g where g: "map_of (co_states c) (jb_addr j) = Some g" using assms(1) unfolding jobs_ok_def key_of_def by fastforce
  then show ?thesis
    using jobs_ok_remove [OF assms(1) [unfolded key_of_def], of "g\<lparr>gsr_inflight := False, gsr_resolved := jb_resolved j\<rparr>"] assms(2)
    by (simp add: processResult_def deleteResolvedGameFiles_def)
qed

section \<open>The invariant\<close>

lemma sched_internal_ok: "sched_internal hx s s' \<Longrightarrow> sched_ok n s \<Longrightarrow> sched_ok n s'"
proof (induction rule: sched_internal.induct)
  case (enqueue s j js)
  then show ?case by (simp add: sched_ok_def keys_def)
next
  case (collect s j js stuck)
  then have "jobs_ok False (add_mset (key_of j) (keys (s\<lparr>sch_resultQueue := js\<rparr>))) (co_states (sch_coordinator s))"
    by (simp add: sched_ok_def keys_def)
  from processResult_ok [OF this, of hx stuck] collect show ?case by (simp add: sched_ok_def keys_def)
next
  case (take_job s w j js)
  then show ?case using held_update [of w "sch_workers s" "Busy j"] by (simp add: sched_ok_def keys_def)
next
  case (progressed s w j b)
  then show ?case using held_update [of w "sch_workers s" "Sending (j\<lparr>jb_resolved := b\<rparr>)"] by (simp add: sched_ok_def keys_def)
next
  case (send_back s w j)
  then have "held_keys (sch_workers s) = add_mset (key_of j) (held_keys ((sch_workers s)[w := Idle]))"
    using held_update [of w "sch_workers s" Idle] by simp
  then show ?case using send_back by (simp add: sched_ok_def keys_def)
qed

lemma sched_step_ok: "sched_step hx s s' \<Longrightarrow> sched_ok n s \<Longrightarrow> sched_ok n s'"
proof (induction rule: sched_step.induct)
  case (internal s s')
  then show ?case using sched_internal_ok by blast
next
  case (scheduled s games)
  then show ?case by (simp add: Schedule_def sched_ok_def keys_def)
next
  case (update s games gs mk c jobs errs)
  then have "jobs_ok False (keys s + image_mset key_of (mset jobs)) (co_states c) \<and> gomap_ok (co_states c)"
    using schedule_jobs_ok [OF update.hyps(4), of False "keys s"] by (auto simp: sched_ok_def)
  then show ?case using update by (simp add: sched_ok_def keys_def ac_simps)
next
  case (stop s)
  have "keys (s\<lparr>sch_stopped := True, sch_jobs := []\<rparr>) \<subseteq># keys s" by (simp add: keys_def)
  then have "jobs_ok True (keys (s\<lparr>sch_stopped := True, sch_jobs := []\<rparr>)) (co_states (sch_coordinator s))"
    using stop jobs_ok_subset unfolding sched_ok_def by blast
  then show ?case using stop unfolding sched_ok_def by simp
qed

lemma sched_run_ok: "sched_run hx disk n s \<Longrightarrow> sched_ok n s"
proof (induction rule: sched_run.induct)
  case init
  then show ?case by (simp add: sched_ok_def NewScheduler_def newCoordinator_def keys_def jobs_ok_def)
next
  case (step s s')
  then show ?case using sched_step_ok by blast
qed

section \<open>Safety\<close>

fun worker_job :: "'p worker \<Rightarrow> 'p job option" where
  "worker_job Idle = None"
| "worker_job (Busy j) = Some j"
| "worker_job (Sending j) = Some j"

lemma worker_keys_job: "worker_job wk = Some j \<Longrightarrow> worker_keys wk = [key_of j]"
  by (cases wk) auto

lemma two_workers:
  assumes "v < length ws" "w < length ws" "v \<noteq> w" "worker_job (ws ! v) = Some j" "worker_job (ws ! w) = Some k"
  shows "{#key_of j, key_of k#} \<subseteq># held_keys ws"
proof -
  have "held_keys ws = add_mset (key_of j) (held_keys (ws[v := Idle]))"
    using held_update [OF assms(1), of Idle] worker_keys_job [OF assms(4)] by simp
  also have "held_keys (ws[v := Idle]) = add_mset (key_of k) (held_keys (ws[v := Idle, w := Idle]))"
    using held_update [of w "ws[v := Idle]" Idle] worker_keys_job [OF assms(5)] assms(2,3) by simp
  finally show ?thesis by simp
qed

definition dir_of :: "hex_codec \<Rightarrow> dir_entry \<Rightarrow> address" where
  "dir_of hx e = hx_HexToAddress hx (drop (length gameDirPrefix) (de_name e))"

lemma processResult_keeps:
  assumes "e \<in> set (co_disk c)" "map_of (co_states (fst (processResult hx stuck j c))) (dir_of hx e) = Some g" "gsr_inflight g"
  shows "e \<in> set (co_disk (fst (processResult hx stuck j c)))"
proof (cases "map_of (co_states c) (jb_addr j)")
  case (Some g')
  define c1 where "c1 = c\<lparr>co_states := AList.update (jb_addr j) (g'\<lparr>gsr_inflight := False, gsr_resolved := jb_resolved j\<rparr>) (co_states c)\<rparr>"
  have r: "fst (processResult hx stuck j c) = deleteResolvedGameFiles hx stuck c1" using Some by (simp add: processResult_def c1_def)
  then have "map_of (co_states c1) (dir_of hx e) = Some g" using assms(2) by (simp add: deleteResolvedGameFiles_def)
  then have "dir_of hx e \<in> set (keep_games c1)" using map_of_SomeD assms(3) unfolding keep_games_def by force
  then have "\<not> removes hx (keep_games c1) e" by (simp add: removes_def dir_of_def Let_def)
  then show ?thesis using assms(1) unfolding r deleteResolvedGameFiles_def RemoveAllExcept_def c1_def by simp
qed (use assms in \<open>simp add: processResult_def\<close>)

lemma step_keeps_disk:
  assumes "sched_step hx s s'" "sched_ok n s" "e \<in> set (co_disk (sch_coordinator s))" "dir_of hx e \<in># image_mset fst (keys s')"
  shows "e \<in> set (co_disk (sch_coordinator s'))"
proof -
  have ok': "sched_ok n s'" using sched_step_ok assms(1,2) by blast
  then obtain g where g: "map_of (co_states (sch_coordinator s')) (dir_of hx e) = Some g" "gsr_inflight g"
    using jobs_ok_known assms(4) unfolding sched_ok_def by blast
  from assms(1) show ?thesis
  proof cases
    case internal
    then show ?thesis
    proof cases
      case (collect j js stuck)
      then show ?thesis using processResult_keeps assms(3) g by simp
    qed (use assms(3) in simp_all)
  next
    case (update games gs mk c jobs errs)
    then have "co_disk c = co_disk (sch_coordinator s)"
      using schedule_jobs_ok [OF update(5), of "sch_stopped s" "keys s"] assms(2) unfolding sched_ok_def by blast
    then show ?thesis using assms(3) update(1) by simp
  qed (use assms(3) in \<open>simp_all add: Schedule_def\<close>)
qed

text \<open>C30: In every interleaving of the scheduler's goroutines no two workers have jobs of the same game, every job is of a game that
  the coordinator knows as in flight, with its player, and no step removes the directory of a game that has a job.\<close>

theorem scheduler_safe:
  assumes "sched_run hx disk n s"
  shows "(\<forall>v w j k. v < length (sch_workers s) \<and> w < length (sch_workers s) \<and> v \<noteq> w \<and>
      worker_job (sch_workers s ! v) = Some j \<and> worker_job (sch_workers s ! w) = Some k \<longrightarrow> jb_addr j \<noteq> jb_addr k) \<and>
    (\<forall>(a, p)\<in>#keys s. \<exists>g. map_of (co_states (sch_coordinator s)) a = Some g \<and> gsr_inflight g \<and> gsr_player g = Some p) \<and>
    (\<forall>s' e. sched_step hx s s' \<and> e \<in> set (co_disk (sch_coordinator s)) \<and> dir_of hx e \<in># image_mset fst (keys s') \<longrightarrow>
      e \<in> set (co_disk (sch_coordinator s')))"
proof (intro conjI allI impI; (elim conjE)?)
  have ok: "sched_ok n s" using sched_run_ok assms by blast
  then have jobs: "jobs_ok (sch_stopped s) (keys s) (co_states (sch_coordinator s))" unfolding sched_ok_def by blast
  show "jb_addr j \<noteq> jb_addr k"
    if "v < length (sch_workers s)" "w < length (sch_workers s)" "v \<noteq> w"
      "worker_job (sch_workers s ! v) = Some j" "worker_job (sch_workers s ! w) = Some k" for v w j k
  proof
    assume "jb_addr j = jb_addr k"
    have "{#key_of j, key_of k#} \<subseteq># keys s"
      using two_workers [OF that] unfolding keys_def by (meson mset_subset_eq_add_right subset_mset.order_trans)
    then have "count (image_mset fst {#key_of j, key_of k#}) (jb_addr k) \<le> count (image_mset fst (keys s)) (jb_addr k)"
      by (intro mset_subset_eq_count image_mset_subseteq_mono)
    then show False using jobs_okD(1) [OF jobs, of "jb_addr k"] \<open>jb_addr j = jb_addr k\<close> by (simp add: key_of_def)
  qed
  show "\<forall>(a, p)\<in>#keys s. \<exists>g. map_of (co_states (sch_coordinator s)) a = Some g \<and> gsr_inflight g \<and> gsr_player g = Some p"
    using jobs_okD(2) [OF jobs] by blast
  show "e \<in> set (co_disk (sch_coordinator s'))"
    if "sched_step hx s s'" "e \<in> set (co_disk (sch_coordinator s))" "dir_of hx e \<in># image_mset fst (keys s')" for s' e
    using step_keeps_disk [OF that(1) ok that(2,3)] .
qed

section \<open>Liveness\<close>

fun worker_work :: "'p worker \<Rightarrow> nat" where
  "worker_work Idle = 0"
| "worker_work (Busy j) = 3"
| "worker_work (Sending j) = 2"

text \<open>The steps that the jobs in the system still need.\<close>

definition work :: "'p scheduler \<Rightarrow> nat" where
  "work s = 5 * length (sch_jobs s) + 4 * length (sch_jobQueue s) + sum_list (map worker_work (sch_workers s)) +
     length (sch_resultQueue s)"

lemma work_update: "w < length ws \<Longrightarrow>
  sum_list (map worker_work (ws[w := x])) + worker_work (ws ! w) = sum_list (map worker_work ws) + worker_work x"
  by (induction ws arbitrary: w) (auto simp: nth_Cons split: nat.splits)

lemma internal_work: "sched_internal hx s s' \<Longrightarrow> work s' < work s"
proof (induction rule: sched_internal.induct)
  case (take_job s w j js)
  then show ?case using work_update [of w "sch_workers s" "Busy j"] by (simp add: work_def)
next
  case (progressed s w j b)
  then show ?case using work_update [of w "sch_workers s" "Sending (j\<lparr>jb_resolved := b\<rparr>)"] by (simp add: work_def)
next
  case (send_back s w j)
  then show ?case using work_update [of w "sch_workers s" Idle] by (simp add: work_def)
qed (simp_all add: work_def)

lemma internal_enabled:
  assumes ok: "sched_ok n s" and n: "0 < n" and running: "\<not> sch_stopped s" and jobs: "keys s \<noteq> {#}"
  shows "\<exists>s'. sched_internal hx s s'"
proof (cases "sch_resultQueue s")
  case (Cons j js)
  then show ?thesis using sched_internal.collect [OF running] by blast
next
  case Nil
  have len: "length (sch_workers s) = n" "sch_maxConcurrency s = n" using ok unfolding sched_ok_def by auto
  show ?thesis
  proof (cases "\<exists>w<n. sch_workers s ! w \<noteq> Idle")
    case True
    then obtain w where "w < n" "sch_workers s ! w \<noteq> Idle" by blast
    then show ?thesis using sched_internal.progressed sched_internal.send_back Nil len n
      by (cases "sch_workers s ! w") fastforce+
  next
    case False
    then have idle: "sch_workers s = replicate n Idle" using len by (simp add: list_eq_iff_nth_eq)
    show ?thesis
    proof (cases "sch_jobQueue s")
      case (Cons j js)
      then show ?thesis using sched_internal.take_job [of s 0] idle n by fastforce
    next
      case jq: Nil
      then obtain j js where "sch_jobs s = j # js" using jobs Nil idle by (cases "sch_jobs s") (auto simp: keys_def)
      then show ?thesis using sched_internal.enqueue [OF running] jq n len by fastforce
    qed
  qed
qed

text \<open>C31: The queues never block each other for good: while the scheduler has a worker and is not stopped, a goroutine can go on as
  long as there is a job in the system, and each such step reduces the work that is left, so that every job that was
  scheduled is done and its result is taken after finitely many steps.\<close>

theorem scheduler_live:
  assumes "sched_run hx disk n s" "0 < n" "\<not> sch_stopped s"
  shows "(keys s \<noteq> {#} \<longrightarrow> (\<exists>s'. sched_internal hx s s')) \<and> (\<forall>s'. sched_internal hx s s' \<longrightarrow> work s' < work s) \<and>
    (\<exists>t. (sched_internal hx)\<^sup>*\<^sup>* s t \<and> keys t = {#})"
proof (intro conjI allI impI)
  have ok: "sched_ok n s" using sched_run_ok assms(1) by blast
  show "\<exists>s'. sched_internal hx s s'" if "keys s \<noteq> {#}" using internal_enabled [OF ok assms(2,3) that] .
  show "work s' < work s" if "sched_internal hx s s'" for s' using internal_work [OF that] .
  show "\<exists>t. (sched_internal hx)\<^sup>*\<^sup>* s t \<and> keys t = {#}"
    using ok assms(3)
  proof (induction "work s" arbitrary: s rule: less_induct)
    case less
    show ?case
    proof (cases "keys s = {#}")
      case False
      obtain s' where s': "sched_internal hx s s'" using internal_enabled [OF less.prems(1) assms(2) less.prems(2) False] by blast
      have "\<not> sch_stopped s'" using s' less.prems(2) by cases simp_all
      then obtain t where "(sched_internal hx)\<^sup>*\<^sup>* s' t" "keys t = {#}"
        using less.hyps [OF internal_work [OF s'] sched_internal_ok [OF s' less.prems(1)]] by blast
      then show ?thesis using s' by (meson converse_rtranclp_into_rtranclp)
    qed blast
  qed
qed

section \<open>A run\<close>

text \<open>One game is announced and its job is made.\<close>

definition plain_codec :: hex_codec where
  "plain_codec = \<lparr>hx_Hex = map (\<lambda>b. char_of (unat b)), hx_HexToAddress = map (\<lambda>c. of_nat (of_char c))\<rparr>"

definition ex_addr :: address where
  "ex_addr = replicate 20 7"

definition ex_sched :: "unit scheduler" where
  "ex_sched = (NewScheduler [] 1)
     \<lparr>sch_coordinator := \<lparr>co_states = [(ex_addr, \<lparr>gsr_player = Some (), gsr_inflight = True, gsr_resolved = False\<rparr>)], co_disk = []\<rparr>,
      sch_jobs := [\<lparr>jb_addr = ex_addr, jb_player = (), jb_resolved = False\<rparr>]\<rparr>"

lemma ex_sched_run: "sched_run plain_codec [] 1 ex_sched"
proof -
  let ?s = "fst (Schedule [ex_addr] (NewScheduler [] 1)) :: unit scheduler"
  have run: "sched_run plain_codec [] 1 ?s" by (intro sched_run.step [OF sched_run.init] sched_step.scheduled)
  have jobs: "create_jobs (\<lambda>_. Inr ()) [ex_addr] \<lparr>co_states = [], co_disk = []\<rparr> = (sch_coordinator ex_sched, sch_jobs ex_sched, [])"
    unfolding create_jobs.simps createJob_def by (simp add: ex_sched_def)
  have "sched_step plain_codec ?s (?s\<lparr>sch_scheduleQueue := [], sch_coordinator := sch_coordinator ex_sched, sch_jobs := sch_jobs ex_sched\<rparr>)"
    by (intro sched_step.update [where mk = "\<lambda>_. Inr ()" and errs = "[]" and games = "[ex_addr]"])
      (use jobs in \<open>simp_all add: Schedule_def NewScheduler_def newCoordinator_def schedule_jobs_def drop_states_def\<close>)
  moreover have "?s\<lparr>sch_scheduleQueue := [], sch_coordinator := sch_coordinator ex_sched, sch_jobs := sch_jobs ex_sched\<rparr> = ex_sched"
    by (simp add: Schedule_def NewScheduler_def ex_sched_def)
  ultimately show ?thesis using sched_run.step [OF run] by metis
qed

theorem scheduler_safe_witness:
  "\<exists>g. map_of (co_states (sch_coordinator ex_sched)) ex_addr = Some g \<and> gsr_inflight g \<and> gsr_player g = Some ()"
proof -
  have "(ex_addr, ()) \<in># keys ex_sched" by (simp add: keys_def ex_sched_def key_of_def NewScheduler_def)
  then show ?thesis using scheduler_safe [OF ex_sched_run] by fastforce
qed

theorem scheduler_live_witness:
  "\<exists>t. (sched_internal plain_codec)\<^sup>*\<^sup>* ex_sched t \<and> keys t = {#}"
  using scheduler_live [OF ex_sched_run] by (simp add: ex_sched_def NewScheduler_def)

end
