(* ===== verification/Payload_SSZ.thy ===== *)
theory Payload_SSZ
  imports Payloads
begin

text \<open>
  The SSZ encoding of execution payloads, \<open>op-service/eth/ssz.go\<close>, in which payloads travel between nodes. The encoder fills
  a buffer of a pool at running 32-bit offsets; the content of the pooled buffer is an argument, and a slice beyond its
  capacity panics. The decoder is strict but for one case, which the round trip below names.
\<close>

section \<open>Slices and little-endian words\<close>

definition out_of_bounds :: error where "out_of_bounds = Panic ''slice bounds out of range''"

text \<open>\<open>xs[a:b]\<close>, and \<open>copy(xs[a:b], src)\<close>.\<close>

definition go_slice :: "u32 \<Rightarrow> u32 \<Rightarrow> bytes \<Rightarrow> bytes result" where
  "go_slice a b xs = (if a \<le> b \<and> unat b \<le> length xs then Inr (take (unat b - unat a) (drop (unat a) xs)) else Inl out_of_bounds)"

definition go_copy :: "u32 \<Rightarrow> u32 \<Rightarrow> bytes \<Rightarrow> bytes \<Rightarrow> bytes result" where
  "go_copy a b src xs =
     (if a \<le> b \<and> unat b \<le> length xs
      then let n = min (unat b - unat a) (length src) in Inr (take (unat a) xs @ take n src @ drop (unat a + n) xs)
      else Inl out_of_bounds)"

definition put_le32 :: "u32 \<Rightarrow> bytes" where "put_le32 w = rev (put_u32 w)"
definition get_le32 :: "bytes \<Rightarrow> u32" where "get_le32 bs = get_u32 (rev bs)"
definition put_le64 :: "u64 \<Rightarrow> bytes" where "put_le64 w = rev (put_u64 w)"
definition get_le64 :: "bytes \<Rightarrow> u64" where "get_le64 bs = get_u64 (rev bs)"

lemma le_codec [simp]:
  "length (put_le32 w) = 4" "length (put_le64 x) = 8" "get_le32 (put_le32 w) = w" "get_le64 (put_le64 x) = x"
  by (simp_all add: put_le32_def put_le64_def get_le32_def get_le64_def)

lemma le_put_get:
  "length bs = 4 \<Longrightarrow> put_le32 (get_le32 bs) = bs" "length bs = 8 \<Longrightarrow> put_le64 (get_le64 bs) = bs"
  by (simp_all add: put_le32_def put_le64_def get_le32_def get_le64_def put_get_u32 put_get_u64)

text \<open>The four limbs of a \<open>Uint256Quantity\<close>, least significant first.\<close>

definition limb :: "nat \<Rightarrow> 256 word \<Rightarrow> u64" where
  "limb i z = ucast (drop_bit (64 * i) z)"

definition of_limbs :: "u64 \<Rightarrow> u64 \<Rightarrow> u64 \<Rightarrow> u64 \<Rightarrow> 256 word" where
  "of_limbs a b c d = or (ucast a) (or (push_bit 64 (ucast b)) (or (push_bit 128 (ucast c)) (push_bit 192 (ucast d))))"

definition marshalBytes32LE :: "256 word \<Rightarrow> bytes" where
  "marshalBytes32LE z = put_le64 (limb 0 z) @ put_le64 (limb 1 z) @ put_le64 (limb 2 z) @ put_le64 (limb 3 z)"

definition unmarshalBytes32LE :: "bytes \<Rightarrow> 256 word" where
  "unmarshalBytes32LE inp =
     of_limbs (get_le64 (take 8 inp)) (get_le64 (take 8 (drop 8 inp))) (get_le64 (take 8 (drop 16 inp))) (get_le64 (take 8 (drop 24 inp)))"

lemma bit_limb: "bit (limb i z) n \<longleftrightarrow> n < 64 \<and> bit z (64 * i + n)"
  by (simp add: limb_def bit_ucast_iff bit_drop_bit_eq)

lemma bit_u64: "bit (w :: u64) n \<Longrightarrow> n < 64"
  using bit_imp_le_length [of w n] by simp

lemma bit_of_limbs:
  "n < 256 \<Longrightarrow> bit (of_limbs a b c d) n \<longleftrightarrow>
     (if n < 64 then bit a n else if n < 128 then bit b (n - 64) else if n < 192 then bit c (n - 128) else bit d (n - 192))"
  using bit_u64 [of a n] bit_u64 [of b "n - 64"] bit_u64 [of c "n - 128"]
  by (auto simp: of_limbs_def bit_or_iff bit_push_bit_iff bit_ucast_iff)

lemma limb_of_limbs:
  "limb 0 (of_limbs a b c d) = a" "limb 1 (of_limbs a b c d) = b" "limb 2 (of_limbs a b c d) = c" "limb 3 (of_limbs a b c d) = d"
  by (intro bit_eqI; simp add: bit_limb bit_of_limbs; simp only: add_diff_cancel_left')+

lemma of_limbs_limb: "of_limbs (limb 0 z) (limb 1 z) (limb 2 z) (limb 3 z) = z"
proof (rule bit_eqI)
  fix n assume "possible_bit TYPE(256 word) n"
  then have n: "n < 256" by simp
  consider "n < 64" | "64 \<le> n \<and> n < 128" | "128 \<le> n \<and> n < 192" | "192 \<le> n" by linarith
  then show "bit (of_limbs (limb 0 z) (limb 1 z) (limb 2 z) (limb 3 z)) n = bit z n"
    using n by cases (auto simp: bit_of_limbs [OF n] bit_limb)
qed

lemma length_marshalBytes32LE [simp]: "length (marshalBytes32LE z) = 32"
  by (simp add: marshalBytes32LE_def)

lemma bytes32LE [simp]: "unmarshalBytes32LE (marshalBytes32LE z) = z"
  unfolding unmarshalBytes32LE_def marshalBytes32LE_def by (simp add: of_limbs_limb del: One_nat_def)

lemma bytes32LE_back: "length bs = 32 \<Longrightarrow> marshalBytes32LE (unmarshalBytes32LE bs) = bs"
proof -
  assume l: "length bs = 32"
  have "bs = take 8 bs @ take 8 (drop 8 bs) @ take 8 (drop 16 bs) @ take 8 (drop 24 bs)"
  proof -
    have "drop 24 bs = take 8 (drop 24 bs)" using l by simp
    then show ?thesis using append_take_drop_id [of 8 bs] append_take_drop_id [of 8 "drop 8 bs"] append_take_drop_id [of 8 "drop 16 bs"]
      by simp
  qed
  then show ?thesis using l unfolding marshalBytes32LE_def unmarshalBytes32LE_def limb_of_limbs by (simp add: le_put_get)
qed

section \<open>Encoding\<close>

definition executionPayloadFixedPart :: u32 where
  "executionPayloadFixedPart = 32 + 20 + 32 + 32 + 256 + 32 + 8 + 8 + 8 + 8 + 4 + 32 + 32 + 4"

definition maxTransactionsPerPayload :: u32 where "maxTransactionsPerPayload = 2 ^ 20"

definition ErrExtraDataTooLarge :: error where "ErrExtraDataTooLarge = Errorf ''extra data too large''"

definition ErrBadTransactionOffset :: error where
  "ErrBadTransactionOffset = Errorf ''transactions offset is smaller than extra data offset, aborting''"

lemma fixed_part [simp]: "executionPayloadFixedPart = 508"
  by (simp add: executionPayloadFixedPart_def)

definition SizeSSZ :: "execution_payload \<Rightarrow> u32" where
  "SizeSSZ p =
     foldl (\<lambda>full tx. full + of_nat (length tx))
       (executionPayloadFixedPart + of_nat (length (ExtraData p)) + of_nat (length (ep_Transactions p)) * 4) (ep_Transactions p)"

text \<open>A field of the given size is written at the offset, which moves behind it.\<close>

definition put_field :: "u32 \<Rightarrow> bytes \<Rightarrow> u32 \<times> bytes \<Rightarrow> (u32 \<times> bytes) result" where
  "put_field sz src = (\<lambda>(offset, buf). rbind (go_copy offset (offset + sz) src buf) (\<lambda>buf. Inr (offset + sz, buf)))"

fun put_fields :: "(u32 \<times> bytes) list \<Rightarrow> u32 \<times> bytes \<Rightarrow> (u32 \<times> bytes) result" where
  "put_fields [] st = Inr st"
| "put_fields ((sz, src) # fs) st = rbind (put_field sz src st) (put_fields fs)"

definition fixed_fields :: "execution_payload \<Rightarrow> (u32 \<times> bytes) list" where
  "fixed_fields p =
     [(32, ep_ParentHash p), (20, FeeRecipient p), (32, StateRoot p), (32, ReceiptsRoot p), (256, LogsBloom p), (32, ep_PrevRandao p),
      (8, put_le64 (BlockNumber p)), (8, put_le64 (ep_GasLimit p)), (8, put_le64 (GasUsed p)), (8, put_le64 (ep_Timestamp p)),
      (4, put_le32 executionPayloadFixedPart), (32, marshalBytes32LE (BaseFeePerGas p)), (32, BlockHash p),
      (4, put_le32 (executionPayloadFixedPart + of_nat (length (ExtraData p))))]"

fun marshal_txs :: "bytes list \<Rightarrow> u32 \<Rightarrow> u32 \<Rightarrow> bytes \<Rightarrow> bytes result" where
  "marshal_txs [] offset txOffset out = Inr out"
| "marshal_txs (tx # txs) offset txOffset out =
     rbind (go_copy offset (offset + 4) (put_le32 txOffset) out) (\<lambda>out.
       let nextTxOffset = txOffset + of_nat (length tx)
       in rbind (go_copy txOffset nextTxOffset tx out) (marshal_txs txs (offset + 4) nextTxOffset))"

definition marshalTransactions :: "bytes \<Rightarrow> bytes list \<Rightarrow> bytes result" where
  "marshalTransactions out txs = marshal_txs txs 0 (of_nat (length txs) * 4) out"

text \<open>\<open>pool\<close> is the pooled buffer up to its capacity; the result is what is written to \<open>w\<close>.\<close>

definition MarshalSSZ :: "bytes \<Rightarrow> execution_payload \<Rightarrow> bytes result" where
  "MarshalSSZ pool p =
     (if (of_nat (length (ExtraData p)) :: u32) > - 1 - executionPayloadFixedPart then Inl ErrExtraDataTooLarge
      else let scope = SizeSSZ p;
               buf = (if of_nat (length pool) < scope then replicate (unat scope) 0 else pool)
           in rbind (put_fields (fixed_fields p) (0, buf)) (\<lambda>(offset, buf).
              if offset \<noteq> executionPayloadFixedPart then Inl (Panic ''fixed part size is inconsistent'')
              else rbind (put_field (of_nat (length (ExtraData p))) (ExtraData p) (offset, buf)) (\<lambda>(offset, buf).
              if offset > scope then Inl out_of_bounds
              else rbind (marshalTransactions (drop (unat offset) buf) (ep_Transactions p)) (\<lambda>out.
              Inr (take (unat scope) (take (unat offset) buf @ out))))))"

section \<open>Decoding\<close>

fun unmarshal_txs :: "bytes \<Rightarrow> u32 \<Rightarrow> nat \<Rightarrow> u32 \<Rightarrow> u32 \<Rightarrow> bytes list result" where
  "unmarshal_txs inp scope 0 offset currentTxOffset = Inr []"
| "unmarshal_txs inp scope (Suc n) offset currentTxOffset =
     rbind (if n > 0 then rbind (go_slice offset (offset + 4) inp) (\<lambda>bs. Inr (get_le32 bs, offset + 4)) else Inr (scope, offset))
       (\<lambda>(nextTxOffset, offset).
          if nextTxOffset < currentTxOffset \<or> nextTxOffset > scope then Inl (Errorf ''tx has bad next offset'')
          else rbind (go_slice currentTxOffset nextTxOffset inp) (\<lambda>tx.
               rbind (unmarshal_txs inp scope n offset nextTxOffset) (\<lambda>txs. Inr (tx # txs))))"

definition unmarshalTransactions :: "bytes \<Rightarrow> bytes list result" where
  "unmarshalTransactions inp =
     (let scope = (of_nat (length inp) :: u32)
      in if scope = 0 then Inr []
         else if scope < 4 then Inl (Errorf ''not enough scope to read first tx offset'')
         else rbind (go_slice 0 4 inp) (\<lambda>bs.
              let firstTxOffset = get_le32 bs
              in if firstTxOffset mod 4 \<noteq> 0 then Inl (Errorf ''invalid first tx offset, not a multiple of offset size'')
                 else if firstTxOffset > scope then Inl (Errorf ''invalid first tx offset, out of scope'')
                 else let txCount = firstTxOffset div 4
                      in if txCount > maxTransactionsPerPayload then Inl (Errorf ''too many transactions'')
                         else unmarshal_txs inp scope (unat txCount) 4 firstTxOffset))"

text \<open>The fields at their fixed offsets; the buffer has at least the fixed part.\<close>

definition field :: "nat \<Rightarrow> nat \<Rightarrow> bytes \<Rightarrow> bytes" where
  "field offset sz buf = take sz (drop offset buf)"

definition UnmarshalSSZ :: "u32 \<Rightarrow> bytes \<Rightarrow> execution_payload result" where
  "UnmarshalSSZ scope r =
     (if scope < executionPayloadFixedPart then Inl (Errorf ''scope too small to decode execution payload'')
      else rbind (on_error (Wrap ''failed to read fixed-size part of ExecutionPayload'') (read_full (unat scope) r)) (\<lambda>(buf, _).
        let extraDataOffset = get_le32 (field 436 4 buf);
            transactionsOffset = get_le32 (field 504 4 buf)
        in if extraDataOffset \<noteq> executionPayloadFixedPart then Inl (Errorf ''unexpected extra data offset'')
           else if transactionsOffset < extraDataOffset then Inl ErrBadTransactionOffset
           else if transactionsOffset > extraDataOffset + 32 \<or> transactionsOffset > scope then Inl (Errorf ''extra-data is too large'')
           else rbind (go_slice extraDataOffset transactionsOffset buf) (\<lambda>extra.
                rbind (go_slice transactionsOffset scope buf) (\<lambda>inp.
                rbind (on_error (Wrap ''failed to unmarshal transactions list'') (unmarshalTransactions inp)) (\<lambda>txs.
                Inr \<lparr>ep_ParentHash = field 0 32 buf, FeeRecipient = field 32 20 buf, StateRoot = field 52 32 buf,
                     ReceiptsRoot = field 84 32 buf, LogsBloom = field 116 256 buf, ep_PrevRandao = field 372 32 buf,
                     BlockNumber = get_le64 (field 404 8 buf), ep_GasLimit = get_le64 (field 412 8 buf),
                     GasUsed = get_le64 (field 420 8 buf), ep_Timestamp = get_le64 (field 428 8 buf), ExtraData = extra,
                     BaseFeePerGas = unmarshalBytes32LE (field 440 32 buf), BlockHash = field 472 32 buf,
                     ep_Transactions = txs\<rparr>)))))"

section \<open>The encoded form\<close>

fun tx_offsets :: "nat \<Rightarrow> bytes list \<Rightarrow> bytes" where
  "tx_offsets k [] = []"
| "tx_offsets k (tx # txs) = put_le32 (of_nat k) @ tx_offsets (k + length tx) txs"

lemma length_tx_offsets [simp]: "length (tx_offsets k txs) = 4 * length txs"
  by (induction txs arbitrary: k) simp_all

definition ssz_txs :: "bytes list \<Rightarrow> bytes" where
  "ssz_txs txs = tx_offsets (4 * length txs) txs @ concat txs"

definition ssz_fixed :: "execution_payload \<Rightarrow> bytes" where
  "ssz_fixed p = concat (map snd (fixed_fields p))"

definition ssz_bytes :: "execution_payload \<Rightarrow> bytes" where
  "ssz_bytes p = ssz_fixed p @ ExtraData p @ ssz_txs (ep_Transactions p)"

text \<open>What the types of the fields say, with the limits of the consensus specification and a size of 32 bits.\<close>

definition payload_ok :: "execution_payload \<Rightarrow> bool" where
  "payload_ok p \<longleftrightarrow>
     length (ep_ParentHash p) = 32 \<and> length (FeeRecipient p) = 20 \<and> length (StateRoot p) = 32 \<and> length (ReceiptsRoot p) = 32 \<and>
     length (LogsBloom p) = 256 \<and> length (ep_PrevRandao p) = 32 \<and> length (BlockHash p) = 32 \<and>
     length (ExtraData p) \<le> 32 \<and> length (ep_Transactions p) \<le> 2 ^ 20 \<and> length (ssz_bytes p) < 2 ^ 32"

lemma unat_small: "n < 2 ^ 32 \<Longrightarrow> unat (of_nat n :: u32) = n"
  by (simp add: unat_of_nat)

lemma go_copy_middle:
  assumes "unat a = length pre" "unat b = length pre + length src" "length old = length src"
  shows "go_copy a b src (pre @ old @ rest) = Inr (pre @ src @ rest)"
  using assms by (simp add: go_copy_def word_le_nat_alt)

lemma go_slice_middle:
  assumes "unat a = length pre" "unat b = length pre + length mid"
  shows "go_slice a b (pre @ mid @ rest) = Inr mid"
  using assms by (simp add: go_slice_def word_le_nat_alt)

lemma split_at: "length xs = n + m \<Longrightarrow> \<exists>ys zs. xs = ys @ zs \<and> length ys = n \<and> length zs = m"
  by (intro exI [of _ "take n xs"] exI [of _ "drop n xs"]) simp

lemma put_fields_at:
  assumes "\<forall>(sz, src)\<in>set fs. sz = of_nat (length src)" "length old = length (concat (map snd fs))" "length pre + length old < 2 ^ 32"
  shows "put_fields fs (of_nat (length pre), pre @ old @ rest) =
    Inr (of_nat (length pre + length old), pre @ concat (map snd fs) @ rest)"
  using assms
proof (induction fs arbitrary: pre old)
  case (Cons f fs)
  obtain sz src where f: "f = (sz, src)" by (cases f)
  have sz: "sz = of_nat (length src)" and len: "length old = length src + length (concat (map snd fs))" using Cons.prems f by auto
  obtain o1 o2 where old: "old = o1 @ o2" "length o1 = length src" "length o2 = length (concat (map snd fs))" using split_at [OF len] by blast
  have "unat (of_nat (length pre) + sz) = length pre + length src"
    using Cons.prems(3) len unat_small [of "length pre + length src"] sz by simp
  then have "go_copy (of_nat (length pre)) (of_nat (length pre) + sz) src (pre @ o1 @ o2 @ rest) = Inr (pre @ src @ o2 @ rest)"
    using Cons.prems(3) len old(2) by (intro go_copy_middle) (simp_all add: unat_small)
  then have "put_field sz src (of_nat (length pre), pre @ o1 @ o2 @ rest) = Inr (of_nat (length (pre @ src)), (pre @ src) @ o2 @ rest)"
    using sz by (simp add: put_field_def)
  moreover have "put_fields fs (of_nat (length (pre @ src)), (pre @ src) @ o2 @ rest) =
      Inr (of_nat (length (pre @ src) + length o2), (pre @ src) @ concat (map snd fs) @ rest)"
    using Cons.prems len old by (intro Cons.IH) auto
  ultimately show ?case using f old by simp
qed simp

lemma marshal_txs_at:
  assumes "length G = 4 * length txs" "length R = length (concat txs)" "length A + length G + length B + length R < 2 ^ 32"
  shows "marshal_txs txs (of_nat (length A)) (of_nat (length A + length G + length B)) (A @ G @ B @ R @ rest) =
    Inr (A @ tx_offsets (length A + length G + length B) txs @ B @ concat txs @ rest)"
  using assms
proof (induction txs arbitrary: A G B R)
  case (Cons tx txs)
  define k where "k = length A + length G + length B"
  obtain G1 G2 where G: "G = G1 @ G2" "length G1 = 4" "length G2 = 4 * length txs" using Cons.prems(1) split_at [of G 4 "4 * length txs"] by auto
  obtain R1 R2 where R: "R = R1 @ R2" "length R1 = length tx" "length R2 = length (concat txs)"
    using Cons.prems(2) split_at [of R "length tx" "length (concat txs)"] by auto
  let ?A = "A @ put_le32 (of_nat k)"
  have A: "length ?A = length A + 4" by simp
  have "unat (of_nat (length A) + 4 :: u32) = length A + 4"
    using Cons.prems(3) G unat_small [of "length A + 4"] by (simp add: add.commute)
  then have "go_copy (of_nat (length A)) (of_nat (length A) + 4) (put_le32 (of_nat k)) (A @ G1 @ G2 @ B @ R1 @ R2 @ rest) =
      Inr (A @ put_le32 (of_nat k) @ G2 @ B @ R1 @ R2 @ rest)"
    using Cons.prems(3) G by (intro go_copy_middle) (simp_all add: unat_small)
  moreover have "go_copy (of_nat k) (of_nat k + of_nat (length tx)) tx ((?A @ G2 @ B) @ R1 @ R2 @ rest) = Inr ((?A @ G2 @ B) @ tx @ R2 @ rest)"
    using Cons.prems(3) G R unat_small [of k] unat_small [of "k + length tx"] by (intro go_copy_middle) (simp_all add: k_def)
  moreover have sum: "length ?A + length G2 + length (B @ tx) = k + length tx" using G by (simp add: k_def)
  have "marshal_txs txs (of_nat (length ?A)) (of_nat (k + length tx)) (?A @ G2 @ (B @ tx) @ R2 @ rest) =
      Inr (?A @ tx_offsets (k + length tx) txs @ (B @ tx) @ concat txs @ rest)"
    using Cons.prems(3) G R unfolding sum [symmetric] by (intro Cons.IH) auto
  ultimately have "marshal_txs (tx # txs) (of_nat (length A)) (of_nat k) (A @ G1 @ G2 @ B @ R1 @ R2 @ rest) =
      Inr (?A @ tx_offsets (k + length tx) txs @ B @ tx @ concat txs @ rest)"
    by (simp add: Let_def)
  then show ?case using G R by (simp add: k_def)
qed simp

lemma length_ssz_txs [simp]: "length (ssz_txs txs) = 4 * length txs + length (concat txs)"
  by (simp add: ssz_txs_def)

lemma length_ssz_fixed: "payload_ok p \<Longrightarrow> length (ssz_fixed p) = 508"
  by (simp add: ssz_fixed_def fixed_fields_def payload_ok_def)

lemma SizeSSZ_length:
  assumes "payload_ok p"
  shows "SizeSSZ p = of_nat (length (ssz_bytes p))"
proof -
  have "foldl (\<lambda>full tx. full + of_nat (length tx)) k txs = k + of_nat (length (concat txs))" for k :: u32 and txs :: "bytes list"
    by (induction txs arbitrary: k) simp_all
  then show ?thesis using length_ssz_fixed [OF assms] by (simp add: SizeSSZ_def ssz_bytes_def ac_simps)
qed

text \<open>Whatever the pooled buffer holds, the encoder writes the encoded form.\<close>

lemma MarshalSSZ_bytes:
  assumes ok: "payload_ok p" and pool: "length pool < 2 ^ 32"
  shows "MarshalSSZ pool p = Inr (ssz_bytes p)"
proof -
  let ?n = "length (ssz_bytes p)" and ?e = "length (ExtraData p)" and ?txs = "ep_Transactions p"
  have n: "?n < 2 ^ 32" "?n = 508 + ?e + length (ssz_txs ?txs)" "?e \<le> 32"
    using ok length_ssz_fixed [OF ok] by (simp_all add: payload_ok_def ssz_bytes_def)
  have scope: "SizeSSZ p = of_nat ?n" "unat (of_nat ?n :: u32) = ?n" using SizeSSZ_length [OF ok] n(1) unat_small by auto
  define buf where "buf = (if of_nat (length pool) < SizeSSZ p then replicate (unat (SizeSSZ p)) 0 else pool)"
  have "?n \<le> length buf" using scope pool by (auto simp: buf_def word_less_nat_alt unat_small)
  then have "length buf = 508 + (?e + (length (ssz_txs ?txs) + (length buf - ?n)))" using n(2) by simp
  then obtain F E T rest where buf: "buf = F @ E @ T @ rest" "length F = 508" "length E = ?e" "length T = length (ssz_txs ?txs)"
    by (metis split_at)
  have "put_fields (fixed_fields p) (of_nat (length ([] :: bytes)), [] @ F @ E @ T @ rest) =
      Inr (of_nat (length ([] :: bytes) + length F), [] @ concat (map snd (fixed_fields p)) @ E @ T @ rest)"
    using ok buf(2) length_ssz_fixed [OF ok]
    by (intro put_fields_at) (auto simp: fixed_fields_def payload_ok_def ssz_fixed_def)
  then have 1: "put_fields (fixed_fields p) (0, buf) = Inr (508, ssz_fixed p @ E @ T @ rest)" using buf by (simp add: ssz_fixed_def)
  have e: "unat (508 + of_nat ?e :: u32) = 508 + ?e" using n(3) unat_small [of "508 + ?e"] by simp
  have "go_copy 508 (508 + of_nat ?e) (ExtraData p) (ssz_fixed p @ E @ T @ rest) = Inr (ssz_fixed p @ ExtraData p @ T @ rest)"
    using e buf(3) length_ssz_fixed [OF ok] by (intro go_copy_middle) simp_all
  then have 2: "put_field (of_nat ?e) (ExtraData p) (508, ssz_fixed p @ E @ T @ rest) =
      Inr (508 + of_nat ?e, ssz_fixed p @ ExtraData p @ T @ rest)" by (simp add: put_field_def)
  have 3: "marshalTransactions (T @ rest) ?txs = Inr (ssz_txs ?txs @ rest)"
  proof -
    obtain G R where T: "T = G @ R" "length G = 4 * length ?txs" "length R = length (concat ?txs)"
      using split_at [of T "4 * length ?txs" "length (concat ?txs)"] buf(4) by auto
    then show ?thesis using marshal_txs_at [of G ?txs R "[]" "[]" rest] n by (simp add: marshalTransactions_def ssz_txs_def mult.commute)
  qed
  have small: "\<not> SizeSSZ p < 508 + of_nat ?e" using e n(2) scope by (simp only: word_less_nat_alt)
  have room: "\<not> - 1 - 508 < (of_nat ?e :: u32)" using n(3) by (simp add: word_less_nat_alt unat_small)
  have drop: "take (unat (508 + of_nat ?e :: u32)) (ssz_fixed p @ ExtraData p @ T @ rest) = ssz_fixed p @ ExtraData p"
    "drop (unat (508 + of_nat ?e :: u32)) (ssz_fixed p @ ExtraData p @ T @ rest) = T @ rest"
    using length_ssz_fixed [OF ok] unfolding e by simp_all
  have "MarshalSSZ pool p = Inr (take (unat (SizeSSZ p)) ((ssz_fixed p @ ExtraData p) @ ssz_txs ?txs @ rest))"
    unfolding MarshalSSZ_def Let_def buf_def [symmetric] 1 fixed_part
    by (simp only: room 2 3 small drop rbind_simps prod.case if_False simp_thms)
  then show ?thesis using scope by (simp add: ssz_bytes_def)
qed

section \<open>Decoding what was encoded\<close>

lemma unmarshal_txs_at:
  assumes "inp = A @ tx_offsets (length A + 4 * length txs + length B + length tx) txs @ B @ concat (tx # txs)" "length inp < 2 ^ 32"
  shows "unmarshal_txs inp (of_nat (length inp)) (Suc (length txs)) (of_nat (length A)) (of_nat (length A + 4 * length txs + length B)) =
    Inr (tx # txs)"
  using assms
proof (induction txs arbitrary: tx A B)
  case Nil
  then have "go_slice (of_nat (length A + length B)) (of_nat (length inp)) ((A @ B) @ tx @ []) = Inr tx"
    by (intro go_slice_middle) (simp_all add: unat_small del: of_nat_add)
  moreover have "\<not> (of_nat (length inp) :: u32) < of_nat (length A + length B)"
    using Nil by (simp add: word_less_nat_alt unat_small del: of_nat_add)
  ultimately show ?case using Nil(1) by simp
next
  case (Cons t txs)
  define c where "c = length A + 4 * length (t # txs) + length B"
  let ?A = "A @ put_le32 (of_nat (c + length tx))"
  have inp: "inp = ?A @ tx_offsets (c + length tx + length t) txs @ (B @ tx) @ concat (t # txs)" using Cons.prems(1) by (simp add: c_def ac_simps)
  have len: "length inp = c + length tx + length (concat (t # txs))" using inp by (simp add: c_def)
  have sum: "length ?A + 4 * length txs + length (B @ tx) = c + length tx" by (simp add: c_def)
  have IH: "unmarshal_txs inp (of_nat (length inp)) (Suc (length txs)) (of_nat (length ?A)) (of_nat (c + length tx)) = Inr (t # txs)"
    using Cons.IH [of ?A "B @ tx" t] inp Cons.prems(2) unfolding sum by blast
  have "go_slice (of_nat (length A)) (of_nat (length A) + 4) (A @ put_le32 (of_nat (c + length tx)) @
      (tx_offsets (c + length tx + length t) txs @ (B @ tx) @ concat (t # txs))) = Inr (put_le32 (of_nat (c + length tx)))"
    using Cons.prems(2) len unat_small [of "length A + 4"] unat_small [of "length A"]
    by (intro go_slice_middle) (simp_all add: c_def add.commute)
  then have offset: "go_slice (of_nat (length A)) (of_nat (length A) + 4) inp = Inr (put_le32 (of_nat (c + length tx)))"
    using inp by simp
  have "length (?A @ tx_offsets (c + length tx + length t) txs @ B) = c" by (simp add: c_def)
  then have "go_slice (of_nat c) (of_nat (c + length tx)) ((?A @ tx_offsets (c + length tx + length t) txs @ B) @ tx @ concat (t # txs)) = Inr tx"
    using Cons.prems(2) len by (intro go_slice_middle) (simp_all only: unat_small)
  then have slice: "go_slice (of_nat c) (of_nat (c + length tx)) inp = Inr tx" using inp by simp
  have "\<not> (of_nat (c + length tx) :: u32) < of_nat c" "\<not> (of_nat (c + length tx) :: u32) > of_nat (length inp)"
    using Cons.prems(2) len by (simp_all add: word_less_nat_alt unat_small del: of_nat_add)
  moreover have "(of_nat (length ?A) :: u32) = of_nat (length A) + 4" by simp
  ultimately have "unmarshal_txs inp (of_nat (length inp)) (Suc (Suc (length txs))) (of_nat (length A)) (of_nat c) = Inr (tx # t # txs)"
    using offset slice IH by (subst unmarshal_txs.simps(2)) (simp del: unmarshal_txs.simps of_nat_add)
  then show ?case by (simp only: c_def list.size add_Suc_right add_0_right)
qed

lemma unmarshalTransactions_back:
  assumes "length (ssz_txs txs) < 2 ^ 32" "length txs \<le> 2 ^ 20"
  shows "unmarshalTransactions (ssz_txs txs) = Inr txs"
proof (cases txs)
  case (Cons tx ts)
  let ?k = "4 * length txs"
  have k: "unat (of_nat ?k :: u32) = ?k" using assms(2) by (intro unat_small) simp
  have inp: "ssz_txs txs = put_le32 (of_nat ?k) @ tx_offsets (?k + length tx) ts @ [] @ concat (tx # ts)"
    using Cons by (simp add: ssz_txs_def)
  have "unmarshal_txs (ssz_txs txs) (of_nat (length (ssz_txs txs))) (Suc (length ts)) (of_nat (length (put_le32 (of_nat ?k))))
      (of_nat (length (put_le32 (of_nat ?k)) + 4 * length ts + length ([] :: bytes))) = Inr (tx # ts)"
    by (intro unmarshal_txs_at) (use inp assms(1) Cons in simp_all)
  then have txs: "unmarshal_txs (ssz_txs txs) (of_nat (length (ssz_txs txs))) (length txs) 4 (of_nat ?k) = Inr txs"
    using Cons by simp
  have "go_slice 0 4 ([] @ put_le32 (of_nat ?k) @ tx_offsets (?k + length tx) ts @ [] @ concat (tx # ts)) = Inr (put_le32 (of_nat ?k))"
    by (intro go_slice_middle) simp_all
  then have first: "go_slice 0 4 (ssz_txs txs) = Inr (put_le32 (of_nat ?k))" using inp by simp
  have scope: "unat (of_nat (length (ssz_txs txs)) :: u32) = length (ssz_txs txs)" using assms(1) by (rule unat_small)
  have "unat ((of_nat ?k :: u32) mod 4) = ?k mod 4" using k by (simp add: unat_mod)
  then have "(of_nat ?k :: u32) mod 4 = 0" by (simp add: word_unat_eq_iff)
  moreover have "unat ((of_nat ?k :: u32) div 4) = length txs" using k by (simp add: unat_div)
  moreover have "(of_nat (length (ssz_txs txs)) :: u32) \<noteq> 0" "\<not> (of_nat (length (ssz_txs txs)) :: u32) < 4"
    "\<not> (of_nat (length (ssz_txs txs)) :: u32) < of_nat ?k"
    using Cons k scope by (auto simp: word_unat_eq_iff word_less_nat_alt simp del: of_nat_mult)
  moreover have "\<not> maxTransactionsPerPayload < (of_nat ?k :: u32) div 4"
    using calculation(2) assms(2) by (simp add: word_less_nat_alt maxTransactionsPerPayload_def)
  ultimately show ?thesis
    unfolding unmarshalTransactions_def Let_def first using txs by (simp only: rbind_simps if_False if_True le_codec simp_thms)
qed (simp add: unmarshalTransactions_def ssz_txs_def)

section \<open>Everything that is decoded\<close>

lemma go_slice_ok:
  assumes "unat a \<le> unat b" "unat b \<le> length xs"
  shows "go_slice a b xs = Inr (take (unat b - unat a) (drop (unat a) xs))"
  using assms by (simp add: go_slice_def word_le_nat_alt)

lemma unat_plus_4: "unat (a :: u32) + 4 \<le> unat (b :: u32) \<Longrightarrow> unat (a + 4) = unat a + 4"
proof -
  have "unat b < 2 ^ 32" using unsigned_less [of b] by simp
  then show "unat a + 4 \<le> unat b \<Longrightarrow> ?thesis" by (simp add: unat_word_ariths)
qed

lemma unmarshal_txs_inv:
  assumes "unat scope = length inp" "unat offset + 4 * n \<le> unat cur" "unat cur \<le> length inp"
  shows "case unmarshal_txs inp scope (Suc n) offset cur of
      Inl e \<Rightarrow> \<not> is_panic e
    | Inr txs \<Rightarrow> length txs = Suc n \<and> concat txs = drop (unat cur) inp \<and>
        tx_offsets (unat cur) txs = put_le32 cur @ take (4 * n) (drop (unat offset) inp)"
  using assms
proof (induction n arbitrary: offset cur)
  case 0
  then have "go_slice cur scope inp = Inr (drop (unat cur) inp)" by (simp add: go_slice_ok)
  moreover have "\<not> scope < cur" using 0 by (simp add: word_less_nat_alt)
  ultimately show ?case by simp
next
  case (Suc n)
  define bs where "bs = take 4 (drop (unat offset) inp)"
  define nxt where "nxt = get_le32 bs"
  have step: "unat (offset + 4) = unat offset + 4" using Suc.prems(2) by (intro unat_plus_4 [of _ cur]) simp
  have len: "length bs = 4" using Suc.prems by (simp add: bs_def)
  have read: "go_slice offset (offset + 4) inp = Inr bs" using Suc.prems step go_slice_ok [of offset "offset + 4" inp] by (simp add: bs_def)
  show ?case
  proof (cases "nxt < cur \<or> nxt > scope")
    case True
    then show ?thesis using read by (subst unmarshal_txs.simps(2)) (simp add: nxt_def [symmetric] del: unmarshal_txs.simps)
  next
    case False
    then have n: "unat cur \<le> unat nxt" "unat nxt \<le> length inp" using Suc.prems(1) by (simp_all add: word_less_nat_alt not_less)
    define tx where "tx = take (unat nxt - unat cur) (drop (unat cur) inp)"
    have slice: "go_slice cur nxt inp = Inr tx" using n by (simp add: go_slice_ok tx_def)
    have tx: "length tx = unat nxt - unat cur" "tx @ drop (unat nxt) inp = drop (unat cur) inp"
      using n append_take_drop_id [of "unat nxt - unat cur" "drop (unat cur) inp"] by (simp_all add: tx_def)
    have whole: "unmarshal_txs inp scope (Suc (Suc n)) offset cur =
        rbind (unmarshal_txs inp scope (Suc n) (offset + 4) nxt) (\<lambda>txs. Inr (tx # txs))"
      using read False slice by (subst unmarshal_txs.simps(2)) (simp add: nxt_def [symmetric] del: unmarshal_txs.simps)
    note IH = Suc.IH [of "offset + 4" nxt]
    show ?thesis
    proof (cases "unmarshal_txs inp scope (Suc n) (offset + 4) nxt")
      case (Inr txs)
      then have rest: "length txs = Suc n" "concat txs = drop (unat nxt) inp"
        "tx_offsets (unat nxt) txs = put_le32 nxt @ take (4 * n) (drop (unat offset + 4) inp)"
        using IH Suc.prems step n by simp_all
      have "put_le32 nxt = bs" using len by (simp add: nxt_def le_put_get)
      moreover have "bs @ take (4 * n) (drop (unat offset + 4) inp) = take (4 * Suc n) (drop (unat offset) inp)"
        using take_add [of 4 "4 * n" "drop (unat offset) inp"] by (simp add: bs_def add.commute)
      moreover have "tx_offsets (unat cur) (tx # txs) = put_le32 cur @ tx_offsets (unat nxt) txs" using tx(1) n by simp
      ultimately show ?thesis using whole Inr rest tx(2) by (simp del: tx_offsets.simps)
    qed (use whole IH Suc.prems step n in simp)
  qed
qed

text \<open>A list of transactions decodes from its encoding only, or from anything that starts with the offset 0.\<close>

lemma unmarshalTransactions_inv:
  assumes "length inp < 2 ^ 32"
  shows "case unmarshalTransactions inp of
      Inl e \<Rightarrow> \<not> is_panic e
    | Inr txs \<Rightarrow> length txs \<le> 2 ^ 20 \<and> (ssz_txs txs = inp \<or> txs = [] \<and> 4 \<le> length inp \<and> take 4 inp = replicate 4 0)"
proof -
  define scope where "scope = (of_nat (length inp) :: u32)"
  have scope: "unat scope = length inp" using assms by (simp add: scope_def unat_small)
  show ?thesis
  proof (cases "length inp < 4")
    case True
    then show ?thesis using scope
      by (auto simp: unmarshalTransactions_def Let_def scope_def [symmetric] word_less_nat_alt ssz_txs_def word_unat_eq_iff)
  next
    case False
    define f where "f = get_le32 (take 4 inp)"
    have bs: "put_le32 f = take 4 inp" using False by (simp add: f_def le_put_get)
    have first: "go_slice 0 4 inp = Inr (take 4 inp)" using False by (simp add: go_slice_ok)
    have body: "unmarshalTransactions inp =
        (if f mod 4 \<noteq> 0 then Inl (Errorf ''invalid first tx offset, not a multiple of offset size'')
         else if f > scope then Inl (Errorf ''invalid first tx offset, out of scope'')
         else if f div 4 > maxTransactionsPerPayload then Inl (Errorf ''too many transactions'')
         else unmarshal_txs inp scope (unat (f div 4)) 4 f)"
      using False scope first
      by (auto simp: unmarshalTransactions_def Let_def scope_def [symmetric] f_def [symmetric] word_less_nat_alt word_unat_eq_iff)
    show ?thesis
    proof (cases "f mod 4 \<noteq> 0 \<or> f > scope \<or> f div 4 > maxTransactionsPerPayload")
      case True
      then show ?thesis unfolding body by auto
    next
      case good: False
      then have f: "unat f mod 4 = 0" "unat f \<le> length inp" "unat f div 4 \<le> 2 ^ 20"
        using scope by (auto simp: word_less_nat_alt unat_mod word_unat_eq_iff unat_div maxTransactionsPerPayload_def not_less)
      have whole: "unmarshalTransactions inp = unmarshal_txs inp scope (unat f div 4) 4 f" using good body by (simp add: unat_div)
      show ?thesis
      proof (cases "unat f div 4")
        case 0
        then have "f = 0" using f(1) by (metis div_mult_mod_eq mult_zero_left add_0 unat_eq_zero)
        moreover have "put_le32 0 = replicate 4 0" by (simp add: put_le32_def put_u32_def be_bytes_0 del: replicate.simps)
        ultimately show ?thesis using whole 0 bs False by (simp del: replicate.simps)
      next
        case (Suc n)
        then have k: "unat f = 4 * Suc n" using f(1) by presburger
        have inv: "case unmarshal_txs inp scope (Suc n) 4 f of
            Inl e \<Rightarrow> \<not> is_panic e
          | Inr txs \<Rightarrow> length txs = Suc n \<and> concat txs = drop (unat f) inp \<and>
              tx_offsets (unat f) txs = put_le32 f @ take (4 * n) (drop (unat (4 :: u32)) inp)"
          using scope k f(2) by (intro unmarshal_txs_inv) simp_all
        show ?thesis
        proof (cases "unmarshal_txs inp scope (Suc n) 4 f")
          case (Inr txs)
          then have txs: "length txs = Suc n" "concat txs = drop (unat f) inp" "tx_offsets (unat f) txs = take 4 inp @ take (4 * n) (drop 4 inp)"
            using inv bs by simp_all
          have "take 4 inp @ take (4 * n) (drop 4 inp) = take (unat f) inp" using take_add [of 4 "4 * n" inp] k by simp
          then have "ssz_txs txs = inp" using txs k by (simp add: ssz_txs_def)
          then show ?thesis using whole Suc Inr f(3) txs(1) by simp
        qed (use whole Suc inv in simp)
      qed
    qed
  qed
qed

lemma field_split: "field a n r @ drop (a + n) r = drop a r"
  by (simp add: field_def) (metis add.commute append_take_drop_id drop_drop)

lemma UnmarshalSSZ_back:
  assumes ok: "payload_ok p"
  shows "UnmarshalSSZ (of_nat (length (ssz_bytes p))) (ssz_bytes p @ rest) = Inr p"
proof -
  let ?b = "ssz_bytes p" and ?e = "length (ExtraData p)" and ?txs = "ep_Transactions p"
  have n: "length ?b = 508 + ?e + length (ssz_txs ?txs)" "length ?b < 2 ^ 32" "?e \<le> 32" "length ?txs \<le> 2 ^ 20"
    using ok length_ssz_fixed [OF ok] by (simp_all add: payload_ok_def ssz_bytes_def)
  have scope: "unat (of_nat (length ?b) :: u32) = length ?b" using n(2) by (rule unat_small)
  have e: "unat (508 + of_nat ?e :: u32) = 508 + ?e" using n(3) unat_small [of "508 + ?e"] by simp
  have fields: "field 0 32 ?b = ep_ParentHash p" "field 32 20 ?b = FeeRecipient p" "field 52 32 ?b = StateRoot p"
    "field 84 32 ?b = ReceiptsRoot p" "field 116 256 ?b = LogsBloom p" "field 372 32 ?b = ep_PrevRandao p"
    "field 404 8 ?b = put_le64 (BlockNumber p)" "field 412 8 ?b = put_le64 (ep_GasLimit p)" "field 420 8 ?b = put_le64 (GasUsed p)"
    "field 428 8 ?b = put_le64 (ep_Timestamp p)" "field 436 4 ?b = put_le32 508" "field 440 32 ?b = marshalBytes32LE (BaseFeePerGas p)"
    "field 472 32 ?b = BlockHash p" "field 504 4 ?b = put_le32 (508 + of_nat ?e)"
    using ok by (simp_all add: field_def ssz_bytes_def ssz_fixed_def fixed_fields_def payload_ok_def)
  have "go_slice 508 (508 + of_nat ?e) (ssz_fixed p @ ExtraData p @ ssz_txs ?txs) = Inr (ExtraData p)"
    using e length_ssz_fixed [OF ok] by (intro go_slice_middle) simp_all
  moreover have "go_slice (508 + of_nat ?e) (of_nat (length ?b)) ((ssz_fixed p @ ExtraData p) @ ssz_txs ?txs @ []) = Inr (ssz_txs ?txs)"
    using e scope n(1) length_ssz_fixed [OF ok] by (intro go_slice_middle) (simp_all only: length_append)
  ultimately have slices: "go_slice 508 (508 + of_nat ?e) ?b = Inr (ExtraData p)"
    "go_slice (508 + of_nat ?e) (of_nat (length ?b)) ?b = Inr (ssz_txs ?txs)" by (simp_all add: ssz_bytes_def)
  have txs: "unmarshalTransactions (ssz_txs ?txs) = Inr ?txs" using n by (intro unmarshalTransactions_back) simp_all
  have guards: "\<not> of_nat (length ?b) < (508 :: u32)" "\<not> 508 + of_nat ?e < (508 :: u32)" "\<not> 508 + 32 < (508 + of_nat ?e :: u32)"
    "\<not> of_nat (length ?b) < (508 + of_nat ?e :: u32)"
    unfolding word_less_nat_alt e scope using n(1,3) by simp_all
  show ?thesis
    unfolding UnmarshalSSZ_def scope read_full_append [OF refl] fixed_part
    using guards slices txs by (simp add: fields Let_def)
qed

lemma UnmarshalSSZ_inv:
  assumes len: "length r < 2 ^ 32"
  shows "case UnmarshalSSZ (of_nat (length r)) r of
      Inl e \<Rightarrow> \<not> is_panic e
    | Inr q \<Rightarrow> payload_ok q \<and>
        (ssz_bytes q = r \<or>
         ep_Transactions q = [] \<and> take (508 + length (ExtraData q)) r = ssz_bytes q \<and>
         take 4 (drop (508 + length (ExtraData q)) r) = replicate 4 0)"
proof -
  have scope: "unat (of_nat (length r) :: u32) = length r" using len by (rule unat_small)
  have read: "read_full (length r) r = Inr (r, [])" by simp
  define t where "t = get_le32 (field 504 4 r)"
  show ?thesis
  proof (cases "length r < 508 \<or> get_le32 (field 436 4 r) \<noteq> 508 \<or> t < 508 \<or> t > 508 + 32 \<or> t > of_nat (length r)")
    case True
    then show ?thesis unfolding UnmarshalSSZ_def scope read fixed_part
      by (auto simp: Let_def t_def [symmetric] word_less_nat_alt scope ErrBadTransactionOffset_def)
  next
    case False
    then have t: "508 \<le> unat t" "unat t \<le> 540" "unat t \<le> length r" and l: "508 \<le> length r"
      by (auto simp: word_less_nat_alt scope not_less)
    define extra where "extra = take (unat t - 508) (drop 508 r)"
    define inp where "inp = drop (unat t) r"
    have slices: "go_slice 508 t r = Inr extra" "go_slice t (of_nat (length r)) r = Inr inp"
      using t scope by (simp_all add: go_slice_ok extra_def inp_def)
    define q where "q txs = \<lparr>ep_ParentHash = field 0 32 r, FeeRecipient = field 32 20 r, StateRoot = field 52 32 r,
       ReceiptsRoot = field 84 32 r, LogsBloom = field 116 256 r, ep_PrevRandao = field 372 32 r,
       BlockNumber = get_le64 (field 404 8 r), ep_GasLimit = get_le64 (field 412 8 r),
       GasUsed = get_le64 (field 420 8 r), ep_Timestamp = get_le64 (field 428 8 r), ExtraData = extra,
       BaseFeePerGas = unmarshalBytes32LE (field 440 32 r), BlockHash = field 472 32 r, ep_Transactions = txs\<rparr>" for txs
    have whole: "UnmarshalSSZ (of_nat (length r)) r =
        rbind (on_error (Wrap ''failed to unmarshal transactions list'') (unmarshalTransactions inp)) (\<lambda>txs. Inr (q txs))"
      unfolding UnmarshalSSZ_def scope read fixed_part using False l slices
      by (auto simp: Let_def t_def [symmetric] word_less_nat_alt scope q_def)
    have lens: "length (field a n r) = n" if "a + n \<le> 508" for a n using that l by (simp add: field_def)
    have e: "length extra = unat t - 508" using t l by (simp add: extra_def)
    have "t = 508 + of_nat (length extra)" using t(1) e by (simp add: word_unat_eq_iff unat_word_ariths unat_of_nat)
    then have fixed: "ssz_fixed (q txs) = take 508 r" for txs
    proof -
      have "drop 0 r = field 0 32 r @ field 32 20 r @ field 52 32 r @ field 84 32 r @ field 116 256 r @ field 372 32 r @ field 404 8 r @
          field 412 8 r @ field 420 8 r @ field 428 8 r @ field 436 4 r @ field 440 32 r @ field 472 32 r @ field 504 4 r @ drop 508 r"
        using field_split [of 0 32 r] field_split [of 32 20 r] field_split [of 52 32 r] field_split [of 84 32 r] field_split [of 116 256 r]
          field_split [of 372 32 r] field_split [of 404 8 r] field_split [of 412 8 r] field_split [of 420 8 r] field_split [of 428 8 r]
          field_split [of 436 4 r] field_split [of 440 32 r] field_split [of 472 32 r] field_split [of 504 4 r] by simp
      moreover have "put_le32 508 = field 436 4 r" "put_le32 t = field 504 4 r"
        using False le_put_get(1) [OF lens [of 436 4]] le_put_get(1) [OF lens [of 504 4]] by (simp_all add: t_def)
      moreover have "ssz_fixed (q txs) = field 0 32 r @ field 32 20 r @ field 52 32 r @ field 84 32 r @ field 116 256 r @ field 372 32 r @
          field 404 8 r @ field 412 8 r @ field 420 8 r @ field 428 8 r @ put_le32 508 @ field 440 32 r @ field 472 32 r @ put_le32 t"
        using \<open>t = 508 + of_nat (length extra)\<close>
        by (simp add: ssz_fixed_def fixed_fields_def q_def le_put_get lens bytes32LE_back)
      ultimately have "ssz_fixed (q txs) @ drop 508 r = take 508 r @ drop 508 r" by simp
      then show ?thesis by (rule append_same_eq [THEN iffD1])
    qed
    have pre: "take (508 + length extra) r = take 508 r @ extra" using t take_add [of 508 "unat t - 508" r] unfolding e by (simp add: extra_def)
    have tail: "r = take 508 r @ extra @ inp" using pre e t append_take_drop_id [of "unat t" r] by (simp add: inp_def)
    have bytes: "ssz_bytes (q txs) = take 508 r @ extra @ ssz_txs txs" for txs using fixed by (simp add: ssz_bytes_def q_def)
    have ok: "payload_ok (q txs)" if "length txs \<le> 2 ^ 20" "length (ssz_txs txs) \<le> length inp" for txs
    proof -
      have "length (ssz_bytes (q txs)) \<le> length r" using that(2) tail unfolding bytes by (metis add_le_cancel_left length_append)
      then show ?thesis using that(1) len e t lens by (simp add: payload_ok_def) (simp add: q_def)
    qed
    have small: "length inp < 2 ^ 32" using len by (simp add: inp_def)
    show ?thesis
    proof (cases "unmarshalTransactions inp")
      case (Inl err)
      then show ?thesis using whole unmarshalTransactions_inv [OF small] by (simp add: on_error_def)
    next
      case (Inr txs)
      then have cases: "length txs \<le> 2 ^ 20" "ssz_txs txs = inp \<or> txs = [] \<and> 4 \<le> length inp \<and> take 4 inp = replicate 4 0"
        using unmarshalTransactions_inv [OF small] by simp_all
      have q: "ep_Transactions (q txs) = txs" "ExtraData (q txs) = extra" by (simp_all add: q_def)
      have "drop (508 + length extra) r = inp" using e t by (simp add: inp_def)
      moreover have "payload_ok (q txs)" using cases by (intro ok) (auto simp: ssz_txs_def)
      moreover have "ssz_bytes (q txs) = r \<or> txs = [] \<and> take (508 + length extra) r = ssz_bytes (q txs)"
        using cases(2) tail pre unfolding bytes by (auto simp: ssz_txs_def)
      ultimately show ?thesis using whole Inr cases(2) q tail bytes by (auto simp del: replicate.simps)
    qed
  qed
qed

text \<open>C35: A payload that fits the format is recovered from what the encoder writes, whatever its pooled buffer held before and
  whatever follows in the stream.\<close>

theorem ssz_roundtrip:
  assumes "payload_ok p" "length pool < 2 ^ 32"
  shows "\<exists>b. MarshalSSZ pool p = Inr b \<and> UnmarshalSSZ (of_nat (length b)) (b @ rest) = Inr p"
  using MarshalSSZ_bytes [OF assms] UnmarshalSSZ_back [OF assms(1)] by blast

text \<open>C36: The decoder does not panic on any input. What it accepts is a payload within the limits of the format, and the input is
  exactly the encoding of that payload, except that a transactions list whose first offset is 0 is read as empty with
  whatever follows it.\<close>

theorem ssz_decode_strict:
  assumes "length r < 2 ^ 32" "length pool < 2 ^ 32"
  shows "case UnmarshalSSZ (of_nat (length r)) r of
      Inl e \<Rightarrow> \<not> is_panic e
    | Inr p \<Rightarrow> payload_ok p \<and>
        (MarshalSSZ pool p = Inr r \<or>
         ep_Transactions p = [] \<and> MarshalSSZ pool p = Inr (take (508 + length (ExtraData p)) r) \<and>
         take 4 (drop (508 + length (ExtraData p)) r) = replicate 4 0)"
  using UnmarshalSSZ_inv [OF assms(1)] MarshalSSZ_bytes [OF _ assms(2)] by (auto split: sum.splits simp del: replicate.simps)

definition ex_ssz_payload :: execution_payload where
  "ex_ssz_payload = \<lparr>ep_ParentHash = replicate 32 1, FeeRecipient = replicate 20 7, StateRoot = replicate 32 3, ReceiptsRoot = replicate 32 4,
     LogsBloom = replicate 256 0, ep_PrevRandao = replicate 32 5, BlockNumber = 6, ep_GasLimit = 7, GasUsed = 8, ep_Timestamp = 9,
     ExtraData = [10], BaseFeePerGas = 2 ^ 200, BlockHash = replicate 32 11, ep_Transactions = [[12, 13], [], [14]]\<rparr>"

lemma ex_ssz_payload_ok: "payload_ok ex_ssz_payload"
  by (simp add: payload_ok_def ex_ssz_payload_def ssz_bytes_def ssz_fixed_def fixed_fields_def)

theorem ssz_roundtrip_witness:
  "\<exists>b. MarshalSSZ [255, 255] ex_ssz_payload = Inr b \<and> UnmarshalSSZ (of_nat (length b)) (b @ [1, 2]) = Inr ex_ssz_payload"
  by (rule ssz_roundtrip) (simp_all add: ex_ssz_payload_ok)

text \<open>Four more zero bytes after an empty list of transactions.\<close>

definition padded_payload :: bytes where
  "padded_payload = ssz_bytes (ex_ssz_payload\<lparr>ep_Transactions := []\<rparr>) @ replicate 4 0"

theorem ssz_decode_strict_witness:
  "case UnmarshalSSZ (of_nat (length padded_payload)) padded_payload of
     Inl e \<Rightarrow> \<not> is_panic e
   | Inr p \<Rightarrow> payload_ok p \<and>
       (MarshalSSZ [] p = Inr padded_payload \<or>
        ep_Transactions p = [] \<and> MarshalSSZ [] p = Inr (take (508 + length (ExtraData p)) padded_payload) \<and>
        take 4 (drop (508 + length (ExtraData p)) padded_payload) = replicate 4 0)"
  by (rule ssz_decode_strict)
    (simp_all add: padded_payload_def ssz_bytes_def ex_ssz_payload_def ssz_fixed_def fixed_fields_def)

end
