(* ===== verification/Gossip.thy ===== *)
theory Gossip
  imports Commitments Payload_SSZ
begin

text \<open>
  The gossip of new blocks, \<open>op-node/p2p/gossip.go\<close> and \<open>signer.go\<close>, with the check of the block hash in
  \<open>op-service/eth/types.go\<close>: what a sequencer publishes, and what a node lets in from its peers. Snappy, the hash functions,
  the elliptic curve, the header hash and the cache of block heights are libraries, and parameters here; the network between
  two nodes is the byte string of a message. Messages are validated one at a time.
\<close>

section \<open>The libraries\<close>

text \<open>The header of a block as \<open>CheckBlockHash\<close> fills it in; the other fields are constants.\<close>

record block_header =
  bh_ParentHash :: hash
  bh_Coinbase :: address
  bh_Root :: hash
  bh_TxHash :: hash
  bh_ReceiptHash :: hash
  bh_Bloom :: bytes
  bh_Number :: int
  bh_GasLimit :: u64
  bh_GasUsed :: u64
  bh_Time :: u64
  bh_Extra :: bytes
  bh_MixDigest :: hash
  bh_BaseFee :: nat

text \<open>The cache of golang-lru maps heights to pointers into the store of seen blocks.\<close>

record 'c gossip_env =
  snappy_DecodedLen :: "bytes \<Rightarrow> nat result"
  snappy_Decode :: "bytes \<Rightarrow> bytes result"
  snappy_Encode :: "bytes \<Rightarrow> bytes"
  ge_Keccak256 :: "bytes \<Rightarrow> hash"
  ge_sha256 :: "bytes \<Rightarrow> hash"
  ge_SigToPub :: "hash \<Rightarrow> bytes \<Rightarrow> bytes result"
  ge_PubkeyToAddress :: "bytes \<Rightarrow> address"
  ge_DeriveSha :: "bytes list \<Rightarrow> hash"
  ge_headerHash :: "block_header \<Rightarrow> hash"
  lru_Get :: "u64 \<Rightarrow> 'c \<Rightarrow> 'c \<times> nat option"
  lru_Add :: "u64 \<Rightarrow> nat \<Rightarrow> 'c \<Rightarrow> 'c"

definition snappy_law :: "'c gossip_env \<Rightarrow> bool" where
  "snappy_law env \<longleftrightarrow>
     (\<forall>d. snappy_DecodedLen env (snappy_Encode env d) = Inr (length d) \<and> snappy_Decode env (snappy_Encode env d) = Inr d) \<and>
     (\<forall>m d n. snappy_DecodedLen env m = Inr n \<longrightarrow> snappy_Decode env m = Inr d \<longrightarrow> length d = n)"

text \<open>A cache looks up what was added last for a key, or nothing once it dropped the entry; \<open>content\<close> is what it holds.\<close>

definition lru_law :: "('c \<Rightarrow> u64 \<rightharpoonup> nat) \<Rightarrow> 'c gossip_env \<Rightarrow> bool" where
  "lru_law content env \<longleftrightarrow>
     (\<forall>k c. snd (lru_Get env k c) = content c k \<and> content (fst (lru_Get env k c)) = content c) \<and>
     (\<forall>k v c. content (lru_Add env k v c) k = Some v \<and> content (lru_Add env k v c) \<subseteq>\<^sub>m (content c)(k \<mapsto> v))"

section \<open>Signatures and block hashes\<close>

definition SigningDomainBlocksV1 :: bytes where
  "SigningDomainBlocksV1 = replicate 32 0"

definition SigningHash :: "'c gossip_env \<Rightarrow> bytes \<Rightarrow> int option \<Rightarrow> bytes \<Rightarrow> hash result" where
  "SigningHash env domain chainID payloadBytes =
     (case chainID of
        None \<Rightarrow> Inl (Panic ''nil pointer dereference'')
      | Some c \<Rightarrow>
          if \<bar>c\<bar> \<ge> 2 ^ 256 then Inl (Errorf ''chain_id is too large'')
          else Inr (ge_Keccak256 env (domain @ be_bytes 32 (nat \<bar>c\<bar>) @ ge_Keccak256 env payloadBytes)))"

definition BlockSigningHash :: "'c gossip_env \<Rightarrow> config \<Rightarrow> bytes \<Rightarrow> hash result" where
  "BlockSigningHash env cfg payloadBytes = SigningHash env SigningDomainBlocksV1 (L2ChainID cfg) payloadBytes"

text \<open>\<open>LocalSigner\<close>; \<open>sign\<close> is \<open>crypto.Sign\<close>, and a closed signer has no key.\<close>

definition LocalSigner_Sign ::
  "'c gossip_env \<Rightarrow> (hash \<Rightarrow> 'k \<Rightarrow> bytes result) \<Rightarrow> 'k option \<Rightarrow> bytes \<Rightarrow> int option \<Rightarrow> bytes \<Rightarrow> bytes result" where
  "LocalSigner_Sign env sign priv domain chainID encodedMsg =
     (case priv of
        None \<Rightarrow> Inl (Errorf ''signer is closed'')
      | Some k \<Rightarrow> rbind (SigningHash env domain chainID encodedMsg) (\<lambda>signingHash. sign signingHash k))"

definition CheckBlockHash :: "'c gossip_env \<Rightarrow> execution_payload \<Rightarrow> hash \<times> bool" where
  "CheckBlockHash env p =
     (let blockHash = ge_headerHash env
        \<lparr>bh_ParentHash = ep_ParentHash p, bh_Coinbase = FeeRecipient p, bh_Root = StateRoot p,
         bh_TxHash = ge_DeriveSha env (ep_Transactions p), bh_ReceiptHash = ReceiptsRoot p, bh_Bloom = LogsBloom p,
         bh_Number = sint (BlockNumber p), bh_GasLimit = ep_GasLimit p, bh_GasUsed = GasUsed p, bh_Time = ep_Timestamp p,
         bh_Extra = ExtraData p, bh_MixDigest = ep_PrevRandao p, bh_BaseFee = unat (BaseFeePerGas p)\<rparr>
      in (blockHash, blockHash = BlockHash p))"

section \<open>Message identifiers\<close>

definition maxGossipSize :: nat where "maxGossipSize = 10 * 2 ^ 20"
definition minGossipSize :: nat where "minGossipSize = 66"
definition MessageDomainInvalidSnappy :: bytes where "MessageDomainInvalidSnappy = [0, 0, 0, 0]"
definition MessageDomainValidSnappy :: bytes where "MessageDomainValidSnappy = [1, 0, 0, 0]"

definition MsgId :: "'c gossip_env \<Rightarrow> bytes \<Rightarrow> bytes \<Rightarrow> bytes" where
  "MsgId env topic msg =
     (let decoded = (case snappy_DecodedLen env msg of
                       Inl _ \<Rightarrow> None
                     | Inr dLen \<Rightarrow> if dLen \<le> maxGossipSize
                                  then case snappy_Decode env msg of Inl _ \<Rightarrow> None | Inr data \<Rightarrow> Some data
                                  else None);
          (domain, data) = (case decoded of Some d \<Rightarrow> (MessageDomainValidSnappy, d) | None \<Rightarrow> (MessageDomainInvalidSnappy, msg))
      in take 20 (ge_sha256 env (domain @ put_le64 (of_nat (length topic)) @ topic @ data)))"

section \<open>The validator\<close>

datatype validation_result = ValidationAccept | ValidationReject | ValidationIgnore

definition hasSeen :: "hash \<Rightarrow> hash list \<Rightarrow> nat \<times> bool" where
  "hasSeen h sb = (length sb, h \<in> set sb)"

definition markSeen :: "hash \<Rightarrow> hash list \<Rightarrow> hash list" where
  "markSeen h sb = sb @ [h]"

definition verifyBlockSignature :: "'c gossip_env \<Rightarrow> config \<Rightarrow> runtime_config \<Rightarrow> bytes \<Rightarrow> bytes \<Rightarrow> validation_result result" where
  "verifyBlockSignature env cfg r signatureBytes payloadBytes =
     (case BlockSigningHash env cfg payloadBytes of
        Inl e \<Rightarrow> if is_panic e then Inl e else Inr ValidationReject
      | Inr signingHash \<Rightarrow>
          (case ge_SigToPub env signingHash signatureBytes of
             Inl _ \<Rightarrow> Inr ValidationReject
           | Inr pub \<Rightarrow>
               if P2PSequencerAddress r = zero_address then Inr ValidationIgnore
               else if ge_PubkeyToAddress env pub \<noteq> P2PSequencerAddress r then Inr ValidationReject
               else Inr ValidationAccept))"

record 'c validator =
  bv_blockHeightLRU :: 'c
  bv_seen :: "hash list list"

text \<open>The part of the validator that remembers blocks: the pointer for the height is found or made, the block is counted.\<close>

definition seen_ref :: "'c gossip_env \<Rightarrow> u64 \<Rightarrow> 'c validator \<Rightarrow> 'c validator \<times> nat" where
  "seen_ref env height v =
     (case lru_Get env height (bv_blockHeightLRU v) of
        (c, Some ref) \<Rightarrow> (v\<lparr>bv_blockHeightLRU := c\<rparr>, ref)
      | (c, None) \<Rightarrow>
          (v\<lparr>bv_blockHeightLRU := lru_Add env height (length (bv_seen v)) c, bv_seen := bv_seen v @ [[]]\<rparr>, length (bv_seen v)))"

definition check_seen :: "'c gossip_env \<Rightarrow> execution_payload \<Rightarrow> 'c validator \<Rightarrow> 'c validator \<times> validation_result" where
  "check_seen env p v =
     (case seen_ref env (BlockNumber p) v of
        (v, ref) \<Rightarrow>
          (case hasSeen (BlockHash p) (bv_seen v ! ref) of
             (n, seen) \<Rightarrow>
               if n > 5 then (v, ValidationReject)
               else if seen then (v, ValidationIgnore)
               else (v\<lparr>bv_seen := (bv_seen v)[ref := markSeen (BlockHash p) (bv_seen v ! ref)]\<rparr>, ValidationAccept)))"

text \<open>The validator; the payload is what \<open>ValidatorData\<close> hands to the subscriber. \<open>now\<close> is the time in seconds.\<close>

definition BlocksValidator ::
  "'c gossip_env \<Rightarrow> config \<Rightarrow> runtime_config \<Rightarrow> u64 \<Rightarrow> bytes \<Rightarrow> 'c validator \<Rightarrow>
   'c validator \<times> (validation_result \<times> execution_payload option) result" where
  "BlocksValidator env cfg r now msg v =
     (let reject = (v, Inr (ValidationReject, None))
      in case snappy_DecodedLen env msg of
           Inl _ \<Rightarrow> reject
         | Inr outLen \<Rightarrow>
             if outLen > maxGossipSize then reject
             else if outLen < minGossipSize then reject
             else case snappy_Decode env msg of
                    Inl _ \<Rightarrow> reject
                  | Inr data \<Rightarrow>
                      if length data < 65 then (v, Inl out_of_bounds)
                      else let signatureBytes = take 65 data; payloadBytes = drop 65 data
                           in case verifyBlockSignature env cfg r signatureBytes payloadBytes of
                                Inl e \<Rightarrow> (v, Inl e)
                              | Inr result \<Rightarrow>
                                  if result \<noteq> ValidationAccept then (v, Inr (result, None))
                                  else case UnmarshalSSZ (of_nat (length payloadBytes)) payloadBytes of
                                         Inl e \<Rightarrow> if is_panic e then (v, Inl e) else reject
                                       | Inr p \<Rightarrow>
                                           if ep_Timestamp p < now - 60 then reject
                                           else if ep_Timestamp p > now + 5 then reject
                                           else if \<not> snd (CheckBlockHash env p) then reject
                                           else case check_seen env p v of
                                                  (v, res) \<Rightarrow> (v, Inr (res, if res = ValidationAccept then Some p else None)))"

definition guardGossipValidator :: "'s \<times> (validation_result \<times> 'p option) result \<Rightarrow> 's \<times> validation_result \<times> 'p option" where
  "guardGossipValidator x = (case x of (v, Inr r) \<Rightarrow> (v, r) | (v, Inl _) \<Rightarrow> (v, ValidationReject, None))"

section \<open>Publishing\<close>

text \<open>What \<open>PublishL2Payload\<close> of the publisher hands to the topic.\<close>

definition Publisher_PublishL2Payload ::
  "'c gossip_env \<Rightarrow> config \<Rightarrow> (bytes \<Rightarrow> int option \<Rightarrow> bytes \<Rightarrow> bytes result) \<Rightarrow> bytes \<Rightarrow> execution_payload \<Rightarrow> bytes result" where
  "Publisher_PublishL2Payload env cfg sign pool payload =
     rbind (on_error (Wrap ''failed to encoded execution payload to publish'') (MarshalSSZ pool payload)) (\<lambda>payloadData.
     rbind (on_error (Wrap ''failed to sign execution payload with signer'')
              (sign SigningDomainBlocksV1 (L2ChainID cfg) payloadData)) (\<lambda>sig.
       Inr (snappy_Encode env (take 65 sig @ payloadData))))"

text \<open>The subscriber hands an accepted message to the node.\<close>

definition BlocksHandler :: "(execution_payload \<Rightarrow> 's \<Rightarrow> 's \<times> unit result) \<Rightarrow> validation_result \<times> execution_payload option \<Rightarrow> 's \<Rightarrow> 's" where
  "BlocksHandler onBlock m s =
     (case m of (ValidationAccept, Some p) \<Rightarrow> fst (onBlock p s) | _ \<Rightarrow> s)"

section \<open>What is let in\<close>

text \<open>A message is a signed block: within the size limits it decompresses to a signature of the configured sequencer and an
  encoded payload, whose time is near and whose hash is that of its header.\<close>

definition signed_block :: "'c gossip_env \<Rightarrow> config \<Rightarrow> runtime_config \<Rightarrow> u64 \<Rightarrow> bytes \<Rightarrow> execution_payload \<Rightarrow> bool" where
  "signed_block env cfg r now msg p \<longleftrightarrow>
     (\<exists>sig payloadBytes h pub.
        snappy_DecodedLen env msg = Inr (length (sig @ payloadBytes)) \<and> snappy_Decode env msg = Inr (sig @ payloadBytes) \<and>
        length sig = 65 \<and> payloadBytes \<noteq> [] \<and> length (sig @ payloadBytes) \<le> 10 * 2 ^ 20 \<and>
        BlockSigningHash env cfg payloadBytes = Inr h \<and> ge_SigToPub env h sig = Inr pub \<and>
        ge_PubkeyToAddress env pub = P2PSequencerAddress r \<and> P2PSequencerAddress r \<noteq> zero_address \<and>
        UnmarshalSSZ (of_nat (length payloadBytes)) payloadBytes = Inr p \<and>
        now - 60 \<le> ep_Timestamp p \<and> ep_Timestamp p \<le> now + 5 \<and> snd (CheckBlockHash env p))"

text \<open>The blocks that are remembered for a height.\<close>

definition seen_at :: "('c \<Rightarrow> u64 \<rightharpoonup> nat) \<Rightarrow> 'c validator \<Rightarrow> u64 \<Rightarrow> hash list" where
  "seen_at content v height = (case content (bv_blockHeightLRU v) height of Some ref \<Rightarrow> bv_seen v ! ref | None \<Rightarrow> [])"

definition validator_ok :: "('c \<Rightarrow> u64 \<rightharpoonup> nat) \<Rightarrow> 'c validator \<Rightarrow> bool" where
  "validator_ok content v \<longleftrightarrow>
     (\<forall>k ref. content (bv_blockHeightLRU v) k = Some ref \<longrightarrow>
        ref < length (bv_seen v) \<and> (\<forall>k'. content (bv_blockHeightLRU v) k' = Some ref \<longrightarrow> k' = k)) \<and>
     (\<forall>sb\<in>set (bv_seen v). distinct sb \<and> length sb \<le> 6)"

lemma seen_ref_ok:
  assumes law: "lru_law content env" and ok: "validator_ok content v" and run: "seen_ref env height v = (v', ref)"
  shows "validator_ok content v' \<and> content (bv_blockHeightLRU v') height = Some ref \<and> bv_seen v' ! ref = seen_at content v height \<and>
    (\<forall>k. k \<noteq> height \<longrightarrow> seen_at content v' k \<in> {[], seen_at content v k})"
proof -
  let ?c = "bv_blockHeightLRU v"
  obtain c g where get: "lru_Get env height ?c = (c, g)" by fastforce
  then have c: "content c = content ?c" "g = content ?c height" using law unfolding lru_law_def by (metis fst_conv, metis snd_conv)
  show ?thesis
  proof (cases g)
    case (Some ref')
    then have "v' = v\<lparr>bv_blockHeightLRU := c\<rparr>" "ref = ref'" using run get by (simp_all add: seen_ref_def)
    then show ?thesis using ok c Some by (auto simp: validator_ok_def seen_at_def split: option.splits)
  next
    case None
    let ?a = "lru_Add env height (length (bv_seen v)) c"
    have v': "v' = v\<lparr>bv_blockHeightLRU := ?a, bv_seen := bv_seen v @ [[]]\<rparr>" "ref = length (bv_seen v)"
      using run get None by (auto simp: seen_ref_def)
    have a: "content ?a height = Some (length (bv_seen v))" "content ?a \<subseteq>\<^sub>m (content ?c)(height \<mapsto> length (bv_seen v))"
      using law c(1) unfolding lru_law_def by metis+
    have old: "content ?a k = Some i \<Longrightarrow> k \<noteq> height \<Longrightarrow> content ?c k = Some i" for k i
      using a(2) by (force simp: map_le_def dom_def)
    have small: "content ?c k = Some i \<Longrightarrow> i < length (bv_seen v)" for k i using ok by (simp add: validator_ok_def)
    have "seen_at content v' k \<in> {[], seen_at content v k}" if "k \<noteq> height" for k
      using old [OF _ that] small unfolding v' seen_at_def by (cases "content ?a k") (auto simp: nth_append)
    moreover have "validator_ok content v'"
    proof -
      have "i < Suc (length (bv_seen v))" if "content ?a k = Some i" for k i
        using that old small a(1) by (metis less_Suc_eq option.inject)
      moreover have "k' = k" if "content ?a k = Some i" "content ?a k' = Some i" for k k' i
        using that old small a(1) ok unfolding validator_ok_def by (metis less_irrefl option.inject)
      ultimately show ?thesis using ok unfolding validator_ok_def v' by simp
    qed
    ultimately show ?thesis using a(1) c(2) None by (simp add: v' seen_at_def)
  qed
qed

lemma check_seen_ok:
  assumes law: "lru_law content env" and ok: "validator_ok content v" and run: "check_seen env p v = (v', res)"
  shows "validator_ok content v' \<and>
    res = (if length (seen_at content v (BlockNumber p)) > 5 then ValidationReject
           else if BlockHash p \<in> set (seen_at content v (BlockNumber p)) then ValidationIgnore else ValidationAccept) \<and>
    seen_at content v' (BlockNumber p) = seen_at content v (BlockNumber p) @ (if res = ValidationAccept then [BlockHash p] else []) \<and>
    (\<forall>k. k \<noteq> BlockNumber p \<longrightarrow> seen_at content v' k \<in> {[], seen_at content v k})"
proof -
  obtain v1 ref where ref: "seen_ref env (BlockNumber p) v = (v1, ref)" by fastforce
  note found = seen_ref_ok [OF law ok ref]
  let ?sb = "bv_seen v1 ! ref"
  have bounds: "ref < length (bv_seen v1)" using found unfolding validator_ok_def by auto
  then have "distinct ?sb" using found nth_mem [of ref "bv_seen v1"] unfolding validator_ok_def by blast
  have here: "seen_at content v1 (BlockNumber p) = ?sb" using found by (simp add: seen_at_def)
  show ?thesis
  proof (cases "length ?sb > 5 \<or> BlockHash p \<in> set ?sb")
    case True
    then have "v' = v1" "res \<noteq> ValidationAccept" using run ref by (auto simp: check_seen_def hasSeen_def split: if_splits)
    then show ?thesis using True run ref found here by (auto simp: check_seen_def hasSeen_def split: if_splits)
  next
    case False
    have v': "v' = v1\<lparr>bv_seen := (bv_seen v1)[ref := ?sb @ [BlockHash p]]\<rparr>" "res = ValidationAccept"
      using False run ref by (auto simp: check_seen_def hasSeen_def markSeen_def split: if_splits)
    have "seen_at content v' k = seen_at content v1 k" if "k \<noteq> BlockNumber p" for k
      using found that unfolding validator_ok_def seen_at_def v' by (auto split: option.splits simp: nth_list_update)
    moreover have "validator_ok content v'"
      using found False bounds \<open>distinct ?sb\<close> set_update_subset_insert [of "bv_seen v1" ref "?sb @ [BlockHash p]"]
      unfolding validator_ok_def v' by (auto simp: subset_iff)
    ultimately show ?thesis using found False bounds here by (simp add: seen_at_def v')
  qed
qed

lemma verifyBlockSignature_accept:
  "verifyBlockSignature env cfg r sig payloadBytes = Inr ValidationAccept \<longleftrightarrow>
    (\<exists>h pub. BlockSigningHash env cfg payloadBytes = Inr h \<and> ge_SigToPub env h sig = Inr pub \<and>
       ge_PubkeyToAddress env pub = P2PSequencerAddress r \<and> P2PSequencerAddress r \<noteq> zero_address)"
  by (auto simp: verifyBlockSignature_def split: sum.splits)

lemma validator_signed:
  assumes "signed_block env cfg r now msg p"
  shows "BlocksValidator env cfg r now msg v =
    (case check_seen env p v of (v', res) \<Rightarrow> (v', Inr (res, if res = ValidationAccept then Some p else None)))"
proof -
  obtain sig payloadBytes where msg: "snappy_DecodedLen env msg = Inr (length (sig @ payloadBytes))"
      "snappy_Decode env msg = Inr (sig @ payloadBytes)" "length sig = 65" "payloadBytes \<noteq> []" "length (sig @ payloadBytes) \<le> 10 * 2 ^ 20"
    and sign: "verifyBlockSignature env cfg r sig payloadBytes = Inr ValidationAccept"
    and payload: "UnmarshalSSZ (of_nat (length payloadBytes)) payloadBytes = Inr p" "\<not> ep_Timestamp p < now - 60"
      "\<not> ep_Timestamp p > now + 5" "snd (CheckBlockHash env p)"
    using assms unfolding signed_block_def verifyBlockSignature_accept not_less by blast
  have sizes: "\<not> length (sig @ payloadBytes) > maxGossipSize" "\<not> length (sig @ payloadBytes) < minGossipSize" "\<not> length (sig @ payloadBytes) < 65"
    using msg(3,4,5) by (cases payloadBytes; simp add: maxGossipSize_def minGossipSize_def)+
  have parts: "take 65 (sig @ payloadBytes) = sig" "drop 65 (sig @ payloadBytes) = payloadBytes" using msg(3) by simp_all
  show ?thesis
    unfolding BlocksValidator_def Let_def msg(1,2) sum.case if_not_P [OF sizes(1)] if_not_P [OF sizes(2)] if_not_P [OF sizes(3)] parts sign
    using payload by simp
qed

lemma validator_unsigned:
  assumes law: "snappy_law env" and no: "\<not> (\<exists>p. signed_block env cfg r now msg p)"
  shows "\<exists>x. BlocksValidator env cfg r now msg v = (v, x) \<and> (\<forall>res dat. x = Inr (res, dat) \<longrightarrow> res \<noteq> ValidationAccept \<and> dat = None)"
proof -
  have signed: "signed_block env cfg r now msg p"
    if "snappy_DecodedLen env msg = Inr n" "\<not> n > maxGossipSize" "\<not> n < minGossipSize" "snappy_Decode env msg = Inr data"
      "verifyBlockSignature env cfg r (take 65 data) (drop 65 data) = Inr ValidationAccept"
      "UnmarshalSSZ (of_nat (length (drop 65 data))) (drop 65 data) = Inr p" "\<not> ep_Timestamp p < now - 60" "\<not> ep_Timestamp p > now + 5"
      "snd (CheckBlockHash env p)" for n data p
  proof -
    have "length data = n" using law that(1,4) unfolding snappy_law_def by blast
    then show ?thesis
      using that unfolding signed_block_def verifyBlockSignature_accept maxGossipSize_def minGossipSize_def not_less
      by - (rule exI [of _ "take 65 data"], rule exI [of _ "drop 65 data"], auto)
  qed
  show ?thesis
    using no signed unfolding BlocksValidator_def Let_def
    by (fastforce split: sum.splits if_splits)
qed

text \<open>The validator on a message, in terms of what is signed and what was seen.\<close>

lemma validator_cases:
  assumes law: "snappy_law env" "lru_law content env" and ok: "validator_ok content v"
    and run: "guardGossipValidator (BlocksValidator env cfg r now msg v) = (v', res, dat)"
  shows "validator_ok content v' \<and> (res = ValidationAccept \<longleftrightarrow> dat \<noteq> None) \<and>
    (\<forall>p. dat = Some p \<longrightarrow> signed_block env cfg r now msg p \<and> length (seen_at content v (BlockNumber p)) \<le> 5 \<and>
       BlockHash p \<notin> set (seen_at content v (BlockNumber p)) \<and>
       seen_at content v' (BlockNumber p) = seen_at content v (BlockNumber p) @ [BlockHash p]) \<and>
    (\<forall>p. signed_block env cfg r now msg p \<and> length (seen_at content v (BlockNumber p)) \<le> 5 \<and>
       BlockHash p \<notin> set (seen_at content v (BlockNumber p)) \<longrightarrow> dat = Some p)"
proof (cases "\<exists>p. signed_block env cfg r now msg p")
  case True
  have one: "(v', res, dat) = (fst (check_seen env p v), snd (check_seen env p v),
      if snd (check_seen env p v) = ValidationAccept then Some p else None)" if "signed_block env cfg r now msg p" for p
    using run validator_signed [OF that, of v] by (auto simp: guardGossipValidator_def split: prod.splits)
  obtain p where p: "signed_block env cfg r now msg p" using True by blast
  have step: "check_seen env q v = (v', res)" "dat = (if res = ValidationAccept then Some q else None)"
    if "signed_block env cfg r now msg q" for q using one [OF that] by (simp_all add: prod_eq_iff)
  note seen = check_seen_ok [OF law(2) ok step(1) [OF p]]
  have all: "dat = Some q" if "signed_block env cfg r now msg q" "length (seen_at content v (BlockNumber q)) \<le> 5"
      "BlockHash q \<notin> set (seen_at content v (BlockNumber q))" for q
    using check_seen_ok [OF law(2) ok step(1) [OF that(1)]] step(2) [OF that(1)] that(2,3) by simp
  show ?thesis using seen p step(2) [OF p] all by (auto split: if_splits)
next
  case False
  then show ?thesis
    using validator_unsigned [OF law(1) False, of v] run ok by (auto simp: guardGossipValidator_def split: sum.splits)
qed

lemma validator_lets_in:
  assumes "snappy_law env" "lru_law content env" "validator_ok content v" "signed_block env cfg r now msg p"
    and "length (seen_at content v (BlockNumber p)) \<le> 5" "BlockHash p \<notin> set (seen_at content v (BlockNumber p))"
  shows "\<exists>v'. guardGossipValidator (BlocksValidator env cfg r now msg v) = (v', ValidationAccept, Some p)"
proof -
  obtain v' res dat where run: "guardGossipValidator (BlocksValidator env cfg r now msg v) = (v', res, dat)"
    by (metis prod_cases3)
  note vc = validator_cases [OF assms(1,2,3) run]
  have "dat = Some p" using vc assms(4-6) by blast
  moreover have "res = ValidationAccept" using vc calculation by blast
  ultimately show ?thesis using run by blast
qed

section \<open>The node and its peers\<close>


definition NewValidator :: "'c \<Rightarrow> 'c validator" where
  "NewValidator c = \<lparr>bv_blockHeightLRU = c, bv_seen = []\<rparr>"

lemma NewValidator_ok: "content c = Map.empty \<Longrightarrow> validator_ok content (NewValidator c)"
  by (simp add: validator_ok_def NewValidator_def)



lemma published_signed:
  assumes "snappy_law env" "payload_ok p" "length pool < 2 ^ 32" "65 + length (ssz_bytes p) \<le> 10 * 2 ^ 20" "snd (CheckBlockHash env p)"
    and key: "\<forall>h. \<exists>sig pub. sign h key = Inr sig \<and> length sig = 65 \<and> ge_SigToPub env h sig = Inr pub \<and>
      ge_PubkeyToAddress env pub = P2PSequencerAddress r"
    and "L2ChainID cfg = Some chain" "L2ChainID cfg' = Some chain" "\<bar>chain\<bar> < 2 ^ 256" "P2PSequencerAddress r \<noteq> zero_address"
    and "now - 60 \<le> ep_Timestamp p" "ep_Timestamp p \<le> now + 5"
  shows "\<exists>msg. Publisher_PublishL2Payload env cfg (LocalSigner_Sign env sign (Some key)) pool p = Inr msg \<and> signed_block env cfg' r now msg p"
proof -
  define h where "h = ge_Keccak256 env (SigningDomainBlocksV1 @ be_bytes 32 (nat \<bar>chain\<bar>) @ ge_Keccak256 env (ssz_bytes p))"
  obtain sig pub where sig: "sign h key = Inr sig" "length sig = 65" "ge_SigToPub env h sig = Inr pub"
    "ge_PubkeyToAddress env pub = P2PSequencerAddress r" using key by blast
  have hash: "SigningHash env SigningDomainBlocksV1 (Some chain) (ssz_bytes p) = Inr h"
    using assms(9) by (simp add: SigningHash_def h_def)
  let ?msg = "snappy_Encode env (sig @ ssz_bytes p)"
  have pub: "Publisher_PublishL2Payload env cfg (LocalSigner_Sign env sign (Some key)) pool p = Inr ?msg"
    using MarshalSSZ_bytes [OF assms(2,3)] hash sig(1,2) assms(7)
    by (simp add: Publisher_PublishL2Payload_def LocalSigner_Sign_def)
  have "ssz_bytes p \<noteq> []" using length_ssz_fixed [OF assms(2)] by (auto simp: ssz_bytes_def)
  moreover have "snappy_DecodedLen env ?msg = Inr (length (sig @ ssz_bytes p))" "snappy_Decode env ?msg = Inr (sig @ ssz_bytes p)"
    using assms(1) unfolding snappy_law_def by blast+
  moreover have "BlockSigningHash env cfg' (ssz_bytes p) = Inr h" using hash assms(8) by (simp add: BlockSigningHash_def)
  moreover have "UnmarshalSSZ (of_nat (length (ssz_bytes p))) (ssz_bytes p) = Inr p" using UnmarshalSSZ_back [OF assms(2), of "[]"] by simp
  moreover have "length (sig @ ssz_bytes p) \<le> 10 * 2 ^ 20" using assms(4) sig(2) by simp
  ultimately have "signed_block env cfg' r now ?msg p"
    unfolding signed_block_def
    by - (rule exI [of _ sig], rule exI [of _ "ssz_bytes p"], rule exI [of _ h], rule exI [of _ pub], intro conjI; (assumption | rule sig assms))
  then show ?thesis using pub by blast
qed

text \<open>C37: A block that the sequencer's node publishes reaches the driver of every other node with the same chain identifier that has
  the sequencer's address configured, as it was, when its time is near, it was not seen there, and the L1 contract lets it pass.\<close>

theorem gossip_delivery:
  assumes "snappy_law env" "lru_law content env" "validator_ok content v"
    and "payload_ok p" "length pool < 2 ^ 32" "65 + length (ssz_bytes p) \<le> 10 * 2 ^ 20" "snd (CheckBlockHash env p)"
    and "\<forall>h. \<exists>sig pub. sign h key = Inr sig \<and> length sig = 65 \<and> ge_SigToPub env h sig = Inr pub \<and>
      ge_PubkeyToAddress env pub = P2PSequencerAddress r"
    and "L2ChainID cfg = Some chain" "L2ChainID (nd_cfg n) = Some chain" "\<bar>chain\<bar> < 2 ^ 256" "P2PSequencerAddress r \<noteq> zero_address"
    and "now - 60 \<le> ep_Timestamp p" "ep_Timestamp p \<le> now + 5"
    and "length (seen_at content v (BlockNumber p)) \<le> 5" "BlockHash p \<notin> set (seen_at content v (BlockNumber p))"
    and "nd_hostID n \<noteq> Some sender" "screened (n, r) p"
  shows "\<exists>msg v' m. Publisher_PublishL2Payload env cfg (LocalSigner_Sign env sign (Some key)) pool p = Inr msg \<and>
    guardGossipValidator (BlocksValidator env (nd_cfg n) r now msg v) = (v', m) \<and>
    BlocksHandler (Node_OnUnsafeL2Payload n r expired sender) m s = fst (OnUnsafeL2Payload expired p s)"
proof -
  obtain msg where pub: "Publisher_PublishL2Payload env cfg (LocalSigner_Sign env sign (Some key)) pool p = Inr msg"
    and signed: "signed_block env (nd_cfg n) r now msg p"
    using published_signed [of env p pool sign key r cfg chain "nd_cfg n" now, OF assms(1,4-14)] by blast
  obtain v' where run: "guardGossipValidator (BlocksValidator env (nd_cfg n) r now msg v) = (v', ValidationAccept, Some p)"
    using validator_lets_in [OF assms(1,2,3) signed assms(15,16)] by blast
  have "validateCommitments n r p = Inr ()" using assms(18) validateCommitments_screened by auto
  then have "BlocksHandler (Node_OnUnsafeL2Payload n r expired sender) (ValidationAccept, Some p) s = fst (OnUnsafeL2Payload expired p s)"
    using assms(17) by (simp add: BlocksHandler_def Node_OnUnsafeL2Payload_def)
  then show ?thesis using pub run by blast
qed

section \<open>Two nodes\<close>

definition ex_gossip :: "(u64 \<rightharpoonup> nat) gossip_env" where
  "ex_gossip = \<lparr>snappy_DecodedLen = (\<lambda>m. Inr (length m)), snappy_Decode = Inr, snappy_Encode = (\<lambda>d. d), ge_Keccak256 = take 32,
     ge_sha256 = take 32, ge_SigToPub = (\<lambda>h sig. Inr sig), ge_PubkeyToAddress = take 20, ge_DeriveSha = (\<lambda>txs. []),
     ge_headerHash = (\<lambda>h. replicate 32 11), lru_Get = (\<lambda>k c. (c, c k)), lru_Add = (\<lambda>k i c. c(k \<mapsto> i))\<rparr>"

definition ex_runtime :: runtime_config where
  "ex_runtime = NewRuntimeConfig\<lparr>p2pBlockSignerAddr := replicate 20 1\<rparr>"

lemma ex_gossip_laws: "snappy_law ex_gossip" "lru_law (\<lambda>c. c) ex_gossip"
  by (simp_all add: snappy_law_def lru_law_def ex_gossip_def)

lemma ex_screened_payload: "screened (ex_node, ex_runtime) ex_ssz_payload"
  by (simp add: screened_def ex_node_def abi_of_payload_def ex_ssz_payload_def)

theorem gossip_delivery_witness:
  "\<exists>msg v' m. Publisher_PublishL2Payload ex_gossip example_cfg (LocalSigner_Sign ex_gossip (\<lambda>h k. Inr (replicate 65 k)) (Some 1)) [] ex_ssz_payload = Inr msg \<and>
    guardGossipValidator (BlocksValidator ex_gossip (nd_cfg ex_node) ex_runtime 60 msg (NewValidator Map.empty)) = (v', m) \<and>
    BlocksHandler (Node_OnUnsafeL2Payload ex_node ex_runtime False [2]) m (NewDriver True () ()) =
      fst (OnUnsafeL2Payload False ex_ssz_payload (NewDriver True () ()))"
proof (rule gossip_delivery [of _ "\<lambda>c. c" _ _ _ _ _ _ _ 10])
  show "65 + length (ssz_bytes ex_ssz_payload) \<le> 10 * 2 ^ 20"
    by (simp add: ex_ssz_payload_def ssz_bytes_def ssz_fixed_def fixed_fields_def)
  show "\<forall>h. \<exists>sig pub. (Inr (replicate 65 (1 :: byte)) :: bytes result) = Inr sig \<and> length sig = 65 \<and> ge_SigToPub ex_gossip h sig = Inr pub \<and>
      ge_PubkeyToAddress ex_gossip pub = P2PSequencerAddress ex_runtime"
    by (simp add: ex_gossip_def P2PSequencerAddress_def ex_runtime_def)
qed (fact ex_gossip_laws ex_ssz_payload_ok ex_screened_payload |
  simp add: seen_at_def NewValidator_ok NewValidator_def CheckBlockHash_def ex_gossip_def ex_ssz_payload_def ex_node_def example_cfg_def
    ex_runtime_def P2PSequencerAddress_def zero_address_def validator_ok_def)+



end
