(* ===== verification/Sync_Client.thy ===== *)
theory Sync_Client
  imports Gossip
begin

text \<open>
  The request/response sync of blocks, the client of \<open>op-node/p2p/sync.go\<close>: a main loop that owns the bookkeeping of a
  backwards sync, and one goroutine per peer that fetches blocks by number. The goroutines are the steps of an inductive relation;
  the loop over a range is cut at its iterations. Rate limits only delay. The caches of golang-lru and the framed Snappy stream are
  parameters. Three fields are history: what was requested, what was handed to the receiver, and the scores of the peers.
\<close>

section \<open>Libraries\<close>

text \<open>An LRU cache; \<open>Add\<close> and \<open>Remove\<close> also give the entry that they push out, for the callback.\<close>

record ('k, 'v, 'c) lru =
  l_Add :: "'k \<Rightarrow> 'v \<Rightarrow> 'c \<Rightarrow> 'c \<times> ('k \<times> 'v) option"
  l_Get :: "'k \<Rightarrow> 'c \<Rightarrow> 'c \<times> 'v option"
  l_Contains :: "'k \<Rightarrow> 'c \<Rightarrow> bool"
  l_Remove :: "'k \<Rightarrow> 'c \<Rightarrow> 'c \<times> ('k \<times> 'v) option"

text \<open>It holds nothing that was not added.\<close>

definition lru_sound :: "('c \<Rightarrow> 'k \<rightharpoonup> 'v) \<Rightarrow> ('k, 'v, 'c) lru \<Rightarrow> bool" where
  "lru_sound content l \<longleftrightarrow>
     (\<forall>k v c. content (fst (l_Add l k v c)) \<subseteq>\<^sub>m (content c)(k \<mapsto> v)) \<and>
     (\<forall>k c. content (fst (l_Get l k c)) \<subseteq>\<^sub>m content c) \<and> (\<forall>k v c. snd (l_Get l k c) = Some v \<longrightarrow> content c k = Some v) \<and>
     (\<forall>k c. l_Contains l k c \<longrightarrow> content c k \<noteq> None) \<and> (\<forall>k c. content (fst (l_Remove l k c)) \<subseteq>\<^sub>m content c)"

type_synonym peer_id = bytes

record sync_result =
  sr_payload :: execution_payload
  sr_peer :: peer_id

text \<open>\<open>sy_unframe\<close> is what the reader of a framed stream yields until it ends or fails.\<close>

record ('c, 't, 'q) sync_env =
  sy_gossip :: "'c gossip_env"
  sy_unframe :: "bytes \<Rightarrow> bytes \<times> error option"
  sy_trusted :: "(hash, unit, 't) lru"
  sy_quarantine :: "(hash, sync_result, 'q) lru"

section \<open>A response\<close>

definition requestResultErr :: "byte \<Rightarrow> error" where
  "requestResultErr code = Errorf (''peer failed to serve request with code '' @ [char_of (unat code)])"

definition verifyBlock :: "('c, 't, 'q) sync_env \<Rightarrow> execution_payload \<Rightarrow> u64 \<Rightarrow> unit result" where
  "verifyBlock env payload expectedNum =
     (if expectedNum \<noteq> BlockNumber payload then Inl (Errorf ''received execution payload for wrong block'')
      else if \<not> snd (CheckBlockHash (sy_gossip env) payload) then Inl (Errorf ''received execution payload with bad block hash'')
      else Inr ())"

text \<open>What \<open>doRequest\<close> makes of the bytes that the peer sends for block \<open>n\<close>.\<close>

definition read_response :: "('c, 't, 'q) sync_env \<Rightarrow> bytes \<Rightarrow> u64 \<Rightarrow> execution_payload result" where
  "read_response env str n =
     (let r = take maxGossipSize str
      in rbind (on_error (Wrap ''failed to read result part of response'') (read_full 1 r)) (\<lambda>(result, r).
         if hd result \<noteq> 0 then Inl (requestResultErr (hd result))
         else rbind (on_error (Wrap ''failed to read version part of response'') (read_full 4 r)) (\<lambda>(versionData, r).
              if get_le32 versionData \<noteq> 0 then Inl (Errorf ''unrecognized ExecutionPayload version'')
              else case sy_unframe env r of
                     (data, err) \<Rightarrow>
                       if length data < maxGossipSize \<and> err \<noteq> None then Inl (Wrap ''failed to read response'' (the err))
                       else let data = take maxGossipSize data
                            in rbind (on_error (Wrap ''failed to decode response'') (UnmarshalSSZ (of_nat (length data)) data)) (\<lambda>res.
                               rbind (on_error (Wrap ''received execution payload is invalid'') (verifyBlock env res n)) (\<lambda>_. Inr res)))))"

section \<open>The client\<close>

text \<open>A goroutine of a peer waits for work, has a request out, or waits to hand its result to the main loop. A request goes with a
  pointer to its completion flag.\<close>

datatype peer_routine = Waiting | Requesting u64 nat | Handing sync_result nat | Exited

record routine =
  rt_peer :: peer_id
  rt_cancelled :: bool
  rt_state :: peer_routine

datatype main_phase = Selecting | Ranging u64 u64

datatype peer_score = ValidResponse peer_id | ResponseError peer_id | RejectedPayload peer_id

record range_request =
  rq_start :: u64
  rq_end :: l2_block_ref

record ('t, 'q, 's) sync_client =
  sc_trusted :: 't
  sc_quarantine :: 'q
  sc_quarantineByNum :: "(u64, hash) gomap"
  sc_inFlight :: "(u64, nat) gomap"
  sc_complete :: "bool list"
  sc_peerRequests :: "(u64 \<times> nat) list"
  sc_results :: "sync_result list"
  sc_peers :: "(peer_id, nat) gomap"
  sc_routines :: "routine list"
  sc_closingPeers :: bool
  sc_cancelled :: bool
  sc_phase :: main_phase
  sc_receiver :: 's
  sc_requested :: "range_request list"
  sc_delivered :: "(execution_payload \<times> bool) list"
  sc_scores :: "peer_score list"

definition NewSyncClient :: "'t \<Rightarrow> 'q \<Rightarrow> 's \<Rightarrow> ('t, 'q, 's) sync_client" where
  "NewSyncClient trusted quarantine receiver =
     \<lparr>sc_trusted = trusted, sc_quarantine = quarantine, sc_quarantineByNum = [], sc_inFlight = [], sc_complete = [], sc_peerRequests = [],
      sc_results = [], sc_peers = [], sc_routines = [], sc_closingPeers = False, sc_cancelled = False, sc_phase = Selecting,
      sc_receiver = receiver, sc_requested = [], sc_delivered = [], sc_scores = []\<rparr>"

subsection \<open>Quarantine\<close>

definition onQuarantineEvict :: "('c, 't, 'q) sync_env \<Rightarrow> (hash \<times> sync_result) option \<Rightarrow> ('t, 'q, 's) sync_client \<Rightarrow> ('t, 'q, 's) sync_client" where
  "onQuarantineEvict env evicted s =
     (case evicted of
        None \<Rightarrow> s
      | Some (key, val) \<Rightarrow>
          let s = s\<lparr>sc_quarantineByNum := AList.delete (BlockNumber (sr_payload val)) (sc_quarantineByNum s)\<rparr>
          in if \<not> l_Contains (sy_trusted env) key (sc_trusted s) then s\<lparr>sc_scores := sc_scores s @ [RejectedPayload (sr_peer val)]\<rparr> else s)"

definition quarantine_Add :: "('c, 't, 'q) sync_env \<Rightarrow> hash \<Rightarrow> sync_result \<Rightarrow> ('t, 'q, 's) sync_client \<Rightarrow> ('t, 'q, 's) sync_client" where
  "quarantine_Add env h res s =
     (case l_Add (sy_quarantine env) h res (sc_quarantine s) of (q, evicted) \<Rightarrow> onQuarantineEvict env evicted (s\<lparr>sc_quarantine := q\<rparr>))"

definition quarantine_Remove :: "('c, 't, 'q) sync_env \<Rightarrow> hash \<Rightarrow> ('t, 'q, 's) sync_client \<Rightarrow> ('t, 'q, 's) sync_client" where
  "quarantine_Remove env h s =
     (case l_Remove (sy_quarantine env) h (sc_quarantine s) of (q, evicted) \<Rightarrow> onQuarantineEvict env evicted (s\<lparr>sc_quarantine := q\<rparr>))"

definition trust :: "('c, 't, 'q) sync_env \<Rightarrow> hash \<Rightarrow> ('t, 'q, 's) sync_client \<Rightarrow> ('t, 'q, 's) sync_client" where
  "trust env h s = s\<lparr>sc_trusted := fst (l_Add (sy_trusted env) h () (sc_trusted s))\<rparr>"

definition results_size :: nat where "results_size = 128"
definition peerRequests_size :: nat where "peerRequests_size = 128"

definition tryPromote :: "('c, 't, 'q) sync_env \<Rightarrow> hash \<Rightarrow> ('t, 'q, 's) sync_client \<Rightarrow> ('t, 'q, 's) sync_client" where
  "tryPromote env h s =
     (case l_Get (sy_quarantine env) h (sc_quarantine s) of
        (q, None) \<Rightarrow> s\<lparr>sc_quarantine := q\<rparr>
      | (q, Some res) \<Rightarrow>
          if length (sc_results s) < results_size then s\<lparr>sc_quarantine := q, sc_results := sc_results s @ [res]\<rparr>
          else s\<lparr>sc_quarantine := q\<rparr>)"

text \<open>\<open>recv\<close> is \<open>receivePayload\<close> on the state of the receiver.\<close>

definition promote ::
  "('c, 't, 'q) sync_env \<Rightarrow> (peer_id \<Rightarrow> execution_payload \<Rightarrow> 's \<Rightarrow> 's \<times> unit result) \<Rightarrow> sync_result \<Rightarrow>
   ('t, 'q, 's) sync_client \<Rightarrow> ('t, 'q, 's) sync_client" where
  "promote env recv res s =
     (let p = sr_payload res
      in case recv (sr_peer res) p (sc_receiver s) of
           (rs, Inl _) \<Rightarrow> s\<lparr>sc_receiver := rs, sc_delivered := sc_delivered s @ [(p, False)]\<rparr>
         | (rs, Inr _) \<Rightarrow>
             let s = s\<lparr>sc_receiver := rs, sc_delivered := sc_delivered s @ [(p, True)]\<rparr>;
                 s = quarantine_Remove env (BlockHash p) (trust env (BlockHash p) s);
                 s = tryPromote env (ep_ParentHash p) (trust env (ep_ParentHash p) s)
             in case map_of (sc_quarantineByNum s) (BlockNumber p - 1) of
                  Some h \<Rightarrow> quarantine_Remove env h s
                | None \<Rightarrow> s)"

definition onResult ::
  "('c, 't, 'q) sync_env \<Rightarrow> (peer_id \<Rightarrow> execution_payload \<Rightarrow> 's \<Rightarrow> 's \<times> unit result) \<Rightarrow> sync_result \<Rightarrow>
   ('t, 'q, 's) sync_client \<Rightarrow> ('t, 'q, 's) sync_client" where
  "onResult env recv res s =
     (let p = sr_payload res;
          s = quarantine_Add env (BlockHash p) res (s\<lparr>sc_inFlight := AList.delete (BlockNumber p) (sc_inFlight s)\<rparr>);
          s = s\<lparr>sc_quarantineByNum := AList.update (BlockNumber p) (BlockHash p) (sc_quarantineByNum s)\<rparr>
      in if l_Contains (sy_trusted env) (BlockHash p) (sc_trusted s) then promote env recv res s else s)"

subsection \<open>Range requests\<close>

text \<open>\<open>RequestL2Range\<close> hands a request to the main loop unless its end is the zero reference.\<close>

definition RequestL2Range :: "l2_block_ref \<Rightarrow> l2_block_ref \<Rightarrow> range_request option" where
  "RequestL2Range start end' = (if end' = zero_l2_ref then None else Some \<lparr>rq_start = l2_Number start, rq_end = end'\<rparr>)"

text \<open>The start of \<open>onRangeRequest\<close>, and an iteration of its loop. \<open>give_up\<close> says that the select takes the end of the context.\<close>

definition range_begin :: "('c, 't, 'q) sync_env \<Rightarrow> range_request \<Rightarrow> ('t, 'q, 's) sync_client \<Rightarrow> ('t, 'q, 's) sync_client" where
  "range_begin env req s =
     (let s = trust env (l2_ParentHash (rq_end req)) (trust env (l2_Hash (rq_end req)) s)
      in s\<lparr>sc_inFlight := filter (\<lambda>(num, f). \<not> sc_complete s ! f) (sc_inFlight s),
           sc_phase := Ranging (rq_start req) (l2_Number (rq_end req) - 1), sc_requested := sc_requested s @ [req]\<rparr>)"

definition range_iterate :: "('c, 't, 'q) sync_env \<Rightarrow> bool \<Rightarrow> u64 \<Rightarrow> u64 \<Rightarrow> ('t, 'q, 's) sync_client \<Rightarrow> ('t, 'q, 's) sync_client" where
  "range_iterate env give_up start num s =
     (let again = Ranging start (num - 1)
      in if num \<le> start then s\<lparr>sc_phase := Selecting\<rparr>
         else case map_of (sc_quarantineByNum s) num of
                Some h \<Rightarrow> (if l_Contains (sy_trusted env) h (sc_trusted s) then tryPromote env h s else s)\<lparr>sc_phase := again\<rparr>
              | None \<Rightarrow>
                  if map_of (sc_inFlight s) num \<noteq> None then s\<lparr>sc_phase := again\<rparr>
                  else if length (sc_peerRequests s) < peerRequests_size \<and> \<not> give_up
                  then s\<lparr>sc_complete := sc_complete s @ [False], sc_peerRequests := sc_peerRequests s @ [(num, length (sc_complete s))],
                         sc_inFlight := AList.update num (length (sc_complete s)) (sc_inFlight s), sc_phase := again\<rparr>
                  else s\<lparr>sc_phase := Selecting\<rparr>)"

text \<open>The answer of the main loop to \<open>isInFlight\<close>.\<close>

definition isInFlight :: "u64 \<Rightarrow> ('t, 'q, 's) sync_client \<Rightarrow> bool" where
  "isInFlight num s = (case map_of (sc_inFlight s) num of None \<Rightarrow> False | Some f \<Rightarrow> \<not> sc_complete s ! f)"

subsection \<open>Peers\<close>

definition AddPeer :: "peer_id \<Rightarrow> ('t, 'q, 's) sync_client \<Rightarrow> ('t, 'q, 's) sync_client" where
  "AddPeer pid s =
     (if sc_closingPeers s then s
      else if map_of (sc_peers s) pid \<noteq> None then s
      else s\<lparr>sc_peers := AList.update pid (length (sc_routines s)) (sc_peers s),
             sc_routines := sc_routines s @ [\<lparr>rt_peer = pid, rt_cancelled = False, rt_state = Waiting\<rparr>]\<rparr>)"

definition RemovePeer :: "peer_id \<Rightarrow> ('t, 'q, 's) sync_client \<Rightarrow> ('t, 'q, 's) sync_client" where
  "RemovePeer pid s =
     (case map_of (sc_peers s) pid of
        None \<Rightarrow> s
      | Some k \<Rightarrow> s\<lparr>sc_routines := (sc_routines s)[k := (sc_routines s ! k)\<lparr>rt_cancelled := True\<rparr>], sc_peers := AList.delete pid (sc_peers s)\<rparr>)"

definition SyncClient_Close :: "('t, 'q, 's) sync_client \<Rightarrow> ('t, 'q, 's) sync_client" where
  "SyncClient_Close s = s\<lparr>sc_closingPeers := True, sc_cancelled := True\<rparr>"

definition set_routine :: "nat \<Rightarrow> peer_routine \<Rightarrow> ('t, 'q, 's) sync_client \<Rightarrow> ('t, 'q, 's) sync_client" where
  "set_routine k x s = s\<lparr>sc_routines := (sc_routines s)[k := (sc_routines s ! k)\<lparr>rt_state := x\<rparr>]\<rparr>"

text \<open>A request that failed: its flag is set, and the peer is scored.\<close>

definition request_failed :: "nat \<Rightarrow> nat \<Rightarrow> ('t, 'q, 's) sync_client \<Rightarrow> ('t, 'q, 's) sync_client" where
  "request_failed k f s =
     (set_routine k Waiting s)\<lparr>sc_complete := (sc_complete s)[f := True],
       sc_scores := sc_scores s @ [ResponseError (rt_peer (sc_routines s ! k))]\<rparr>"

text \<open>The goroutines.\<close>

inductive sync_step ::
  "('c, 't, 'q) sync_env \<Rightarrow> (peer_id \<Rightarrow> execution_payload \<Rightarrow> 's \<Rightarrow> 's \<times> unit result) \<Rightarrow>
   ('t, 'q, 's) sync_client \<Rightarrow> ('t, 'q, 's) sync_client \<Rightarrow> bool" for env recv where
  Request: "sc_phase s = Selecting \<Longrightarrow> RequestL2Range start end' = Some req \<Longrightarrow> sync_step env recv s (range_begin env req s)"
| Iterate: "sc_phase s = Ranging start num \<Longrightarrow> sync_step env recv s (range_iterate env give_up start num s)"
| Result: "sc_phase s = Selecting \<Longrightarrow> sc_results s = res # rs \<Longrightarrow> sync_step env recv s (onResult env recv res (s\<lparr>sc_results := rs\<rparr>))"
| Pick: "k < length (sc_routines s) \<Longrightarrow> rt_state (sc_routines s ! k) = Waiting \<Longrightarrow> sc_peerRequests s = (num, f) # prs \<Longrightarrow>
    sync_step env recv s (set_routine k (Requesting num f) (s\<lparr>sc_peerRequests := prs\<rparr>))"
| Fail: "k < length (sc_routines s) \<Longrightarrow> rt_state (sc_routines s ! k) = Requesting num f \<Longrightarrow> sync_step env recv s (request_failed k f s)"
| Respond: "k < length (sc_routines s) \<Longrightarrow> rt_state (sc_routines s ! k) = Requesting num f \<Longrightarrow> read_response env str num = Inr p \<Longrightarrow>
    sync_step env recv s (set_routine k (Handing \<lparr>sr_payload = p, sr_peer = rt_peer (sc_routines s ! k)\<rparr> f) s)"
| Hand: "k < length (sc_routines s) \<Longrightarrow> rt_state (sc_routines s ! k) = Handing res f \<Longrightarrow> length (sc_results s) < results_size \<Longrightarrow>
    sync_step env recv s ((set_routine k Waiting s)\<lparr>sc_results := sc_results s @ [res],
      sc_scores := sc_scores s @ [ValidResponse (rt_peer (sc_routines s ! k))]\<rparr>)"
| Give_up: "k < length (sc_routines s) \<Longrightarrow> rt_state (sc_routines s ! k) = Handing res f \<Longrightarrow>
    rt_cancelled (sc_routines s ! k) \<or> sc_cancelled s \<Longrightarrow> sync_step env recv s (request_failed k f s)"
| Exit: "k < length (sc_routines s) \<Longrightarrow> rt_state (sc_routines s ! k) = Waiting \<Longrightarrow> rt_cancelled (sc_routines s ! k) \<or> sc_cancelled s \<Longrightarrow>
    sync_step env recv s ((set_routine k Exited s)\<lparr>sc_peers := AList.delete (rt_peer (sc_routines s ! k)) (sc_peers s)\<rparr>)"
| Add_peer: "sync_step env recv s (AddPeer pid s)"
| Remove_peer: "sync_step env recv s (RemovePeer pid s)"
| Closing: "sync_step env recv s (SyncClient_Close s)"

section \<open>What the bookkeeping leaves alone\<close>

lemma evict_fields [simp]:
  "sc_trusted (onQuarantineEvict env ev s) = sc_trusted s" "sc_quarantine (onQuarantineEvict env ev s) = sc_quarantine s"
  "sc_inFlight (onQuarantineEvict env ev s) = sc_inFlight s" "sc_complete (onQuarantineEvict env ev s) = sc_complete s"
  "sc_peerRequests (onQuarantineEvict env ev s) = sc_peerRequests s" "sc_results (onQuarantineEvict env ev s) = sc_results s"
  "sc_routines (onQuarantineEvict env ev s) = sc_routines s" "sc_requested (onQuarantineEvict env ev s) = sc_requested s"
  "sc_delivered (onQuarantineEvict env ev s) = sc_delivered s"
  by (simp_all add: onQuarantineEvict_def Let_def split: option.splits)

lemma quarantine_fields [simp]:
  "sc_trusted (quarantine_Add env h res s) = sc_trusted s" "sc_trusted (quarantine_Remove env h s) = sc_trusted s"
  "sc_inFlight (quarantine_Add env h res s) = sc_inFlight s" "sc_inFlight (quarantine_Remove env h s) = sc_inFlight s"
  "sc_complete (quarantine_Add env h res s) = sc_complete s" "sc_complete (quarantine_Remove env h s) = sc_complete s"
  "sc_peerRequests (quarantine_Add env h res s) = sc_peerRequests s" "sc_peerRequests (quarantine_Remove env h s) = sc_peerRequests s"
  "sc_results (quarantine_Add env h res s) = sc_results s" "sc_results (quarantine_Remove env h s) = sc_results s"
  "sc_routines (quarantine_Add env h res s) = sc_routines s" "sc_routines (quarantine_Remove env h s) = sc_routines s"
  "sc_requested (quarantine_Add env h res s) = sc_requested s" "sc_requested (quarantine_Remove env h s) = sc_requested s"
  "sc_delivered (quarantine_Add env h res s) = sc_delivered s" "sc_delivered (quarantine_Remove env h s) = sc_delivered s"
  "sc_quarantine (quarantine_Add env h res s) = fst (l_Add (sy_quarantine env) h res (sc_quarantine s))"
  "sc_quarantine (quarantine_Remove env h s) = fst (l_Remove (sy_quarantine env) h (sc_quarantine s))"
  by (simp_all add: quarantine_Add_def quarantine_Remove_def split: prod.splits)

lemma trust_fields [simp]:
  "sc_trusted (trust env h s) = fst (l_Add (sy_trusted env) h () (sc_trusted s))" "sc_quarantine (trust env h s) = sc_quarantine s"
  "sc_inFlight (trust env h s) = sc_inFlight s" "sc_complete (trust env h s) = sc_complete s"
  "sc_peerRequests (trust env h s) = sc_peerRequests s" "sc_results (trust env h s) = sc_results s"
  "sc_routines (trust env h s) = sc_routines s" "sc_requested (trust env h s) = sc_requested s"
  "sc_delivered (trust env h s) = sc_delivered s"
  by (simp_all add: trust_def)

lemma tryPromote_fields [simp]:
  "sc_trusted (tryPromote env h s) = sc_trusted s" "sc_quarantine (tryPromote env h s) = fst (l_Get (sy_quarantine env) h (sc_quarantine s))"
  "sc_inFlight (tryPromote env h s) = sc_inFlight s" "sc_complete (tryPromote env h s) = sc_complete s"
  "sc_peerRequests (tryPromote env h s) = sc_peerRequests s" "sc_routines (tryPromote env h s) = sc_routines s"
  "sc_requested (tryPromote env h s) = sc_requested s" "sc_delivered (tryPromote env h s) = sc_delivered s"
  by (simp_all add: tryPromote_def split: prod.splits option.splits)

lemma tryPromote_results:
  "set (sc_results s) \<subseteq> set (sc_results (tryPromote env h s))"
  "res \<in> set (sc_results (tryPromote env h s)) \<Longrightarrow> res \<in> set (sc_results s) \<or> snd (l_Get (sy_quarantine env) h (sc_quarantine s)) = Some res"
  by (auto simp: tryPromote_def split: prod.splits option.splits if_splits)

section \<open>Trust\<close>

text \<open>The hashes that are anchored: the requested ends with their parents, and the parents of the payloads that the receiver took.\<close>

definition anchors :: "range_request list \<Rightarrow> (execution_payload \<times> bool) list \<Rightarrow> hash set" where
  "anchors reqs D =
     (\<lambda>r. l2_Hash (rq_end r)) ` set reqs \<union> (\<lambda>r. l2_ParentHash (rq_end r)) ` set reqs \<union> {ep_ParentHash q | q. (q, True) \<in> set D}"

definition linked :: "('c, 't, 'q) sync_env \<Rightarrow> range_request list \<Rightarrow> (execution_payload \<times> bool) list \<Rightarrow> bool" where
  "linked env reqs D \<longleftrightarrow>
     (\<forall>i<length D. snd (CheckBlockHash (sy_gossip env) (fst (D ! i))) \<and> BlockHash (fst (D ! i)) \<in> anchors reqs (take i D))"

lemma anchors_mono: "set reqs \<subseteq> set reqs' \<Longrightarrow> set D \<subseteq> set D' \<Longrightarrow> anchors reqs D \<subseteq> anchors reqs' D'"
  by (auto simp: anchors_def)

lemma linked_hash: "linked env reqs D \<Longrightarrow> (p, b) \<in> set D \<Longrightarrow> BlockHash p \<in> anchors reqs D"
proof -
  assume l: "linked env reqs D" and "(p, b) \<in> set D"
  then obtain i where i: "i < length D" "D ! i = (p, b)" by (auto simp: in_set_conv_nth)
  then have "BlockHash p \<in> anchors reqs (take i D)" using l by (force simp: linked_def)
  then show ?thesis using anchors_mono [of reqs reqs "take i D" D] set_take_subset [of i D] by auto
qed

lemma linked_snoc:
  "linked env reqs (D @ [(p, b)]) \<longleftrightarrow> linked env reqs D \<and> snd (CheckBlockHash (sy_gossip env) p) \<and> BlockHash p \<in> anchors reqs D"
  by (auto simp: linked_def less_Suc_eq nth_append)

lemma linked_mono: "linked env reqs D \<Longrightarrow> set reqs \<subseteq> set reqs' \<Longrightarrow> linked env reqs' D"
  unfolding linked_def using anchors_mono [OF _ order.refl] by blast

text \<open>Whatever result is around has passed the check of its hash.\<close>

definition checked :: "('c, 't, 'q) sync_env \<Rightarrow> sync_result \<Rightarrow> bool" where
  "checked env res \<longleftrightarrow> snd (CheckBlockHash (sy_gossip env) (sr_payload res))"

definition trust_inv ::
  "('t \<Rightarrow> hash \<rightharpoonup> unit) \<Rightarrow> ('q \<Rightarrow> hash \<rightharpoonup> sync_result) \<Rightarrow> ('c, 't, 'q) sync_env \<Rightarrow> ('t, 'q, 's) sync_client \<Rightarrow> bool" where
  "trust_inv ct cq env s \<longleftrightarrow>
     dom (ct (sc_trusted s)) \<subseteq> anchors (sc_requested s) (sc_delivered s) \<and>
     (\<forall>h res. cq (sc_quarantine s) h = Some res \<longrightarrow> checked env res) \<and> (\<forall>res\<in>set (sc_results s). checked env res) \<and>
     (\<forall>rt\<in>set (sc_routines s). \<forall>res f. rt_state rt = Handing res f \<longrightarrow> checked env res) \<and>
     linked env (sc_requested s) (sc_delivered s)"

definition sync_laws ::
  "('t \<Rightarrow> hash \<rightharpoonup> unit) \<Rightarrow> ('q \<Rightarrow> hash \<rightharpoonup> sync_result) \<Rightarrow> ('c, 't, 'q) sync_env \<Rightarrow> bool" where
  "sync_laws ct cq env \<longleftrightarrow> lru_sound ct (sy_trusted env) \<and> lru_sound cq (sy_quarantine env)"

lemma map_leD: "m \<subseteq>\<^sub>m m' \<Longrightarrow> m k = Some v \<Longrightarrow> m' k = Some v"
  by (metis domI map_le_def)

lemma lru_soundD:
  assumes "lru_sound content l"
  shows "content (fst (l_Add l k v c)) k' = Some x \<Longrightarrow> k' = k \<and> x = v \<or> content c k' = Some x"
    "content (fst (l_Get l k c)) k' = Some x \<Longrightarrow> content c k' = Some x" "snd (l_Get l k c) = Some v \<Longrightarrow> content c k = Some v"
    "l_Contains l k c \<Longrightarrow> k \<in> dom (content c)" "content (fst (l_Remove l k c)) k' = Some x \<Longrightarrow> content c k' = Some x"
proof -
  note law = assms [unfolded lru_sound_def]
  show "k' = k \<and> x = v \<or> content c k' = Some x" if "content (fst (l_Add l k v c)) k' = Some x"
  proof -
    have "content (fst (l_Add l k v c)) \<subseteq>\<^sub>m (content c)(k \<mapsto> v)" using law by blast
    from map_leD [OF this that] show ?thesis by (simp split: if_splits)
  qed
  show "content c k' = Some x" if "content (fst (l_Get l k c)) k' = Some x" using law that map_leD by metis
  show "content c k = Some v" if "snd (l_Get l k c) = Some v" using law that by blast
  show "k \<in> dom (content c)" if "l_Contains l k c" using law that by blast
  show "content c k' = Some x" if "content (fst (l_Remove l k c)) k' = Some x" using law that map_leD by metis
qed

lemma trust_inv_trust:
  assumes "sync_laws ct cq env" "trust_inv ct cq env s" "h \<in> anchors (sc_requested s) (sc_delivered s)"
  shows "trust_inv ct cq env (trust env h s)"
  using assms lru_soundD(1) [of ct "sy_trusted env" h "()" "sc_trusted s"] unfolding trust_inv_def sync_laws_def by (auto simp: dom_def subset_iff)

lemma trust_inv_remove:
  assumes "sync_laws ct cq env" "trust_inv ct cq env s"
  shows "trust_inv ct cq env (quarantine_Remove env h s)"
  using assms lru_soundD(5) [of cq "sy_quarantine env" h "sc_quarantine s"] unfolding trust_inv_def sync_laws_def by fastforce

lemma trust_inv_add:
  assumes "sync_laws ct cq env" "trust_inv ct cq env s" "checked env res"
  shows "trust_inv ct cq env (quarantine_Add env h res s)"
  using assms lru_soundD(1) [of cq "sy_quarantine env" h res "sc_quarantine s"] unfolding trust_inv_def sync_laws_def by fastforce

lemma trust_inv_tryPromote:
  assumes "sync_laws ct cq env" "trust_inv ct cq env s"
  shows "trust_inv ct cq env (tryPromote env h s)"
  using assms lru_soundD(2,3) [of cq "sy_quarantine env" h "sc_quarantine s"] tryPromote_results(2) [of _ env h s]
  unfolding trust_inv_def sync_laws_def by fastforce

lemma trust_inv_deliver:
  assumes "trust_inv ct cq env s" "snd (CheckBlockHash (sy_gossip env) p)" "BlockHash p \<in> anchors (sc_requested s) (sc_delivered s)"
  shows "trust_inv ct cq env (s\<lparr>sc_receiver := rs, sc_delivered := sc_delivered s @ [(p, b)]\<rparr>)"
  using assms anchors_mono [of "sc_requested s" "sc_requested s" "sc_delivered s" "sc_delivered s @ [(p, b)]"]
  unfolding trust_inv_def by (auto simp: linked_snoc)

lemma trust_inv_promote:
  assumes laws: "sync_laws ct cq env" and inv: "trust_inv ct cq env s" and res: "checked env res"
    and anchor: "BlockHash (sr_payload res) \<in> anchors (sc_requested s) (sc_delivered s)"
  shows "trust_inv ct cq env (promote env recv res s)"
proof -
  let ?p = "sr_payload res"
  obtain rs r where recv: "recv (sr_peer res) ?p (sc_receiver s) = (rs, r)" by fastforce
  have ok: "snd (CheckBlockHash (sy_gossip env) ?p)" using res by (simp add: checked_def)
  show ?thesis
  proof (cases r)
    case (Inl e)
    then show ?thesis using recv trust_inv_deliver [OF inv ok anchor] by (simp add: promote_def Let_def)
  next
    case (Inr u)
    let ?s1 = "s\<lparr>sc_receiver := rs, sc_delivered := sc_delivered s @ [(?p, True)]\<rparr>"
    let ?A = "anchors (sc_requested s) (sc_delivered s @ [(?p, True)])"
    have "BlockHash ?p \<in> ?A" using anchor anchors_mono [of "sc_requested s" "sc_requested s" "sc_delivered s" "sc_delivered s @ [(?p, True)]"] by auto
    moreover have "ep_ParentHash ?p \<in> ?A" by (auto simp: anchors_def)
    ultimately have "trust_inv ct cq env (tryPromote env (ep_ParentHash ?p) (trust env (ep_ParentHash ?p)
        (quarantine_Remove env (BlockHash ?p) (trust env (BlockHash ?p) ?s1))))"
      using trust_inv_deliver [OF inv ok anchor]
      by (intro trust_inv_tryPromote trust_inv_trust trust_inv_remove laws) simp_all
    then show ?thesis
      using recv Inr by (auto simp: promote_def Let_def trust_inv_remove [OF laws] split: option.splits)
  qed
qed

lemma trust_inv_result:
  assumes laws: "sync_laws ct cq env" and inv: "trust_inv ct cq env s" and res: "checked env res"
  shows "trust_inv ct cq env (onResult env recv res s)"
proof -
  let ?p = "sr_payload res"
  let ?s1 = "quarantine_Add env (BlockHash ?p) res (s\<lparr>sc_inFlight := AList.delete (BlockNumber ?p) (sc_inFlight s)\<rparr>)"
  let ?s2 = "?s1\<lparr>sc_quarantineByNum := AList.update (BlockNumber ?p) (BlockHash ?p) (sc_quarantineByNum ?s1)\<rparr>"
  have "trust_inv ct cq env (s\<lparr>sc_inFlight := AList.delete (BlockNumber ?p) (sc_inFlight s)\<rparr>)" using inv by (simp add: trust_inv_def)
  from trust_inv_add [OF laws this res] have inv2: "trust_inv ct cq env ?s2" by (simp add: trust_inv_def)
  show ?thesis
  proof (cases "l_Contains (sy_trusted env) (BlockHash ?p) (sc_trusted s)")
    case True
    then have "BlockHash ?p \<in> dom (ct (sc_trusted s))" using laws lru_soundD(4) unfolding sync_laws_def by metis
    then have "BlockHash ?p \<in> anchors (sc_requested ?s2) (sc_delivered ?s2)" using inv by (auto simp: trust_inv_def)
    then show ?thesis using True trust_inv_promote [OF laws inv2 res] by (simp add: onResult_def Let_def)
  qed (use inv2 in \<open>simp add: onResult_def Let_def\<close>)
qed

lemma read_response_ok:
  "read_response env str num = Inr p \<Longrightarrow> BlockNumber p = num \<and> snd (CheckBlockHash (sy_gossip env) p)"
  by (auto simp: read_response_def verifyBlock_def Let_def rbind_Inr split: if_splits prod.splits)

lemma set_routine_fields [simp]:
  "sc_routines (set_routine k x s) = (sc_routines s)[k := (sc_routines s ! k)\<lparr>rt_state := x\<rparr>]"
  by (simp add: set_routine_def)

lemma trust_inv_routine:
  assumes "trust_inv ct cq env s" "\<forall>res f. x = Handing res f \<longrightarrow> checked env res" "k < length (sc_routines s)"
  shows "trust_inv ct cq env (set_routine k x s)"
  using assms set_update_subset_insert [of "sc_routines s" k "(sc_routines s ! k)\<lparr>rt_state := x\<rparr>"]
  unfolding trust_inv_def set_routine_def by (auto simp: subset_iff)

lemma cancelled_states: "map rt_state (xs[k := (xs ! k)\<lparr>rt_cancelled := True\<rparr>]) = map rt_state xs"
  by (cases "k < length xs") (auto intro!: nth_equalityI simp: nth_list_update)

lemma trust_inv_step:
  assumes laws: "sync_laws ct cq env" and "sync_step env recv s s'" and inv: "trust_inv ct cq env s"
  shows "trust_inv ct cq env s'"
  using assms(2)
proof cases
  case (Request start end' req)
  let ?s = "s\<lparr>sc_requested := sc_requested s @ [req]\<rparr>"
  have mono: "anchors (sc_requested s) (sc_delivered s) \<subseteq> anchors (sc_requested s @ [req]) (sc_delivered s)" by (intro anchors_mono) auto
  have "trust_inv ct cq env ?s" using inv mono linked_mono [of env "sc_requested s" "sc_delivered s" "sc_requested s @ [req]"]
    unfolding trust_inv_def by auto
  then have "trust_inv ct cq env (trust env (l2_ParentHash (rq_end req)) (trust env (l2_Hash (rq_end req)) ?s))"
    by (intro trust_inv_trust laws) (auto simp: anchors_def)
  then show ?thesis unfolding Request by (simp add: range_begin_def Let_def trust_inv_def trust_def)
next
  case (Iterate start num give_up)
  then show ?thesis using inv trust_inv_tryPromote [OF laws inv]
    by (auto simp: range_iterate_def Let_def trust_inv_def split: option.splits)
next
  case (Result res rs)
  then have "trust_inv ct cq env (s\<lparr>sc_results := rs\<rparr>)" "checked env res" using inv by (auto simp: trust_inv_def)
  then show ?thesis unfolding Result using trust_inv_result [OF laws] by blast
next
  case (Hand k res f)
  then have "checked env res" using inv nth_mem [of k "sc_routines s"] unfolding trust_inv_def by blast
  then show ?thesis unfolding Hand using trust_inv_routine [OF inv _ Hand(2), of Waiting] by (auto simp: trust_inv_def set_routine_def)
next
  case (Pick k num f prs)
  have "trust_inv ct cq env (s\<lparr>sc_peerRequests := prs\<rparr>)" using inv by (simp add: trust_inv_def)
  then show ?thesis unfolding Pick(1) using Pick(2) by (intro trust_inv_routine) simp_all
next
  case (Respond k num f str p)
  then show ?thesis using read_response_ok [OF Respond(4)] by (auto intro!: trust_inv_routine [OF inv] simp: checked_def)
next
  case (Fail k num f)
  then show ?thesis using trust_inv_routine [OF inv _ Fail(2), of Waiting] by (auto simp: trust_inv_def request_failed_def)
next
  case (Give_up k res f)
  then show ?thesis using trust_inv_routine [OF inv _ Give_up(2), of Waiting] by (auto simp: trust_inv_def request_failed_def)
next
  case (Exit k)
  then show ?thesis using trust_inv_routine [OF inv _ Exit(2), of Exited] by (auto simp: trust_inv_def)
next
  case (Remove_peer pid)
  have "\<forall>rt\<in>set ((sc_routines s)[k := (sc_routines s ! k)\<lparr>rt_cancelled := True\<rparr>]). \<forall>res f. rt_state rt = Handing res f \<longrightarrow> checked env res" for k
  proof -
    have "rt_state ` set ((sc_routines s)[k := (sc_routines s ! k)\<lparr>rt_cancelled := True\<rparr>]) = rt_state ` set (sc_routines s)"
      using cancelled_states [of "sc_routines s" k] by (metis set_map)
    then show ?thesis using inv unfolding trust_inv_def by (metis (no_types, lifting) imageE imageI)
  qed
  then show ?thesis using inv unfolding Remove_peer by (auto simp: RemovePeer_def trust_inv_def split: option.splits)
qed (use inv in \<open>auto simp: trust_inv_def AddPeer_def SyncClient_Close_def\<close>)

lemma trust_inv_New:
  "ct trusted = Map.empty \<Longrightarrow> cq quarantine = Map.empty \<Longrightarrow> trust_inv ct cq env (NewSyncClient trusted quarantine receiver)"
  by (simp add: trust_inv_def NewSyncClient_def linked_def)

text \<open>C38: Whatever a client of the sync hands to its receiver, in every interleaving with its peers and whatever they send, is a
  payload whose block hash is that of its header, and this hash is the end of a requested range, the parent of such an end, or
  the parent hash of a payload that the receiver took before: all of it lies on the chain that ends in a requested block.\<close>

theorem sync_delivers_chain:
  assumes "sync_laws ct cq env" "ct trusted = Map.empty" "cq quarantine = Map.empty"
    and "(sync_step env recv)\<^sup>*\<^sup>* (NewSyncClient trusted quarantine receiver) s"
  shows "\<forall>i<length (sc_delivered s). case sc_delivered s ! i of (p, taken) \<Rightarrow>
    snd (CheckBlockHash (sy_gossip env) p) \<and>
    ((\<exists>req\<in>set (sc_requested s). BlockHash p = l2_Hash (rq_end req) \<or> BlockHash p = l2_ParentHash (rq_end req)) \<or>
     (\<exists>j<i. \<exists>q. sc_delivered s ! j = (q, True) \<and> BlockHash p = ep_ParentHash q))"
proof -
  have "trust_inv ct cq env s"
    using assms(4)
  proof (induction rule: rtranclp_induct)
    case base
    show ?case using assms(2,3) by (rule trust_inv_New)
  next
    case (step y z)
    then show ?case using trust_inv_step [OF assms(1)] by blast
  qed
  then have l: "linked env (sc_requested s) (sc_delivered s)" by (simp add: trust_inv_def)
  have before: "\<exists>j<i. D ! j = (q, True)" if "(q, True) \<in> set (take i D)" for q i and D :: "(execution_payload \<times> bool) list"
    using that by (metis (no_types, lifting) in_set_conv_nth length_take min_less_iff_conj nth_take)
  show ?thesis
  proof (intro allI impI)
    fix i assume i: "i < length (sc_delivered s)"
    obtain p taken where p: "sc_delivered s ! i = (p, taken)" by fastforce
    then have "snd (CheckBlockHash (sy_gossip env) p)" "BlockHash p \<in> anchors (sc_requested s) (take i (sc_delivered s))"
      using l i unfolding linked_def by fastforce+
    then show "case sc_delivered s ! i of (p, taken) \<Rightarrow> snd (CheckBlockHash (sy_gossip env) p) \<and>
      ((\<exists>req\<in>set (sc_requested s). BlockHash p = l2_Hash (rq_end req) \<or> BlockHash p = l2_ParentHash (rq_end req)) \<or>
       (\<exists>j<i. \<exists>q. sc_delivered s ! j = (q, True) \<and> BlockHash p = ep_ParentHash q))"
      using before [of _ i "sc_delivered s"] p unfolding anchors_def by auto
  qed
qed

section \<open>Requests in flight\<close>

text \<open>A request that is counted as in flight and not complete is queued, out at a peer, or its result waits.\<close>

definition pending :: "('t, 'q, 's) sync_client \<Rightarrow> u64 \<Rightarrow> nat \<Rightarrow> bool" where
  "pending s num f \<longleftrightarrow>
     (num, f) \<in> set (sc_peerRequests s) \<or>
     (\<exists>x\<in>set (map rt_state (sc_routines s)). x = Requesting num f \<or> (\<exists>res. x = Handing res f \<and> BlockNumber (sr_payload res) = num)) \<or>
     (\<exists>res\<in>set (sc_results s). BlockNumber (sr_payload res) = num)"

definition flight_inv :: "('t, 'q, 's) sync_client \<Rightarrow> bool" where
  "flight_inv s \<longleftrightarrow>
     gomap_ok (sc_inFlight s) \<and>
     (\<forall>num f. map_of (sc_inFlight s) num = Some f \<longrightarrow> f < length (sc_complete s) \<and> (\<not> sc_complete s ! f \<longrightarrow> pending s num f))"

lemma pending_same:
  "set (sc_peerRequests s) \<subseteq> set (sc_peerRequests s') \<Longrightarrow> sc_routines s' = sc_routines s \<Longrightarrow> set (sc_results s) \<subseteq> set (sc_results s') \<Longrightarrow>
   pending s num f \<Longrightarrow> pending s' num f"
  unfolding pending_def by (metis subset_iff)

lemma flight_invI:
  assumes "flight_inv s" "gomap_ok (sc_inFlight s')" "length (sc_complete s) \<le> length (sc_complete s')"
    and "\<And>num f. map_of (sc_inFlight s') num = Some f \<Longrightarrow> map_of (sc_inFlight s) num = Some f"
    and "\<And>f. f < length (sc_complete s) \<Longrightarrow> sc_complete s ! f \<Longrightarrow> sc_complete s' ! f"
    and "\<And>num f. map_of (sc_inFlight s') num = Some f \<Longrightarrow> \<not> sc_complete s' ! f \<Longrightarrow> pending s num f \<Longrightarrow> pending s' num f"
  shows "flight_inv s'"
  using assms unfolding flight_inv_def by (meson less_le_trans)

lemma promote_fields [simp]:
  "sc_inFlight (promote env recv res s) = sc_inFlight s" "sc_complete (promote env recv res s) = sc_complete s"
  "sc_peerRequests (promote env recv res s) = sc_peerRequests s" "sc_routines (promote env recv res s) = sc_routines s"
  by (simp_all add: promote_def Let_def split: prod.splits sum.splits option.splits)

lemma promote_results: "set (sc_results s) \<subseteq> set (sc_results (promote env recv res s))"
  using tryPromote_results(1) by (fastforce simp: promote_def Let_def split: prod.splits sum.splits option.splits)

lemma onResult_fields [simp]:
  "sc_inFlight (onResult env recv res s) = AList.delete (BlockNumber (sr_payload res)) (sc_inFlight s)"
  "sc_complete (onResult env recv res s) = sc_complete s" "sc_peerRequests (onResult env recv res s) = sc_peerRequests s"
  "sc_routines (onResult env recv res s) = sc_routines s"
  by (simp_all add: onResult_def Let_def)

lemma onResult_results: "set (sc_results s) \<subseteq> set (sc_results (onResult env recv res s))"
  using promote_results by (fastforce simp: onResult_def Let_def)

text \<open>A routine that leaves a request behind only because its flag is set or its result is handed on.\<close>

lemma pending_routine:
  assumes "pending s num f" "sc_routines s' = (sc_routines s)[k := rt]" "set (sc_peerRequests s) \<subseteq> set (sc_peerRequests s')"
    and "set (sc_results s) \<subseteq> set (sc_results s')" and k: "k < length (sc_routines s)"
    and moved: "rt_state (sc_routines s ! k) = Requesting num f \<or>
        (\<exists>res. rt_state (sc_routines s ! k) = Handing res f \<and> BlockNumber (sr_payload res) = num) \<Longrightarrow> pending s' num f"
  shows "pending s' num f"
proof -
  consider "(num, f) \<in> set (sc_peerRequests s)" | "\<exists>res\<in>set (sc_results s). BlockNumber (sr_payload res) = num"
    | i where "i < length (sc_routines s)" "rt_state (sc_routines s ! i) = Requesting num f \<or>
        (\<exists>res. rt_state (sc_routines s ! i) = Handing res f \<and> BlockNumber (sr_payload res) = num)"
    using assms(1) unfolding pending_def by (auto simp: in_set_conv_nth)
  then show ?thesis
  proof cases
    case (3 i)
    show ?thesis
    proof (cases "i = k")
      case False
      then have "i < length (sc_routines s')" "sc_routines s' ! i = sc_routines s ! i" using 3(1) assms(2) by simp_all
      then have "rt_state (sc_routines s ! i) \<in> set (map rt_state (sc_routines s'))" by (metis length_map nth_map nth_mem)
      then show ?thesis using 3(2) unfolding pending_def by blast
    qed (use 3 moved in blast)
  qed (use assms(3,4) in \<open>auto simp: pending_def\<close>)
qed

lemma flag_set: "xs ! i \<Longrightarrow> i < length xs \<Longrightarrow> xs[j := True] ! i"
  by (cases "i = j") simp_all

lemma flight_inv_failed:
  assumes "flight_inv s" "k < length (sc_routines s)" "rt_state (sc_routines s ! k) = Requesting num f \<or> rt_state (sc_routines s ! k) = Handing res f"
  shows "flight_inv (request_failed k f s)"
proof (rule flight_invI [OF assms(1)])
  fix num' f' assume "map_of (sc_inFlight (request_failed k f s)) num' = Some f'" "\<not> sc_complete (request_failed k f s) ! f'" "pending s num' f'"
  then have f': "f' < length (sc_complete s)" "f' \<noteq> f"
    using assms(1) by (auto simp: flight_inv_def request_failed_def set_routine_def nth_list_update)
  show "pending (request_failed k f s) num' f'"
    by (rule pending_routine [OF \<open>pending s num' f'\<close>, where k = k])
      (use f' assms(2,3) in \<open>auto simp: request_failed_def set_routine_def\<close>)
qed (use assms(1) flag_set in \<open>auto simp: flight_inv_def request_failed_def set_routine_def\<close>)

lemma routine_state_in:
  assumes "k < length xs"
  shows "x \<in> set (map rt_state (xs[k := (xs ! k)\<lparr>rt_state := x\<rparr>]))"
  using imageI [OF set_update_memI [OF assms, of "(xs ! k)\<lparr>rt_state := x\<rparr>"], of rt_state] by simp

lemma flight_inv_step:
  assumes "sync_step env recv s s'" and inv: "flight_inv s"
  shows "flight_inv s'"
  using assms(1)
proof cases
  case (Request start end' req)
  have look: "map_of (filter (\<lambda>(num, f). \<not> sc_complete s ! f) (sc_inFlight s)) num = Some f \<Longrightarrow> map_of (sc_inFlight s) num = Some f" for num f
    using inv unfolding flight_inv_def by (metis (no_types, lifting) filter_is_subset gomap_ok_filter gomap_ok_def map_of_eq_Some_iff subsetD)
  show ?thesis unfolding Request
    by (rule flight_invI [OF inv]) (use inv look in \<open>auto simp: range_begin_def Let_def flight_inv_def intro: pending_same\<close>)
next
  case (Iterate start num give_up)
  show ?thesis
  proof (cases "num \<le> start \<or> map_of (sc_quarantineByNum s) num \<noteq> None \<or> map_of (sc_inFlight s) num \<noteq> None \<or>
      \<not> (length (sc_peerRequests s) < peerRequests_size \<and> \<not> give_up)")
    case True
    have "set (sc_results s) \<subseteq> set (sc_results s')" unfolding Iterate
      using True tryPromote_results(1) [of s env] by (simp add: range_iterate_def Let_def split: option.splits)
    moreover have "sc_complete s' = sc_complete s \<and> sc_inFlight s' = sc_inFlight s \<and> sc_peerRequests s' = sc_peerRequests s \<and>
        sc_routines s' = sc_routines s"
      unfolding Iterate using True by (simp add: range_iterate_def Let_def split: option.splits) auto
    ultimately show ?thesis using pending_same [of s s'] inv unfolding flight_inv_def by simp
  next
    case False
    let ?f = "length (sc_complete s)"
    have s': "s' = s\<lparr>sc_complete := sc_complete s @ [False], sc_peerRequests := sc_peerRequests s @ [(num, ?f)],
        sc_inFlight := AList.update num ?f (sc_inFlight s), sc_phase := Ranging start (num - 1)\<rparr>"
      using False unfolding Iterate by (auto simp: range_iterate_def Let_def)
    have "pending s' num' f" if "pending s num' f" for num' f
      by (rule pending_same [OF _ _ _ that]) (auto simp: s')
    moreover have "pending s' num ?f" by (simp add: s' pending_def)
    ultimately show ?thesis using inv by (auto simp: flight_inv_def s' nth_append less_Suc_eq split: if_splits)
  qed
next
  case (Result res rs)
  let ?s = "s\<lparr>sc_results := rs\<rparr>"
  have "pending (onResult env recv res ?s) num f" if "num \<noteq> BlockNumber (sr_payload res)" "pending s num f" for num f
    using that Result(3) onResult_results [of ?s env recv res] unfolding pending_def by auto
  then show ?thesis using inv unfolding Result flight_inv_def by (auto split: if_splits)
next
  case (Pick k num f prs)
  show ?thesis unfolding Pick(1)
  proof (rule flight_invI [OF inv])
    fix num' f' assume p: "pending s num' f'"
    have "pending (s\<lparr>sc_peerRequests := prs\<rparr>) num' f' \<or> (num', f') = (num, f)" using p Pick(4) by (auto simp: pending_def)
    then show "pending (set_routine k (Requesting num f) (s\<lparr>sc_peerRequests := prs\<rparr>)) num' f'"
    proof
      assume "pending (s\<lparr>sc_peerRequests := prs\<rparr>) num' f'"
      then show ?thesis by (rule pending_routine [where k = k]) (use Pick in \<open>simp_all add: set_routine_def\<close>)
    next
      assume "(num', f') = (num, f)"
      moreover note routine_state_in [OF Pick(2), of "Requesting num f"]
      ultimately show ?thesis unfolding pending_def by (auto simp: set_routine_def)
    qed
  qed (use inv in \<open>simp_all add: flight_inv_def set_routine_def\<close>)
next
  case (Fail k num f)
  then show ?thesis using flight_inv_failed [OF inv] by blast
next
  case (Give_up k res f)
  then show ?thesis using flight_inv_failed [OF inv] by blast
next
  case (Respond k num f str p)
  let ?res = "\<lparr>sr_payload = p, sr_peer = rt_peer (sc_routines s ! k)\<rparr>"
  show ?thesis unfolding Respond(1)
  proof (rule flight_invI [OF inv])
    fix num' f' assume "pending s num' f'"
    then show "pending (set_routine k (Handing ?res f) s) num' f'"
    proof (rule pending_routine [where k = k])
      assume "rt_state (sc_routines s ! k) = Requesting num' f' \<or>
        (\<exists>res. rt_state (sc_routines s ! k) = Handing res f' \<and> BlockNumber (sr_payload res) = num')"
      then have "num' = num" "f' = f" using Respond(3) by auto
      moreover note routine_state_in [OF Respond(2), of "Handing ?res f"]
      moreover have "BlockNumber p = num" using read_response_ok [OF Respond(4)] by blast
      ultimately show "pending (set_routine k (Handing ?res f) s) num' f'" unfolding pending_def set_routine_fields
        by (intro disjI2 disjI1 bexI [of _ "Handing ?res f"]) simp_all
    qed (use Respond in \<open>simp_all add: set_routine_def\<close>)
  qed (use inv in \<open>simp_all add: flight_inv_def set_routine_def\<close>)
next
  case (Hand k res f)
  show ?thesis unfolding Hand(1)
  proof (rule flight_invI [OF inv])
    fix num' f' assume "pending s num' f'"
    then show "pending ((set_routine k Waiting s)\<lparr>sc_results := sc_results s @ [res],
        sc_scores := sc_scores s @ [ValidResponse (rt_peer (sc_routines s ! k))]\<rparr>) num' f'"
      by (rule pending_routine [where k = k]) (use Hand in \<open>auto simp: set_routine_def pending_def\<close>)
  qed (use inv in \<open>simp_all add: flight_inv_def set_routine_def\<close>)
next
  case (Exit k)
  show ?thesis unfolding Exit(1)
  proof (rule flight_invI [OF inv])
    fix num' f' assume "pending s num' f'"
    then show "pending ((set_routine k Exited s)\<lparr>sc_peers := AList.delete (rt_peer (sc_routines s ! k)) (sc_peers s)\<rparr>) num' f'"
      by (rule pending_routine [where k = k]) (use Exit in \<open>auto simp: set_routine_def\<close>)
  qed (use inv in \<open>simp_all add: flight_inv_def set_routine_def\<close>)
next
  case (Remove_peer pid)
  show ?thesis unfolding Remove_peer
    by (rule flight_invI [OF inv])
      (use inv in \<open>auto simp: RemovePeer_def flight_inv_def pending_def cancelled_states simp del: set_map split: option.splits\<close>)
qed (rule flight_invI [OF inv], use inv in \<open>auto simp: AddPeer_def SyncClient_Close_def flight_inv_def pending_def split: if_splits\<close>)+

text \<open>C39: No request of the sync gets lost. In every interleaving, a block that the client counts as in flight (so that it does not
  request it again) is in the queue of requests, is being fetched by a goroutine of a peer, or has its result waiting, whatever peers
  come, fail, send or go.\<close>

theorem sync_in_flight_pending:
  assumes "(sync_step env recv)\<^sup>*\<^sup>* (NewSyncClient trusted quarantine receiver) s" "isInFlight num s"
  shows "\<exists>f. map_of (sc_inFlight s) num = Some f \<and> pending s num f"
proof -
  have "flight_inv s"
    using assms(1)
  proof (induction rule: rtranclp_induct)
    case base
    show ?case by (simp add: flight_inv_def NewSyncClient_def)
  next
    case (step y z)
    then show ?case using flight_inv_step by blast
  qed
  then show ?thesis using assms(2) unfolding flight_inv_def isInFlight_def by (auto split: option.splits)
qed

section \<open>A run\<close>

text \<open>Caches without a bound, the environment over them, and a receiver that takes every payload.\<close>

definition ex_lru :: "('k, 'v, 'k \<rightharpoonup> 'v) lru" where
  "ex_lru = \<lparr>l_Add = (\<lambda>k v c. (c(k \<mapsto> v), None)), l_Get = (\<lambda>k c. (c, c k)), l_Contains = (\<lambda>k c. c k \<noteq> None),
     l_Remove = (\<lambda>k c. (c(k := None), map_option (Pair k) (c k)))\<rparr>"

definition ex_sync :: "(u64 \<rightharpoonup> nat, hash \<rightharpoonup> unit, hash \<rightharpoonup> sync_result) sync_env" where
  "ex_sync = \<lparr>sy_gossip = ex_gossip, sy_unframe = (\<lambda>b. (b, None)), sy_trusted = ex_lru, sy_quarantine = ex_lru\<rparr>"

definition ex_take :: "peer_id \<Rightarrow> execution_payload \<Rightarrow> nat \<Rightarrow> nat \<times> unit result" where
  "ex_take peer p n = (Suc n, Inr ())"

lemma ex_sync_laws: "sync_laws (\<lambda>c. c) (\<lambda>c. c) ex_sync"
  by (simp add: sync_laws_def lru_sound_def ex_sync_def ex_lru_def map_le_def)

text \<open>The range from block 5 to block 7, the parent of which is the example payload, number 6.\<close>

definition ex_range_end :: l2_block_ref where
  "ex_range_end = zero_l2_ref\<lparr>l2_Hash := replicate 32 12, l2_Number := 7, l2_ParentHash := replicate 32 11\<rparr>"

definition ex_requested :: "(hash \<rightharpoonup> unit, hash \<rightharpoonup> sync_result, nat) sync_client" where
  "ex_requested = range_iterate ex_sync False 5 6 (range_begin ex_sync \<lparr>rq_start = 5, rq_end = ex_range_end\<rparr> (NewSyncClient Map.empty Map.empty 0))"

lemma ex_requested_fields:
  "sc_phase ex_requested = Ranging 5 5" "sc_inFlight ex_requested = [(6, 0)]" "sc_complete ex_requested = [False]"
  "sc_peerRequests ex_requested = [(6, 0)]" "sc_routines ex_requested = []" "sc_results ex_requested = []" "sc_peers ex_requested = []"
  "sc_closingPeers ex_requested = False" "sc_delivered ex_requested = []" "sc_quarantineByNum ex_requested = []"
  "sc_trusted ex_requested = [replicate 32 12 \<mapsto> (), replicate 32 11 \<mapsto> ()]" "sc_quarantine ex_requested = Map.empty"
  "sc_requested ex_requested = [\<lparr>rq_start = 5, rq_end = ex_range_end\<rparr>]"
  by (simp_all add: ex_requested_def range_begin_def range_iterate_def NewSyncClient_def trust_def ex_sync_def ex_lru_def ex_range_end_def
      peerRequests_size_def Let_def del: replicate.simps)

lemma ex_requested_run: "(sync_step ex_sync recv)\<^sup>*\<^sup>* (NewSyncClient Map.empty Map.empty 0) ex_requested"
proof (rule converse_rtranclp_into_rtranclp)
  let ?begun = "range_begin ex_sync \<lparr>rq_start = 5, rq_end = ex_range_end\<rparr> (NewSyncClient Map.empty Map.empty 0)"
  have "RequestL2Range (zero_l2_ref\<lparr>l2_Number := 5\<rparr>) ex_range_end = Some \<lparr>rq_start = 5, rq_end = ex_range_end\<rparr>"
    by (simp add: RequestL2Range_def ex_range_end_def zero_l2_ref_def)
  then show "sync_step ex_sync recv (NewSyncClient Map.empty Map.empty 0) ?begun"
    by (rule sync_step.Request [rotated]) (simp add: NewSyncClient_def)
  have "sync_step ex_sync recv ?begun ex_requested"
    unfolding ex_requested_def by (rule sync_step.Iterate) (simp add: range_begin_def ex_range_end_def Let_def)
  then show "(sync_step ex_sync recv)\<^sup>*\<^sup>* ?begun ex_requested" ..
qed

theorem sync_in_flight_pending_witness:
  "isInFlight 6 ex_requested \<and> (\<exists>f. map_of (sc_inFlight ex_requested) 6 = Some f \<and> pending ex_requested 6 f)"
proof -
  have flight: "isInFlight 6 ex_requested" by (simp add: isInFlight_def ex_requested_fields)
  show ?thesis using flight sync_in_flight_pending [OF ex_requested_run [of ex_take] flight] by blast
qed

text \<open>The rest of the range is skipped, a peer comes, takes the request and answers it, and the main loop takes the result.\<close>

definition ex_result :: sync_result where
  "ex_result = \<lparr>sr_payload = ex_ssz_payload, sr_peer = [1]\<rparr>"

definition ex_answered :: "(hash \<rightharpoonup> unit, hash \<rightharpoonup> sync_result, nat) sync_client" where
  "ex_answered = set_routine 0 (Handing ex_result 0) (set_routine 0 (Requesting 6 0)
     ((AddPeer [1] (range_iterate ex_sync False 5 5 ex_requested))\<lparr>sc_peerRequests := []\<rparr>))"

definition ex_handed :: "(hash \<rightharpoonup> unit, hash \<rightharpoonup> sync_result, nat) sync_client" where
  "ex_handed = (set_routine 0 Waiting ex_answered)\<lparr>sc_results := [ex_result], sc_scores := sc_scores ex_answered @ [ValidResponse [1]]\<rparr>"

lemma ex_response:
  "read_response ex_sync ([0] @ put_le32 0 @ ssz_bytes ex_ssz_payload) 6 = Inr ex_ssz_payload"
proof -
  have len: "length (ssz_bytes ex_ssz_payload) = 524" by (simp add: ex_ssz_payload_def ssz_bytes_def ssz_fixed_def fixed_fields_def)
  have "UnmarshalSSZ 524 (ssz_bytes ex_ssz_payload) = Inr ex_ssz_payload"
    using UnmarshalSSZ_back [OF ex_ssz_payload_ok, of "[]"] len by simp
  moreover have "BlockHash ex_ssz_payload = replicate 32 11" "BlockNumber ex_ssz_payload = 6"
    by (simp_all add: ex_ssz_payload_def del: replicate.simps)
  ultimately show ?thesis
    by (simp add: read_response_def read_full_def maxGossipSize_def len Let_def ex_sync_def on_error_def verifyBlock_def CheckBlockHash_def ex_gossip_def
        del: replicate.simps)
qed

lemma ex_answered_fields:
  "sc_phase ex_answered = Selecting" "sc_routines ex_answered = [\<lparr>rt_peer = [1], rt_cancelled = False, rt_state = Handing ex_result 0\<rparr>]"
  "sc_results ex_answered = []"
  by (simp_all add: ex_answered_def range_iterate_def AddPeer_def set_routine_def ex_requested_fields)

lemma ex_handed_run: "(sync_step ex_sync recv)\<^sup>*\<^sup>* ex_requested ex_handed"
proof -
  let ?R = "sync_step ex_sync recv"
  define s1 where "s1 = range_iterate ex_sync False 5 5 ex_requested"
  define s2 where "s2 = AddPeer [1] s1"
  define s3 where "s3 = set_routine 0 (Requesting 6 0) (s2\<lparr>sc_peerRequests := []\<rparr>)"
  have "?R ex_requested s1" unfolding s1_def by (rule sync_step.Iterate) (simp add: ex_requested_fields)
  moreover have "?R s1 s2" unfolding s2_def by (rule sync_step.Add_peer)
  moreover have "?R s2 s3" unfolding s3_def
    by (rule sync_step.Pick) (simp_all add: s2_def s1_def range_iterate_def AddPeer_def ex_requested_fields)
  moreover have "?R s3 ex_answered"
  proof -
    have rt: "sc_routines s3 = [\<lparr>rt_peer = [1], rt_cancelled = False, rt_state = Requesting 6 0\<rparr>]"
      by (simp add: s3_def s2_def s1_def range_iterate_def AddPeer_def ex_requested_fields)
    have "ex_answered = set_routine 0 (Handing \<lparr>sr_payload = ex_ssz_payload, sr_peer = rt_peer (sc_routines s3 ! 0)\<rparr> 0) s3"
      unfolding rt by (simp add: ex_answered_def s3_def s2_def s1_def ex_result_def)
    moreover have "?R s3 \<dots>" by (rule sync_step.Respond [OF _ _ ex_response]) (simp_all add: rt)
    ultimately show ?thesis by simp
  qed
  moreover have "?R ex_answered ex_handed"
    using sync_step.Hand [of 0 ex_answered ex_result 0 ex_sync recv] by (simp add: ex_answered_fields ex_handed_def results_size_def)
  ultimately show ?thesis by (meson converse_rtranclp_into_rtranclp rtranclp.rtrancl_refl)
qed

definition ex_delivered :: "(hash \<rightharpoonup> unit, hash \<rightharpoonup> sync_result, nat) sync_client" where
  "ex_delivered = onResult ex_sync ex_take ex_result (ex_handed\<lparr>sc_results := []\<rparr>)"

lemma ex_delivered_run: "(sync_step ex_sync ex_take)\<^sup>*\<^sup>* (NewSyncClient Map.empty Map.empty 0) ex_delivered"
proof -
  have "sync_step ex_sync ex_take ex_handed ex_delivered"
    unfolding ex_delivered_def by (rule sync_step.Result) (simp_all add: ex_handed_def set_routine_def ex_answered_fields)
  then show ?thesis using ex_requested_run [of ex_take] ex_handed_run [of ex_take] by simp
qed

lemma ex_delivered_payload: "sc_delivered ex_delivered = [(ex_ssz_payload, True)]"
proof -
  have trusted: "sc_trusted ex_handed = [replicate 32 12 \<mapsto> (), replicate 32 11 \<mapsto> ()]" "sc_delivered ex_handed = []"
    by (simp_all add: ex_handed_def ex_answered_def set_routine_def AddPeer_def range_iterate_def ex_requested_fields del: replicate.simps)
  have hash: "BlockHash ex_ssz_payload = replicate 32 11" by (simp add: ex_ssz_payload_def del: replicate.simps)
  show ?thesis
    by (simp add: ex_delivered_def onResult_def promote_def ex_result_def ex_take_def Let_def hash trusted ex_sync_def ex_lru_def
        del: replicate.simps split: option.splits)
qed

theorem sync_delivers_chain_witness:
  "sc_delivered ex_delivered = [(ex_ssz_payload, True)] \<and> snd (CheckBlockHash (sy_gossip ex_sync) ex_ssz_payload) \<and>
   (\<exists>req\<in>set (sc_requested ex_delivered).
     BlockHash ex_ssz_payload = l2_Hash (rq_end req) \<or> BlockHash ex_ssz_payload = l2_ParentHash (rq_end req))"
  using ex_delivered_payload sync_delivers_chain [OF ex_sync_laws refl refl ex_delivered_run] by simp

end
