(* ===== verification/Sync_Server.thy ===== *)
theory Sync_Server
  imports Sync_Client
begin

text \<open>
  The server of the request/response sync, \<open>ReqRespServer\<close> in \<open>op-node/p2p/sync.go\<close>, and how it fits the client. Requests are
  served one after the other: a request that waits for a mutex that nobody will unlock does not return (\<open>None\<close>). How the waits
  for the rate limits end, the reads and the writes of a stream are part of the request; the writer of framed Snappy streams is a parameter.
\<close>

section \<open>The server\<close>

text \<open>\<open>sv_Write\<close> and \<open>sv_Close\<close> are what the buffered writer passes on when the payload is written and when it is closed.\<close>

record 'r server_env =
  sv_cfg :: config
  sv_PayloadByNumber :: "u64 \<Rightarrow> execution_payload result"
  sv_limits :: "(peer_id, unit, 'r) lru"
  sv_Write :: "bytes \<Rightarrow> bytes"
  sv_Close :: "bytes \<Rightarrow> bytes"

record 'r sync_server =
  ss_peerRateLimits :: 'r
  ss_peerStatsLock :: bool

text \<open>\<open>sq_Write\<close> takes what the stream has carried so far and what is written to it.\<close>

record sync_request =
  sq_peer :: peer_id
  sq_globalWait :: "error option"
  sq_peerWait :: "error option"
  sq_now :: u64
  sq_input :: bytes
  sq_CloseRead :: "error option"
  sq_Write :: "bytes \<Rightarrow> bytes \<Rightarrow> bytes \<times> error option"

definition NewReqRespServer :: "'r \<Rightarrow> 'r sync_server" where
  "NewReqRespServer limits = \<lparr>ss_peerRateLimits = limits, ss_peerStatsLock = False\<rparr>"

definition invalidRequestErr :: error where "invalidRequestErr = Errorf ''invalid request''"

text \<open>The part of \<open>handleSyncRequest\<close> between the lock of the peer statistics and its unlock.\<close>

definition peer_limit :: "'r server_env \<Rightarrow> sync_request \<Rightarrow> 'r sync_server \<Rightarrow> 'r sync_server \<times> unit result" where
  "peer_limit env q srv =
     (let srv = srv\<lparr>ss_peerStatsLock := True\<rparr>
      in case l_Get (sv_limits env) (sq_peer q) (ss_peerRateLimits srv) of
           (c, None) \<Rightarrow> (srv\<lparr>ss_peerRateLimits := fst (l_Add (sv_limits env) (sq_peer q) () c), ss_peerStatsLock := False\<rparr>, Inr ())
         | (c, Some _) \<Rightarrow>
             (case sq_peerWait q of
                Some err \<Rightarrow> (srv\<lparr>ss_peerRateLimits := c\<rparr>, Inl (Wrap ''timed out waiting for global sync rate limit'' err))
              | None \<Rightarrow> (srv\<lparr>ss_peerRateLimits := c, ss_peerStatsLock := False\<rparr>, Inr ())))"

definition check_request :: "config \<Rightarrow> u64 \<Rightarrow> u64 \<Rightarrow> unit result" where
  "check_request cfg now req =
     (if req < Number (gen_L2 (Genesis cfg)) then Inl (Wrap ''cannot serve request for L2 block before genesis'' invalidRequestErr)
      else rbind (on_error (\<lambda>_. Wrap ''cannot determine max target block number to verify request'' invalidRequestErr) (TargetBlockNumber cfg now))
        (\<lambda>bound. if req > bound then Inl (Wrap ''cannot serve request for L2 block after max expected block'' invalidRequestErr) else Inr ()))"

definition write_response :: "'r server_env \<Rightarrow> bytes \<Rightarrow> sync_request \<Rightarrow> execution_payload \<Rightarrow> bytes \<times> unit result" where
  "write_response env pool q payload =
     (case sq_Write q [] (replicate 5 0) of
        (out, Some err) \<Rightarrow> (out, Inl (Wrap ''failed to write response header data'' err))
      | (out, None) \<Rightarrow>
          (case on_error (Wrap ''failed to write payload to sync response'') (MarshalSSZ pool payload) of
             Inl err \<Rightarrow> (out, Inl err)
           | Inr buf \<Rightarrow>
               (case sq_Write q out (sv_Write env buf) of
                  (out, Some err) \<Rightarrow> (out, Inl (Wrap ''failed to write payload to sync response'' err))
                | (out, None) \<Rightarrow>
                    (case sq_Write q out (sv_Close env buf) of
                       (out, Some err) \<Rightarrow> (out, Inl (Wrap ''failed to finishing writing payload to sync response'' err))
                     | (out, None) \<Rightarrow> (out, Inr ())))))"

text \<open>The rest of \<open>handleSyncRequest\<close>, with what it has written.\<close>

definition serve_request :: "'r server_env \<Rightarrow> bytes \<Rightarrow> sync_request \<Rightarrow> bytes \<times> unit result" where
  "serve_request env pool q =
     (case read_full 8 (sq_input q) of
        Inl err \<Rightarrow> ([], Inl (Wrap ''failed to read requested block number'' err))
      | Inr (bs, _) \<Rightarrow>
          let req = get_le64 bs
          in case sq_CloseRead q of
               Some err \<Rightarrow> ([], Inl (Wrap ''failed to close reading-side of a P2P sync request call'' err))
             | None \<Rightarrow>
                 (case check_request (sv_cfg env) (sq_now q) req of
                    Inl err \<Rightarrow> ([], Inl err)
                  | Inr _ \<Rightarrow>
                      (case sv_PayloadByNumber env req of
                         Inl err \<Rightarrow> ([], Inl (if errors_Is err NotFound then Wrap ''peer requested unknown block by number'' err
                                          else Wrap ''failed to retrieve payload to serve to peer'' err))
                       | Inr payload \<Rightarrow> write_response env pool q payload)))"

definition handleSyncRequest :: "'r server_env \<Rightarrow> bytes \<Rightarrow> sync_request \<Rightarrow> 'r sync_server \<Rightarrow> ('r sync_server \<times> bytes \<times> unit result) option" where
  "handleSyncRequest env pool q srv =
     (case sq_globalWait q of
        Some err \<Rightarrow> Some (srv, [], Inl (Wrap ''timed out waiting for global sync rate limit'' err))
      | None \<Rightarrow>
          if ss_peerStatsLock srv then None
          else case peer_limit env q srv of
                 (srv, Inl err) \<Rightarrow> Some (srv, [], Inl err)
               | (srv, Inr _) \<Rightarrow> Some (srv, serve_request env pool q))"

definition resultCode :: "error \<Rightarrow> byte" where
  "resultCode err = (if errors_Is err NotFound then 1 else if errors_Is err invalidRequestErr then 2 else 3)"

definition HandleSyncRequest :: "'r server_env \<Rightarrow> bytes \<Rightarrow> sync_request \<Rightarrow> 'r sync_server \<Rightarrow> ('r sync_server \<times> bytes) result option" where
  "HandleSyncRequest env pool q srv =
     (case handleSyncRequest env pool q srv of
        None \<Rightarrow> None
      | Some (srv, out, Inr _) \<Rightarrow> Some (Inr (srv, out))
      | Some (srv, out, Inl err) \<Rightarrow> Some (if is_panic err then Inl err else Inr (srv, fst (sq_Write q out [resultCode err]))))"

section \<open>The server and the client\<close>

text \<open>The request that the client writes, on a stream without faults.\<close>

definition client_request :: "peer_id \<Rightarrow> u64 \<Rightarrow> u64 \<Rightarrow> sync_request" where
  "client_request peer now n =
     \<lparr>sq_peer = peer, sq_globalWait = None, sq_peerWait = None, sq_now = now, sq_input = put_le64 n, sq_CloseRead = None,
      sq_Write = (\<lambda>out b. (out @ b, None))\<rparr>"

text \<open>What the client is to get.\<close>

definition response_spec :: "'r server_env \<Rightarrow> u64 \<Rightarrow> u64 \<Rightarrow> execution_payload result" where
  "response_spec env now n =
     (case TargetBlockNumber (sv_cfg env) now of
        Inl _ \<Rightarrow> Inl (requestResultErr 2)
      | Inr bound \<Rightarrow>
          if n < Number (gen_L2 (Genesis (sv_cfg env))) \<or> n > bound then Inl (requestResultErr 2)
          else case sv_PayloadByNumber env n of Inl err \<Rightarrow> Inl (requestResultErr (resultCode err)) | Inr p \<Rightarrow> Inr p)"

lemma resultCode_Wrap [simp]: "resultCode (Wrap m err) = resultCode err"
  by (simp add: resultCode_def invalidRequestErr_def)

lemma resultCode_invalid [simp]: "resultCode invalidRequestErr = 2"
  by (simp add: resultCode_def invalidRequestErr_def)

lemma resultCode_nonzero [simp]: "resultCode err \<noteq> 0"
  by (simp add: resultCode_def)

lemma read_code: "c \<noteq> 0 \<Longrightarrow> read_response cenv [c] n = Inl (requestResultErr c)"
  by (simp add: read_response_def maxGossipSize_def read_full_def on_error_def)

lemma read_payload:
  assumes "sy_unframe cenv frames = (ssz_bytes p, None)" "payload_ok p" "BlockNumber p = n" "snd (CheckBlockHash (sy_gossip cenv) p)"
    and "5 + length frames \<le> maxGossipSize" "length (ssz_bytes p) \<le> maxGossipSize"
  shows "read_response cenv (replicate 5 0 @ frames) n = Inr p"
proof -
  have "take maxGossipSize (replicate 5 0 @ frames) = [0] @ replicate 4 0 @ frames" using assms(5) by (simp add: eval_nat_numeral)
  moreover have "get_le32 (replicate 4 0) = 0" by code_simp
  ultimately show ?thesis
    using assms UnmarshalSSZ_back [OF assms(2), of "[]"]
    by (simp add: read_response_def Let_def on_error_def verifyBlock_def del: replicate.simps append_Cons)
qed

lemma peer_limit_served:
  assumes "sq_peerWait q = None"
  shows "\<exists>srv'. peer_limit env q srv = (srv', Inr ()) \<and> \<not> ss_peerStatsLock srv'"
  using assms by (auto simp: peer_limit_def Let_def split: prod.splits option.splits)

lemma check_request_cases:
  assumes "BlockTime cfg \<noteq> 0"
  shows "check_request cfg now n =
    (case TargetBlockNumber cfg now of
       Inl _ \<Rightarrow> if n < Number (gen_L2 (Genesis cfg)) then Inl (Wrap ''cannot serve request for L2 block before genesis'' invalidRequestErr)
                else Inl (Wrap ''cannot determine max target block number to verify request'' invalidRequestErr)
     | Inr bound \<Rightarrow>
         if n < Number (gen_L2 (Genesis cfg)) then Inl (Wrap ''cannot serve request for L2 block before genesis'' invalidRequestErr)
         else if n > bound then Inl (Wrap ''cannot serve request for L2 block after max expected block'' invalidRequestErr) else Inr ())"
  using assms by (auto simp: check_request_def on_error_def TargetBlockNumber_def Let_def split: sum.splits)

lemma serve_request_response:
  assumes "BlockTime (sv_cfg env) \<noteq> 0" "length pool < 2 ^ 32"
    and framed: "\<forall>b. sy_unframe cenv (sv_Write env b @ sv_Close env b) = (b, None)"
    and served: "\<forall>p. sv_PayloadByNumber env n = Inr p \<longrightarrow> payload_ok p \<and> BlockNumber p = n \<and> snd (CheckBlockHash (sy_gossip cenv) p) \<and>
        length (ssz_bytes p) \<le> maxGossipSize \<and> 5 + length (sv_Write env (ssz_bytes p) @ sv_Close env (ssz_bytes p)) \<le> maxGossipSize"
  shows "\<exists>out r. serve_request env pool (client_request peer now n) = (out, r) \<and>
    (case r of Inl e \<Rightarrow> \<not> is_panic e \<and> read_response cenv (out @ [resultCode e]) n = response_spec env now n
             | Inr _ \<Rightarrow> read_response cenv out n = response_spec env now n)"
proof (cases "check_request (sv_cfg env) now n")
  case (Inl e)
  then have "resultCode e = 2" "\<not> is_panic e" "response_spec env now n = Inl (requestResultErr 2)"
    by (auto simp: check_request_cases [OF assms(1)] response_spec_def split: sum.splits if_splits)
  then show ?thesis using Inl by (simp add: serve_request_def client_request_def read_code)
next
  case (Inr u)
  then have spec: "response_spec env now n =
      (case sv_PayloadByNumber env n of Inl err \<Rightarrow> Inl (requestResultErr (resultCode err)) | Inr p \<Rightarrow> Inr p)"
    by (auto simp: check_request_cases [OF assms(1)] response_spec_def split: sum.splits if_splits)
  show ?thesis
  proof (cases "sv_PayloadByNumber env n")
    case (Inl e)
    then show ?thesis using Inr spec by (simp add: serve_request_def client_request_def read_code)
  next
    case p: (Inr p)
    note ok = served [rule_format, OF p]
    let ?frames = "sv_Write env (ssz_bytes p) @ sv_Close env (ssz_bytes p)"
    have "serve_request env pool (client_request peer now n) = (replicate 5 0 @ ?frames, Inr ())"
      using Inr p MarshalSSZ_bytes [OF _ assms(2)] ok by (simp add: serve_request_def client_request_def write_response_def del: replicate.simps)
    moreover have "read_response cenv (replicate 5 0 @ ?frames) n = Inr p"
      using ok framed by (intro read_payload) simp_all
    ultimately show ?thesis using spec p by simp
  qed
qed

text \<open>C33: Client and server of the sync fit together. A server that is not stuck answers the request of a client for a block, and the
  client reads from the answer exactly what the server has: the payload, when the number is within the range that can exist by now and the
  engine knows it, and otherwise the error code of an unknown block, of an invalid request or of another failure.\<close>

theorem sync_request_served:
  assumes "BlockTime (sv_cfg env) \<noteq> 0" "length pool < 2 ^ 32" "\<not> ss_peerStatsLock srv"
    and "\<forall>b. sy_unframe cenv (sv_Write env b @ sv_Close env b) = (b, None)"
    and "\<forall>p. sv_PayloadByNumber env n = Inr p \<longrightarrow> payload_ok p \<and> BlockNumber p = n \<and> snd (CheckBlockHash (sy_gossip cenv) p) \<and>
        length (ssz_bytes p) \<le> maxGossipSize \<and> 5 + length (sv_Write env (ssz_bytes p) @ sv_Close env (ssz_bytes p)) \<le> maxGossipSize"
  shows "\<exists>srv' out. HandleSyncRequest env pool (client_request peer now n) srv = Some (Inr (srv', out)) \<and> \<not> ss_peerStatsLock srv' \<and>
    read_response cenv out n = response_spec env now n"
proof -
  let ?q = "client_request peer now n"
  obtain out r where run: "serve_request env pool ?q = (out, r)"
    and read: "case r of Inl e \<Rightarrow> \<not> is_panic e \<and> read_response cenv (out @ [resultCode e]) n = response_spec env now n
      | Inr _ \<Rightarrow> read_response cenv out n = response_spec env now n"
    using serve_request_response [OF assms(1,2,4,5)] by blast
  obtain srv' where "peer_limit env ?q srv = (srv', Inr ())" "\<not> ss_peerStatsLock srv'"
    using peer_limit_served [of ?q env srv] by (auto simp: client_request_def)
  then have "handleSyncRequest env pool ?q srv = Some (srv', out, r)" "\<not> ss_peerStatsLock srv'"
    using assms(3) run by (simp_all add: handleSyncRequest_def) (simp_all add: client_request_def)
  then show ?thesis using read by (cases r) (simp_all add: HandleSyncRequest_def client_request_def)
qed

section \<open>A wait that fails\<close>

text \<open>C34: When the wait for the limit of a known peer fails, the mutex of the peer statistics stays locked. From then on no request of
  any peer is served: it does not return, or it fails at the global limit, and either way the mutex stays locked.\<close>

theorem failed_wait_blocks_server:
  assumes "\<not> ss_peerStatsLock srv" "sq_globalWait q = None" "sq_peerWait q = Some err"
    and "snd (l_Get (sv_limits env) (sq_peer q) (ss_peerRateLimits srv)) \<noteq> None"
  shows "\<exists>srv' out. HandleSyncRequest env pool q srv = Some (Inr (srv', out)) \<and>
    (\<forall>env' pool' q'. HandleSyncRequest env' pool' q' srv' =
       (case sq_globalWait q' of
          None \<Rightarrow> None
        | Some err \<Rightarrow> Some (Inr (srv', fst (sq_Write q' [] [resultCode err])))))"
proof -
  obtain c x where get: "l_Get (sv_limits env) (sq_peer q) (ss_peerRateLimits srv) = (c, Some x)"
    using assms(4) by (cases "l_Get (sv_limits env) (sq_peer q) (ss_peerRateLimits srv)") auto
  let ?srv = "srv\<lparr>ss_peerStatsLock := True, ss_peerRateLimits := c\<rparr>"
  have "HandleSyncRequest env pool q srv = Some (Inr (?srv, fst (sq_Write q [] [resultCode err])))"
    using assms(1-3) get by (simp add: HandleSyncRequest_def handleSyncRequest_def peer_limit_def Let_def)
  moreover have "HandleSyncRequest env' pool' q' ?srv =
      (case sq_globalWait q' of None \<Rightarrow> None | Some err \<Rightarrow> Some (Inr (?srv, fst (sq_Write q' [] [resultCode err]))))" for env' :: "'a server_env" and pool' q'
    by (simp add: HandleSyncRequest_def handleSyncRequest_def split: option.splits)
  ultimately show ?thesis by blast
qed

section \<open>A server\<close>

definition ex_served_payload :: execution_payload where
  "ex_served_payload = ex_ssz_payload\<lparr>BlockNumber := 51\<rparr>"

definition ex_server :: "(peer_id \<rightharpoonup> unit) server_env" where
  "ex_server = \<lparr>sv_cfg = example_cfg, sv_PayloadByNumber = (\<lambda>n. if n = 51 then Inr ex_served_payload else Inl NotFound), sv_limits = ex_lru,
     sv_Write = (\<lambda>b. take 500 b), sv_Close = (\<lambda>b. drop 500 b)\<rparr>"

lemma ex_served_payload_ok:
  "payload_ok ex_served_payload" "BlockNumber ex_served_payload = 51" "BlockHash ex_served_payload = replicate 32 11"
  "length (ssz_bytes ex_served_payload) = 524"
  by (simp_all add: payload_ok_def ex_served_payload_def ex_ssz_payload_def ssz_bytes_def ssz_fixed_def fixed_fields_def)

theorem sync_request_served_witness:
  "\<exists>srv' out. HandleSyncRequest ex_server [] (client_request [1] 1007 51) (NewReqRespServer Map.empty) = Some (Inr (srv', out)) \<and>
     \<not> ss_peerStatsLock srv' \<and> read_response ex_sync out 51 = Inr ex_served_payload"
proof -
  have "response_spec ex_server 1007 51 = Inr ex_served_payload"
    by (simp add: response_spec_def ex_server_def TargetBlockNumber_def example_cfg_def)
  moreover have "\<exists>srv' out. HandleSyncRequest ex_server [] (client_request [1] 1007 51) (NewReqRespServer Map.empty) = Some (Inr (srv', out)) \<and>
     \<not> ss_peerStatsLock srv' \<and> read_response ex_sync out 51 = response_spec ex_server 1007 51"
    by (rule sync_request_served)
      (simp_all add: ex_server_def ex_sync_def NewReqRespServer_def ex_served_payload_ok maxGossipSize_def CheckBlockHash_def ex_gossip_def
        del: replicate.simps)
  ultimately show ?thesis by simp
qed

text \<open>The second request of a peer runs into the time limit.\<close>

theorem failed_wait_blocks_server_witness:
  "\<exists>srv srv' out. HandleSyncRequest ex_server [] (client_request [1] 1007 51) (NewReqRespServer Map.empty) = Some (Inr srv) \<and>
     HandleSyncRequest ex_server [] ((client_request [1] 1007 51)\<lparr>sq_peerWait := Some (Errorf ''context deadline exceeded'')\<rparr>) (fst srv) =
       Some (Inr (srv', out)) \<and>
     HandleSyncRequest ex_server [] (client_request [2] 1007 51) srv' = None"
proof -
  let ?q = "(client_request [1] 1007 51)\<lparr>sq_peerWait := Some (Errorf ''context deadline exceeded'')\<rparr>"
  define srv :: "(peer_id \<rightharpoonup> unit) sync_server" where "srv = \<lparr>ss_peerRateLimits = [[1] \<mapsto> ()], ss_peerStatsLock = False\<rparr>"
  have "\<exists>out. HandleSyncRequest ex_server [] (client_request [1] 1007 51) (NewReqRespServer Map.empty) = Some (Inr (srv, out))"
  proof -
    have "check_request example_cfg 1007 51 = Inr ()" by (simp add: check_request_def TargetBlockNumber_def example_cfg_def)
    then have "\<exists>out. serve_request ex_server [] (client_request [1] 1007 51) = (out, Inr ())"
      using MarshalSSZ_bytes [OF ex_served_payload_ok(1), of "[]"]
      by (simp add: serve_request_def client_request_def write_response_def ex_server_def)
    moreover have "peer_limit ex_server (client_request [1] 1007 51) (NewReqRespServer Map.empty) = (srv, Inr ())"
      by (simp add: peer_limit_def NewReqRespServer_def ex_server_def ex_lru_def client_request_def srv_def)
    ultimately show ?thesis
      by (auto simp: HandleSyncRequest_def handleSyncRequest_def) (simp_all add: NewReqRespServer_def client_request_def)
  qed
  moreover have "\<exists>srv' out. HandleSyncRequest ex_server [] ?q srv = Some (Inr (srv', out)) \<and>
      (\<forall>env' pool' q'. HandleSyncRequest env' pool' q' srv' =
        (case sq_globalWait q' of None \<Rightarrow> None | Some err \<Rightarrow> Some (Inr (srv', fst (sq_Write q' [] [resultCode err])))))"
    by (rule failed_wait_blocks_server) (simp_all add: srv_def client_request_def ex_server_def ex_lru_def)
  ultimately show ?thesis by (force simp: client_request_def)
qed

end
